(* ===== verification/Prelude.thy ===== *)
theory Prelude
  imports Complex_Main "HOL-Library.Multiset" "HOL-Library.Char_ord"
begin

text \<open>
  Shared vocabulary of the development. A JavaScript \<open>number\<close> that the program computes
  with is modelled by the real number it denotes (the rounding of IEEE double arithmetic
  is not modelled), one that it only counts with by \<open>int\<close> or \<open>nat\<close>. Times are
  \<open>Date.now()\<close> milliseconds, integers. Strings are character lists.

  The theory collects: \<open>Math.round\<close>, the roundings to cents and to thousandths built on
  it and the clamp to the unit interval, with the lemmas about them in the collection
  \<open>js_num\<close>; string helpers (\<open>includes\<close>, \<open>startsWith\<close>, lower and upper
  case); and folds over lists with their bounds.
\<close>

named_theorems js_num \<comment> \<open>facts about rounding, clamping and counting\<close>
named_theorems frame_simps \<comment> \<open>which fields an operation leaves alone\<close>

type_synonym ms = int \<comment> \<open>milliseconds since the epoch, as \<open>Date.now()\<close> returns them\<close>

section \<open>Numbers\<close>

text \<open>\<open>Math.round\<close>: the nearest integer, halves towards plus infinity.\<close>

definition js_round :: "real \<Rightarrow> int" where
  "js_round x = \<lfloor>x + 1 / 2\<rfloor>"

definition round_to :: "nat \<Rightarrow> real \<Rightarrow> real" where
  "round_to n x = of_int (js_round (x * 10 ^ n)) / 10 ^ n"

abbreviation round2 :: "real \<Rightarrow> real" where
  "round2 \<equiv> round_to 2"

abbreviation round3 :: "real \<Rightarrow> real" where
  "round3 \<equiv> round_to 3"

text \<open>\<open>Math.min(1, Math.max(0, x))\<close>.\<close>

definition clamp01 :: "real \<Rightarrow> real" where
  "clamp01 x = min 1 (max 0 x)"

lemma clamp01_ge [js_num, simp]: "0 \<le> clamp01 x"
  by (simp add: clamp01_def)

lemma clamp01_le [js_num, simp]: "clamp01 x \<le> 1"
  by (simp add: clamp01_def)

lemma clamp01_id: "0 \<le> x \<Longrightarrow> x \<le> 1 \<Longrightarrow> clamp01 x = x"
  by (simp add: clamp01_def)

lemma clamp01_mono: "x \<le> y \<Longrightarrow> clamp01 x \<le> clamp01 y"
  by (auto simp: clamp01_def)

lemma js_round_int [js_num, simp]: "js_round (of_int k) = k"
proof -
  have "\<lfloor>real_of_int k + 1 / 2\<rfloor> = k" by linarith
  then show ?thesis by (simp add: js_round_def)
qed

lemma js_round_mono [js_num]: "x \<le> y \<Longrightarrow> js_round x \<le> js_round y"
  by (simp add: js_round_def floor_mono)

lemma js_round_error: "\<bar>of_int (js_round x) - x\<bar> \<le> 1 / 2"
proof -
  have "of_int \<lfloor>x + 1 / 2\<rfloor> \<le> x + 1 / 2" by (rule of_int_floor_le)
  moreover have "x + 1 / 2 < of_int \<lfloor>x + 1 / 2\<rfloor> + 1" by linarith
  ultimately show ?thesis unfolding js_round_def by linarith
qed

lemma round_to_mono [js_num]: "x \<le> y \<Longrightarrow> round_to n x \<le> round_to n y"
  by (simp add: round_to_def divide_right_mono js_round_mono mult_right_mono)

lemma round_to_int [js_num, simp]: "round_to n (of_int k) = of_int k"
proof -
  have "js_round (of_int k * 10 ^ n) = k * 10 ^ n"
    using js_round_int [of "k * 10 ^ n"] by simp
  then show ?thesis by (simp add: round_to_def)
qed

lemma round_to_0 [js_num, simp]: "round_to n 0 = 0"
  using round_to_int [of n 0] by simp

lemma round_to_1 [js_num, simp]: "round_to n 1 = 1"
  using round_to_int [of n 1] by simp

lemma round_to_nonneg [js_num]: "0 \<le> x \<Longrightarrow> 0 \<le> round_to n x"
  using round_to_mono [of 0 x n] by simp

lemma round_to_le_int: "x \<le> of_int k \<Longrightarrow> round_to n x \<le> of_int k"
  using round_to_mono [of x "of_int k" n] by simp

lemma round_to_le_1 [js_num]: "x \<le> 1 \<Longrightarrow> round_to n x \<le> 1"
  using round_to_mono [of x 1 n] by simp

lemma round_to_error: "\<bar>round_to n x - x\<bar> \<le> 1 / (2 * 10 ^ n)"
proof -
  let ?p = "10 ^ n :: real"
  have "round_to n x - x = (of_int (js_round (x * ?p)) - x * ?p) / ?p"
    by (simp add: round_to_def field_simps)
  then have "\<bar>round_to n x - x\<bar> = \<bar>of_int (js_round (x * ?p)) - x * ?p\<bar> / ?p"
    by (simp add: abs_divide)
  also have "\<dots> \<le> (1 / 2) / ?p"
    by (rule divide_right_mono [OF js_round_error]) simp
  finally show ?thesis by simp
qed

lemma round_to_idem [js_num, simp]: "round_to n (round_to n x) = round_to n x"
  by (simp add: round_to_def)

lemma convex_le_1:
  fixes a b :: real
  assumes "0 \<le> a" "a \<le> 1" "0 \<le> w" "w \<le> v"
  shows "a * w \<le> v"
  using assms mult_right_mono [of a 1 w] by linarith

section \<open>Lists\<close>

lemma find_SomeD: "find P xs = Some x \<Longrightarrow> P x \<and> x \<in> set xs"
  by (induction xs) (auto split: if_splits)

section \<open>Strings\<close>

text \<open>
  A JavaScript string is modelled by the list of its characters, for the 8-bit range that
  \<^typ>\<open>char\<close> covers; case conversion acts on the ASCII letters.
\<close>

definition is_upper :: "char \<Rightarrow> bool" where
  "is_upper c = (65 \<le> (of_char c :: nat) \<and> (of_char c :: nat) \<le> 90)"

definition is_lower :: "char \<Rightarrow> bool" where
  "is_lower c = (97 \<le> (of_char c :: nat) \<and> (of_char c :: nat) \<le> 122)"

definition is_digit :: "char \<Rightarrow> bool" where
  "is_digit c = (48 \<le> (of_char c :: nat) \<and> (of_char c :: nat) \<le> 57)"

definition char_to_lower :: "char \<Rightarrow> char" where
  "char_to_lower c = (if is_upper c then char_of ((of_char c :: nat) + 32) else c)"

definition char_to_upper :: "char \<Rightarrow> char" where
  "char_to_upper c = (if is_lower c then char_of ((of_char c :: nat) - 32) else c)"

definition to_lower :: "string \<Rightarrow> string" where
  "to_lower s = map char_to_lower s"

definition to_upper :: "string \<Rightarrow> string" where
  "to_upper s = map char_to_upper s"

definition starts_with :: "string \<Rightarrow> string \<Rightarrow> bool" where
  "starts_with s p = (take (length p) s = p)"

definition ends_with :: "string \<Rightarrow> string \<Rightarrow> bool" where
  "ends_with s p = (length p \<le> length s \<and> drop (length s - length p) s = p)"

fun str_includes :: "string \<Rightarrow> string \<Rightarrow> bool" where
  "str_includes [] p = (p = [])"
| "str_includes (c # s) p = (starts_with (c # s) p \<or> str_includes s p)"

text \<open>The regular expression class \<open>\w\<close> and the test \<open>/\bw\b/\<close> for a word \<open>w\<close>.\<close>

definition is_word_char :: "char \<Rightarrow> bool" where
  "is_word_char c = (is_upper c \<or> is_lower c \<or> is_digit c \<or> c = CHR ''_'')"

fun starts_word :: "string \<Rightarrow> bool" where
  "starts_word [] = False"
| "starts_word (c # _) = is_word_char c"

fun word_from :: "bool \<Rightarrow> string \<Rightarrow> string \<Rightarrow> bool" where
  "word_from prev [] w = (w = [] \<and> prev)"
| "word_from prev (c # s) w =
     ((\<not> prev \<and> starts_with (c # s) w \<and> \<not> starts_word (drop (length w) (c # s)))
      \<or> word_from (is_word_char c) s w)"

definition has_word :: "string \<Rightarrow> string \<Rightarrow> bool" where
  "has_word s w = word_from False s w"

lemma length_to_lower [simp]: "length (to_lower s) = length s"
  by (simp add: to_lower_def)

lemma char_to_lower_not_upper: "\<not> is_upper (char_to_lower c)"
proof (cases "is_upper c")
  case True
  then have "(of_char c :: nat) + 32 < 256" "97 \<le> (of_char c :: nat) + 32"
    by (simp_all add: is_upper_def)
  then show ?thesis
    using True by (simp add: char_to_lower_def) (simp add: is_upper_def)
next
  case False
  then show ?thesis by (simp add: char_to_lower_def)
qed

lemma to_lower_idem [simp]: "to_lower (to_lower s) = to_lower s"
proof -
  have "char_to_lower (char_to_lower c) = char_to_lower c" for c
    using char_to_lower_not_upper [of c] by (simp add: char_to_lower_def [of "char_to_lower c"])
  then show ?thesis by (simp add: to_lower_def)
qed

lemma starts_with_iff: "starts_with s p \<longleftrightarrow> (\<exists>r. s = p @ r)"
  by (auto simp: starts_with_def) (metis append_take_drop_id)

lemma includes_iff: "str_includes s p \<longleftrightarrow> (\<exists>a b. s = a @ p @ b)"
proof (induction s)
  case Nil
  then show ?case by auto
next
  case (Cons c s)
  show ?case
  proof
    assume "str_includes (c # s) p"
    then consider r where "c # s = p @ r" | a b where "s = a @ p @ b"
      using Cons.IH by (auto simp: starts_with_iff)
    then show "\<exists>a b. c # s = a @ p @ b"
      by cases (metis append_Nil, metis append_Cons)
  next
    assume "\<exists>a b. c # s = a @ p @ b"
    then obtain a b where ab: "c # s = a @ p @ b" by blast
    show "str_includes (c # s) p"
    proof (cases a)
      case Nil
      with ab have "starts_with (c # s) p" by (auto simp: starts_with_iff)
      then show ?thesis by simp
    next
      case (Cons d a')
      with ab have "s = a' @ p @ b" by simp
      then show ?thesis using Cons.IH by auto
    qed
  qed
qed

end
