(* ===== verification/Locks.thy ===== *)
theory Locks
  imports Prelude
begin

text \<open>
  The distributed locks (\<open>types/lock.ts\<close>) that are rows of the table \<open>pipeline_locks\<close>: the
  Postgres executor (\<open>db/provider/postgres-adapter.ts\<close>), the pooled SQLite provider
  (\<open>db/database-pool.ts\<close>) and the SQLite provider with its additional lock files
  (\<open>db/provider/sqlite-adapter.ts\<close>).

  A lease is a row: the worker that holds the lock, the fencing token, when it lapses.
  The SQL statements are functions on the table; an operation is their sequence, and a
  \<open>fault\<close> names the statement that throws, so that every \<open>catch\<close> is a branch. Postgres keeps
  instants exactly (here in milliseconds), SQLite's \<open>datetime\<close> text in whole seconds. The columns
  \<open>locked_at\<close>, \<open>renewed_count\<close> and \<open>last_renewed_at\<close> are written and never read by the locks,
  and left out. \<open>randomUUID()\<close> is an argument of the operations that draw one.

  The locale \<open>lease_safety\<close> states what a lock promises to a holder whatever the others do, and
  \<open>lease_lock\<close> what it promises to a caller who may have it; the tables are interpretations.
\<close>

section \<open>The contract of a lock\<close>

datatype ('f, 'p) lock_op =
    Acquire 'f ms ms string 'p string
  | Renew 'f ms ms string 'p string
  | Release 'f ms string 'p string

primrec op_lock :: "('f, 'p) lock_op \<Rightarrow> string" where
  "op_lock (Acquire f now ttl l p k) = l"
| "op_lock (Renew f now ttl l p k) = l"
| "op_lock (Release f now l p k) = l"

primrec op_time :: "('f, 'p) lock_op \<Rightarrow> ms" where
  "op_time (Acquire f now ttl l p k) = now"
| "op_time (Renew f now ttl l p k) = now"
| "op_time (Release f now l p k) = now"

primrec op_proc :: "('f, 'p) lock_op \<Rightarrow> 'p" where
  "op_proc (Acquire f now ttl l p k) = p"
| "op_proc (Renew f now ttl l p k) = p"
| "op_proc (Release f now l p k) = p"

primrec op_token :: "('f, 'p) lock_op \<Rightarrow> string" where
  "op_token (Acquire f now ttl l p k) = k"
| "op_token (Renew f now ttl l p k) = k"
| "op_token (Release f now l p k) = k"

text \<open>What one call reports (granted, renewed; a release reports nothing) and the state after
  it, and a sequence of calls with their reports.\<close>

fun lock_step ::
  "('f \<Rightarrow> ms \<Rightarrow> ms \<Rightarrow> string \<Rightarrow> 'p \<Rightarrow> string \<Rightarrow> 's \<Rightarrow> (bool \<times> string option) \<times> 's) \<Rightarrow>
   ('f \<Rightarrow> ms \<Rightarrow> ms \<Rightarrow> string \<Rightarrow> 'p \<Rightarrow> string \<Rightarrow> 's \<Rightarrow> bool \<times> 's) \<Rightarrow>
   ('f \<Rightarrow> ms \<Rightarrow> string \<Rightarrow> 'p \<Rightarrow> string \<Rightarrow> 's \<Rightarrow> 's) \<Rightarrow> ('f, 'p) lock_op \<Rightarrow> 's \<Rightarrow> bool \<times> 's" where
  "lock_step acq ren rel (Acquire f now ttl l p k) s =
     (fst (fst (acq f now ttl l p k s)), snd (acq f now ttl l p k s))"
| "lock_step acq ren rel (Renew f now ttl l p k) s = ren f now ttl l p k s"
| "lock_step acq ren rel (Release f now l p k) s = (False, rel f now l p k s)"

fun lock_run ::
  "('f \<Rightarrow> ms \<Rightarrow> ms \<Rightarrow> string \<Rightarrow> 'p \<Rightarrow> string \<Rightarrow> 's \<Rightarrow> (bool \<times> string option) \<times> 's) \<Rightarrow>
   ('f \<Rightarrow> ms \<Rightarrow> ms \<Rightarrow> string \<Rightarrow> 'p \<Rightarrow> string \<Rightarrow> 's \<Rightarrow> bool \<times> 's) \<Rightarrow>
   ('f \<Rightarrow> ms \<Rightarrow> string \<Rightarrow> 'p \<Rightarrow> string \<Rightarrow> 's \<Rightarrow> 's) \<Rightarrow> ('f, 'p) lock_op list \<Rightarrow> 's \<Rightarrow> bool list \<times> 's"
where
  "lock_run acq ren rel [] s = ([], s)"
| "lock_run acq ren rel (x # xs) s =
     (let (b, s1) = lock_step acq ren rel x s; (bs, s2) = lock_run acq ren rel xs s1
      in (b # bs, s2))"

text \<open>The reports of the calls on one lock in a sequence.\<close>

definition reports_on :: "string \<Rightarrow> ('f, 'p) lock_op list \<Rightarrow> bool list \<Rightarrow> bool list" where
  "reports_on l xs bs = map snd (filter (\<lambda>(x, b). op_lock x = l) (zip xs bs))"

lemma reports_on_simps [simp]:
  "reports_on l [] bs = []"
  "reports_on l (x # xs) (b # bs) =
     (if op_lock x = l then b # reports_on l xs bs else reports_on l xs bs)"
  by (simp_all add: reports_on_def)

locale lease_safety =
  fixes lease :: "'s \<Rightarrow> string \<Rightarrow> ('v \<times> ms) option"
    and mine :: "string \<Rightarrow> 'p \<Rightarrow> 'v \<Rightarrow> bool"
    and sane :: "'p \<Rightarrow> string \<Rightarrow> bool"
    and acquire :: "'f \<Rightarrow> ms \<Rightarrow> ms \<Rightarrow> string \<Rightarrow> 'p \<Rightarrow> string \<Rightarrow> 's \<Rightarrow> (bool \<times> string option) \<times> 's"
    and renew :: "'f \<Rightarrow> ms \<Rightarrow> ms \<Rightarrow> string \<Rightarrow> 'p \<Rightarrow> string \<Rightarrow> 's \<Rightarrow> bool \<times> 's"
    and release :: "'f \<Rightarrow> ms \<Rightarrow> string \<Rightarrow> 'p \<Rightarrow> string \<Rightarrow> 's \<Rightarrow> 's"
  assumes acquire_foreign:
      "lease s l = Some (v, d) \<Longrightarrow> now \<le> d \<Longrightarrow> sane p k \<Longrightarrow> \<not> mine l p v \<Longrightarrow>
       \<not> fst (fst (acquire f now ttl l p k s)) \<and> lease (snd (acquire f now ttl l p k s)) l = Some (v, d)"
    and acquire_frame: "l' \<noteq> l \<Longrightarrow> lease (snd (acquire f now ttl l p k s)) l' = lease s l'"
    and renew_foreign:
      "lease s l = Some (v, d) \<Longrightarrow> sane p k \<Longrightarrow> \<not> mine l p v \<Longrightarrow>
       \<not> fst (renew f now ttl l p k s) \<and> lease (snd (renew f now ttl l p k s)) l = Some (v, d)"
    and renew_frame: "l' \<noteq> l \<Longrightarrow> lease (snd (renew f now ttl l p k s)) l' = lease s l'"
    and release_foreign:
      "lease s l = Some (v, d) \<Longrightarrow> sane p k \<Longrightarrow> \<not> mine l p v \<Longrightarrow>
       lease (release f now l p k s) l = Some (v, d)"
    and release_frame: "l' \<noteq> l \<Longrightarrow> lease (release f now l p k s) l' = lease s l'"
begin

abbreviation "step \<equiv> lock_step acquire renew release"
abbreviation "run \<equiv> lock_run acquire renew release"

lemma step_frame: "op_lock x \<noteq> l \<Longrightarrow> lease (snd (step x s)) l = lease s l"
  by (cases x) (auto simp: acquire_frame renew_frame release_frame)

lemma step_foreign:
  "lease s (op_lock x) = Some (v, d) \<Longrightarrow> op_time x \<le> d \<Longrightarrow> sane (op_proc x) (op_token x) \<Longrightarrow>
   \<not> mine (op_lock x) (op_proc x) v \<Longrightarrow>
   \<not> fst (step x s) \<and> lease (snd (step x s)) (op_lock x) = Some (v, d)"
  by (cases x) (simp_all add: acquire_foreign renew_foreign release_foreign)

text \<open>While the lease runs, nothing the others call is granted, and they cannot end it.\<close>

lemma lease_kept:
  assumes "lease s l = Some (v, d)"
    and "\<forall>x\<in>set xs. op_lock x = l \<longrightarrow>
           op_time x \<le> d \<and> sane (op_proc x) (op_token x) \<and> \<not> mine l (op_proc x) v"
  shows "lease (snd (run xs s)) l = Some (v, d) \<and> True \<notin> set (reports_on l xs (fst (run xs s)))"
  using assms
proof (induction xs arbitrary: s)
  case Nil then show ?case by simp
next
  case (Cons x xs)
  obtain b s1 where st: "step x s = (b, s1)" by (cases "step x s")
  have l1: "lease s1 l = Some (v, d) \<and> (op_lock x = l \<longrightarrow> \<not> b)"
    using Cons.prems step_frame [of x l s] step_foreign [of s x v d] st by (cases "op_lock x = l") auto
  then have "lease (snd (run xs s1)) l = Some (v, d) \<and>
      True \<notin> set (reports_on l xs (fst (run xs s1)))"
    using Cons.IH [of s1] Cons.prems(2) by simp
  then show ?case using l1 st by (simp add: split_beta)
qed

end

text \<open>What the holder of a running lease may count on: a call of its own keeps the lease running
  up to a new deadline. \<open>holds_through\<close> says that a sequence of calls consists of such renewals,
  each before the deadline of the previous one, of calls of others before the deadline, and of
  calls on other locks.\<close>

fun holds_through ::
  "('p \<Rightarrow> string \<Rightarrow> bool) \<Rightarrow> (string \<Rightarrow> 'p \<Rightarrow> bool) \<Rightarrow> 'f \<Rightarrow> string \<Rightarrow> 'p \<Rightarrow> string \<Rightarrow> ms \<Rightarrow>
   ('f, 'p) lock_op list \<Rightarrow> bool" where
  "holds_through sane same f l p k dl [] \<longleftrightarrow> True"
| "holds_through sane same f l p k dl (x # xs) \<longleftrightarrow>
     (if op_lock x \<noteq> l then holds_through sane same f l p k dl xs
      else op_time x \<le> dl \<and>
        (if \<exists>now ttl. x = Renew f now ttl l p k
         then holds_through sane same f l p k
                (case x of Renew _ now ttl _ _ _ \<Rightarrow> now + ttl | _ \<Rightarrow> dl) xs
         else sane (op_proc x) (op_token x) \<and> \<not> same l (op_proc x) \<and>
              holds_through sane same f l p k dl xs))"

locale lease_lock = lease_safety lease mine sane acquire renew release
  for lease :: "'s \<Rightarrow> string \<Rightarrow> ('v \<times> ms) option"
    and mine :: "string \<Rightarrow> 'p \<Rightarrow> 'v \<Rightarrow> bool"
    and sane :: "'p \<Rightarrow> string \<Rightarrow> bool"
    and acquire :: "'f \<Rightarrow> ms \<Rightarrow> ms \<Rightarrow> string \<Rightarrow> 'p \<Rightarrow> string \<Rightarrow> 's \<Rightarrow> (bool \<times> string option) \<times> 's"
    and renew :: "'f \<Rightarrow> ms \<Rightarrow> ms \<Rightarrow> string \<Rightarrow> 'p \<Rightarrow> string \<Rightarrow> 's \<Rightarrow> bool \<times> 's"
    and release :: "'f \<Rightarrow> ms \<Rightarrow> string \<Rightarrow> 'p \<Rightarrow> string \<Rightarrow> 's \<Rightarrow> 's" +
  fixes stamp :: "string \<Rightarrow> 'p \<Rightarrow> string \<Rightarrow> 'v"
    and up :: 'f
  assumes stamp_mine: "mine l p (stamp l p k)"
    and acquire_free:
      "(\<And>v d. lease s l = Some (v, d) \<Longrightarrow> d < now) \<Longrightarrow> sane p k \<Longrightarrow>
       \<exists>d. fst (acquire up now ttl l p k s) = (True, Some k) \<and> now + ttl \<le> d \<and>
           lease (snd (acquire up now ttl l p k s)) l = Some (stamp l p k, d)"
    and renew_own:
      "lease s l = Some (stamp l p k, d) \<Longrightarrow> now \<le> d \<Longrightarrow> sane p k \<Longrightarrow>
       \<exists>d'. fst (renew up now ttl l p k s) \<and> now + ttl \<le> d' \<and>
            lease (snd (renew up now ttl l p k s)) l = Some (stamp l p k, d')"
    and release_own:
      "lease s l = Some (stamp l p k, d) \<Longrightarrow> sane p k \<Longrightarrow> lease (release up now l p k s) l = None"
begin

text \<open>A holder that renews in time keeps the lock, every renewal succeeds, and nobody else
  gets a grant in between.\<close>

lemma held_through:
  assumes "lease s l = Some (stamp l p k, d)" "dl \<le> d" "sane p k"
    and "holds_through sane (\<lambda>l q. mine l q (stamp l p k)) up l p k dl xs"
  shows "(\<exists>d'. lease (snd (run xs s)) l = Some (stamp l p k, d')) \<and>
         reports_on l xs (fst (run xs s)) =
           map (\<lambda>x. \<exists>now ttl. x = Renew up now ttl l p k) (filter (\<lambda>x. op_lock x = l) xs)"
  using assms
proof (induction xs arbitrary: s d dl)
  case Nil then show ?case by simp
next
  case (Cons x xs)
  obtain b s1 where st: "step x s = (b, s1)" by (cases "step x s")
  note IH = Cons.IH [of s1 _ _, OF _ _ Cons.prems(3)]
  consider (other) "op_lock x \<noteq> l"
    | (own) now ttl where "x = Renew up now ttl l p k"
    | (foreign) "op_lock x = l" "\<not> (\<exists>now ttl. x = Renew up now ttl l p k)"
    by blast
  then show ?case
  proof cases
    case other
    have "lease s1 l = Some (stamp l p k, d)"
      using Cons.prems(1) step_frame [OF other, of s] st by simp
    from IH [OF this Cons.prems(2)] Cons.prems(4) other show ?thesis
      by (simp add: st split_beta)
  next
    case own
    then have "now \<le> d" and rest: "holds_through sane (\<lambda>l q. mine l q (stamp l p k)) up l p k (now + ttl) xs"
      using Cons.prems(2,4) by auto
    from renew_own [OF Cons.prems(1) this(1) Cons.prems(3), of ttl] own st
    obtain d' where "b" "now + ttl \<le> d'" "lease s1 l = Some (stamp l p k, d')" by auto
    moreover have "renew up now ttl l p k s = (b, s1)" using st own by simp
    ultimately show ?thesis using IH [of d' "now + ttl"] rest own by (simp add: split_beta)
  next
    case foreign
    then have c: "op_time x \<le> dl" "sane (op_proc x) (op_token x)" "\<not> mine l (op_proc x) (stamp l p k)"
      and rest: "holds_through sane (\<lambda>l q. mine l q (stamp l p k)) up l p k dl xs"
      using Cons.prems(4) by auto
    have "\<not> b \<and> lease s1 l = Some (stamp l p k, d)"
      using step_foreign [of s x "stamp l p k" d] Cons.prems(1,2) c foreign(1) st by simp
    with IH [OF _ Cons.prems(2) rest] foreign show ?thesis by (simp add: st split_beta)
  qed
qed

text \<open>Handover: what one holder releases, the next caller gets.\<close>

lemma handover:
  assumes "lease s l = Some (stamp l p k, d)" "sane p k" "sane q k'"
  shows "fst (acquire up now ttl l q k' (release up t l p k s)) = (True, Some k')"
proof -
  have "lease (release up t l p k s) l = None" using release_own [OF assms(1,2)] .
  then show ?thesis using acquire_free [of "release up t l p k s" l now q k' ttl] assms(3) by auto
qed

end

section \<open>The table \<open>pipeline_locks\<close>\<close>

text \<open>A row, keyed by \<open>lock_name\<close>: \<open>expires_at\<close> in the units of the dialect. The statements
  the providers issue.\<close>

record lock_row =
  expires_at :: int
  worker_id :: string
  fence_token :: "string option"

type_synonym lock_table = "string \<rightharpoonup> lock_row"

type_synonym sql_fault = "nat option" \<comment> \<open>which statement of the operation throws, if one does\<close>

definition delete_expired :: "int \<Rightarrow> string \<Rightarrow> lock_table \<Rightarrow> lock_table" where
  "delete_expired now l t =
     (case t l of Some r \<Rightarrow> if expires_at r < now then t(l := None) else t | None \<Rightarrow> t)"

definition insert_or_ignore :: "string \<Rightarrow> lock_row \<Rightarrow> lock_table \<Rightarrow> bool \<times> lock_table" where
  "insert_or_ignore l r t = (case t l of None \<Rightarrow> (True, t(l \<mapsto> r)) | Some _ \<Rightarrow> (False, t))"

definition select_fence :: "int \<Rightarrow> string \<Rightarrow> string \<Rightarrow> lock_table \<Rightarrow> string option" where
  "select_fence now l w t =
     (case t l of
        Some r \<Rightarrow> if worker_id r = w \<and> now \<le> expires_at r
                  then (case fence_token r of Some k \<Rightarrow> if k = '''' then None else Some k | None \<Rightarrow> None)
                  else None
      | None \<Rightarrow> None)"

definition update_expiry ::
  "int \<Rightarrow> int \<Rightarrow> string \<Rightarrow> (lock_row \<Rightarrow> bool) \<Rightarrow> lock_table \<Rightarrow> bool \<times> lock_table" where
  "update_expiry now e l P t =
     (case t l of
        Some r \<Rightarrow> if now \<le> expires_at r \<and> P r then (True, t(l \<mapsto> r\<lparr>expires_at := e\<rparr>)) else (False, t)
      | None \<Rightarrow> (False, t))"

definition delete_lock :: "string \<Rightarrow> (lock_row \<Rightarrow> bool) \<Rightarrow> lock_table \<Rightarrow> lock_table" where
  "delete_lock l P t = (case t l of Some r \<Rightarrow> if P r then t(l := None) else t | None \<Rightarrow> t)"

lemmas lock_sql_defs =
  delete_expired_def insert_or_ignore_def select_fence_def update_expiry_def delete_lock_def

text \<open>The lease a table row stands for, with \<open>u\<close> milliseconds to a unit of \<open>expires_at\<close>: the row is
  live up to and including the deadline.\<close>

definition row_lease :: "int \<Rightarrow> lock_table \<Rightarrow> string \<Rightarrow> ((string \<times> string option) \<times> ms) option" where
  "row_lease u t l =
     map_option (\<lambda>r. ((worker_id r, fence_token r), expires_at r * u + (u - 1))) (t l)"

lemma row_lease_eq:
  "row_lease u t l = Some ((w, k), d) \<longleftrightarrow>
   (\<exists>r. t l = Some r \<and> worker_id r = w \<and> fence_token r = k \<and> d = expires_at r * u + (u - 1))"
  by (auto simp: row_lease_def)

section \<open>Postgres\<close>

text \<open>The worker identity is the process id alone, without the host.\<close>

definition pg_workerId :: "string \<Rightarrow> string \<Rightarrow> string" where
  "pg_workerId l pid = l @ '':worker:'' @ pid"

definition pg_tryLock ::
  "sql_fault \<Rightarrow> ms \<Rightarrow> ms \<Rightarrow> string \<Rightarrow> string \<Rightarrow> lock_table \<Rightarrow> bool \<times> lock_table" where
  "pg_tryLock f now ttl l pid t =
     (if f = Some 0 then (False, t)
      else let t1 = delete_expired now l t in
      if f = Some 1 then (False, t1)
      else insert_or_ignore l
             \<lparr>expires_at = now + ttl, worker_id = pg_workerId l pid, fence_token = None\<rparr> t1)"

definition pg_renewLock ::
  "sql_fault \<Rightarrow> ms \<Rightarrow> ms \<Rightarrow> string \<Rightarrow> string \<Rightarrow> lock_table \<Rightarrow> bool \<times> lock_table" where
  "pg_renewLock f now ttl l pid t =
     (if f = Some 0 then (False, t)
      else update_expiry now (now + ttl) l (\<lambda>r. worker_id r = pg_workerId l pid) t)"

definition pg_unlock :: "sql_fault \<Rightarrow> string \<Rightarrow> string \<Rightarrow> lock_table \<Rightarrow> lock_table" where
  "pg_unlock f l pid t =
     (if f = Some 0 then t else delete_lock l (\<lambda>r. worker_id r = pg_workerId l pid) t)"

definition pg_tryLockWithFence ::
  "sql_fault \<Rightarrow> ms \<Rightarrow> ms \<Rightarrow> string \<Rightarrow> string \<Rightarrow> string \<Rightarrow> lock_table \<Rightarrow>
   (bool \<times> string option) \<times> lock_table" where
  "pg_tryLockWithFence f now ttl l pid fence t =
     (if f = Some 0 then ((False, None), t)
      else let t1 = delete_expired now l t in
      if f = Some 1 then ((False, None), t1)
      else let (inserted, t2) = insert_or_ignore l
             \<lparr>expires_at = now + ttl, worker_id = pg_workerId l pid, fence_token = Some fence\<rparr> t1 in
      if inserted then ((True, Some fence), t2)
      else if f = Some 2 then ((False, None), t2)
      else case select_fence now l (pg_workerId l pid) t2 of
             Some k \<Rightarrow> ((True, Some k), t2)
           | None \<Rightarrow> ((False, None), t2))"

definition pg_renewLockWithFence ::
  "sql_fault \<Rightarrow> ms \<Rightarrow> ms \<Rightarrow> string \<Rightarrow> string \<Rightarrow> string \<Rightarrow> lock_table \<Rightarrow> bool \<times> lock_table" where
  "pg_renewLockWithFence f now ttl l pid fence t =
     (if f = Some 0 then (False, t)
      else update_expiry now (now + ttl) l
             (\<lambda>r. worker_id r = pg_workerId l pid \<and> fence_token r = Some fence) t)"

definition pg_unlockWithFence ::
  "sql_fault \<Rightarrow> string \<Rightarrow> string \<Rightarrow> string \<Rightarrow> lock_table \<Rightarrow> lock_table" where
  "pg_unlockWithFence f l pid fence t =
     (if f = Some 0 then t
      else delete_lock l (\<lambda>r. worker_id r = pg_workerId l pid \<and> fence_token r = Some fence) t)"

lemma pg_workerId_inject [simp]: "pg_workerId l p = pg_workerId l q \<longleftrightarrow> p = q"
  by (simp add: pg_workerId_def)

definition pg_mine :: "string \<Rightarrow> string \<Rightarrow> string \<times> string option \<Rightarrow> bool" where
  "pg_mine l pid v \<longleftrightarrow> fst v = pg_workerId l pid"

interpretation pg: lease_lock
    "row_lease 1" pg_mine "\<lambda>pid k. True" pg_tryLockWithFence pg_renewLockWithFence
    "\<lambda>f now. pg_unlockWithFence f" "\<lambda>l pid k. (pg_workerId l pid, Some k)" None
  by unfold_locales
    (auto simp: row_lease_def pg_mine_def pg_tryLockWithFence_def pg_renewLockWithFence_def
      pg_unlockWithFence_def lock_sql_defs Let_def split: option.splits if_splits)

text \<open>The calls without a token keep the same promises to the holder.\<close>

abbreviation pg_tryLock_op ::
  "sql_fault \<Rightarrow> ms \<Rightarrow> ms \<Rightarrow> string \<Rightarrow> string \<Rightarrow> string \<Rightarrow> lock_table \<Rightarrow>
   (bool \<times> string option) \<times> lock_table" where
  "pg_tryLock_op f now ttl l pid k t \<equiv> apfst (\<lambda>b. (b, None)) (pg_tryLock f now ttl l pid t)"

interpretation pg_plain: lease_safety
    "row_lease 1" pg_mine "\<lambda>pid k. True" pg_tryLock_op
    "\<lambda>f now ttl l pid k. pg_renewLock f now ttl l pid" "\<lambda>f now l pid k. pg_unlock f l pid"
  by unfold_locales
    (auto simp: row_lease_def pg_mine_def pg_tryLock_def pg_renewLock_def pg_unlock_def
      lock_sql_defs Let_def apfst_def map_prod_def split_beta split: option.splits if_splits)

section \<open>The pooled SQLite provider\<close>

text \<open>\<open>datetime\<close> text: whole seconds. The worker is \<open>pooled:\<close> and the process id.\<close>

definition datetime :: "ms \<Rightarrow> int" where
  "datetime t = t div 1000"

definition pool_workerId :: "string \<Rightarrow> string" where
  "pool_workerId pid = ''pooled:'' @ pid"

definition pool_tryLock ::
  "sql_fault \<Rightarrow> ms \<Rightarrow> ms \<Rightarrow> string \<Rightarrow> string \<Rightarrow> lock_table \<Rightarrow> bool \<times> lock_table" where
  "pool_tryLock f now ttl l pid t =
     (if f = Some 0 then (False, t)
      else let t1 = delete_expired (datetime now) l t in
      if f = Some 1 then (False, t1)
      else insert_or_ignore l
             \<lparr>expires_at = datetime (now + ttl), worker_id = pool_workerId pid, fence_token = None\<rparr> t1)"

definition pool_renewLock ::
  "sql_fault \<Rightarrow> ms \<Rightarrow> ms \<Rightarrow> string \<Rightarrow> string \<Rightarrow> lock_table \<Rightarrow> bool \<times> lock_table" where
  "pool_renewLock f now ttl l pid t =
     (if f = Some 0 then (False, t)
      else update_expiry (datetime now) (datetime (now + ttl)) l (\<lambda>r. worker_id r = pool_workerId pid) t)"

definition pool_unlock :: "sql_fault \<Rightarrow> string \<Rightarrow> string \<Rightarrow> lock_table \<Rightarrow> lock_table" where
  "pool_unlock f l pid t =
     (if f = Some 0 then t else delete_lock l (\<lambda>r. worker_id r = pool_workerId pid) t)"

definition pool_tryLockWithFence ::
  "sql_fault \<Rightarrow> ms \<Rightarrow> ms \<Rightarrow> string \<Rightarrow> string \<Rightarrow> string \<Rightarrow> lock_table \<Rightarrow>
   (bool \<times> string option) \<times> lock_table" where
  "pool_tryLockWithFence f now ttl l pid fence t =
     (if f = Some 0 then ((False, None), t)
      else let t1 = delete_expired (datetime now) l t in
      if f = Some 1 then ((False, None), t1)
      else let (inserted, t2) = insert_or_ignore l
             \<lparr>expires_at = datetime (now + ttl), worker_id = pool_workerId pid, fence_token = Some fence\<rparr> t1 in
      if inserted then ((True, Some fence), t2)
      else if f = Some 2 then ((False, None), t2)
      else case select_fence (datetime now) l (pool_workerId pid) t2 of
             Some k \<Rightarrow> ((True, Some k), t2)
           | None \<Rightarrow> ((False, None), t2))"

definition pool_renewLockWithFence ::
  "sql_fault \<Rightarrow> ms \<Rightarrow> ms \<Rightarrow> string \<Rightarrow> string \<Rightarrow> string \<Rightarrow> lock_table \<Rightarrow> bool \<times> lock_table" where
  "pool_renewLockWithFence f now ttl l pid fence t =
     (if f = Some 0 then (False, t)
      else update_expiry (datetime now) (datetime (now + ttl)) l
             (\<lambda>r. worker_id r = pool_workerId pid \<and> fence_token r = Some fence) t)"

definition pool_unlockWithFence ::
  "sql_fault \<Rightarrow> string \<Rightarrow> string \<Rightarrow> string \<Rightarrow> lock_table \<Rightarrow> lock_table" where
  "pool_unlockWithFence f l pid fence t =
     (if f = Some 0 then t
      else delete_lock l (\<lambda>r. worker_id r = pool_workerId pid \<and> fence_token r = Some fence) t)"

definition pool_mine :: "string \<Rightarrow> string \<Rightarrow> string \<times> string option \<Rightarrow> bool" where
  "pool_mine l pid v \<longleftrightarrow> fst v = pool_workerId pid"

lemma datetime_bounds: "datetime t * 1000 \<le> t" "t \<le> datetime t * 1000 + 999"
  using div_mult_mod_eq [of t 1000] pos_mod_bound [of 1000 t] pos_mod_sign [of 1000 t]
  unfolding datetime_def by linarith+

lemma datetime_live: "datetime now \<le> e \<longleftrightarrow> now \<le> e * 1000 + 999"
  using datetime_bounds [of now] by linarith

lemma datetime_dead: "e < datetime now \<longleftrightarrow> e * 1000 + 999 < now"
  using datetime_bounds [of now] by linarith

lemmas pool_defs = row_lease_def pool_mine_def pool_tryLock_def pool_renewLock_def pool_unlock_def
  pool_tryLockWithFence_def pool_renewLockWithFence_def pool_unlockWithFence_def lock_sql_defs
  datetime_live datetime_dead datetime_bounds

interpretation pool: lease_lock
    "row_lease 1000" pool_mine "\<lambda>pid k. True" pool_tryLockWithFence pool_renewLockWithFence
    "\<lambda>f now. pool_unlockWithFence f" "\<lambda>l pid k. (pool_workerId pid, Some k)" None
  by unfold_locales (auto simp: pool_defs Let_def split: option.splits if_splits)

section \<open>The SQLite provider with its lock files\<close>

text \<open>A \<open>FileLock\<close> object: the database whose neighbouring directory holds the lock files, the
  sanitised lock name, whether it is enabled (databases on disk) and whether this object holds an
  open descriptor. A lock file is identified by the directory's database and the name.\<close>

record file_lock =
  fl_db :: string
  fl_name :: string
  fl_enabled :: bool
  fl_fd :: bool

record sqlite_locks =
  lock_files :: "(string \<times> string) set"
  lock_rows :: lock_table

definition lock_file_char :: "char \<Rightarrow> bool" where
  "lock_file_char c \<longleftrightarrow>
     (CHR ''a'' \<le> c \<and> c \<le> CHR ''z'') \<or> (CHR ''A'' \<le> c \<and> c \<le> CHR ''Z'') \<or>
     (CHR ''0'' \<le> c \<and> c \<le> CHR ''9'') \<or> c = CHR ''_'' \<or> c = CHR ''-''"

definition fileLock_new :: "string \<Rightarrow> string \<Rightarrow> file_lock" where
  "fileLock_new db l =
     \<lparr>fl_db = db, fl_name = map (\<lambda>c. if lock_file_char c then c else CHR ''_'') l,
      fl_enabled = (db \<noteq> '''' \<and> db \<noteq> '':memory:''), fl_fd = False\<rparr>"

abbreviation lockPath :: "file_lock \<Rightarrow> string \<times> string" where
  "lockPath fl \<equiv> (fl_db fl, fl_name fl)"

text \<open>\<open>io\<close> is whether creating the directory and the file works at all; \<open>O_EXCL\<close> fails on a file
  that exists.\<close>

definition fileLock_tryAcquire ::
  "bool \<Rightarrow> file_lock \<Rightarrow> (string \<times> string) set \<Rightarrow> bool \<times> file_lock \<times> (string \<times> string) set" where
  "fileLock_tryAcquire io fl files =
     (if \<not> fl_enabled fl then (True, fl, files)
      else if \<not> io \<or> lockPath fl \<in> files then (False, fl, files)
      else (True, fl\<lparr>fl_fd := True\<rparr>, insert (lockPath fl) files))"

definition fileLock_release ::
  "file_lock \<Rightarrow> (string \<times> string) set \<Rightarrow> file_lock \<times> (string \<times> string) set" where
  "fileLock_release fl files =
     (if \<not> fl_enabled fl then (fl, files)
      else if fl_fd fl then (fl\<lparr>fl_fd := False\<rparr>, files - {lockPath fl})
      else (fl, files))"

text \<open>A process: host name and process id.\<close>

definition sqlite_workerId :: "string \<Rightarrow> string \<times> string \<Rightarrow> string" where
  "sqlite_workerId l p = l @ '':worker:'' @ fst p @ '':'' @ snd p"

definition acquireBothLocks ::
  "sql_fault \<times> bool \<Rightarrow> string \<Rightarrow> ms \<Rightarrow> ms \<Rightarrow> string \<Rightarrow> string \<Rightarrow> string option \<Rightarrow> string \<Rightarrow> sqlite_locks \<Rightarrow>
   (bool \<times> string option \<times> file_lock) \<times> sqlite_locks" where
  "acquireBothLocks fio db now ttl l w fence uuid s =
     (let f = fst fio;
          (got, fl, files) = fileLock_tryAcquire (snd fio) (fileLock_new db l) (lock_files s);
          s1 = s\<lparr>lock_files := files\<rparr>;
          (fl', files') = fileLock_release fl files;
          refuse = \<lambda>t. ((False, None, fl'), s1\<lparr>lock_files := files', lock_rows := t\<rparr>)
      in
      if \<not> got then ((False, None, fl), s1)
      else if f = Some 0 then refuse (lock_rows s)
      else let t1 = delete_expired (datetime now) l (lock_rows s) in
      if f = Some 1 then refuse t1
      else let k = (if fence = Some '''' then None else fence);
               (inserted, t2) = insert_or_ignore l
                 \<lparr>expires_at = datetime (now + ttl), worker_id = w, fence_token = k\<rparr> t1 in
      if inserted then ((True, Some (case fence of Some x \<Rightarrow> x | None \<Rightarrow> uuid), fl), s1\<lparr>lock_rows := t2\<rparr>)
      else if f = Some 2 then refuse t2
      else case select_fence (datetime now) l w t2 of
             Some x \<Rightarrow> ((True, Some x, fl), s1\<lparr>lock_rows := t2\<rparr>)
           | None \<Rightarrow> refuse t2)"

definition sqlite_tryLock ::
  "sql_fault \<times> bool \<Rightarrow> string \<Rightarrow> ms \<Rightarrow> ms \<Rightarrow> string \<Rightarrow> string \<times> string \<Rightarrow> string \<Rightarrow> sqlite_locks \<Rightarrow>
   bool \<times> sqlite_locks" where
  "sqlite_tryLock fio db now ttl l p uuid s =
     apfst fst (acquireBothLocks fio db now ttl l (sqlite_workerId l p) None uuid s)"

definition sqlite_renewLock ::
  "sql_fault \<Rightarrow> ms \<Rightarrow> ms \<Rightarrow> string \<Rightarrow> string \<times> string \<Rightarrow> sqlite_locks \<Rightarrow> bool \<times> sqlite_locks" where
  "sqlite_renewLock f now ttl l p s =
     (if f = Some 0 then (False, s)
      else apsnd (\<lambda>t. s\<lparr>lock_rows := t\<rparr>)
             (update_expiry (datetime now) (datetime (now + ttl)) l
                (\<lambda>r. worker_id r = sqlite_workerId l p) (lock_rows s)))"

text \<open>The \<open>finally\<close> of both unlocks releases a \<open>FileLock\<close> that it has just made.\<close>

definition release_new_file_lock :: "string \<Rightarrow> string \<Rightarrow> sqlite_locks \<Rightarrow> sqlite_locks" where
  "release_new_file_lock db l s =
     s\<lparr>lock_files := snd (fileLock_release (fileLock_new db l) (lock_files s))\<rparr>"

definition sqlite_unlock ::
  "sql_fault \<Rightarrow> string \<Rightarrow> string \<Rightarrow> string \<times> string \<Rightarrow> sqlite_locks \<Rightarrow> sqlite_locks" where
  "sqlite_unlock f db l p s =
     release_new_file_lock db l
       (if f = Some 0 then s
        else s\<lparr>lock_rows := delete_lock l (\<lambda>r. worker_id r = sqlite_workerId l p) (lock_rows s)\<rparr>)"

definition sqlite_tryLockWithFence ::
  "sql_fault \<times> bool \<Rightarrow> string \<Rightarrow> ms \<Rightarrow> ms \<Rightarrow> string \<Rightarrow> string \<times> string \<Rightarrow> string \<Rightarrow> sqlite_locks \<Rightarrow>
   (bool \<times> string option) \<times> sqlite_locks" where
  "sqlite_tryLockWithFence fio db now ttl l p fence s =
     (let ((acquired, k, fl), s1) =
            acquireBothLocks fio db now ttl l (sqlite_workerId l p) (Some fence) fence s
      in if acquired then ((acquired, k), s1)
         else ((acquired, k), s1\<lparr>lock_files := snd (fileLock_release fl (lock_files s1))\<rparr>))"

definition sqlite_renewLockWithFence ::
  "sql_fault \<Rightarrow> ms \<Rightarrow> ms \<Rightarrow> string \<Rightarrow> string \<times> string \<Rightarrow> string \<Rightarrow> sqlite_locks \<Rightarrow> bool \<times> sqlite_locks" where
  "sqlite_renewLockWithFence f now ttl l p fence s =
     (if f = Some 0 then (False, s)
      else apsnd (\<lambda>t. s\<lparr>lock_rows := t\<rparr>)
             (update_expiry (datetime now) (datetime (now + ttl)) l
                (\<lambda>r. worker_id r = sqlite_workerId l p \<and> fence_token r = Some fence) (lock_rows s)))"

definition sqlite_unlockWithFence ::
  "sql_fault \<Rightarrow> string \<Rightarrow> string \<Rightarrow> string \<times> string \<Rightarrow> string \<Rightarrow> sqlite_locks \<Rightarrow> sqlite_locks" where
  "sqlite_unlockWithFence f db l p fence s =
     release_new_file_lock db l
       (if f = Some 0 then s
        else s\<lparr>lock_rows := delete_lock l
                (\<lambda>r. worker_id r = sqlite_workerId l p \<and> fence_token r = Some fence) (lock_rows s)\<rparr>)"

definition sq_lease :: "sqlite_locks \<Rightarrow> string \<Rightarrow> ((string \<times> string option) \<times> ms) option" where
  "sq_lease s l = row_lease 1000 (lock_rows s) l"

definition sq_mine :: "string \<Rightarrow> string \<times> string \<Rightarrow> string \<times> string option \<Rightarrow> bool" where
  "sq_mine l p v \<longleftrightarrow> fst v = sqlite_workerId l p"

text \<open>What acquisition does to the rows, whatever the file lock says.\<close>

lemma acquireBothLocks_rows:
  assumes "acquireBothLocks fio db now ttl l w fence uuid s = ((b, k, fl), s')"
  shows "lock_rows s' = lock_rows s \<and> \<not> b
    \<or> lock_rows s' = delete_expired (datetime now) l (lock_rows s) \<and>
        (b \<longrightarrow> select_fence (datetime now) l w (lock_rows s') = k \<and> k \<noteq> None)
    \<or> b \<and> delete_expired (datetime now) l (lock_rows s) l = None \<and>
        lock_rows s' = (delete_expired (datetime now) l (lock_rows s))(l \<mapsto>
          \<lparr>expires_at = datetime (now + ttl), worker_id = w,
           fence_token = (if fence = Some '''' then None else fence)\<rparr>) \<and>
        k = Some (case fence of Some x \<Rightarrow> x | None \<Rightarrow> uuid)"
  using assms unfolding acquireBothLocks_def
  by (auto simp: Let_def split_beta insert_or_ignore_def split: if_splits option.splits;
      metis option.distinct(1))

lemma delete_expired_live: "row_lease 1000 t l = Some (v, d) \<Longrightarrow> now \<le> d \<Longrightarrow> delete_expired (datetime now) l t = t"
  by (auto simp: delete_expired_def row_lease_def datetime_dead split: option.splits)

lemma delete_expired_other: "l' \<noteq> l \<Longrightarrow> delete_expired now l t l' = t l'"
  by (auto simp: delete_expired_def split: option.splits)

lemma acquireBothLocks_foreign:
  assumes "acquireBothLocks fio db now ttl l w fence uuid s = ((b, k, fl), s')"
    and "sq_lease s l = Some (v, d)" "now \<le> d" "fst v \<noteq> w"
  shows "\<not> b \<and> lock_rows s' = lock_rows s"
  using acquireBothLocks_rows [OF assms(1)] delete_expired_live [of "lock_rows s" l v d now] assms(2-4)
  by (auto simp: sq_lease_def row_lease_def select_fence_def split: if_splits)

lemma acquireBothLocks_frame:
  assumes "acquireBothLocks fio db now ttl l w fence uuid s = ((b, k, fl), s')" "l' \<noteq> l"
  shows "lock_rows s' l' = lock_rows s l'"
  using acquireBothLocks_rows [OF assms(1)] assms(2) by (auto simp: delete_expired_other)

lemma release_new_file_lock_simps [simp]: "release_new_file_lock db l s = s"
  by (simp add: release_new_file_lock_def fileLock_release_def fileLock_new_def)

lemma sqlite_fence_rows:
  "\<exists>fl s1. acquireBothLocks fio db now ttl l (sqlite_workerId l p) (Some fence) fence s =
      ((fst (fst (sqlite_tryLockWithFence fio db now ttl l p fence s)),
        snd (fst (sqlite_tryLockWithFence fio db now ttl l p fence s)), fl), s1) \<and>
      lock_rows (snd (sqlite_tryLockWithFence fio db now ttl l p fence s)) = lock_rows s1"
  unfolding sqlite_tryLockWithFence_def
  by (cases "acquireBothLocks fio db now ttl l (sqlite_workerId l p) (Some fence) fence s")
    (auto simp: Let_def split_beta)

interpretation sq: lease_safety
    sq_lease sq_mine "\<lambda>p k. k \<noteq> ''''" "\<lambda>fio. sqlite_tryLockWithFence fio db"
    "\<lambda>fio. sqlite_renewLockWithFence (fst fio)" "\<lambda>fio now. sqlite_unlockWithFence (fst fio) db" for db
proof (unfold_locales, goal_cases)
  case (1 s l v d now p k fio ttl)
  from sqlite_fence_rows [of fio db now ttl l p k s] 1 show ?case
    by (auto simp: sq_lease_def row_lease_def sq_mine_def dest!: acquireBothLocks_foreign)
next
  case (2 l' l fio now ttl p k s)
  from sqlite_fence_rows [of fio db now ttl l p k s] 2 show ?case
    by (auto simp: sq_lease_def row_lease_def dest!: acquireBothLocks_frame)
qed (auto simp: sq_lease_def row_lease_def sq_mine_def sqlite_renewLockWithFence_def
    sqlite_unlockWithFence_def lock_sql_defs apsnd_def map_prod_def split: option.splits if_splits)

text \<open>In memory the file locks are off and the rows alone decide.\<close>

interpretation mem: lease_lock
    sq_lease sq_mine "\<lambda>p k. k \<noteq> ''''" "\<lambda>fio. sqlite_tryLockWithFence fio ''''"
    "\<lambda>fio. sqlite_renewLockWithFence (fst fio)" "\<lambda>fio now. sqlite_unlockWithFence (fst fio) ''''"
    "\<lambda>l p k. (sqlite_workerId l p, Some k)" "(None, True)"
proof (unfold_locales, goal_cases)
  case (2 s l now p k ttl)
  then show ?case
    using datetime_bounds [of "now + ttl"]
    by (auto simp: sq_lease_def row_lease_def sqlite_tryLockWithFence_def acquireBothLocks_def
        fileLock_tryAcquire_def fileLock_new_def fileLock_release_def Let_def split_beta
        lock_sql_defs datetime_dead split: option.splits)
next
  case (3 s l p k d now ttl)
  then show ?case
    using datetime_bounds [of "now + ttl"]
    by (auto simp: sq_lease_def row_lease_def sqlite_renewLockWithFence_def update_expiry_def
        datetime_live)
qed (auto simp: sq_mine_def sq_lease_def row_lease_def sqlite_unlockWithFence_def delete_lock_def)

section \<open>What the providers promise\<close>

text \<open>The lock file: acquisition leaves it behind when it succeeds, and nothing removes one that
  was there before.\<close>

lemma fileLock_tryAcquire_new:
  "fileLock_tryAcquire io (fileLock_new db l) files = (got, fl, files') \<Longrightarrow>
   files \<subseteq> files' \<and> (got \<longrightarrow> fileLock_release fl files' = (fl\<lparr>fl_fd := False\<rparr>, files)) \<and>
   (\<not> got \<longrightarrow> files' = files \<and> \<not> fl_fd fl) \<and>
   (fl_enabled (fileLock_new db l) \<longrightarrow>
      (got \<longrightarrow> lockPath (fileLock_new db l) \<in> files' \<and> lockPath (fileLock_new db l) \<notin> files))"
  by (auto simp: fileLock_tryAcquire_def fileLock_release_def fileLock_new_def split: if_splits)

lemma acquireBothLocks_shape:
  assumes "acquireBothLocks fio db now ttl l w fence uuid s = ((b, k, fl), s')"
    and "fileLock_tryAcquire (snd fio) (fileLock_new db l) (lock_files s) = (got, fl0, files)"
  shows "b \<and> got \<and> lock_files s' = files
    \<or> \<not> b \<and> \<not> got \<and> fl = fl0 \<and> lock_files s' = files
    \<or> \<not> b \<and> got \<and> fileLock_release fl0 files = (fl, lock_files s')"
  using assms(1) unfolding acquireBothLocks_def Let_def assms(2)
  by (simp add: split_beta split: if_splits option.splits; clarsimp)

lemma acquireBothLocks_files:
  assumes "acquireBothLocks fio db now ttl l w fence uuid s = ((b, k, fl), s')"
  shows "lock_files s \<subseteq> lock_files s' \<and>
    (fl_enabled (fileLock_new db l) \<longrightarrow>
       (b \<longrightarrow> lockPath (fileLock_new db l) \<in> lock_files s') \<and>
       (lockPath (fileLock_new db l) \<in> lock_files s \<longrightarrow> \<not> b)) \<and> (\<not> b \<longrightarrow> \<not> fl_fd fl)"
proof -
  obtain got fl0 files where t:
    "fileLock_tryAcquire (snd fio) (fileLock_new db l) (lock_files s) = (got, fl0, files)"
    by (cases "fileLock_tryAcquire (snd fio) (fileLock_new db l) (lock_files s)")
  from acquireBothLocks_shape [OF assms t] fileLock_tryAcquire_new [OF t]
  show ?thesis by (elim disjE conjE) auto
qed

lemma sqlite_tryLockWithFence_files:
  assumes "sqlite_tryLockWithFence fio db now ttl l p fence s = ((b, k), s')"
  shows "lock_files s \<subseteq> lock_files s' \<and>
    (fl_enabled (fileLock_new db l) \<longrightarrow>
       (b \<longrightarrow> lockPath (fileLock_new db l) \<in> lock_files s') \<and>
       (lockPath (fileLock_new db l) \<in> lock_files s \<longrightarrow> \<not> b))"
proof (cases "acquireBothLocks fio db now ttl l (sqlite_workerId l p) (Some fence) fence s")
  case (Pair r s1)
  obtain b1 k1 fl where r: "r = (b1, k1, fl)" by (cases r)
  have "\<not> b1 \<Longrightarrow> snd (fileLock_release fl (lock_files s1)) = lock_files s1"
    using acquireBothLocks_files [OF Pair [unfolded r]] by (simp add: fileLock_release_def)
  then have "b = b1" "lock_files s' = lock_files s1"
    using assms by (auto simp: sqlite_tryLockWithFence_def Pair r split: if_splits)
  with acquireBothLocks_files [OF Pair [unfolded r]] show ?thesis by simp
qed

lemma sqlite_tryLockWithFence_keeps_files:
  "lock_files s \<subseteq> lock_files (snd (sqlite_tryLockWithFence fio db now ttl l p fence s))"
  using sqlite_tryLockWithFence_files [of fio db now ttl l p fence s]
  by (cases "sqlite_tryLockWithFence fio db now ttl l p fence s") (auto simp: split_paired_all)

abbreviation sqlite_run ::
  "string \<Rightarrow> (sql_fault \<times> bool, string \<times> string) lock_op list \<Rightarrow> sqlite_locks \<Rightarrow> bool list \<times> sqlite_locks" where
  "sqlite_run db \<equiv> lock_run (\<lambda>fio. sqlite_tryLockWithFence fio db)
     (\<lambda>fio. sqlite_renewLockWithFence (fst fio)) (\<lambda>fio now. sqlite_unlockWithFence (fst fio) db)"

lemma sqlite_run_files: "lock_files s \<subseteq> lock_files (snd (sqlite_run db xs s))"
proof (induction xs arbitrary: s)
  case Nil then show ?case by simp
next
  case (Cons x xs)
  let ?s1 = "snd (lock_step (\<lambda>fio. sqlite_tryLockWithFence fio db)
     (\<lambda>fio. sqlite_renewLockWithFence (fst fio)) (\<lambda>fio now. sqlite_unlockWithFence (fst fio) db) x s)"
  have "lock_files s \<subseteq> lock_files ?s1"
    by (cases x) (simp_all add: sqlite_tryLockWithFence_keeps_files sqlite_renewLockWithFence_def
        sqlite_unlockWithFence_def apsnd_def map_prod_def split_beta)
  with Cons.IH [of ?s1] show ?case by (auto simp: split_beta)
qed

text \<open>On a database on disk a lock is granted once and for all: \<open>unlock\<close> releases a \<open>FileLock\<close>
  object that it has just created and that holds no descriptor, so the lock file of the first
  grant stays, and after any calls whatsoever (its owner's release, the lapse of its lease, any
  fault) nobody is ever granted that lock name again.\<close>

theorem sqlite_lock_granted_once:
  assumes "db \<noteq> ''''" "db \<noteq> '':memory:''"
    and "sqlite_tryLockWithFence fio db now ttl l p k s = ((True, tok), s1)"
  shows "fst (fst (sqlite_tryLockWithFence fio' db now' ttl' l q k' (snd (sqlite_run db xs s1)))) = False"
proof -
  have e: "fl_enabled (fileLock_new db l)" using assms(1,2) by (simp add: fileLock_new_def)
  have "lockPath (fileLock_new db l) \<in> lock_files s1"
    using sqlite_tryLockWithFence_files [OF assms(3)] e by simp
  then have "lockPath (fileLock_new db l) \<in> lock_files (snd (sqlite_run db xs s1))"
    using sqlite_run_files by blast
  then show ?thesis
    using sqlite_tryLockWithFence_files [of fio' db now' ttl' l q k' "snd (sqlite_run db xs s1)"] e
    by (cases "sqlite_tryLockWithFence fio' db now' ttl' l q k' (snd (sqlite_run db xs s1))") auto
qed

theorem sqlite_lock_granted_once_witness:
  "fst (fst (sqlite_tryLockWithFence (None, True) ''d.db'' 9000000 1000 ''m'' (''h'', ''2'') ''u''
     (snd (sqlite_run ''d.db'' [Release (None, True) 10 ''m'' (''h'', ''1'') ''k'']
        (snd (sqlite_tryLockWithFence (None, True) ''d.db'' 0 1000 ''m'' (''h'', ''1'') ''k''
           \<lparr>lock_files = {}, lock_rows = Map.empty\<rparr>)))))) = False"
proof (rule sqlite_lock_granted_once)
  show "sqlite_tryLockWithFence (None, True) ''d.db'' 0 1000 ''m'' (''h'', ''1'') ''k''
      \<lparr>lock_files = {}, lock_rows = Map.empty\<rparr> =
    ((True, Some ''k''), snd (sqlite_tryLockWithFence (None, True) ''d.db'' 0 1000 ''m'' (''h'', ''1'') ''k''
      \<lparr>lock_files = {}, lock_rows = Map.empty\<rparr>))"
    by (simp add: sqlite_tryLockWithFence_def acquireBothLocks_def fileLock_tryAcquire_def
        fileLock_new_def fileLock_release_def delete_expired_def insert_or_ignore_def)
qed simp_all

abbreviation pg_run ::
  "(sql_fault, string) lock_op list \<Rightarrow> lock_table \<Rightarrow> bool list \<times> lock_table" where
  "pg_run \<equiv> lock_run pg_tryLockWithFence pg_renewLockWithFence (\<lambda>f now. pg_unlockWithFence f)"

text \<open>C27. Mutual exclusion and the heartbeat: after Postgres has granted a free lock, in any
  interleaving of calls where the holder renews each time before its current deadline and
  processes with other ids do what they like before it, with any database faults on their side,
  exactly the holder's renewals succeed, and the row still carries the holder's token.\<close>

theorem pg_lock_held:
  assumes "\<forall>r. t l = Some r \<longrightarrow> expires_at r < now"
    and "pg_tryLockWithFence None now ttl l pid k t = (res, t1)"
    and "holds_through (\<lambda>q k. True) (\<lambda>l q. pg_workerId l pid = pg_workerId l q) None l pid k (now + ttl) xs"
  shows "res = (True, Some k) \<and>
         reports_on l xs (fst (pg_run xs t1)) =
           map (\<lambda>x. \<exists>now ttl. x = Renew None now ttl l pid k) (filter (\<lambda>x. op_lock x = l) xs) \<and>
         (\<exists>r. snd (pg_run xs t1) l = Some r \<and> worker_id r = pg_workerId l pid \<and> fence_token r = Some k)"
proof -
  have free: "d < now" if "row_lease 1 t l = Some (v, d)" for v d
    using that assms(1) by (auto simp: row_lease_def)
  obtain d where g: "res = (True, Some k)" "now + ttl \<le> d"
      "row_lease 1 t1 l = Some ((pg_workerId l pid, Some k), d)"
    using pg.acquire_free [where s = t and l = l and now = now and p = pid and k = k and ttl = ttl] free assms(2) by auto
  have "holds_through (\<lambda>q k. True) (\<lambda>l q. pg_mine l q (pg_workerId l pid, Some k)) None l pid k (now + ttl) xs"
    using assms(3) by (simp add: pg_mine_def)
  from pg.held_through [OF g(3,2) _ this] g(1) show ?thesis
    by (auto simp: row_lease_def)
qed

theorem pg_lock_held_witness:
  "let xs = [Acquire None 50 100 ''m'' ''2'' ''u'', Renew None 60 100 ''m'' ''1'' ''k'',
              Release None 140 ''m'' ''2'' ''u'']
   in reports_on ''m'' xs
        (fst (pg_run xs (snd (pg_tryLockWithFence None 0 100 ''m'' ''1'' ''k'' Map.empty)))) =
      [False, True, False]"
  using pg_lock_held [of Map.empty "''m''" 0 100 "''1''" "''k''"
      "fst (pg_tryLockWithFence None 0 100 ''m'' ''1'' ''k'' Map.empty)"
      "snd (pg_tryLockWithFence None 0 100 ''m'' ''1'' ''k'' Map.empty)"
      "[Acquire None 50 100 ''m'' ''2'' ''u'', Renew None 60 100 ''m'' ''1'' ''k'',
              Release None 140 ''m'' ''2'' ''u'']"]
  by (simp del: lock_run.simps reports_on_simps)

text \<open>A process on another host with the same process id is the same worker to Postgres, and is
  handed the holder's own token.\<close>

lemma pg_same_pid_shares:
  assumes "pg_tryLockWithFence None now ttl l pid k t = ((True, Some k), t1)" "t l = None"
    and "now' \<le> now + ttl" "k \<noteq> ''''"
  shows "fst (pg_tryLockWithFence None now' ttl' l pid k' t1) = (True, Some k)"
  using assms by (auto simp: pg_tryLockWithFence_def lock_sql_defs Let_def)

text \<open>A lock taken without a token is not re-entrant for its own worker.\<close>

lemma pg_tryLock_not_reentrant:
  assumes "pg_tryLock None now ttl l pid t = (True, t1)" "now' \<le> now + ttl"
  shows "pg_tryLock None now' ttl' l pid t1 = (False, t1)"
  using assms by (auto simp: pg_tryLock_def lock_sql_defs Let_def split: option.splits if_splits)

end
