(* ===== verification/RedisLock.thy ===== *)
theory RedisLock
  imports Locks "HOL-Library.Sublist"
begin

text \<open>
  The Redis lock (\<open>providers/redis/redis-lock.ts\<close>). A lock is one key; its value names the worker and,
  for a fenced lock, the fencing token and the metadata: \<open>worker:token:metadata\<close>. Each operation is
  one Lua script, which Redis runs atomically; a script is a function that yields \<open>None\<close> where
  the script raises an error, and \<open>withRedis\<close> turns this, like a lost connection, into the
  fallback value.

  The fenced scripts find the token with \<open>string.find\<close>, whose first argument is a Lua pattern and
  not a plain string. The patterns that the scripts build contain letters, digits, colons and
  the hyphens of UUIDs, and \<open>-\<close> is a quantifier (as few repetitions as possible); the matcher below
  models patterns of single characters with the four quantifiers.
\<close>

section \<open>Lua patterns\<close>

datatype lua_quant = One | Lazy | Star | Plus | Opt

definition lua_quantifier :: "char \<Rightarrow> lua_quant option" where
  "lua_quantifier c =
     (if c = CHR ''-'' then Some Lazy else if c = CHR ''*'' then Some Star
      else if c = CHR ''+'' then Some Plus else if c = CHR ''?'' then Some Opt else None)"

fun lua_items :: "string \<Rightarrow> (char \<times> lua_quant) list" where
  "lua_items [] = []"
| "lua_items [c] = [(c, One)]"
| "lua_items (c # d # cs) =
     (case lua_quantifier d of Some q \<Rightarrow> (c, q) # lua_items cs | None \<Rightarrow> (c, One) # lua_items (d # cs))"

text \<open>Whether the items match a prefix of the subject; which of several matches is taken makes no
  difference to \<open>string.find(...) == 1\<close>.\<close>

function lua_match :: "(char \<times> lua_quant) list \<Rightarrow> string \<Rightarrow> bool" where
  "lua_match [] s \<longleftrightarrow> True"
| "lua_match ((c, One) # is) s \<longleftrightarrow> (case s of [] \<Rightarrow> False | x # xs \<Rightarrow> x = c \<and> lua_match is xs)"
| "lua_match ((c, Plus) # is) s \<longleftrightarrow>
     (case s of [] \<Rightarrow> False | x # xs \<Rightarrow> x = c \<and> (lua_match is xs \<or> lua_match ((c, Plus) # is) xs))"
| "lua_match ((c, Opt) # is) s \<longleftrightarrow>
     lua_match is s \<or> (case s of [] \<Rightarrow> False | x # xs \<Rightarrow> x = c \<and> lua_match is xs)"
| "lua_match ((c, Lazy) # is) s \<longleftrightarrow>
     lua_match is s \<or> (case s of [] \<Rightarrow> False | x # xs \<Rightarrow> x = c \<and> lua_match ((c, Lazy) # is) xs)"
| "lua_match ((c, Star) # is) s \<longleftrightarrow>
     lua_match is s \<or> (case s of [] \<Rightarrow> False | x # xs \<Rightarrow> x = c \<and> lua_match ((c, Star) # is) xs)"
  by pat_completeness auto
termination by (relation "measure (\<lambda>(is, s). length is + length s)") auto

text \<open>\<open>string.find(s, '^' .. p) == 1\<close>.\<close>

definition lua_starts :: "string \<Rightarrow> string \<Rightarrow> bool" where
  "lua_starts p s = lua_match (lua_items p) s"

definition lua_plain :: "string \<Rightarrow> bool" where
  "lua_plain s \<longleftrightarrow> (\<forall>c\<in>set s. lua_quantifier c = None)"

lemma lua_plain_simps [simp]:
  "lua_plain []" "lua_plain (c # s) \<longleftrightarrow> lua_quantifier c = None \<and> lua_plain s"
  "lua_plain (s @ t) \<longleftrightarrow> lua_plain s \<and> lua_plain t"
  by (auto simp: lua_plain_def)

lemma lua_items_plain:
  "lua_plain s \<Longrightarrow> p = [] \<or> lua_quantifier (hd p) = None \<Longrightarrow>
   lua_items (s @ p) = map (\<lambda>c. (c, One)) s @ lua_items p"
proof (induction s)
  case Nil then show ?case by simp
next
  case (Cons c s)
  then show ?case by (cases s; cases p) auto
qed

lemma lua_match_lits:
  "lua_match (map (\<lambda>c. (c, One)) s @ is) v \<longleftrightarrow> (\<exists>r. v = s @ r \<and> lua_match is r)"
proof (induction s arbitrary: v)
  case Nil then show ?case by simp
next
  case (Cons c s) then show ?case by (cases v) auto
qed

lemma lua_starts_append:
  assumes "lua_plain s" "p = [] \<or> lua_quantifier (hd p) = None"
  shows "lua_starts (s @ p) v \<longleftrightarrow> (\<exists>r. v = s @ r \<and> lua_starts p r)"
  unfolding lua_starts_def lua_items_plain [OF assms] lua_match_lits ..

lemma lua_starts_plain: "lua_plain s \<Longrightarrow> lua_starts s v \<longleftrightarrow> (\<exists>r. v = s @ r)"
  using lua_starts_append [of s "[]" v] by (simp add: lua_starts_def)

section \<open>Redis\<close>

text \<open>Keys with a value and the instant they expire. \<open>SET\<close> and \<open>PEXPIRE\<close> at a given instant; \<open>SET\<close>
  refuses a time to live that is not positive.\<close>

type_synonym redis = "string \<rightharpoonup> string \<times> ms"

definition redis_get :: "ms \<Rightarrow> string \<Rightarrow> redis \<Rightarrow> string option" where
  "redis_get now key s = (case s key of Some (v, e) \<Rightarrow> if now \<le> e then Some v else None | None \<Rightarrow> None)"

definition redis_set_px :: "ms \<Rightarrow> ms \<Rightarrow> string \<Rightarrow> string \<Rightarrow> redis \<Rightarrow> redis option" where
  "redis_set_px now ttl key v s = (if ttl \<le> 0 then None else Some (s(key \<mapsto> (v, now + ttl))))"

definition redis_pexpire :: "ms \<Rightarrow> ms \<Rightarrow> string \<Rightarrow> redis \<Rightarrow> redis" where
  "redis_pexpire now ttl key s =
     (case redis_get now key s of
        None \<Rightarrow> s
      | Some v \<Rightarrow> if ttl \<le> 0 then s(key := None) else s(key \<mapsto> (v, now + ttl)))"

definition LOCK_SCRIPT :: "ms \<Rightarrow> ms \<Rightarrow> string \<Rightarrow> string \<Rightarrow> redis \<Rightarrow> (nat \<times> redis) option" where
  "LOCK_SCRIPT now ttl key worker s =
     (case redis_get now key s of
        None \<Rightarrow> map_option (\<lambda>s'. (1, s')) (redis_set_px now ttl key worker s)
      | Some v \<Rightarrow> if v = worker then Some (1, redis_pexpire now ttl key s) else Some (0, s))"

definition RENEW_SCRIPT :: "ms \<Rightarrow> ms \<Rightarrow> string \<Rightarrow> string \<Rightarrow> redis \<Rightarrow> (nat \<times> redis) option" where
  "RENEW_SCRIPT now ttl key worker s =
     (if redis_get now key s = Some worker then Some (1, redis_pexpire now ttl key s) else Some (0, s))"

definition UNLOCK_SCRIPT :: "ms \<Rightarrow> string \<Rightarrow> string \<Rightarrow> redis \<Rightarrow> (nat \<times> redis) option" where
  "UNLOCK_SCRIPT now key worker s =
     (if redis_get now key s = Some worker then Some (1, s(key := None)) else Some (0, s))"

text \<open>\<open>string.find(val, '^[^:]+:([^:]+):')\<close>: the second field of the value.\<close>

definition lua_second_field :: "string \<Rightarrow> string option" where
  "lua_second_field v =
     (let a = takeWhile (\<lambda>c. c \<noteq> CHR '':'') v; r = drop (length a + 1) v;
          b = takeWhile (\<lambda>c. c \<noteq> CHR '':'') r
      in if a \<noteq> [] \<and> length a < length v \<and> b \<noteq> [] \<and> length b < length r then Some b else None)"

definition lock_value :: "string \<Rightarrow> string \<Rightarrow> string \<Rightarrow> string" where
  "lock_value worker fence meta = worker @ '':'' @ fence @ '':'' @ meta"

definition FENCED_LOCK_SCRIPT ::
  "ms \<Rightarrow> ms \<Rightarrow> string \<Rightarrow> string \<Rightarrow> string \<Rightarrow> string \<Rightarrow> redis \<Rightarrow> ((nat \<times> string option) \<times> redis) option" where
  "FENCED_LOCK_SCRIPT now ttl key worker fence meta s =
     (case redis_get now key s of
        None \<Rightarrow> map_option (\<lambda>s'. ((1, Some fence), s'))
                  (redis_set_px now ttl key (lock_value worker fence meta) s)
      | Some v \<Rightarrow>
          if lua_starts (worker @ '':'') v
          then Some ((1, lua_second_field v), redis_pexpire now ttl key s)
          else Some ((0, None), s))"

definition FENCED_RENEW_SCRIPT ::
  "ms \<Rightarrow> ms \<Rightarrow> string \<Rightarrow> string \<Rightarrow> string \<Rightarrow> string \<Rightarrow> redis \<Rightarrow> (nat \<times> redis) option" where
  "FENCED_RENEW_SCRIPT now ttl key worker fence meta s =
     (case redis_get now key s of
        None \<Rightarrow> Some (0, s)
      | Some v \<Rightarrow>
          if lua_starts (worker @ '':'' @ fence @ '':'') v
          then map_option (\<lambda>s'. (1, s')) (redis_set_px now ttl key (lock_value worker fence meta) s)
          else Some (0, s))"

definition FENCED_UNLOCK_SCRIPT ::
  "ms \<Rightarrow> string \<Rightarrow> string \<Rightarrow> string \<Rightarrow> redis \<Rightarrow> (nat \<times> redis) option" where
  "FENCED_UNLOCK_SCRIPT now key worker fence s =
     (case redis_get now key s of
        None \<Rightarrow> Some (0, s)
      | Some v \<Rightarrow>
          if lua_starts (worker @ '':'' @ fence @ '':'') v then Some (1, s(key := None)) else Some (0, s))"

section \<open>The class \<open>RedisLock\<close>\<close>

record redis_proc =
  rp_pid :: string
  rp_rand :: string

definition redis_workerId :: "redis_proc \<Rightarrow> string" where
  "redis_workerId p = ''worker:'' @ rp_pid p @ '':'' @ rp_rand p"

text \<open>\<open>withRedis\<close>: the script's result where the client is connected and the script does not raise.\<close>

definition withRedis :: "bool \<Rightarrow> 'r \<Rightarrow> ('r \<times> redis) option \<Rightarrow> redis \<Rightarrow> 'r \<times> redis" where
  "withRedis up fallback script s =
     (if \<not> up then (fallback, s) else case script of None \<Rightarrow> (fallback, s) | Some rs \<Rightarrow> rs)"

text \<open>The key of a lock, with the prefix of the client (\<open>dominus:\<close> by default).\<close>

definition redis_lock_key :: "string \<Rightarrow> string" where
  "redis_lock_key l = ''dominus:lock:'' @ l"

definition redis_tryLock :: "bool \<Rightarrow> ms \<Rightarrow> ms \<Rightarrow> string \<Rightarrow> redis_proc \<Rightarrow> redis \<Rightarrow> bool \<times> redis" where
  "redis_tryLock up now ttl l p s =
     apfst (\<lambda>r. r = 1) (withRedis up 0 (LOCK_SCRIPT now ttl (redis_lock_key l) (redis_workerId p) s) s)"

definition redis_renewLock :: "bool \<Rightarrow> ms \<Rightarrow> ms \<Rightarrow> string \<Rightarrow> redis_proc \<Rightarrow> redis \<Rightarrow> bool \<times> redis" where
  "redis_renewLock up now ttl l p s =
     apfst (\<lambda>r. r = 1) (withRedis up 0 (RENEW_SCRIPT now ttl (redis_lock_key l) (redis_workerId p) s) s)"

definition redis_unlock :: "bool \<Rightarrow> ms \<Rightarrow> string \<Rightarrow> redis_proc \<Rightarrow> redis \<Rightarrow> redis" where
  "redis_unlock up now l p s =
     snd (withRedis up 0 (UNLOCK_SCRIPT now (redis_lock_key l) (redis_workerId p) s) s)"

text \<open>\<open>fence\<close> is the UUID the call draws, \<open>meta\<close> the encoded metadata.\<close>

definition redis_tryLockWithFence ::
  "bool \<times> string \<Rightarrow> ms \<Rightarrow> ms \<Rightarrow> string \<Rightarrow> redis_proc \<Rightarrow> string \<Rightarrow> redis \<Rightarrow>
   (bool \<times> string option) \<times> redis" where
  "redis_tryLockWithFence um now ttl l p fence s =
     apfst (\<lambda>(n, k). (n = 1, if n = 1 then Some (case k of Some x \<Rightarrow> x | None \<Rightarrow> fence) else None))
       (withRedis (fst um) (0, None)
          (FENCED_LOCK_SCRIPT now ttl (redis_lock_key l) (redis_workerId p) fence (snd um) s) s)"

definition redis_renewLockWithFence ::
  "bool \<times> string \<Rightarrow> ms \<Rightarrow> ms \<Rightarrow> string \<Rightarrow> redis_proc \<Rightarrow> string \<Rightarrow> redis \<Rightarrow> bool \<times> redis" where
  "redis_renewLockWithFence um now ttl l p fence s =
     apfst (\<lambda>r. r = 1)
       (withRedis (fst um) 0
          (FENCED_RENEW_SCRIPT now ttl (redis_lock_key l) (redis_workerId p) fence (snd um) s) s)"

definition redis_unlockWithFence ::
  "bool \<times> string \<Rightarrow> ms \<Rightarrow> string \<Rightarrow> redis_proc \<Rightarrow> string \<Rightarrow> redis \<Rightarrow> redis" where
  "redis_unlockWithFence um now l p fence s =
     snd (withRedis (fst um) 0
            (FENCED_UNLOCK_SCRIPT now (redis_lock_key l) (redis_workerId p) fence s) s)"

section \<open>Lease safety\<close>

text \<open>Worker names and UUIDs consist of digits and lower-case letters between their separators.\<close>

definition token_char :: "char \<Rightarrow> bool" where
  "token_char c \<longleftrightarrow> (CHR ''0'' \<le> c \<and> c \<le> CHR ''9'') \<or> (CHR ''a'' \<le> c \<and> c \<le> CHR ''z'')"

lemma token_char_plain [simp]:
  "token_char c \<Longrightarrow> lua_quantifier c = None" "token_char c \<Longrightarrow> c \<noteq> CHR '':''"
  "token_char c \<Longrightarrow> c \<noteq> CHR ''-''"
  by (auto simp: token_char_def lua_quantifier_def)

definition redis_proc_ok :: "redis_proc \<Rightarrow> bool" where
  "redis_proc_ok p \<longleftrightarrow> rp_pid p \<noteq> [] \<and> list_all token_char (rp_pid p) \<and> list_all token_char (rp_rand p)"

definition redis_sane :: "redis_proc \<Rightarrow> string \<Rightarrow> bool" where
  "redis_sane p k \<longleftrightarrow> redis_proc_ok p \<and> k \<noteq> [] \<and> token_char (hd k)"

lemma list_token_plain: "list_all token_char s \<Longrightarrow> lua_plain s"
  by (induction s) auto

lemma list_token_no_colon: "list_all token_char s \<Longrightarrow> CHR '':'' \<notin> set s"
  by (induction s) (auto dest: token_char_plain(2))

lemma lua_plain_worker: "redis_proc_ok p \<Longrightarrow> lua_plain (redis_workerId p @ '':'')"
  by (simp add: redis_workerId_def redis_proc_ok_def list_token_plain lua_quantifier_def)

text \<open>The value of the key as a lease, and whose it is to the fenced scripts.\<close>

definition redis_lease :: "redis \<Rightarrow> string \<Rightarrow> (string \<times> ms) option" where
  "redis_lease s l = s (redis_lock_key l)"

definition redis_mine :: "string \<Rightarrow> redis_proc \<Rightarrow> string \<Rightarrow> bool" where
  "redis_mine l p v \<longleftrightarrow> prefix (redis_workerId p @ '':'') v"

lemma redis_lock_key_inject [simp]: "redis_lock_key l = redis_lock_key l' \<longleftrightarrow> l = l'"
  by (simp add: redis_lock_key_def)

lemma lua_starts_worker: "redis_proc_ok p \<Longrightarrow> lua_starts (redis_workerId p @ '':'') v = redis_mine l p v"
  unfolding redis_mine_def prefix_def by (rule lua_starts_plain) (rule lua_plain_worker)

lemma lua_starts_fence:
  assumes "redis_sane p k" "lua_starts (redis_workerId p @ '':'' @ k @ '':'') v"
  shows "redis_mine l p v"
proof -
  have "lua_quantifier (hd (k @ '':'')) = None"
    using assms(1) by (cases k) (auto simp: redis_sane_def)
  then have "\<exists>r. v = (redis_workerId p @ '':'') @ r \<and> lua_starts (k @ '':'') r"
    using lua_starts_append [OF lua_plain_worker, of p "k @ '':''" v] assms
    by (simp add: redis_sane_def)
  then show ?thesis by (auto simp: redis_mine_def prefix_def)
qed

lemmas redis_op_defs = redis_tryLockWithFence_def redis_renewLockWithFence_def
  redis_unlockWithFence_def withRedis_def FENCED_LOCK_SCRIPT_def FENCED_RENEW_SCRIPT_def
  FENCED_UNLOCK_SCRIPT_def redis_get_def redis_set_px_def redis_pexpire_def redis_lease_def
  apfst_def map_prod_def

interpretation redis: lease_safety
    redis_lease redis_mine redis_sane redis_tryLockWithFence redis_renewLockWithFence
    redis_unlockWithFence
proof (unfold_locales, goal_cases)
  case (1 s l v d now p k f ttl)
  then have "\<not> lua_starts (redis_workerId p @ '':'') v"
    by (simp add: lua_starts_worker [of p v l] redis_sane_def)
  with 1 show ?case by (simp add: redis_op_defs)
next
  case (3 s l v d p k f now ttl)
  then have "\<not> lua_starts (redis_workerId p @ '':'' @ k @ '':'') v"
    using lua_starts_fence [of p k v l] by blast
  with 3 show ?case by (simp add: redis_op_defs)
next
  case (5 s l v d p k f now)
  then have "\<not> lua_starts (redis_workerId p @ '':'' @ k @ '':'') v"
    using lua_starts_fence [of p k v l] by blast
  with 5 show ?case by (simp add: redis_op_defs)
qed (auto simp: redis_op_defs split: option.splits if_splits)

section \<open>Fenced renewal and release\<close>

text \<open>The shape of \<open>randomUUID()\<close>: 36 characters, hyphens at four places, no others.\<close>

definition is_uuid :: "string \<Rightarrow> bool" where
  "is_uuid u \<longleftrightarrow> length u = 36 \<and>
     list_all (\<lambda>i. if i \<in> {8, 13, 18, 23} then u ! i = CHR ''-'' else token_char (u ! i)) [0..<36]"

lemma uuid_split:
  assumes "is_uuid u"
  obtains a x b y r where
    "u = a @ x # CHR ''-'' # b @ y # CHR ''-'' # r" "length a = 7" "length b = 3"
    "list_all token_char a" "token_char x" "list_all token_char b" "token_char y" "CHR '':'' \<notin> set u"
proof
  have l: "length u = 36"
    and c: "\<And>i. i < 36 \<Longrightarrow> if i \<in> {8, 13, 18, 23} then u ! i = CHR ''-'' else token_char (u ! i)"
    using assms by (auto simp: is_uuid_def list_all_iff)
  have "drop 7 u = u ! 7 # u ! 8 # drop 9 u"
    using l Cons_nth_drop_Suc [of 7 u] Cons_nth_drop_Suc [of 8 u] by simp
  moreover have "drop 9 u = take 3 (drop 9 u) @ drop 12 u"
    using append_take_drop_id [of 3 "drop 9 u"] by simp
  moreover have "drop 12 u = u ! 12 # u ! 13 # drop 14 u"
    using l Cons_nth_drop_Suc [of 12 u] Cons_nth_drop_Suc [of 13 u] by simp
  moreover have "u ! 8 = CHR ''-''" "u ! 13 = CHR ''-''" using c [of 8] c [of 13] by simp_all
  ultimately show "u = take 7 u @ u ! 7 # CHR ''-'' # take 3 (drop 9 u) @ u ! 12 # CHR ''-'' # drop 14 u"
    by (metis append_take_drop_id)
  show "length (take 7 u) = 7" "length (take 3 (drop 9 u)) = 3" using l by simp_all
  show "list_all token_char (take 7 u)" "list_all token_char (take 3 (drop 9 u))"
    using l c by (auto simp: list_all_length)
  show "token_char (u ! 7)" "token_char (u ! 12)" using c [of 7] c [of 12] by simp_all
  show "CHR '':'' \<notin> set u"
  proof
    assume "CHR '':'' \<in> set u"
    then obtain i where "i < 36" "u ! i = CHR '':''" using l by (auto simp: in_set_conv_nth)
    with c [of i] show False using token_char_plain(2) [of "CHR '':''"] by (auto split: if_splits)
  qed
qed

lemma lua_quantifier_hyphen [simp]: "lua_quantifier (CHR ''-'') = Some Lazy"
  by (simp add: lua_quantifier_def)

lemma lua_lazy_fails:
  "x \<noteq> CHR ''-'' \<Longrightarrow> d \<noteq> CHR ''-'' \<Longrightarrow> e \<noteq> CHR ''-'' \<Longrightarrow>
   \<not> lua_match ((x, Lazy) # (d, One) # (e, One) # is) (x' # CHR ''-'' # v)"
  by auto

text \<open>A pattern made of one UUID never matches a text that starts with one: the hyphen that
  follows the first eight characters is read as a quantifier and matches no hyphen.\<close>

lemma uuid_never_starts:
  assumes "is_uuid k" "is_uuid u"
  shows "\<not> lua_starts (k @ p) (u @ m)"
proof
  obtain a x b y r where k: "k = a @ x # CHR ''-'' # b @ y # CHR ''-'' # r" "length a = 7" "length b = 3"
    "list_all token_char a" "token_char x" "list_all token_char b" "token_char y"
    using uuid_split [OF assms(1)] by metis
  obtain a' x' b' y' r' where u: "u = a' @ x' # CHR ''-'' # b' @ y' # CHR ''-'' # r'" "length a' = 7"
    "token_char x'"
    using uuid_split [OF assms(2)] by metis
  assume "lua_starts (k @ p) (u @ m)"
  then have "lua_starts (a @ x # CHR ''-'' # b @ y # CHR ''-'' # r @ p) (u @ m)"
    using k(1) by simp
  then obtain v where v: "u @ m = a @ v" "lua_starts (x # CHR ''-'' # b @ y # CHR ''-'' # r @ p) v"
    using lua_starts_append [of a "x # CHR ''-'' # b @ y # CHR ''-'' # r @ p" "u @ m"] k(4,5)
    by (auto simp: list_token_plain)
  have veq: "v = x' # CHR ''-'' # b' @ y' # CHR ''-'' # r' @ m"
    using v(1) u(1,2) k(2) by (simp add: append_eq_append_conv)
  obtain d e f where b: "b = [d, e, f]" "token_char d" "token_char e" "token_char f"
    using k(3,6) by (auto simp: numeral_eq_Suc length_Suc_conv)
  have "lua_items (x # CHR ''-'' # b @ y # CHR ''-'' # r @ p) =
      (x, Lazy) # (d, One) # (e, One) # (f, One) # (y, Lazy) # lua_items (r @ p)"
    using b k(7) by simp
  moreover have "lua_match (lua_items (x # CHR ''-'' # b @ y # CHR ''-'' # r @ p)) v"
    using v(2) by (simp only: lua_starts_def)
  ultimately show False
    using lua_lazy_fails [of x d e] token_char_plain(3) b(2,3) k(5) veq by metis
qed

lemma colon_split:
  "a @ CHR '':'' # r = b @ CHR '':'' # q \<Longrightarrow> CHR '':'' \<notin> set a \<Longrightarrow> CHR '':'' \<notin> set b \<Longrightarrow> a = b \<and> r = q"
proof (induction a arbitrary: b)
  case Nil then show ?case by (cases b) auto
next
  case (Cons c a) then show ?case by (cases b) auto
qed

lemma worker_split:
  assumes "redis_workerId p @ CHR '':'' # r = redis_workerId q @ CHR '':'' # t"
    and "redis_proc_ok p" "redis_proc_ok q"
  shows "r = t"
  using assms
  by (auto simp: redis_workerId_def redis_proc_ok_def dest!: list_token_no_colon dest!: colon_split)

lemma worker_only:
  assumes "redis_workerId q = redis_workerId p @ CHR '':'' # r" "redis_proc_ok p" "redis_proc_ok q"
  shows False
proof -
  have "rp_pid q @ CHR '':'' # rp_rand q = rp_pid p @ CHR '':'' # (rp_rand p @ CHR '':'' # r)"
    using assms(1) by (simp add: redis_workerId_def)
  from colon_split [OF this] assms(2,3) have "rp_rand q = rp_rand p @ CHR '':'' # r"
    by (simp add: redis_proc_ok_def list_token_no_colon)
  then have "CHR '':'' \<in> set (rp_rand q)" by simp
  then show False using assms(3) by (auto simp: redis_proc_ok_def dest: list_token_no_colon)
qed

text \<open>The values the class itself writes: a worker, or a worker with a UUID and metadata. Callers hold
  a UUID or, after a second acquisition, what \<open>lua_second_field\<close> gave them.\<close>

definition redis_value_ok :: "string \<Rightarrow> bool" where
  "redis_value_ok v \<longleftrightarrow> (\<exists>q. redis_proc_ok q \<and>
     (v = redis_workerId q \<or> (\<exists>u m. is_uuid u \<and> v = lock_value (redis_workerId q) u m)))"

definition redis_values_ok :: "redis \<Rightarrow> bool" where
  "redis_values_ok s \<longleftrightarrow> (\<forall>l v e. s (redis_lock_key l) = Some (v, e) \<longrightarrow> redis_value_ok v)"

definition redis_token :: "string \<Rightarrow> bool" where
  "redis_token k \<longleftrightarrow> is_uuid k \<or> (k \<noteq> [] \<and> list_all token_char k)"

lemma redis_token_head: "redis_token k \<Longrightarrow> k \<noteq> [] \<and> token_char (hd k)"
proof -
  assume "redis_token k"
  then consider "is_uuid k" | "k \<noteq> []" "list_all token_char k" by (auto simp: redis_token_def)
  then show ?thesis
  proof cases
    case 1
    then obtain a x b y r where "k = a @ x # CHR ''-'' # b @ y # CHR ''-'' # r" "length a = 7"
      "list_all token_char a" using uuid_split by metis
    then show ?thesis by (cases a) auto
  next
    case 2 then show ?thesis by (cases k) auto
  qed
qed

lemma fence_never_matches:
  assumes "redis_value_ok v" "redis_proc_ok p" "redis_token k"
  shows "\<not> lua_starts (redis_workerId p @ '':'' @ k @ '':'') v"
proof
  assume "lua_starts (redis_workerId p @ '':'' @ k @ '':'') v"
  then obtain r where r: "v = redis_workerId p @ CHR '':'' # r" "lua_starts (k @ '':'') r"
    using lua_starts_append [OF lua_plain_worker [OF assms(2)], of "k @ '':''" v]
      redis_token_head [OF assms(3)] by (auto simp: hd_append)
  obtain q where q: "redis_proc_ok q"
    "v = redis_workerId q \<or> (\<exists>u m. is_uuid u \<and> v = lock_value (redis_workerId q) u m)"
    using assms(1) by (auto simp: redis_value_ok_def)
  from q(2) show False
  proof
    assume "v = redis_workerId q"
    then show False using worker_only [of q p r] r(1) assms(2) q(1) by simp
  next
    assume "\<exists>u m. is_uuid u \<and> v = lock_value (redis_workerId q) u m"
    then obtain u m where u: "is_uuid u" "v = redis_workerId q @ CHR '':'' # u @ '':'' @ m"
      by (auto simp: lock_value_def)
    have req: "r = u @ '':'' @ m"
      using worker_split [of p r q "u @ '':'' @ m"] r(1) u(2) assms(2) q(1) by simp
    show False
    proof (cases "is_uuid k")
      case True then show False using uuid_never_starts [OF True u(1)] r(2) req by simp
    next
      case False
      then have k: "list_all token_char k" using assms(3) by (simp add: redis_token_def)
      then obtain t where "r = k @ CHR '':'' # t"
        using r(2) lua_starts_plain [of "k @ '':''" r] by (auto simp: list_token_plain lua_quantifier_def)
      then have "u = k"
        using colon_split [of u m k t] req uuid_split [OF u(1)] k by (metis append_Cons append_Nil list_token_no_colon)
      then show False using False u(1) by simp
    qed
  qed
qed

section \<open>What the Redis lock promises\<close>

lemma redis_lock_value_ok:
  "redis_proc_ok p \<Longrightarrow> is_uuid u \<Longrightarrow> redis_value_ok (lock_value (redis_workerId p) u m)"
  by (auto simp: redis_value_ok_def)

lemma redis_worker_value_ok: "redis_proc_ok p \<Longrightarrow> redis_value_ok (redis_workerId p)"
  by (auto simp: redis_value_ok_def)

text \<open>Every operation of the class keeps the values in shape.\<close>

lemma redis_values_ok_acquire:
  assumes "redis_values_ok s" "redis_proc_ok p" "is_uuid k"
  shows "redis_values_ok (snd (redis_tryLockWithFence um now ttl l p k s))"
  using assms redis_lock_value_ok [OF assms(2,3), of "snd um"]
  by (auto simp: redis_values_ok_def redis_op_defs split: option.splits if_splits)

lemma redis_values_ok_tryLock:
  assumes "redis_values_ok s" "redis_proc_ok p"
  shows "redis_values_ok (snd (redis_tryLock up now ttl l p s))"
  using assms redis_worker_value_ok [OF assms(2)]
  by (auto simp: redis_values_ok_def redis_tryLock_def LOCK_SCRIPT_def withRedis_def redis_get_def
      redis_set_px_def redis_pexpire_def apfst_def map_prod_def split: option.splits if_splits)

text \<open>A fenced Redis lock can be neither renewed nor released: whatever worker calls, with whatever
  token it can have, in every state the class itself has written, the renewal reports failure and
  the release deletes nothing. The lock ends by its time to live alone.\<close>

lemma redis_fence_no_effect:
  assumes "redis_values_ok s" "redis_proc_ok p" "redis_token k"
  shows "redis_renewLockWithFence um now ttl l p k s = (False, s) \<and>
         redis_unlockWithFence um now l p k s = s"
proof -
  have "\<not> lua_starts (redis_workerId p @ '':'' @ k @ '':'') v"
    if g: "redis_get now (redis_lock_key l) s = Some v" for v
  proof -
    obtain e where "s (redis_lock_key l) = Some (v, e)"
      using g by (auto simp: redis_get_def split: option.splits if_splits)
    then have "redis_value_ok v" using assms(1) unfolding redis_values_ok_def by blast
    from fence_never_matches [OF this assms(2,3)] show ?thesis .
  qed
  then show ?thesis
    by (auto simp: redis_renewLockWithFence_def redis_unlockWithFence_def withRedis_def
        FENCED_RENEW_SCRIPT_def FENCED_UNLOCK_SCRIPT_def apfst_def map_prod_def split: option.splits)
qed

abbreviation redis_witness_proc :: redis_proc where
  "redis_witness_proc \<equiv> \<lparr>rp_pid = ''71'', rp_rand = ''x9k2ab''\<rparr>"

abbreviation redis_witness_uuid :: string where
  "redis_witness_uuid \<equiv> ''0b0c1d2e-3f40-4152-8364-758697a8b9ca''"

lemma redis_witness_ok:
  "redis_proc_ok redis_witness_proc" "is_uuid redis_witness_uuid"
  by (simp_all add: redis_proc_ok_def token_char_def is_uuid_def upt_rec numeral_eq_Suc)

text \<open>Mutual exclusion holds by the time to live: from a grant until its expiry no call of another
  worker is granted, and the value stays.\<close>

lemma redis_holder_excludes:
  assumes "s (redis_lock_key l) = None" "0 < ttl" "redis_proc_ok p"
    and "redis_tryLockWithFence (True, m) now ttl l p k s = (res, s1)"
    and "\<forall>x\<in>set xs. op_lock x = l \<longrightarrow>
           op_time x \<le> now + ttl \<and> redis_sane (op_proc x) (op_token x) \<and>
           \<not> redis_mine l (op_proc x) (lock_value (redis_workerId p) k m)"
  shows "res = (True, Some k) \<and>
         True \<notin> set (reports_on l xs (fst (redis.run xs s1))) \<and>
         redis_lease (snd (redis.run xs s1)) l = Some (lock_value (redis_workerId p) k m, now + ttl)"
proof -
  have g: "res = (True, Some k)" "redis_lease s1 l = Some (lock_value (redis_workerId p) k m, now + ttl)"
    using assms(1,2,4) by (auto simp: redis_op_defs)
  from redis.lease_kept [OF g(2) assms(5)] g(1) show ?thesis by simp
qed

text \<open>A second fenced acquisition by the holder returns the process id as the token: the pattern
  takes the second field of \<open>worker:pid:random:token:metadata\<close>.\<close>

lemma takeWhile_no_colon:
  "CHR '':'' \<notin> set a \<Longrightarrow> takeWhile (\<lambda>c. c \<noteq> CHR '':'') (a @ CHR '':'' # r) = a"
  by (induction a) auto

lemma lua_second_field_worker:
  assumes "redis_proc_ok p"
  shows "lua_second_field (lock_value (redis_workerId p) k m) = Some (rp_pid p)"
proof -
  have c: "CHR '':'' \<notin> set (rp_pid p)" and n: "rp_pid p \<noteq> []"
    using assms by (auto simp: redis_proc_ok_def dest: list_token_no_colon)
  have v: "lock_value (redis_workerId p) k m =
      ''worker'' @ CHR '':'' # rp_pid p @ CHR '':'' # rp_rand p @ '':'' @ k @ '':'' @ m"
    by (simp add: lock_value_def redis_workerId_def)
  have t: "takeWhile (\<lambda>c. c \<noteq> CHR '':'') (lock_value (redis_workerId p) k m) = ''worker''"
    unfolding v by (rule takeWhile_no_colon) simp
  have d: "drop (length ''worker'' + 1) (lock_value (redis_workerId p) k m) =
      rp_pid p @ CHR '':'' # rp_rand p @ '':'' @ k @ '':'' @ m"
    unfolding v by simp
  show ?thesis
    unfolding lua_second_field_def Let_def t d takeWhile_no_colon [OF c] using n
    by (simp add: v)
qed

lemma redis_reacquire_returns_pid:
  assumes "redis_proc_ok p" "s (redis_lock_key l) = Some (lock_value (redis_workerId p) u m, e)" "now \<le> e"
  shows "fst (redis_tryLockWithFence (True, m') now ttl l p k s) = (True, Some (rp_pid p))"
proof -
  have "redis_mine l p (lock_value (redis_workerId p) u m)"
    by (simp add: redis_mine_def lock_value_def)
  with assms show ?thesis
    by (simp add: redis_tryLockWithFence_def withRedis_def FENCED_LOCK_SCRIPT_def redis_get_def
        lua_starts_worker [of p _ l, OF assms(1), simplified] lua_second_field_worker)
qed

end
