(* ===== verification/StageLocks.thy ===== *)
theory StageLocks
  imports RedisLock "HOL-Library.AList"
begin

text \<open>
  The users of the locks: \<open>CompositeLockProvider\<close> (\<open>providers/redis/composite-lock-provider.ts\<close>),
  the per-stage locks of the orchestrator with their heartbeats (\<open>pipeline/orchestrator.ts\<close>)
  and the fire-once lock of the scheduler (\<open>scheduler/scheduler-service.ts\<close>).

  A \<open>lock_provider\<close> is a record of operations on a state of its own; an operation that throws yields
  \<open>None\<close>. The result \<open>{ acquired, fenceToken }\<close> is the token, or \<open>None\<close> for a refusal: the lemmas
  \<open>*_token_iff\<close> show that every provider gives a token exactly when it grants.
\<close>

section \<open>Providers\<close>

record 's lock_provider =
  lp_tryLock :: "string \<Rightarrow> ms \<Rightarrow> 's \<Rightarrow> bool option \<times> 's"
  lp_renewLock :: "string \<Rightarrow> ms \<Rightarrow> 's \<Rightarrow> bool option \<times> 's"
  lp_unlock :: "string \<Rightarrow> 's \<Rightarrow> 's"
  lp_tryLockWithFence :: "string \<Rightarrow> ms \<Rightarrow> 's \<Rightarrow> string option option \<times> 's"
  lp_renewLockWithFence :: "string \<Rightarrow> ms \<Rightarrow> string \<Rightarrow> 's \<Rightarrow> bool option \<times> 's"
  lp_unlockWithFence :: "string \<Rightarrow> string \<Rightarrow> 's \<Rightarrow> 's"

lemma pg_token_iff: "pg_tryLockWithFence f now ttl l pid k t = ((b, x), t1) \<Longrightarrow> b \<longleftrightarrow> x \<noteq> None"
  by (auto simp: pg_tryLockWithFence_def Let_def split_beta split: if_splits option.splits; metis)

lemma pool_token_iff: "pool_tryLockWithFence f now ttl l pid k t = ((b, x), t1) \<Longrightarrow> b \<longleftrightarrow> x \<noteq> None"
  by (auto simp: pool_tryLockWithFence_def Let_def split_beta split: if_splits option.splits; metis)

lemma sqlite_token_iff:
  "sqlite_tryLockWithFence f db now ttl l p k s = ((b, x), s1) \<Longrightarrow> b \<longleftrightarrow> x \<noteq> None"
  by (auto simp: sqlite_tryLockWithFence_def acquireBothLocks_def Let_def split_beta
      split: if_splits option.splits; metis)

lemma redis_token_iff:
  "redis_tryLockWithFence um now ttl l p k s = ((b, x), s1) \<Longrightarrow> b \<longleftrightarrow> x \<noteq> None"
  by (auto simp: redis_tryLockWithFence_def split_beta apfst_def map_prod_def split: if_splits)

definition pg_provider :: "sql_fault \<Rightarrow> ms \<Rightarrow> string \<Rightarrow> string \<Rightarrow> lock_table lock_provider" where
  "pg_provider f now pid uuid =
     \<lparr>lp_tryLock = \<lambda>l ttl. apfst Some \<circ> pg_tryLock f now ttl l pid,
      lp_renewLock = \<lambda>l ttl. apfst Some \<circ> pg_renewLock f now ttl l pid,
      lp_unlock = \<lambda>l. pg_unlock f l pid,
      lp_tryLockWithFence = \<lambda>l ttl. apfst (Some \<circ> snd) \<circ> pg_tryLockWithFence f now ttl l pid uuid,
      lp_renewLockWithFence = \<lambda>l ttl k. apfst Some \<circ> pg_renewLockWithFence f now ttl l pid k,
      lp_unlockWithFence = \<lambda>l k. pg_unlockWithFence f l pid k\<rparr>"

definition redis_provider :: "bool \<Rightarrow> ms \<Rightarrow> redis_proc \<Rightarrow> string \<Rightarrow> string \<Rightarrow> redis lock_provider" where
  "redis_provider up now p uuid meta =
     \<lparr>lp_tryLock = \<lambda>l ttl. apfst Some \<circ> redis_tryLock up now ttl l p,
      lp_renewLock = \<lambda>l ttl. apfst Some \<circ> redis_renewLock up now ttl l p,
      lp_unlock = \<lambda>l. redis_unlock up now l p,
      lp_tryLockWithFence = \<lambda>l ttl. apfst (Some \<circ> snd) \<circ> redis_tryLockWithFence (up, meta) now ttl l p uuid,
      lp_renewLockWithFence = \<lambda>l ttl k. apfst Some \<circ> redis_renewLockWithFence (up, meta) now ttl l p k,
      lp_unlockWithFence = \<lambda>l k. redis_unlockWithFence (up, meta) now l p k\<rparr>"

section \<open>The composite provider\<close>

text \<open>\<open>#lockOwners\<close> maps a lock to the name of the provider that granted it, and \<open>lock:fence\<close> to the
  token. \<open>client\<close> is the Redis client, if there is one, and whether it is connected.\<close>

type_synonym lock_owners = "string \<rightharpoonup> string"

definition composite_startIndex :: "bool option \<Rightarrow> (string \<times> 's lock_provider) list \<Rightarrow> nat" where
  "composite_startIndex client ps =
     (if client = Some False \<and> 1 < length ps \<and> prefix ''Redis'' (fst (hd ps)) then 1 else 0)"

fun composite_try ::
  "(string \<times> 's lock_provider) list \<Rightarrow> string \<Rightarrow> ms \<Rightarrow> lock_owners \<Rightarrow> 's \<Rightarrow> bool \<times> lock_owners \<times> 's"
where
  "composite_try [] l ttl ow s = (False, ow, s)"
| "composite_try ((n, p) # ps) l ttl ow s =
     (case lp_tryLock p l ttl s of
        (Some True, s') \<Rightarrow> (True, ow(l \<mapsto> n), s')
      | (_, s') \<Rightarrow> composite_try ps l ttl ow s')"

definition composite_tryLock ::
  "bool option \<Rightarrow> (string \<times> 's lock_provider) list \<Rightarrow> string \<Rightarrow> ms \<Rightarrow> lock_owners \<Rightarrow> 's \<Rightarrow>
   bool \<times> lock_owners \<times> 's" where
  "composite_tryLock client ps l ttl ow s =
     composite_try (drop (composite_startIndex client ps) ps) l ttl ow s"

fun composite_tryFence ::
  "(string \<times> 's lock_provider) list \<Rightarrow> string \<Rightarrow> ms \<Rightarrow> lock_owners \<Rightarrow> 's \<Rightarrow>
   string option \<times> lock_owners \<times> 's"
where
  "composite_tryFence [] l ttl ow s = (None, ow, s)"
| "composite_tryFence ((n, p) # ps) l ttl ow s =
     (case lp_tryLockWithFence p l ttl s of
        (Some (Some k), s') \<Rightarrow> (Some k, ow(l \<mapsto> n, l @ '':fence'' \<mapsto> k), s')
      | (_, s') \<Rightarrow> composite_tryFence ps l ttl ow s')"

definition composite_tryLockWithFence ::
  "bool option \<Rightarrow> (string \<times> 's lock_provider) list \<Rightarrow> string \<Rightarrow> ms \<Rightarrow> lock_owners \<Rightarrow> 's \<Rightarrow>
   string option \<times> lock_owners \<times> 's" where
  "composite_tryLockWithFence client ps l ttl ow s =
     composite_tryFence (drop (composite_startIndex client ps) ps) l ttl ow s"

definition lock_owner :: "lock_owners \<Rightarrow> string \<Rightarrow> string option" where
  "lock_owner ow l = (case ow l of Some n \<Rightarrow> if n = '''' then None else Some n | None \<Rightarrow> None)"

definition findProvider :: "(string \<times> 's lock_provider) list \<Rightarrow> string \<Rightarrow> 's lock_provider option" where
  "findProvider ps n = map_option snd (find (\<lambda>np. fst np = n) ps)"

definition composite_renewLock ::
  "(string \<times> 's lock_provider) list \<Rightarrow> string \<Rightarrow> ms \<Rightarrow> lock_owners \<Rightarrow> 's \<Rightarrow> bool \<times> lock_owners \<times> 's" where
  "composite_renewLock ps l ttl ow s =
     (case lock_owner ow l of
        None \<Rightarrow> (False, ow, s)
      | Some n \<Rightarrow> (case findProvider ps n of
            None \<Rightarrow> (False, ow(l := None), s)
          | Some p \<Rightarrow> (case lp_renewLock p l ttl s of
                (r, s') \<Rightarrow> (case r of Some b \<Rightarrow> b | None \<Rightarrow> False, ow, s'))))"

definition composite_unlock ::
  "(string \<times> 's lock_provider) list \<Rightarrow> string \<Rightarrow> lock_owners \<Rightarrow> 's \<Rightarrow> lock_owners \<times> 's" where
  "composite_unlock ps l ow s =
     (case lock_owner ow l of
        None \<Rightarrow> (ow, s)
      | Some n \<Rightarrow> (ow(l := None),
                   case findProvider ps n of Some p \<Rightarrow> lp_unlock p l s | None \<Rightarrow> s))"

definition composite_renewLockWithFence ::
  "(string \<times> 's lock_provider) list \<Rightarrow> string \<Rightarrow> ms \<Rightarrow> string \<Rightarrow> lock_owners \<Rightarrow> 's \<Rightarrow>
   bool \<times> lock_owners \<times> 's" where
  "composite_renewLockWithFence ps l ttl k ow s =
     (case lock_owner ow l of
        None \<Rightarrow> (False, ow, s)
      | Some n \<Rightarrow> (case findProvider ps n of
            None \<Rightarrow> (False, ow(l := None), s)
          | Some p \<Rightarrow> (case lp_renewLockWithFence p l ttl k s of
                (r, s') \<Rightarrow> (case r of Some b \<Rightarrow> b | None \<Rightarrow> False, ow, s'))))"

definition composite_unlockWithFence ::
  "(string \<times> 's lock_provider) list \<Rightarrow> string \<Rightarrow> string \<Rightarrow> lock_owners \<Rightarrow> 's \<Rightarrow> lock_owners \<times> 's" where
  "composite_unlockWithFence ps l k ow s =
     (case lock_owner ow l of
        None \<Rightarrow> (ow, s)
      | Some n \<Rightarrow> (ow(l := None, l @ '':fence'' := None),
                   case findProvider ps n of Some p \<Rightarrow> lp_unlockWithFence p l k s | None \<Rightarrow> s))"

lemma findProvider_distinct:
  "distinct (map fst ps) \<Longrightarrow> (n, p) \<in> set ps \<Longrightarrow> findProvider ps n = Some p"
  by (induction ps) (auto simp: findProvider_def rev_image_eqI)

lemma composite_tryFence_Some:
  assumes "composite_tryFence ps l ttl ow s = (Some k, ow', s')"
  shows "\<exists>n p s0. (n, p) \<in> set ps \<and> lp_tryLockWithFence p l ttl s0 = (Some (Some k), s') \<and>
           ow' = ow(l \<mapsto> n, l @ '':fence'' \<mapsto> k)"
  using assms
proof (induction ps arbitrary: s)
  case Nil then show ?case by simp
next
  case (Cons np ps)
  obtain n p where np: "np = (n, p)" by fastforce
  obtain r s1 where r: "lp_tryLockWithFence p l ttl s = (r, s1)" by fastforce
  show ?case
  proof (cases "\<exists>k. r = Some (Some k)")
    case True
    then have "r = Some (Some k)" "s1 = s'" "ow' = ow(l \<mapsto> n, l @ '':fence'' \<mapsto> k)"
      using Cons.prems np r by auto
    then show ?thesis using r np
      by (metis list.set_intros(1))
  next
    case False
    then have "composite_tryFence ps l ttl ow s1 = (Some k, ow', s')"
      using Cons.prems np r by (auto split: option.splits)
    from Cons.IH [OF this] show ?thesis
      by (elim exE conjE, intro exI conjI) (rule list.set_intros(2), assumption+)
  qed
qed

text \<open>A fenced grant is renewed and released at the provider that gave it, whichever that was.\<close>

lemma composite_routes:
  assumes "distinct (map fst ps)" "'''' \<notin> fst ` set ps"
    and "composite_tryLockWithFence client ps l ttl ow s = (Some k, ow', s')"
  shows "\<exists>n p s0. (n, p) \<in> set ps \<and> lp_tryLockWithFence p l ttl s0 = (Some (Some k), s') \<and>
     composite_renewLockWithFence ps l ttl' k' ow' t =
       (case lp_renewLockWithFence p l ttl' k' t of (r, t') \<Rightarrow> (r = Some True, ow', t')) \<and>
     composite_unlockWithFence ps l k' ow' t = (ow'(l := None, l @ '':fence'' := None), lp_unlockWithFence p l k' t)"
proof -
  obtain n p s0 where np: "(n, p) \<in> set (drop (composite_startIndex client ps) ps)"
    "lp_tryLockWithFence p l ttl s0 = (Some (Some k), s')" "ow' = ow(l \<mapsto> n, l @ '':fence'' \<mapsto> k)"
    using composite_tryFence_Some [OF assms(3) [unfolded composite_tryLockWithFence_def]]
    by (elim exE conjE)
  then have m: "(n, p) \<in> set ps" using in_set_dropD by fast
  then have "n \<noteq> ''''" using assms(2) by force
  then have o: "lock_owner ow' l = Some n" by (simp add: lock_owner_def np(3))
  have f: "findProvider ps n = Some p" by (rule findProvider_distinct [OF assms(1) m])
  show ?thesis
  proof (intro exI conjI)
    show "(n, p) \<in> set ps" "lp_tryLockWithFence p l ttl s0 = (Some (Some k), s')" by fact+
    show "composite_renewLockWithFence ps l ttl' k' ow' t =
       (case lp_renewLockWithFence p l ttl' k' t of (r, t') \<Rightarrow> (r = Some True, ow', t'))"
      by (auto simp: composite_renewLockWithFence_def o f split: prod.splits option.splits)
    show "composite_unlockWithFence ps l k' ow' t =
        (ow'(l := None, l @ '':fence'' := None), lp_unlockWithFence p l k' t)"
      by (simp add: composite_unlockWithFence_def o f)
  qed
qed

text \<open>A provider that refuses because somebody holds the lock is passed over like one that fails, so
  the next provider may grant the same lock a second time.\<close>

lemma composite_refusal_falls_through:
  assumes "lp_tryLock p l ttl s = (Some False, s1)" "lp_tryLock q l ttl s1 = (Some True, s2)"
  shows "composite_tryLock (Some True) [(n, p), (m, q)] l ttl ow s = (True, ow(l \<mapsto> m), s2)"
  using assms by (simp add: composite_tryLock_def composite_startIndex_def)

section \<open>The orchestrator's stage locks\<close>

text \<open>The maps \<open>#stageLocks\<close> (in insertion order), \<open>#heartbeatTimers\<close> (what the timer's closure
  captured) and \<open>#heartbeatFailures\<close>, keyed by \<open>runId:stage\<close>; which runs' controllers have been
  aborted; and the state of the lock provider. A controller is named by its run.\<close>

record lock_info =
  li_controller :: string
  li_fence :: string

record stage_beat =
  hb_run :: string
  hb_stage :: string
  hb_tenant :: string
  hb_fence :: string

record 's stage_state =
  stageLocks :: "(string \<times> lock_info) list"
  heartbeatTimers :: "string \<rightharpoonup> stage_beat"
  heartbeatFailures :: "string \<rightharpoonup> nat"
  aborted_runs :: "string list"
  lock_world :: 's

definition stage_key :: "string \<Rightarrow> string \<Rightarrow> string" where
  "stage_key run stage = run @ '':'' @ stage"

definition pipelineStageLockKey :: "string \<Rightarrow> string \<Rightarrow> string \<Rightarrow> string" where
  "pipelineStageLockKey tenant stage run = ''pipeline:'' @ tenant @ '':'' @ stage @ '':'' @ run"

definition startStageHeartbeat ::
  "string \<Rightarrow> string \<Rightarrow> string \<Rightarrow> string \<Rightarrow> 's stage_state \<Rightarrow> 's stage_state" where
  "startStageHeartbeat run stage tenant fence st =
     (let key = stage_key run stage in
      if heartbeatTimers st key \<noteq> None then st
      else st\<lparr>heartbeatFailures := (heartbeatFailures st)(key \<mapsto> 0),
              heartbeatTimers := (heartbeatTimers st)(key \<mapsto>
                \<lparr>hb_run = run, hb_stage = stage, hb_tenant = tenant, hb_fence = fence\<rparr>)\<rparr>)"

text \<open>One firing of a timer.\<close>

definition heartbeat_tick ::
  "'s lock_provider option \<Rightarrow> ms \<Rightarrow> string \<Rightarrow> 's stage_state \<Rightarrow> 's stage_state" where
  "heartbeat_tick lock ttl key st =
     (case heartbeatTimers st key of
        None \<Rightarrow> st
      | Some h \<Rightarrow> (case lock of
            None \<Rightarrow> st
          | Some p \<Rightarrow>
              (let failures = (case heartbeatFailures st key of Some n \<Rightarrow> n | None \<Rightarrow> 0);
                   (r, w) = lp_renewLockWithFence p
                     (pipelineStageLockKey (hb_tenant h) (hb_stage h) (hb_run h)) ttl (hb_fence h)
                     (lock_world st);
                   n = (if r = Some True then 0 else failures + 1)
               in st\<lparr>lock_world := w, heartbeatFailures := (heartbeatFailures st)(key \<mapsto> n),
                     aborted_runs := (case map_of (stageLocks st) key of
                        Some i \<Rightarrow> if r \<noteq> Some True \<and> 3 \<le> n then li_controller i # aborted_runs st
                                  else aborted_runs st
                      | None \<Rightarrow> aborted_runs st)\<rparr>)))"

definition stopStageHeartbeat :: "string \<Rightarrow> string \<Rightarrow> 's stage_state \<Rightarrow> 's stage_state" where
  "stopStageHeartbeat run stage st =
     st\<lparr>heartbeatTimers := (heartbeatTimers st)(stage_key run stage := None),
        heartbeatFailures := (heartbeatFailures st)(stage_key run stage := None)\<rparr>"

definition stopAllHeartbeats :: "'s stage_state \<Rightarrow> 's stage_state" where
  "stopAllHeartbeats st = st\<lparr>heartbeatTimers := Map.empty, heartbeatFailures := Map.empty\<rparr>"

text \<open>The result is the token, or \<open>None\<close> where the call throws: the lock is refused, or the provider
  itself throws. Without a lock provider the token is empty.\<close>

definition acquireStageLock ::
  "'s lock_provider option \<Rightarrow> ms \<Rightarrow> string \<Rightarrow> string \<Rightarrow> string \<Rightarrow> string \<Rightarrow> 's stage_state \<Rightarrow>
   string option \<times> 's stage_state" where
  "acquireStageLock lock ttl run stage tenant ctl st =
     (case lock of
        None \<Rightarrow> (Some '''', st)
      | Some p \<Rightarrow>
          (let (r, w) = lp_tryLockWithFence p (pipelineStageLockKey tenant stage run) ttl (lock_world st);
               st1 = st\<lparr>lock_world := w\<rparr>
           in case r of
                Some (Some k) \<Rightarrow>
                  (Some k, startStageHeartbeat run stage tenant k
                     (st1\<lparr>stageLocks := AList.update (stage_key run stage)
                        \<lparr>li_controller = ctl, li_fence = k\<rparr> (stageLocks st)\<rparr>))
              | _ \<Rightarrow> (None, st1)))"

definition releaseStageLock ::
  "'s lock_provider option \<Rightarrow> string \<Rightarrow> string \<Rightarrow> string \<Rightarrow> 's stage_state \<Rightarrow> 's stage_state" where
  "releaseStageLock lock run stage tenant st =
     (case lock of
        None \<Rightarrow> st
      | Some p \<Rightarrow> (case map_of (stageLocks st) (stage_key run stage) of
            None \<Rightarrow> st
          | Some i \<Rightarrow>
              (let st1 = stopStageHeartbeat run stage st
               in st1\<lparr>lock_world := lp_unlockWithFence p (pipelineStageLockKey tenant stage run)
                                      (li_fence i) (lock_world st1),
                      stageLocks := AList.delete (stage_key run stage) (stageLocks st1)\<rparr>)))"

text \<open>\<open>lockKey.split(':')[1] ?? 'unknown'\<close>.\<close>

definition stage_of_key :: "string \<Rightarrow> string" where
  "stage_of_key key =
     (let r = dropWhile (\<lambda>c. c \<noteq> CHR '':'') key
      in if r = [] then ''unknown'' else takeWhile (\<lambda>c. c \<noteq> CHR '':'') (tl r))"

definition cleanupAllStageLocks ::
  "'s lock_provider option \<Rightarrow> string \<Rightarrow> string \<Rightarrow> 's stage_state \<Rightarrow> 's stage_state" where
  "cleanupAllStageLocks lock tenant run st =
     (let st1 = stopAllHeartbeats st in
      case lock of
        None \<Rightarrow> st1
      | Some p \<Rightarrow>
          st1\<lparr>lock_world := fold (\<lambda>(key, i). lp_unlockWithFence p
                 (pipelineStageLockKey tenant (stage_of_key key) run) (li_fence i))
                 (stageLocks st1) (lock_world st1),
              stageLocks := []\<rparr>)"

lemmas stage_lock_defs = acquireStageLock_def releaseStageLock_def startStageHeartbeat_def
  stopStageHeartbeat_def heartbeat_tick_def

section \<open>The heartbeat\<close>

text \<open>The firings of one timer, with the provider as it is at each firing, and which of the
  renewals succeeded.\<close>

fun heartbeat_run ::
  "'s lock_provider list \<Rightarrow> ms \<Rightarrow> string \<Rightarrow> 's stage_state \<Rightarrow> bool list \<times> 's stage_state" where
  "heartbeat_run [] ttl key st = ([], st)"
| "heartbeat_run (p # ps) ttl key st =
     (let st1 = heartbeat_tick (Some p) ttl key st;
          (bs, st2) = heartbeat_run ps ttl key st1
      in ((heartbeatFailures st1 key = Some 0) # bs, st2))"

fun three_failures :: "nat \<Rightarrow> bool list \<Rightarrow> bool" where
  "three_failures n [] = False"
| "three_failures n (True # bs) = three_failures 0 bs"
| "three_failures n (False # bs) = (2 \<le> n \<or> three_failures (n + 1) bs)"

lemma sublist_FFF_step:
  "sublist [False, False, False] (True # bs) \<longleftrightarrow> sublist [False, False, False] bs"
  by (simp add: sublist_Cons_right)

lemma three_failures_sublist:
  "n \<le> 2 \<Longrightarrow> three_failures n bs \<longleftrightarrow> sublist [False, False, False] (replicate n False @ bs)"
proof (induction n bs rule: three_failures.induct)
  case (1 n)
  then consider "n = 0" | "n = 1" | "n = 2" by linarith
  then show ?case by cases (simp_all add: sublist_Cons_right numeral_2_eq_2)
next
  case (2 n bs)
  then consider "n = 0" | "n = 1" | "n = 2" by linarith
  then show ?case using 2
    by cases (simp_all add: sublist_Cons_right numeral_2_eq_2)
next
  case (3 n bs)
  show ?case
  proof (cases "n = 2")
    case True
    have "sublist [False, False, False] (replicate n False @ False # bs)"
      unfolding True numeral_2_eq_2 by (simp add: sublist_Cons_right)
    with True show ?thesis by simp
  next
    case False
    with 3 have "n + 1 \<le> 2" by simp
    with 3 False show ?thesis by (simp add: replicate_app_Cons_same)
  qed
qed

lemma heartbeat_tick_fields:
  assumes "heartbeatTimers st key = Some h" "heartbeatFailures st key = Some n"
    and "map_of (stageLocks st) key = Some i"
  shows "heartbeatTimers (heartbeat_tick (Some p) ttl key st) key = Some h"
    "map_of (stageLocks (heartbeat_tick (Some p) ttl key st)) key = Some i"
    "heartbeatFailures (heartbeat_tick (Some p) ttl key st) key = Some 0
       \<and> aborted_runs (heartbeat_tick (Some p) ttl key st) = aborted_runs st
     \<or> heartbeatFailures (heartbeat_tick (Some p) ttl key st) key = Some (n + 1)
       \<and> aborted_runs (heartbeat_tick (Some p) ttl key st) =
           (if 2 \<le> n then [li_controller i] else []) @ aborted_runs st"
  using assms by (auto simp: heartbeat_tick_def Let_def split_beta)

lemma heartbeat_run_aborts:
  assumes "heartbeatTimers st key = Some h" "heartbeatFailures st key = Some n"
    and "map_of (stageLocks st) key = Some i"
  shows "li_controller i \<in> set (aborted_runs (snd (heartbeat_run ps ttl key st))) \<longleftrightarrow>
         li_controller i \<in> set (aborted_runs st) \<or> three_failures n (fst (heartbeat_run ps ttl key st))"
  using assms
proof (induction ps arbitrary: st n)
  case Nil then show ?case by simp
next
  case (Cons p ps)
  let ?st = "heartbeat_tick (Some p) ttl key st"
  note f = heartbeat_tick_fields [OF Cons.prems, of p ttl]
  from f(3) show ?case
  proof
    assume "heartbeatFailures ?st key = Some 0 \<and> aborted_runs ?st = aborted_runs st"
    then show ?thesis using Cons.IH [OF f(1) _ f(2), of 0] by (simp add: split_beta Let_def)
  next
    assume "heartbeatFailures ?st key = Some (n + 1) \<and>
      aborted_runs ?st = (if 2 \<le> n then [li_controller i] else []) @ aborted_runs st"
    then show ?thesis using Cons.IH [OF f(1) _ f(2), of "n + 1"] by (auto simp: split_beta Let_def)
  qed
qed

lemma acquireStageLock_started:
  assumes "acquireStageLock (Some p) ttl run stage tenant ctl st = (Some k, st1)"
    and "heartbeatTimers st (stage_key run stage) = None"
  shows "heartbeatTimers st1 (stage_key run stage) =
           Some \<lparr>hb_run = run, hb_stage = stage, hb_tenant = tenant, hb_fence = k\<rparr>"
    "heartbeatFailures st1 (stage_key run stage) = Some 0"
    "map_of (stageLocks st1) (stage_key run stage) = Some \<lparr>li_controller = ctl, li_fence = k\<rparr>"
    "aborted_runs st1 = aborted_runs st"
    "lp_tryLockWithFence p (pipelineStageLockKey tenant stage run) ttl (lock_world st) =
       (Some (Some k), lock_world st1)"
  using assms
  by (auto simp: acquireStageLock_def startStageHeartbeat_def Let_def update_conv'
      split: prod.splits option.splits)



text \<open>What a Redis provider grants is a token in the sense of \<open>redis_token\<close>.\<close>

lemma lua_second_field_pid:
  assumes "redis_proc_ok q"
  shows "lua_second_field (redis_workerId q) = Some (rp_pid q)"
proof -
  have c: "CHR '':'' \<notin> set (rp_pid q)" and n: "rp_pid q \<noteq> []"
    using assms by (auto simp: redis_proc_ok_def dest: list_token_no_colon)
  have t: "takeWhile (\<lambda>c. c \<noteq> CHR '':'') (redis_workerId q) = ''worker''"
    by (simp add: redis_workerId_def)
  have d: "drop (length ''worker'' + 1) (redis_workerId q) = rp_pid q @ CHR '':'' # rp_rand q"
    by (simp add: redis_workerId_def)
  show ?thesis
    unfolding lua_second_field_def Let_def t d takeWhile_no_colon [OF c] using n
    by (simp add: redis_workerId_def)
qed

lemma redis_value_second_field:
  "redis_value_ok v \<Longrightarrow> \<exists>q. redis_proc_ok q \<and> lua_second_field v = Some (rp_pid q)"
  unfolding redis_value_ok_def using lua_second_field_pid lua_second_field_worker by blast

lemma redis_grant_token:
  assumes "redis_values_ok s" "is_uuid u"
    and "redis_tryLockWithFence (up, m) now ttl l p u s = ((b, Some k), s1)"
  shows "redis_token k"
proof (cases "redis_get now (redis_lock_key l) s")
  case None
  then have "k = u"
    using assms(3) by (auto simp: redis_tryLockWithFence_def withRedis_def FENCED_LOCK_SCRIPT_def
        redis_set_px_def apfst_def map_prod_def split: if_splits)
  then show ?thesis using assms(2) by (simp add: redis_token_def)
next
  case (Some v)
  then obtain e where "s (redis_lock_key l) = Some (v, e)"
    by (auto simp: redis_get_def split: option.splits if_splits)
  then have "redis_value_ok v" using assms(1) unfolding redis_values_ok_def by blast
  then obtain q where q: "redis_proc_ok q" "lua_second_field v = Some (rp_pid q)"
    using redis_value_second_field by blast
  then have "k = rp_pid q"
    using Some assms(3) by (auto simp: redis_tryLockWithFence_def withRedis_def FENCED_LOCK_SCRIPT_def
        apfst_def map_prod_def split: if_splits)
  then show ?thesis using q(1) by (simp add: redis_token_def redis_proc_ok_def)
qed

lemma redis_heartbeat_fails:
  assumes "redis_values_ok (lock_world st)" "redis_proc_ok p" "redis_token k"
    and "heartbeatTimers st key = Some h" "hb_fence h = k" "heartbeatFailures st key = Some n"
    and "map_of (stageLocks st) key = Some i"
  shows "fst (heartbeat_run (map (\<lambda>(up, now, m). redis_provider up now p u m) ts) ttl key st) =
      replicate (length ts) False"
  using assms
proof (induction ts arbitrary: st n)
  case Nil then show ?case by simp
next
  case (Cons t ts)
  obtain up now m where t: "t = (up, now, m)" by (cases t)
  let ?p = "redis_provider up now p u m"
  let ?st = "heartbeat_tick (Some ?p) ttl key st"
  have r: "redis_renewLockWithFence (up, m) now ttl l p k (lock_world st) = (False, lock_world st)" for l
    using redis_fence_no_effect [OF Cons.prems(1,2,3)] by blast
  have st: "lock_world ?st = lock_world st" "heartbeatTimers ?st key = Some h"
    "heartbeatFailures ?st key = Some (n + 1)" "map_of (stageLocks ?st) key = Some i"
    using Cons.prems r by (simp_all add: heartbeat_tick_def redis_provider_def Let_def)
  from Cons.IH [of ?st "n + 1"] Cons.prems(1-3,5) st show ?case by (simp add: t split_beta Let_def)
qed

lemma three_failures_replicate: "3 \<le> m \<Longrightarrow> three_failures 0 (replicate m False)"
proof -
  assume "3 \<le> m"
  then obtain j where "m = 3 + j" using le_Suc_ex by blast
  then show ?thesis by (simp add: numeral_3_eq_3)
qed

text \<open>With the Redis provider a stage that outlives three heartbeats (90 seconds at the default
  interval, while the lock is meant to be renewed for as long as the stage needs) always aborts
  its own run: once the stage lock has been granted, whether Redis is reachable at the firings
  or not, and whatever metadata they send.\<close>

theorem redis_stage_aborts_itself:
  assumes "redis_values_ok (lock_world st)" "redis_proc_ok p" "is_uuid u"
    and "acquireStageLock (Some (redis_provider up now p u m)) ttl run stage tenant ctl st = (Some k, st1)"
    and "heartbeatTimers st (stage_key run stage) = None" "3 \<le> length ts"
  shows "ctl \<in> set (aborted_runs (snd (heartbeat_run
           (map (\<lambda>(up, now, m). redis_provider up now p u m) ts) ttl (stage_key run stage) st1)))"
proof -
  let ?s = "stage_key run stage"
  note st1 = acquireStageLock_started [OF assms(4,5)]
  obtain b x w where e: "redis_tryLockWithFence (up, m) now ttl (pipelineStageLockKey tenant stage run) p u
      (lock_world st) = ((b, x), w)" by (metis prod.exhaust_sel)
  then have acq: "redis_tryLockWithFence (up, m) now ttl (pipelineStageLockKey tenant stage run) p u
      (lock_world st) = ((b, Some k), lock_world st1)"
    using st1(5) by (simp add: redis_provider_def)
  have "redis_values_ok (lock_world st1)"
    using redis_values_ok_acquire [OF assms(1-3), of "(up, m)" now ttl "pipelineStageLockKey tenant stage run"] acq
    by simp
  from redis_heartbeat_fails [OF this assms(2) redis_grant_token [OF assms(1,3) acq] st1(1) _ st1(2,3)]
  have "fst (heartbeat_run (map (\<lambda>(up, now, m). redis_provider up now p u m) ts) ttl ?s st1) =
      replicate (length ts) False" by simp
  then show ?thesis
    using heartbeat_run_aborts [OF st1(1-3), of "map (\<lambda>(up, now, m). redis_provider up now p u m) ts" ttl]
      three_failures_replicate [OF assms(6)] by simp
qed

theorem redis_stage_aborts_itself_witness:
  "let st = \<lparr>stageLocks = [], heartbeatTimers = Map.empty, heartbeatFailures = Map.empty,
             aborted_runs = [], lock_world = Map.empty\<rparr>;
       P = (\<lambda>up now m. redis_provider up now redis_witness_proc redis_witness_uuid m)
   in ''run-1'' \<in> set (aborted_runs (snd (heartbeat_run
        (map (\<lambda>(up, now, m). P up now m) [(True, 30000, ''{}''), (True, 60000, ''{}''), (False, 90000, ''{}'')])
        120000 (stage_key ''run-1'' ''Scoring'')
        (snd (acquireStageLock (Some (P True 0 ''{}'')) 120000 ''run-1'' ''Scoring'' ''default'' ''run-1'' st)))))"
proof -
  let ?st = "\<lparr>stageLocks = [], heartbeatTimers = Map.empty, heartbeatFailures = Map.empty,
             aborted_runs = [], lock_world = Map.empty\<rparr> :: redis stage_state"
  let ?a = "acquireStageLock (Some (redis_provider True 0 redis_witness_proc redis_witness_uuid ''{}''))
     120000 ''run-1'' ''Scoring'' ''default'' ''run-1'' ?st"
  have "?a = (Some redis_witness_uuid, snd ?a)"
    by (simp add: acquireStageLock_def redis_provider_def redis_op_defs)
  from redis_stage_aborts_itself [OF _ redis_witness_ok this, of "[(True, 30000, ''{}''), (True, 60000, ''{}''), (False, 90000, ''{}'')]"]
  show ?thesis by (simp add: redis_values_ok_def del: heartbeat_run.simps)
qed

section \<open>Exclusion between stages, release and cleanup\<close>

text \<open>Two instances never work on the same stage of the same run: while the stage lock that one
  process holds on Postgres is live, an attempt of any process with another id throws, whatever
  its database connection does, and leaves the holder's row in place.\<close>

theorem stage_lock_excludes:
  assumes "acquireStageLock (Some (pg_provider None now pid k)) ttl run stage tenant ctl st = (Some k, st1)"
    and "lock_world st (pipelineStageLockKey tenant stage run) = None"
    and "now' \<le> now + ttl" "pid' \<noteq> pid" "lock_world st' = lock_world st1"
  shows "fst (acquireStageLock (Some (pg_provider f now' pid' k')) ttl' run stage tenant ctl' st') = None \<and>
     lock_world (snd (acquireStageLock (Some (pg_provider f now' pid' k')) ttl' run stage tenant ctl' st'))
       (pipelineStageLockKey tenant stage run) = lock_world st1 (pipelineStageLockKey tenant stage run)"
proof -
  let ?l = "pipelineStageLockKey tenant stage run"
  have row: "lock_world st1 ?l =
      Some \<lparr>expires_at = now + ttl, worker_id = pg_workerId ?l pid, fence_token = Some k\<rparr>"
    using assms(1,2)
    by (auto simp: acquireStageLock_def pg_provider_def pg_tryLockWithFence_def lock_sql_defs
        startStageHeartbeat_def Let_def split: if_splits)
  then show ?thesis
    using assms(3-5)
    by (auto simp: acquireStageLock_def pg_provider_def pg_tryLockWithFence_def lock_sql_defs Let_def)
qed

theorem stage_lock_excludes_witness:
  "let st = \<lparr>stageLocks = [], heartbeatTimers = Map.empty, heartbeatFailures = Map.empty,
             aborted_runs = [], lock_world = Map.empty\<rparr>
   in fst (acquireStageLock (Some (pg_provider None 60000 ''8'' ''u'')) 120000 ''run-1'' ''Scoring'' ''default'' ''run-1''
        (snd (acquireStageLock (Some (pg_provider None 0 ''7'' ''k'')) 120000 ''run-1'' ''Scoring'' ''default'' ''run-1'' st)))
      = None"
proof -
  let ?st = "\<lparr>stageLocks = [], heartbeatTimers = Map.empty, heartbeatFailures = Map.empty,
             aborted_runs = [], lock_world = Map.empty\<rparr> :: lock_table stage_state"
  let ?a = "acquireStageLock (Some (pg_provider None 0 ''7'' ''k'')) 120000 ''run-1'' ''Scoring'' ''default'' ''run-1'' ?st"
  have a: "?a = (Some ''k'', snd ?a)"
    by (simp add: acquireStageLock_def pg_provider_def pg_tryLockWithFence_def lock_sql_defs)
  from stage_lock_excludes [OF a, of 60000 "''8''" "snd ?a"] show ?thesis by simp
qed

text \<open>A stage that acquires and releases its lock leaves no trace: the row is gone, and the
  bookkeeping of the orchestrator is as it was.\<close>

lemma stage_lock_roundtrip:
  assumes "acquireStageLock (Some (pg_provider None now pid k)) ttl run stage tenant ctl st = (Some k, st1)"
    and "lock_world st (pipelineStageLockKey tenant stage run) = None"
    and "heartbeatTimers st (stage_key run stage) = None"
    and "heartbeatFailures st (stage_key run stage) = None"
    and "stage_key run stage \<notin> fst ` set (stageLocks st)"
  shows "releaseStageLock (Some (pg_provider None now' pid k')) run stage tenant st1 = st"
proof -
  let ?l = "pipelineStageLockKey tenant stage run" and ?s = "stage_key run stage"
  have w: "lock_world st1 = (lock_world st)(?l \<mapsto>
      \<lparr>expires_at = now + ttl, worker_id = pg_workerId ?l pid, fence_token = Some k\<rparr>)"
    using assms(1,2)
    by (auto simp: acquireStageLock_def pg_provider_def pg_tryLockWithFence_def lock_sql_defs
        startStageHeartbeat_def Let_def split: if_splits)
  have s: "stageLocks st1 = AList.update ?s \<lparr>li_controller = ctl, li_fence = k\<rparr> (stageLocks st)"
    and t: "heartbeatTimers st1 = (heartbeatTimers st)(?s \<mapsto>
      \<lparr>hb_run = run, hb_stage = stage, hb_tenant = tenant, hb_fence = k\<rparr>)"
    and f: "heartbeatFailures st1 = (heartbeatFailures st)(?s \<mapsto> 0)"
    and a: "aborted_runs st1 = aborted_runs st"
    using assms(1,3)
    by (auto simp: acquireStageLock_def startStageHeartbeat_def Let_def split: prod.splits option.splits)
  have d: "AList.delete ?s (AList.update ?s i xs) = xs" if "?s \<notin> fst ` set xs" for i and xs :: "(string \<times> lock_info) list"
    using that by (induction xs) (auto simp: AList.delete_eq)
  have u: "pg_unlockWithFence None ?l pid k (lock_world st1) = lock_world st"
    using w assms(2) by (auto simp: pg_unlockWithFence_def delete_lock_def)
  have "map_of (stageLocks st1) ?s = Some \<lparr>li_controller = ctl, li_fence = k\<rparr>"
    by (simp add: s update_conv')
  then show ?thesis
    using d [OF assms(5)] u assms(3,4)
    by (simp add: releaseStageLock_def stopStageHeartbeat_def pg_provider_def s t f a Let_def
        fun_upd_idem)
qed

text \<open>The cleanup at the end of one run stops the heartbeats of every run and forgets every lock, so
  a concurrent run of the same process renews nothing any more and its release does nothing.\<close>

lemma cleanup_forgets_all:
  assumes "cleanupAllStageLocks (Some p) tenant run st = st1"
  shows "heartbeatTimers st1 = Map.empty" "stageLocks st1 = []"
    "heartbeat_tick lock ttl key st1 = st1" "releaseStageLock lock run' stage tenant' st1 = st1"
  using assms by (auto simp: cleanupAllStageLocks_def stopAllHeartbeats_def Let_def
      heartbeat_tick_def releaseStageLock_def split: option.splits)

section \<open>The scheduler's fire-once lock\<close>

text \<open>\<open>slot\<close> is the first 16 characters of the ISO time of the fire. \<open>#runScheduled\<close> takes the lock
  without a token and never releases it; a replica that is refused skips the job.\<close>

definition CRON_FIRE_LOCK_TTL_MS :: ms where
  "CRON_FIRE_LOCK_TTL_MS = 10 * 60000"

definition cronFireSlotLockName :: "string \<Rightarrow> string \<Rightarrow> string" where
  "cronFireSlotLockName job slot = ''scheduler:fire:'' @ job @ '':'' @ slot"

definition runScheduled :: "'s lock_provider option \<Rightarrow> string \<Rightarrow> string \<Rightarrow> 's \<Rightarrow> bool option \<times> 's" where
  "runScheduled lock job slot s =
     (case lock of
        None \<Rightarrow> (Some True, s)
      | Some p \<Rightarrow> lp_tryLock p (cronFireSlotLockName job slot) CRON_FIRE_LOCK_TTL_MS s)"

text \<open>The replicas that fire the same slot, one after the other: which of them execute the job.\<close>

fun fire_replicas ::
  "'s lock_provider list \<Rightarrow> string \<Rightarrow> string \<Rightarrow> 's \<Rightarrow> bool list \<times> 's" where
  "fire_replicas [] job slot s = ([], s)"
| "fire_replicas (p # ps) job slot s =
     (let (r, s1) = runScheduled (Some p) job slot s; (bs, s2) = fire_replicas ps job slot s1
      in ((r = Some True) # bs, s2))"

lemma pg_tryLock_refused:
  assumes "t l = Some r" "now \<le> expires_at r"
  shows "pg_tryLock f now ttl l pid t = (False, t)"
  using assms by (auto simp: pg_tryLock_def lock_sql_defs Let_def)

lemma fire_replicas_refused:
  assumes "t (cronFireSlotLockName job slot) = Some r" "\<forall>(f, now, pid)\<in>set rs. now \<le> expires_at r"
  shows "fst (fire_replicas (map (\<lambda>(f, now, pid). pg_provider f now pid u) rs) job slot t) =
         replicate (length rs) False"
  using assms
  by (induction rs) (auto simp: runScheduled_def pg_provider_def pg_tryLock_refused split_beta)

text \<open>A cron slot fires exactly once: of all the scheduler replicas that reach it within the ten
  minutes of the lock, on whatever hosts and with whatever process ids, the first one whose
  database answers executes the job and every later one skips it.\<close>

theorem cron_slot_fires_once:
  assumes "t (cronFireSlotLockName job slot) = None"
    and "\<forall>(f, now', pid')\<in>set rs. now' \<le> now + 600000"
  shows "fst (fire_replicas (map (\<lambda>(f, now, pid). pg_provider f now pid u) ((None, now, pid) # rs)) job slot t) =
         True # replicate (length rs) False"
proof -
  have "pg_tryLock None now CRON_FIRE_LOCK_TTL_MS (cronFireSlotLockName job slot) pid t =
      (True, t(cronFireSlotLockName job slot \<mapsto>
        \<lparr>expires_at = now + 600000, worker_id = pg_workerId (cronFireSlotLockName job slot) pid,
         fence_token = None\<rparr>))"
    using assms(1) by (simp add: pg_tryLock_def lock_sql_defs CRON_FIRE_LOCK_TTL_MS_def)
  then show ?thesis
    using fire_replicas_refused [of "t(cronFireSlotLockName job slot \<mapsto>
        \<lparr>expires_at = now + 600000, worker_id = pg_workerId (cronFireSlotLockName job slot) pid,
         fence_token = None\<rparr>)" job slot _ rs u] assms(2)
    by (simp add: runScheduled_def pg_provider_def split_beta)
qed

theorem cron_slot_fires_once_witness:
  "fst (fire_replicas (map (\<lambda>(f, now, pid). pg_provider f now pid ''u'')
     [(None, 0, ''1''), (None, 20, ''1''), (Some 1, 500, ''2''), (None, 59000, ''3'')])
     ''renewals'' ''2025-01-01T00:00'' Map.empty) = [True, False, False, False]"
  using cron_slot_fires_once [of Map.empty "''renewals''" "''2025-01-01T00:00''"
      "[(None, 20, ''1''), (Some 1, 500, ''2''), (None, 59000, ''3'')]" 0 "''u''" "''1''"]
  by (simp add: numeral_3_eq_3 del: fire_replicas.simps)

end
