(* ===== verification/CircuitBreaker.thy ===== *)
theory CircuitBreaker
  imports Prelude
begin

text \<open>
  The in-memory circuit breaker of \<open>src/providers/circuit-breaker.ts\<close>: its policy and
  state records, the operations \<open>allow\<close>, \<open>onSuccess\<close>, \<open>onFailure\<close>, \<open>reset\<close> and the two
  persistence methods, with the clock reading of each call as an argument. The interface
  \<open>ICircuitBreaker\<close> is the locale \<open>circuit_breaker\<close>; the class interprets it.
\<close>

section \<open>State and operations\<close>

record breaker_policy =
  failureThreshold :: int
  windowMs :: ms
  cooldownMs :: ms

definition DEFAULT_CIRCUIT_BREAKER :: breaker_policy where
  "DEFAULT_CIRCUIT_BREAKER = \<lparr>failureThreshold = 5, windowMs = 60000, cooldownMs = 120000\<rparr>"

definition USPTO_CIRCUIT_BREAKER :: breaker_policy where
  "USPTO_CIRCUIT_BREAKER = \<lparr>failureThreshold = 3, windowMs = 30000, cooldownMs = 60000\<rparr>"

definition EUIPO_CIRCUIT_BREAKER :: breaker_policy where
  "EUIPO_CIRCUIT_BREAKER = \<lparr>failureThreshold = 4, windowMs = 60000, cooldownMs = 120000\<rparr>"

definition RDAP_CIRCUIT_BREAKER :: breaker_policy where
  "RDAP_CIRCUIT_BREAKER = \<lparr>failureThreshold = 10, windowMs = 60000, cooldownMs = 30000\<rparr>"

definition RDAP_PER_SERVER_CIRCUIT_BREAKER :: breaker_policy where
  "RDAP_PER_SERVER_CIRCUIT_BREAKER =
     \<lparr>failureThreshold = 3, windowMs = 30000, cooldownMs = 60000\<rparr>"

datatype circuit_state = Closed | Open | HalfOpen

text \<open>The private fields; the policy is fixed at construction and passed separately.\<close>

record breaker =
  cb_state :: circuit_state
  failureCount :: int
  windowStart :: ms
  openedAt :: ms

definition new_breaker :: breaker where
  "new_breaker = \<lparr>cb_state = Closed, failureCount = 0, windowStart = 0, openedAt = 0\<rparr>"

definition allow :: "breaker_policy \<Rightarrow> ms \<Rightarrow> breaker \<Rightarrow> bool \<times> breaker" where
  "allow p now b =
     (case cb_state b of
        Closed \<Rightarrow> (True, b)
      | Open \<Rightarrow>
          (if now - openedAt b \<ge> cooldownMs p then (True, b\<lparr>cb_state := HalfOpen\<rparr>)
           else (False, b))
      | HalfOpen \<Rightarrow> (True, b))"

definition onSuccess :: "breaker \<Rightarrow> breaker" where
  "onSuccess b = b\<lparr>cb_state := Closed, failureCount := 0, windowStart := 0\<rparr>"

definition count_failure :: "breaker_policy \<Rightarrow> ms \<Rightarrow> breaker \<Rightarrow> breaker" where
  "count_failure p now b =
     (if windowStart b = 0 \<or> now - windowStart b > windowMs p
      then b\<lparr>failureCount := 1, windowStart := now\<rparr>
      else b\<lparr>failureCount := failureCount b + 1\<rparr>)"

definition onFailure :: "breaker_policy \<Rightarrow> ms \<Rightarrow> breaker \<Rightarrow> breaker" where
  "onFailure p now b =
     (let b1 = count_failure p now b
      in if failureCount b1 \<ge> failureThreshold p then b1\<lparr>cb_state := Open, openedAt := now\<rparr>
         else if cb_state b1 = HalfOpen then b1\<lparr>cb_state := Open, openedAt := now\<rparr>
         else b1)"

definition reset :: "breaker \<Rightarrow> breaker" where
  "reset b = b\<lparr>cb_state := Closed, failureCount := 0, windowStart := 0, openedAt := 0\<rparr>"

text \<open>The object that is persisted has the same four fields.\<close>

record breaker_data =
  d_state :: circuit_state
  d_failureCount :: int
  d_windowStart :: ms
  d_openedAt :: ms

definition getStateForPersistence :: "breaker \<Rightarrow> breaker_data" where
  "getStateForPersistence b =
     \<lparr>d_state = cb_state b, d_failureCount = failureCount b,
      d_windowStart = windowStart b, d_openedAt = openedAt b\<rparr>"

definition restoreFromPersistence :: "breaker_data \<Rightarrow> breaker \<Rightarrow> breaker" where
  "restoreFromPersistence d b =
     b\<lparr>cb_state := d_state d, failureCount := d_failureCount d,
       windowStart := d_windowStart d, openedAt := d_openedAt d\<rparr>"

section \<open>The interface\<close>

text \<open>
  What a caller of \<open>ICircuitBreaker\<close> relies on. \<open>wf\<close> is the provider's own invariant.
\<close>

locale circuit_breaker =
  fixes cb_allow :: "ms \<Rightarrow> 's \<Rightarrow> bool \<times> 's"
    and cb_success :: "ms \<Rightarrow> 's \<Rightarrow> 's"
    and cb_failure :: "ms \<Rightarrow> 's \<Rightarrow> 's"
    and status :: "'s \<Rightarrow> circuit_state"
    and wf :: "'s \<Rightarrow> bool"
  assumes allow_closed: "wf s \<Longrightarrow> status s = Closed \<Longrightarrow> fst (cb_allow t s)"
    and allow_half_open: "wf s \<Longrightarrow> status s = HalfOpen \<Longrightarrow> fst (cb_allow t s)"
    and allow_refused: "wf s \<Longrightarrow> \<not> fst (cb_allow t s) \<Longrightarrow> status (snd (cb_allow t s)) = Open"
    and allow_granted: "wf s \<Longrightarrow> fst (cb_allow t s) \<Longrightarrow> status (snd (cb_allow t s)) \<noteq> Open"
    and allow_closed_keeps:
      "wf s \<Longrightarrow> status s = Closed \<Longrightarrow> status (snd (cb_allow t s)) = Closed"
    and success_closes: "wf s \<Longrightarrow> status (cb_success t s) = Closed"
    and failure_half_open: "wf s \<Longrightarrow> status s = HalfOpen \<Longrightarrow> status (cb_failure t s) = Open"
    and failure_open: "wf s \<Longrightarrow> status s = Open \<Longrightarrow> status (cb_failure t s) = Open"
    and wf_allow: "wf s \<Longrightarrow> wf (snd (cb_allow t s))"
    and wf_success: "wf s \<Longrightarrow> wf (cb_success t s)"
    and wf_failure: "wf s \<Longrightarrow> wf (cb_failure t s)"
begin

text \<open>A refusal only ever comes from an open circuit.\<close>

lemma refused_was_open:
  assumes "wf s" "\<not> fst (cb_allow t s)"
  shows "status s = Open"
  using assms allow_closed allow_half_open by (cases "status s") auto

text \<open>One success after a grant closes the circuit, whatever happened before.\<close>

lemma recovery:
  assumes "wf s"
  shows "fst (cb_allow t' (cb_success u (snd (cb_allow t s))))"
  using assms by (intro allow_closed wf_success wf_allow success_closes)

text \<open>A granted probe that fails leaves the circuit open or, from closed, counts on.\<close>

lemma probe_failure:
  assumes "wf s" "status s = Open" "fst (cb_allow t s)" "status (snd (cb_allow t s)) = HalfOpen"
  shows "status (cb_failure u (snd (cb_allow t s))) = Open"
  using assms by (intro failure_half_open wf_allow)

end

section \<open>Field lemmas and the invariant\<close>

lemma count_failure_fields [frame_simps, simp]:
  "cb_state (count_failure p t b) = cb_state b"
  "openedAt (count_failure p t b) = openedAt b"
  by (simp_all add: count_failure_def)

lemma allow_when_closed [simp]: "cb_state b = Closed \<Longrightarrow> allow p t b = (True, b)"
  by (simp add: allow_def)

lemma allow_when_half_open [simp]: "cb_state b = HalfOpen \<Longrightarrow> allow p t b = (True, b)"
  by (simp add: allow_def)

lemma allow_when_open:
  "cb_state b = Open \<Longrightarrow>
     allow p t b = (if t - openedAt b \<ge> cooldownMs p then (True, b\<lparr>cb_state := HalfOpen\<rparr>)
                    else (False, b))"
  by (simp add: allow_def)

lemma onSuccess_state [simp]: "cb_state (onSuccess b) = Closed"
  by (simp add: onSuccess_def)

lemma onFailure_state:
  "cb_state (onFailure p t b) =
     (if failureCount (count_failure p t b) \<ge> failureThreshold p \<or> cb_state b = HalfOpen
      then Open else cb_state b)"
  by (simp add: onFailure_def Let_def)

lemma onFailure_count [simp]:
  "failureCount (onFailure p t b) = failureCount (count_failure p t b)"
  "windowStart (onFailure p t b) = windowStart (count_failure p t b)"
  by (simp_all add: onFailure_def Let_def)

lemma onFailure_openedAt:
  "cb_state b \<noteq> Open \<Longrightarrow> cb_state (onFailure p t b) = Open \<Longrightarrow> openedAt (onFailure p t b) = t"
  by (auto simp: onFailure_def Let_def split: if_splits)

text \<open>
  The invariant of a circuit that is only driven through its operations: the count is not
  negative, and a closed circuit is below its threshold (so the threshold cannot be
  reached without the circuit opening).
\<close>

definition breaker_inv :: "breaker_policy \<Rightarrow> breaker \<Rightarrow> bool" where
  "breaker_inv p b \<longleftrightarrow>
     0 \<le> failureCount b \<and> (cb_state b = Closed \<longrightarrow> failureCount b < failureThreshold p)"

datatype breaker_op = Allow ms | Success | Failure ms | Reset

fun breaker_step :: "breaker_policy \<Rightarrow> breaker \<Rightarrow> breaker_op \<Rightarrow> breaker" where
  "breaker_step p b (Allow t) = snd (allow p t b)"
| "breaker_step p b Success = onSuccess b"
| "breaker_step p b (Failure t) = onFailure p t b"
| "breaker_step p b Reset = reset b"

definition breaker_run :: "breaker_policy \<Rightarrow> breaker \<Rightarrow> breaker_op list \<Rightarrow> breaker" where
  "breaker_run p = foldl (breaker_step p)"

lemma breaker_inv_new: "1 \<le> failureThreshold p \<Longrightarrow> breaker_inv p new_breaker"
  by (simp add: breaker_inv_def new_breaker_def)

lemma breaker_inv_allow: "breaker_inv p b \<Longrightarrow> breaker_inv p (snd (allow p t b))"
  by (auto simp: breaker_inv_def allow_def split: circuit_state.splits)

lemma breaker_inv_onSuccess: "1 \<le> failureThreshold p \<Longrightarrow> breaker_inv p (onSuccess b)"
  by (simp add: breaker_inv_def onSuccess_def)

lemma breaker_inv_onFailure: "breaker_inv p b \<Longrightarrow> breaker_inv p (onFailure p t b)"
  by (auto simp: breaker_inv_def onFailure_def count_failure_def Let_def split: if_splits)

lemma breaker_inv_step:
  "1 \<le> failureThreshold p \<Longrightarrow> breaker_inv p b \<Longrightarrow> breaker_inv p (breaker_step p b x)"
  by (cases x)
     (simp_all add: breaker_inv_allow breaker_inv_onSuccess breaker_inv_onFailure,
      simp add: breaker_inv_def reset_def)

interpretation memory_cb: circuit_breaker
  "allow p" "\<lambda>t. onSuccess" "onFailure p" cb_state
  "\<lambda>b. 1 \<le> failureThreshold p \<and> breaker_inv p b" for p
proof unfold_locales
  fix s :: breaker and t
  assume wf: "1 \<le> failureThreshold p \<and> breaker_inv p s"
  show "cb_state s = Closed \<Longrightarrow> fst (allow p t s)" by simp
  show "cb_state s = HalfOpen \<Longrightarrow> fst (allow p t s)" by simp
  show "\<not> fst (allow p t s) \<Longrightarrow> cb_state (snd (allow p t s)) = Open"
    by (auto simp: allow_def split: circuit_state.splits if_splits)
  show "fst (allow p t s) \<Longrightarrow> cb_state (snd (allow p t s)) \<noteq> Open"
    by (auto simp: allow_def split: circuit_state.splits if_splits)
  show "cb_state s = Closed \<Longrightarrow> cb_state (snd (allow p t s)) = Closed" by simp
  show "cb_state (onSuccess s) = Closed" by simp
  show "cb_state s = HalfOpen \<Longrightarrow> cb_state (onFailure p t s) = Open"
    by (simp add: onFailure_state)
  show "cb_state s = Open \<Longrightarrow> cb_state (onFailure p t s) = Open"
    by (simp add: onFailure_state)
  show "1 \<le> failureThreshold p \<and> breaker_inv p (snd (allow p t s))"
    using wf by (simp add: breaker_inv_allow)
  show "1 \<le> failureThreshold p \<and> breaker_inv p (onSuccess s)"
    using wf by (simp add: breaker_inv_onSuccess)
  show "1 \<le> failureThreshold p \<and> breaker_inv p (onFailure p t s)"
    using wf by (simp add: breaker_inv_onFailure)
qed

section \<open>A burst of failures\<close>

text \<open>The failures at the times \<open>ts\<close>, one after the other, with nothing between them.\<close>

definition failures :: "breaker_policy \<Rightarrow> breaker \<Rightarrow> ms list \<Rightarrow> breaker" where
  "failures p b ts = foldl (\<lambda>b t. onFailure p t b) b ts"

lemma failures_snoc [simp]: "failures p b (ts @ [t]) = onFailure p t (failures p b ts)"
  by (simp add: failures_def)

lemma failures_Nil [simp]: "failures p b [] = b"
  by (simp add: failures_def)

text \<open>
  Within one window that starts at \<open>t0\<close> the circuit counts exactly: after \<open>k\<close> failures
  the count is \<open>k\<close>, and it is open from the threshold on.
\<close>

lemma failures_in_window:
  assumes "t0 \<noteq> 0" "0 \<le> windowMs p" "1 \<le> failureThreshold p"
    and "\<And>t. t \<in> set ts \<Longrightarrow> t - t0 \<le> windowMs p"
  shows "failureCount (failures p new_breaker (t0 # ts)) = int (length (t0 # ts))
    \<and> windowStart (failures p new_breaker (t0 # ts)) = t0
    \<and> cb_state (failures p new_breaker (t0 # ts)) =
        (if failureThreshold p \<le> int (length (t0 # ts)) then Open else Closed)"
  using assms(4)
proof (induction ts rule: rev_induct)
  case Nil
  then show ?case
    by (simp add: failures_def onFailure_state count_failure_def new_breaker_def)
next
  case (snoc t ts)
  let ?b = "failures p new_breaker (t0 # ts)"
  have IH: "failureCount ?b = int (length (t0 # ts))" "windowStart ?b = t0"
    "cb_state ?b = (if failureThreshold p \<le> int (length (t0 # ts)) then Open else Closed)"
    using snoc by auto
  have eq: "failures p new_breaker (t0 # ts @ [t]) = onFailure p t ?b"
    using failures_snoc [of p new_breaker "t0 # ts" t] by simp
  have "t - t0 \<le> windowMs p" using snoc.prems by simp
  then show ?case
    using IH assms(1) by (simp add: eq onFailure_state count_failure_def)
qed

text \<open>Failures that are more than a window apart never add up.\<close>

lemma failures_spread:
  assumes "2 \<le> failureThreshold p" "cb_state b = Closed" "failureCount b \<le> 1"
    and "windowStart b = 0 \<or> (\<forall>t \<in> set ts. t - windowStart b > windowMs p)"
    and "sorted_wrt (\<lambda>s t. t - s > windowMs p) ts"
  shows "cb_state (failures p b ts) = Closed"
  using assms
proof (induction ts arbitrary: b)
  case Nil
  then show ?case by simp
next
  case (Cons t ts)
  let ?b = "onFailure p t b"
  have win: "windowStart b = 0 \<or> t - windowStart b > windowMs p"
    using Cons.prems(4) by auto
  then have cnt: "failureCount ?b = 1" "windowStart ?b = t"
    by (simp_all add: count_failure_def)
  have st: "cb_state ?b = Closed"
    using Cons.prems(1,2) win by (simp add: onFailure_state count_failure_def)
  have "cb_state (failures p ?b ts) = Closed"
    using Cons.prems(1,5) cnt st by (intro Cons.IH) auto
  then show ?case by (simp add: failures_def)
qed

section \<open>Properties\<close>

text \<open>
  Counting: if all failures of a burst lie within one window of its first one and
  nothing else happens, then a fresh circuit has counted exactly the failures and is open
  if and only if there were at least as many as the threshold; it was opened, or kept open,
  by the last of them.
\<close>

theorem breaker_opens_at_threshold:
  assumes "t0 \<noteq> 0" "0 \<le> windowMs p" "1 \<le> failureThreshold p"
    and "\<forall>t \<in> set ts. t - t0 \<le> windowMs p"
  shows "failureCount (failures p new_breaker (t0 # ts)) = int (Suc (length ts))
    \<and> (cb_state (failures p new_breaker (t0 # ts)) = Open
        \<longleftrightarrow> failureThreshold p \<le> int (Suc (length ts)))
    \<and> (failureThreshold p \<le> int (Suc (length ts)) \<longrightarrow>
        openedAt (failures p new_breaker (t0 # ts)) = last (t0 # ts))"
proof -
  have count: "failureCount (failures p new_breaker (t0 # us)) = int (Suc (length us))
      \<and> windowStart (failures p new_breaker (t0 # us)) = t0
      \<and> cb_state (failures p new_breaker (t0 # us)) =
        (if failureThreshold p \<le> int (Suc (length us)) then Open else Closed)"
    if "set us \<subseteq> set ts" for us
  proof -
    have "\<And>t. t \<in> set us \<Longrightarrow> t - t0 \<le> windowMs p" using assms(4) that by auto
    from failures_in_window [OF assms(1-3) this] show ?thesis by simp
  qed
  have last: "openedAt (failures p new_breaker (t0 # ts)) = last (t0 # ts)"
    if thr: "failureThreshold p \<le> int (Suc (length ts))"
  proof (cases ts rule: rev_cases)
    case Nil
    with thr show ?thesis
      by (simp add: failures_def onFailure_def Let_def count_failure_def new_breaker_def)
  next
    case (snoc us u)
    have "failures p new_breaker (t0 # ts) = onFailure p u (failures p new_breaker (t0 # us))"
      using failures_snoc [of p new_breaker "t0 # us" u] snoc by simp
    with count [of us] count [of ts] thr snoc show ?thesis
      by (auto simp: onFailure_def Let_def)
  qed
  with count [of ts] show ?thesis by auto
qed

theorem breaker_opens_at_threshold_witness:
  "failureCount (failures USPTO_CIRCUIT_BREAKER new_breaker [1000, 2000, 2500]) = 3
   \<and> cb_state (failures USPTO_CIRCUIT_BREAKER new_breaker [1000, 2000, 2500]) = Open
   \<and> openedAt (failures USPTO_CIRCUIT_BREAKER new_breaker [1000, 2000, 2500]) = 2500"
  using breaker_opens_at_threshold [of 1000 USPTO_CIRCUIT_BREAKER "[2000, 2500]"]
  by (simp add: USPTO_CIRCUIT_BREAKER_def)

text \<open>
  The open period: as long as the cooldown has not passed, every request is refused and
  no number of them changes the circuit; the first request at or after the end of the
  cooldown is let through as a probe. If the probe fails the circuit is open again from
  that moment, if it succeeds the circuit is closed with an empty count.
\<close>

theorem breaker_open_period:
  assumes "cb_state b = Open"
    and "\<forall>t \<in> set ts. t < openedAt b + cooldownMs p"
    and "openedAt b + cooldownMs p \<le> u"
  shows "map (\<lambda>t. allow p t b) ts = replicate (length ts) (False, b)
    \<and> breaker_run p b (map Allow ts) = b
    \<and> fst (allow p u b)
    \<and> cb_state (onFailure p v (snd (allow p u b))) = Open
    \<and> openedAt (onFailure p v (snd (allow p u b))) = v
    \<and> cb_state (onSuccess (snd (allow p u b))) = Closed
    \<and> failureCount (onSuccess (snd (allow p u b))) = 0"
proof -
  have refuse: "allow p t b = (False, b)" if "t \<in> set ts" for t
    using assms(1,2) that by (auto simp: allow_when_open)
  then have refused: "map (\<lambda>t. allow p t b) ts = replicate (length ts) (False, b)"
    by (simp add: map_replicate_const [symmetric])
  have "set us \<subseteq> set ts \<Longrightarrow> breaker_run p b (map Allow us) = b" for us
    using refuse by (induction us) (simp_all add: breaker_run_def)
  then have still: "breaker_run p b (map Allow ts) = b" by simp
  have probe: "allow p u b = (True, b\<lparr>cb_state := HalfOpen\<rparr>)"
    using assms(1,3) by (simp add: allow_when_open)
  have failed: "cb_state (onFailure p v (snd (allow p u b))) = Open
       \<and> openedAt (onFailure p v (snd (allow p u b))) = v"
    by (simp add: probe onFailure_def Let_def)
  show ?thesis using refused still probe failed by (simp add: onSuccess_def)
qed

theorem breaker_open_period_witness:
  "breaker_run USPTO_CIRCUIT_BREAKER
     \<lparr>cb_state = Open, failureCount = 3, windowStart = 1000, openedAt = 2500\<rparr>
     (map Allow [2600, 62499]) =
   \<lparr>cb_state = Open, failureCount = 3, windowStart = 1000, openedAt = 2500\<rparr>"
  using breaker_open_period
    [of "\<lparr>cb_state = Open, failureCount = 3, windowStart = 1000, openedAt = 2500\<rparr>"
        "[2600, 62499]" USPTO_CIRCUIT_BREAKER 62500 62600]
  by (simp add: USPTO_CIRCUIT_BREAKER_def)

text \<open>
  C34. Invariant over every history of requests, successes, failures and resets: the count
  is never negative, a closed circuit is below its threshold, and a request is refused only
  by an open circuit whose cooldown is still running.
\<close>

theorem breaker_reachable_inv:
  assumes "1 \<le> failureThreshold p"
  shows "breaker_inv p (breaker_run p new_breaker ops)
    \<and> (\<not> fst (allow p t (breaker_run p new_breaker ops)) \<longrightarrow>
        cb_state (breaker_run p new_breaker ops) = Open
        \<and> t < openedAt (breaker_run p new_breaker ops) + cooldownMs p)"
proof -
  have inv: "breaker_inv p (breaker_run p b ops)" if "breaker_inv p b" for b
    using that unfolding breaker_run_def
    by (induction ops arbitrary: b) (simp_all add: breaker_inv_step assms)
  have "\<not> fst (allow p t b) \<Longrightarrow> cb_state b = Open \<and> t < openedAt b + cooldownMs p" for b
    by (auto simp: allow_def split: circuit_state.splits if_splits)
  with inv [OF breaker_inv_new [OF assms]] show ?thesis by blast
qed

theorem breaker_reachable_inv_witness:
  "breaker_inv USPTO_CIRCUIT_BREAKER (breaker_run USPTO_CIRCUIT_BREAKER new_breaker
     [Failure 10, Allow 20, Success, Failure 30])"
  using breaker_reachable_inv [of USPTO_CIRCUIT_BREAKER "[Failure 10, Allow 20, Success, Failure 30]"]
  by (simp add: USPTO_CIRCUIT_BREAKER_def)

text \<open>
  The half-open circuit does not limit its probes: from the end of the cooldown until
  the next outcome is reported every request is let through, however many there are.
\<close>

theorem half_open_admits_all:
  assumes "cb_state b = Open" "openedAt b + cooldownMs p \<le> u"
  shows "fst (allow p u b)
    \<and> (\<forall>ts. breaker_run p (snd (allow p u b)) (map Allow ts) = snd (allow p u b))
    \<and> (\<forall>t. fst (allow p t (snd (allow p u b))))"
proof -
  have probe: "allow p u b = (True, b\<lparr>cb_state := HalfOpen\<rparr>)"
    using assms by (simp add: allow_when_open)
  have "breaker_run p (b\<lparr>cb_state := HalfOpen\<rparr>) (map Allow ts) = b\<lparr>cb_state := HalfOpen\<rparr>" for ts
    by (induction ts) (simp_all add: breaker_run_def)
  with probe show ?thesis by simp
qed

theorem half_open_admits_all_witness:
  "\<forall>t. fst (allow RDAP_PER_SERVER_CIRCUIT_BREAKER t
     (snd (allow RDAP_PER_SERVER_CIRCUIT_BREAKER 61000
       \<lparr>cb_state = Open, failureCount = 3, windowStart = 500, openedAt = 1000\<rparr>)))"
  using half_open_admits_all
    [of "\<lparr>cb_state = Open, failureCount = 3, windowStart = 500, openedAt = 1000\<rparr>"
        RDAP_PER_SERVER_CIRCUIT_BREAKER 61000]
  by (simp add: RDAP_PER_SERVER_CIRCUIT_BREAKER_def)

end
