(* ===== verification/Retry.thy ===== *)
theory Retry
  imports CircuitBreaker
begin

text \<open>
  Retrying: \<open>src/providers/retry-policy.ts\<close> (which errors are transient, how long to wait)
  and \<open>src/providers/retry-utils.ts\<close> (\<open>withRetry\<close> and \<open>withRetryAndCircuitBreaker\<close>). The
  wrapped call is a parameter, a function from the attempt number to what that attempt
  throws or returns; time, jitter and abort signals are parameters too. Every run also
  yields its trace of calls, waits and breaker notifications.
\<close>

section \<open>Which errors are transient\<close>

text \<open>
  Thrown objects live in a heap, because the \<open>cause\<close> links of wrapped errors may share or
  even form cycles. \<open>NotObject\<close> covers null, undefined and primitive values.
\<close>

datatype js_ref = NotObject | Ref nat

datatype js_field = Absent | Num int | NotNum

record js_error =
  err_status :: js_field
  err_statusCode :: js_field
  err_code :: "string option"
  err_is_error :: bool
  err_message :: string
  err_cause :: js_ref

type_synonym heap = "js_error list"

definition status_transient :: "js_error \<Rightarrow> bool" where
  "status_transient e =
     (case (if err_status e = Absent then err_statusCode e else err_status e) of
        Num n \<Rightarrow> n = 429 \<or> (500 \<le> n \<and> n < 600)
      | _ \<Rightarrow> False)"

definition code_transient :: "js_error \<Rightarrow> bool" where
  "code_transient e =
     (case err_code e of
        None \<Rightarrow> False
      | Some c \<Rightarrow> to_upper c \<in> set [''ECONNRESET'', ''ETIMEDOUT'', ''ENOTFOUND'', ''EAI_AGAIN'',
                                  ''ECONNREFUSED'', ''ENETUNREACH''])"

definition message_transient :: "js_error \<Rightarrow> bool" where
  "message_transient e =
     (let msg = to_lower (err_message e)
      in list_ex (has_word msg) [''429'', ''500'', ''502'', ''503'', ''504'']
         \<or> list_ex (str_includes msg) [''econnreset'', ''etimedout'', ''enotfound'', ''eai_again'',
                                   ''econnrefused'', ''enetunreach'']
         \<or> list_ex (str_includes msg) [''fetch failed'', ''network'', ''timeout''])"

definition self_transient :: "js_error \<Rightarrow> bool" where
  "self_transient e =
     (status_transient e \<or> code_transient e \<or> (err_is_error e \<and> message_transient e))"

function isTransientInternal :: "heap \<Rightarrow> js_ref \<Rightarrow> nat list \<Rightarrow> bool" where
  "isTransientInternal h r seen =
     (case r of
        NotObject \<Rightarrow> False
      | Ref i \<Rightarrow>
          (if i \<in> set seen \<or> length h \<le> i then False
           else if self_transient (h ! i) then True
           else if err_is_error (h ! i)
           then isTransientInternal h (err_cause (h ! i)) (i # seen)
           else False))"
  by pat_completeness auto
termination
proof (relation "measure (\<lambda>(h, r, seen). card ({..<length h} - set seen))")
  fix h :: heap and r i and seen :: "nat list"
  assume "\<not> (i \<in> set seen \<or> length h \<le> i)"
  then have "i \<in> {..<length h} - set seen" by simp
  then have "card ({..<length h} - set seen - {i}) < card ({..<length h} - set seen)"
    by (intro card_Diff1_less) simp_all
  moreover have "{..<length h} - set (i # seen) = {..<length h} - set seen - {i}"
    unfolding list.set by blast
  ultimately have "card ({..<length h} - set (i # seen)) < card ({..<length h} - set seen)"
    by (simp only:)
  then show "((h, err_cause (h ! i), i # seen), h, r, seen)
      \<in> measure (\<lambda>(h, r, seen). card ({..<length h} - set seen))"
    by (simp only: in_measure case_prod_conv)
qed (rule wf_measure)

declare isTransientInternal.simps [simp del]

lemma isTransientInternal_NotObject [simp]: "\<not> isTransientInternal h NotObject seen"
  by (simp add: isTransientInternal.simps)

lemma isTransientInternal_Ref:
  "isTransientInternal h (Ref i) seen =
     (i \<notin> set seen \<and> i < length h \<and>
      (self_transient (h ! i) \<or>
       err_is_error (h ! i) \<and> isTransientInternal h (err_cause (h ! i)) (i # seen)))"
  by (subst isTransientInternal.simps) auto

definition isTransient :: "heap \<Rightarrow> js_ref \<Rightarrow> bool" where
  "isTransient h r = isTransientInternal h r []"

text \<open>
  The reference definition: follow the \<open>cause\<close> links (of \<open>Error\<close> objects) and look for an
  object that is transient by itself. \<open>cause_at h r k\<close> is the object \<open>k\<close> links away.
\<close>

definition next_cause :: "heap \<Rightarrow> js_ref \<Rightarrow> js_ref" where
  "next_cause h r =
     (case r of NotObject \<Rightarrow> NotObject
      | Ref i \<Rightarrow> if i < length h \<and> err_is_error (h ! i) then err_cause (h ! i) else NotObject)"

definition cause_at :: "heap \<Rightarrow> js_ref \<Rightarrow> nat \<Rightarrow> js_ref" where
  "cause_at h r k = (next_cause h ^^ k) r"

definition transient_at :: "heap \<Rightarrow> js_ref \<Rightarrow> bool" where
  "transient_at h r = (case r of NotObject \<Rightarrow> False | Ref i \<Rightarrow> i < length h \<and> self_transient (h ! i))"

lemma transient_at_simps [simp]:
  "\<not> transient_at h NotObject"
  "transient_at h (Ref i) \<longleftrightarrow> i < length h \<and> self_transient (h ! i)"
  by (simp_all add: transient_at_def)

lemma cause_at_0 [simp]: "cause_at h r 0 = r"
  by (simp add: cause_at_def)

lemma cause_at_Suc: "cause_at h r (Suc k) = cause_at h (next_cause h r) k"
  by (simp add: cause_at_def funpow_swap1)

lemma cause_at_NotObject [simp]: "cause_at h NotObject k = NotObject"
  by (induction k) (simp_all add: cause_at_Suc next_cause_def)

lemma cause_at_closed:
  assumes "r \<in> S" "\<And>x. x \<in> S \<Longrightarrow> next_cause h x \<in> S"
  shows "cause_at h r k \<in> S"
  using assms by (induction k arbitrary: r) (auto simp: cause_at_Suc)

text \<open>
  The objects already seen are not transient and lead, through their links, to seen
  objects or to the object at hand; then skipping a seen object loses nothing.
\<close>

lemma isTransientInternal_iff:
  assumes "\<And>i. i \<in> set seen \<Longrightarrow> \<not> transient_at h (Ref i)"
    and "\<And>i. i \<in> set seen \<Longrightarrow> next_cause h (Ref i) \<in> insert r (Ref ` set seen)"
  shows "isTransientInternal h r seen \<longleftrightarrow> (\<exists>k. transient_at h (cause_at h r k))"
  using assms
proof (induction h r seen rule: isTransientInternal.induct)
  case (1 h r seen)
  show ?case
  proof (cases r)
    case NotObject
    then show ?thesis by simp
  next
    case (Ref i)
  consider (seen) "i \<in> set seen" | (out) "length h \<le> i" "i \<notin> set seen"
    | (here) "i \<notin> set seen" "i < length h" "self_transient (h ! i)"
    | (leaf) "i \<notin> set seen" "i < length h" "\<not> self_transient (h ! i)" "\<not> err_is_error (h ! i)"
    | (down) "i \<notin> set seen" "i < length h" "\<not> self_transient (h ! i)" "err_is_error (h ! i)"
    by linarith
  then show ?thesis
  proof cases
    case seen
    let ?S = "Ref ` set seen"
    have "cause_at h (Ref i) k \<in> ?S" for k
      using seen "1.prems"(2) Ref by (intro cause_at_closed) auto
    then have "\<not> transient_at h (cause_at h (Ref i) k)" for k
      using "1.prems"(1) by (metis imageE)
    with seen Ref show ?thesis by (simp add: isTransientInternal_Ref)
  next
    case out
    then have "cause_at h (Ref i) (Suc k) = NotObject" for k
      by (simp add: cause_at_Suc next_cause_def)
    then have "\<not> transient_at h (cause_at h (Ref i) k)" for k
      using out by (cases k) auto
    with out Ref show ?thesis by (simp add: isTransientInternal_Ref)
  next
    case here
    then have "transient_at h (cause_at h (Ref i) 0)" by simp
    then have "\<exists>k. transient_at h (cause_at h (Ref i) k)" by blast
    with here Ref show ?thesis by (simp add: isTransientInternal_Ref)
  next
    case leaf
    then have "cause_at h (Ref i) (Suc k) = NotObject" for k
      by (simp add: cause_at_Suc next_cause_def)
    then have "\<not> transient_at h (cause_at h (Ref i) k)" for k
      using leaf by (cases k) auto
    with leaf Ref show ?thesis by (simp add: isTransientInternal_Ref)
  next
    case down
    let ?c = "err_cause (h ! i)"
    have nxt: "next_cause h (Ref i) = ?c" using down by (simp add: next_cause_def)
    have "isTransientInternal h ?c (i # seen) \<longleftrightarrow> (\<exists>k. transient_at h (cause_at h ?c k))"
      using down "1.prems" nxt Ref by (intro "1.IH") auto
    moreover have "(\<exists>k. transient_at h (cause_at h ?c k))
        \<longleftrightarrow> (\<exists>k. transient_at h (cause_at h (Ref i) k))"
    proof
      assume "\<exists>k. transient_at h (cause_at h ?c k)"
      then obtain k where "transient_at h (cause_at h ?c k)" by blast
      then have "transient_at h (cause_at h (Ref i) (Suc k))" by (simp add: cause_at_Suc nxt)
      then show "\<exists>k. transient_at h (cause_at h (Ref i) k)" by blast
    next
      assume "\<exists>k. transient_at h (cause_at h (Ref i) k)"
      then obtain k where k: "transient_at h (cause_at h (Ref i) k)" by blast
      then obtain j where "k = Suc j" using down by (cases k) auto
      with k show "\<exists>k. transient_at h (cause_at h ?c k)" by (auto simp: cause_at_Suc nxt)
    qed
    ultimately show ?thesis using down Ref by (simp add: isTransientInternal_Ref)
  qed
  qed
qed

lemma isTransient_iff: "isTransient h r \<longleftrightarrow> (\<exists>k. transient_at h (cause_at h r k))"
  unfolding isTransient_def by (rule isTransientInternal_iff) simp_all

section \<open>How long to wait\<close>

record retry_policy =
  maxAttempts :: int
  baseDelayMs :: real
  backoffMultiplier :: real
  maxDelayMs :: real
  jitterRatio :: real

definition DEFAULT_RETRY_POLICY :: retry_policy where
  "DEFAULT_RETRY_POLICY = \<lparr>maxAttempts = 3, baseDelayMs = 250, backoffMultiplier = 2,
     maxDelayMs = 4000, jitterRatio = 1\<rparr>"

definition UTILS_RETRY_POLICY :: retry_policy where
  "UTILS_RETRY_POLICY = \<lparr>maxAttempts = 3, baseDelayMs = 200, backoffMultiplier = 2,
     maxDelayMs = 2000, jitterRatio = 1\<rparr>"

definition capped_delay :: "nat \<Rightarrow> retry_policy \<Rightarrow> real" where
  "capped_delay attempt p = min (baseDelayMs p * backoffMultiplier p ^ (attempt - 1)) (maxDelayMs p)"

definition computeDelay :: "nat \<Rightarrow> retry_policy \<Rightarrow> real \<Rightarrow> int" where
  "computeDelay attempt p rnd =
     (let capped = capped_delay attempt p;
          lower = capped * (1 - jitterRatio p);
          jittered = lower + rnd * (capped - lower)
      in max 0 \<lfloor>jittered\<rfloor>)"

definition policy_ok :: "retry_policy \<Rightarrow> bool" where
  "policy_ok p = (0 \<le> baseDelayMs p \<and> 0 \<le> backoffMultiplier p \<and> 0 \<le> maxDelayMs p
     \<and> 0 \<le> jitterRatio p \<and> jitterRatio p \<le> 1)"

lemma capped_delay_nonneg: "policy_ok p \<Longrightarrow> 0 \<le> capped_delay k p"
  by (simp add: policy_ok_def capped_delay_def)

lemma capped_delay_le: "capped_delay k p \<le> maxDelayMs p"
  by (simp add: capped_delay_def)

lemma computeDelay_nonneg [simp]: "0 \<le> computeDelay k p r"
  by (simp add: computeDelay_def Let_def)

lemma computeDelay_le_capped:
  assumes "policy_ok p" "0 \<le> r" "r \<le> 1"
  shows "of_int (computeDelay k p r) \<le> capped_delay k p"
proof -
  let ?c = "capped_delay k p" and ?l = "capped_delay k p * (1 - jitterRatio p)"
  have c: "0 \<le> ?c" using assms(1) by (rule capped_delay_nonneg)
  have "?l \<le> ?c" using c assms(1) by (simp add: policy_ok_def algebra_simps)
  then have "?l + r * (?c - ?l) \<le> ?c"
    using mult_right_mono [of r 1 "?c - ?l"] assms(3) by simp
  then have "of_int \<lfloor>?l + r * (?c - ?l)\<rfloor> \<le> ?c"
    using of_int_floor_le order_trans by blast
  then show ?thesis using c unfolding computeDelay_def Let_def by (simp add: of_int_max)
qed

lemma computeDelay_le_max:
  "policy_ok p \<Longrightarrow> 0 \<le> r \<Longrightarrow> r \<le> 1 \<Longrightarrow> of_int (computeDelay k p r) \<le> maxDelayMs p"
  using computeDelay_le_capped capped_delay_le order_trans by blast

section \<open>The retry loops\<close>

text \<open>
  What an attempt can throw: an ordinary error object, an instance of \<open>CircuitOpenError\<close>
  from an inner provider, the \<open>AbortError\<close> of an aborted signal, or the refusal of this
  wrapper's own breaker with the fields it puts on the error.
\<close>

datatype thrown =
    Err js_ref
  | CircuitOpenErr js_ref
  | AbortError
  | Refused string ms circuit_state

definition abort_error :: js_error where
  "abort_error = \<lparr>err_status = Absent, err_statusCode = Absent, err_code = None,
     err_is_error = True, err_message = ''Aborted'', err_cause = NotObject\<rparr>"

fun transient_thrown :: "heap \<Rightarrow> thrown \<Rightarrow> bool" where
  "transient_thrown h (Err r) = isTransient h r"
| "transient_thrown h (CircuitOpenErr r) = isTransient h r"
| "transient_thrown h AbortError = isTransient [abort_error] (Ref 0)"
| "transient_thrown h (Refused label t s) = False"

datatype retry_event = Call nat | Wait int | RecordSuccess | RecordFailure

fun calls :: "retry_event list \<Rightarrow> nat list" where
  "calls [] = []"
| "calls (Call k # es) = k # calls es"
| "calls (_ # es) = calls es"

fun waited :: "retry_event list \<Rightarrow> int" where
  "waited [] = 0"
| "waited (Wait d # es) = d + waited es"
| "waited (_ # es) = waited es"

fun records :: "retry_event list \<Rightarrow> retry_event list" where
  "records [] = []"
| "records (RecordSuccess # es) = RecordSuccess # records es"
| "records (RecordFailure # es) = RecordFailure # records es"
| "records (_ # es) = records es"

text \<open>
  The abort signal of \<open>withRetry\<close>: absent, or observed aborted at the start of an attempt
  (\<open>fst\<close>) or during the wait after it (\<open>snd\<close>). Without a signal the second competitor of
  the \<open>Promise.race\<close> is \<open>Promise.resolve()\<close>, which wins at once: the loop goes on without
  having waited, whatever the delay.
\<close>

type_synonym signal = "((nat \<Rightarrow> bool) \<times> (nat \<Rightarrow> bool)) option"

definition aborted_before :: "signal \<Rightarrow> nat \<Rightarrow> bool" where
  "aborted_before sig k = (case sig of None \<Rightarrow> False | Some (before, _) \<Rightarrow> before k)"

definition race_sleep :: "signal \<Rightarrow> nat \<Rightarrow> int \<Rightarrow> thrown option \<times> retry_event list" where
  "race_sleep sig k d =
     (case sig of
        None \<Rightarrow> (None, [Wait 0])
      | Some (_, during) \<Rightarrow> (if during k then (Some AbortError, []) else (None, [Wait d])))"

function retry_loop ::
  "heap \<Rightarrow> retry_policy \<Rightarrow> (nat \<Rightarrow> real) \<Rightarrow> signal \<Rightarrow> (nat \<Rightarrow> thrown + 'a) \<Rightarrow> nat \<Rightarrow> nat \<Rightarrow> thrown
     \<Rightarrow> (thrown + 'a) \<times> retry_event list" where
  "retry_loop h p rnd sig fn mx attempt lastErr =
     (if mx < attempt then (Inl lastErr, [])
      else if aborted_before sig attempt then (Inl AbortError, [])
      else case fn attempt of
        Inr v \<Rightarrow> (Inr v, [Call attempt])
      | Inl err \<Rightarrow>
          (if mx \<le> attempt \<or> \<not> transient_thrown h err then (Inl err, [Call attempt])
           else case race_sleep sig attempt (computeDelay attempt p (rnd attempt)) of
             (Some e, ev) \<Rightarrow> (Inl e, Call attempt # ev)
           | (None, ev) \<Rightarrow>
               (let (res, evs) = retry_loop h p rnd sig fn mx (Suc attempt) err
                in (res, Call attempt # ev @ evs))))"
  by pat_completeness auto
termination
  by (relation "measure (\<lambda>(h, p, rnd, sig, fn, mx, attempt, e). Suc mx - attempt)") auto

declare retry_loop.simps [simp del]

definition max_attempts :: "retry_policy \<Rightarrow> nat" where
  "max_attempts p = nat (max 1 (maxAttempts p))"

definition withRetry ::
  "heap \<Rightarrow> retry_policy \<Rightarrow> (nat \<Rightarrow> real) \<Rightarrow> signal \<Rightarrow> (nat \<Rightarrow> thrown + 'a)
     \<Rightarrow> (thrown + 'a) \<times> retry_event list" where
  "withRetry h p rnd sig fn = retry_loop h p rnd sig fn (max_attempts p) 1 (Err NotObject)"

text \<open>
  The loop with a breaker. \<open>cs\<close> and \<open>cf\<close> are the breaker's \<open>onSuccess\<close> and \<open>onFailure\<close>,
  \<open>clock k\<close> the time of attempt \<open>k\<close>. The abort check is inside the \<open>try\<close>, so an aborted
  attempt goes through the \<open>catch\<close> branch.
\<close>

function breaker_loop ::
  "(ms \<Rightarrow> 's \<Rightarrow> 's) \<Rightarrow> (ms \<Rightarrow> 's \<Rightarrow> 's) \<Rightarrow> heap \<Rightarrow> retry_policy \<Rightarrow> (nat \<Rightarrow> real) \<Rightarrow> (nat \<Rightarrow> ms)
     \<Rightarrow> (nat \<Rightarrow> bool) \<Rightarrow> (nat \<Rightarrow> thrown + 'a) \<Rightarrow> nat \<Rightarrow> nat \<Rightarrow> thrown \<Rightarrow> 's
     \<Rightarrow> (thrown + 'a) \<times> 's \<times> retry_event list" where
  "breaker_loop cs cf h p rnd clock ab fn mx attempt lastErr s =
     (if mx < attempt then (Inl lastErr, s, [])
      else
        let called = (if ab attempt then [] else [Call attempt]);
            outcome = (if ab attempt then Inl AbortError else fn attempt)
        in case outcome of
          Inr v \<Rightarrow> (Inr v, cs (clock attempt) s, called @ [RecordSuccess])
        | Inl err \<Rightarrow>
            (if (\<exists>r. err = CircuitOpenErr r) then (Inl err, s, called)
             else if mx \<le> attempt \<or> \<not> transient_thrown h err
             then (Inl err, cf (clock attempt) s, called @ [RecordFailure])
             else
               let d = computeDelay attempt p (rnd attempt);
                   (res, s', evs) =
                     breaker_loop cs cf h p rnd clock ab fn mx (Suc attempt) err s
               in (res, s', called @ Wait d # evs)))"
  by pat_completeness auto
termination
  by (relation "measure (\<lambda>(cs, cf, h, p, rnd, clock, ab, fn, mx, attempt, e, s). Suc mx - attempt)")
     auto

declare breaker_loop.simps [simp del]

definition withRetryAndCircuitBreaker ::
  "(ms \<Rightarrow> 's \<Rightarrow> bool \<times> 's) \<Rightarrow> (ms \<Rightarrow> 's \<Rightarrow> 's) \<Rightarrow> (ms \<Rightarrow> 's \<Rightarrow> 's) \<Rightarrow> ('s \<Rightarrow> circuit_state) \<Rightarrow> ms
     \<Rightarrow> string \<Rightarrow> heap \<Rightarrow> retry_policy \<Rightarrow> (nat \<Rightarrow> real) \<Rightarrow> (nat \<Rightarrow> ms) \<Rightarrow> (nat \<Rightarrow> bool)
     \<Rightarrow> (nat \<Rightarrow> thrown + 'a) \<Rightarrow> 's \<Rightarrow> (thrown + 'a) \<times> 's \<times> retry_event list" where
  "withRetryAndCircuitBreaker ca cs cf st cooldown label h p rnd clock ab fn s =
     (case ca (clock 0) s of
        (allowed, s1) \<Rightarrow>
          if \<not> allowed then (Inl (Refused label cooldown (st s1)), s1, [])
          else breaker_loop cs cf h p rnd clock ab fn (max_attempts p) 1 (Err NotObject) s1)"

section \<open>What the loops do\<close>

lemma abort_not_transient [simp]: "\<not> isTransient [abort_error] (Ref 0)"
  by (simp add: isTransient_def isTransientInternal_Ref self_transient_def abort_error_def
      status_transient_def code_transient_def message_transient_def has_word_def Let_def)
    (code_simp)

lemma max_attempts_pos [simp]: "1 \<le> max_attempts p" "0 < max_attempts p"
  by (simp_all add: max_attempts_def)

text \<open>An attempt after which the loops never go on.\<close>

definition decisive :: "heap \<Rightarrow> nat \<Rightarrow> (nat \<Rightarrow> thrown + 'a) \<Rightarrow> nat \<Rightarrow> bool" where
  "decisive h mx fn k =
     (mx \<le> k \<or> (case fn k of Inr _ \<Rightarrow> True
               | Inl e \<Rightarrow> (\<exists>r. e = CircuitOpenErr r) \<or> \<not> transient_thrown h e))"

text \<open>
  What a decisive attempt does to the breaker and to the trace, and the trace of the
  attempts before it.
\<close>

definition settle :: "(ms \<Rightarrow> 's \<Rightarrow> 's) \<Rightarrow> (ms \<Rightarrow> 's \<Rightarrow> 's) \<Rightarrow> ms \<Rightarrow> 's \<Rightarrow> thrown + 'a \<Rightarrow> 's" where
  "settle cs cf t s out =
     (case out of Inr _ \<Rightarrow> cs t s | Inl (CircuitOpenErr r) \<Rightarrow> s | Inl _ \<Rightarrow> cf t s)"

definition notify :: "thrown + 'a \<Rightarrow> retry_event list" where
  "notify out =
     (case out of Inr _ \<Rightarrow> [RecordSuccess] | Inl (CircuitOpenErr r) \<Rightarrow> [] | Inl _ \<Rightarrow> [RecordFailure])"

definition tries :: "retry_policy \<Rightarrow> (nat \<Rightarrow> real) \<Rightarrow> nat list \<Rightarrow> retry_event list" where
  "tries p rnd js = concat (map (\<lambda>j. [Call j, Wait (computeDelay j p (rnd j))]) js)"

lemma tries_simps [simp]:
  "tries p rnd [] = []"
  "tries p rnd (j # js) = Call j # Wait (computeDelay j p (rnd j)) # tries p rnd js"
  by (simp_all add: tries_def)

text \<open>One equation per shape of an attempt, for the proofs below.\<close>

lemma breaker_loop_stop:
  assumes "attempt \<le> mx" "\<not> ab attempt" "decisive h mx fn attempt"
  shows "breaker_loop cs cf h p rnd clock ab fn mx attempt e s =
    (fn attempt,
     settle cs cf (clock attempt) s (fn attempt), Call attempt # notify (fn attempt))"
  using assms
  by (subst breaker_loop.simps)
     (auto simp: decisive_def settle_def notify_def Let_def split: sum.splits thrown.splits)

lemma breaker_loop_next:
  assumes "attempt \<le> mx" "\<not> ab attempt" "\<not> decisive h mx fn attempt"
  shows "breaker_loop cs cf h p rnd clock ab fn mx attempt e s =
    (let (res, s', evs) = breaker_loop cs cf h p rnd clock ab fn mx (Suc attempt)
                            (projl (fn attempt)) s
     in (res, s', Call attempt # Wait (computeDelay attempt p (rnd attempt)) # evs))"
  using assms
  by (subst breaker_loop.simps)
     (auto simp: decisive_def Let_def split: sum.splits thrown.splits prod.splits)

lemma breaker_loop_abort:
  assumes "attempt \<le> mx" "ab attempt"
  shows "breaker_loop cs cf h p rnd clock ab fn mx attempt e s =
    (Inl AbortError, cf (clock attempt) s, [RecordFailure])"
  using assms by (subst breaker_loop.simps) (simp add: Let_def)

text \<open>
  The whole loop, without aborts: there is a first decisive attempt; it gives the result
  and the one notification of the breaker, all attempts before it were transient failures,
  and the waits are those of the policy.
\<close>

lemma breaker_loop_spec:
  assumes "attempt \<le> mx" "\<And>k. \<not> ab k"
  shows "\<exists>k. attempt \<le> k \<and> k \<le> mx \<and> decisive h mx fn k
    \<and> (\<forall>j. attempt \<le> j \<and> j < k \<longrightarrow> \<not> decisive h mx fn j)
    \<and> breaker_loop cs cf h p rnd clock ab fn mx attempt e s =
        (fn k, settle cs cf (clock k) s (fn k),
         tries p rnd [attempt..<k] @ Call k # notify (fn k))"
  using assms(1)
proof (induction "mx - attempt" arbitrary: attempt e)
  case 0
  then have "decisive h mx fn attempt" by (simp add: decisive_def)
  with 0 assms(2) show ?case
    by (intro exI [of _ attempt]) (auto simp: breaker_loop_stop)
next
  case (Suc n)
  show ?case
  proof (cases "decisive h mx fn attempt")
    case True
    with Suc.prems assms(2) show ?thesis
      by (intro exI [of _ attempt]) (auto simp: breaker_loop_stop)
  next
    case False
    have "n = mx - Suc attempt" "Suc attempt \<le> mx" using Suc.hyps(2) by simp_all
    from Suc.hyps(1) [OF this, of "projl (fn attempt)"] obtain k where
      k: "Suc attempt \<le> k" "k \<le> mx" "decisive h mx fn k"
        "\<forall>j. Suc attempt \<le> j \<and> j < k \<longrightarrow> \<not> decisive h mx fn j" and
      run: "breaker_loop cs cf h p rnd clock ab fn mx (Suc attempt) (projl (fn attempt)) s =
        (fn k, settle cs cf (clock k) s (fn k),
         tries p rnd [Suc attempt..<k] @ Call k # notify (fn k))"
      by blast
    have upt: "[attempt..<k] = attempt # [Suc attempt..<k]"
      using k(1) by (simp add: upt_conv_Cons)
    have "\<forall>j. attempt \<le> j \<and> j < k \<longrightarrow> \<not> decisive h mx fn j"
      using k(4) False by (metis Suc_leI le_neq_implies_less)
    with k False Suc.prems assms(2) show ?thesis
      by (intro exI [of _ k]) (simp add: breaker_loop_next run upt)
  qed
qed

lemma calls_append [simp]: "calls (xs @ ys) = calls xs @ calls ys"
  by (induction xs rule: calls.induct) simp_all

lemma waited_append [simp]: "waited (xs @ ys) = waited xs + waited ys"
  by (induction xs rule: waited.induct) simp_all

lemma records_append [simp]: "records (xs @ ys) = records xs @ records ys"
  by (induction xs rule: records.induct) simp_all

lemma trace_tries [simp]:
  "calls (tries p rnd js) = js"
  "records (tries p rnd js) = []"
  "waited (tries p rnd js) = sum_list (map (\<lambda>j. computeDelay j p (rnd j)) js)"
  by (induction js) simp_all

lemma trace_notify [simp]: "calls (notify out) = []" "waited (notify out) = 0"
  "records (notify out) = notify out"
  by (auto simp: notify_def split: sum.splits thrown.splits)

section \<open>Clients of the breaker interface\<close>

context circuit_breaker begin

text \<open>A refused call does not reach the provider and leaves the circuit open.\<close>

lemma refused_no_call:
  assumes "wf s" "\<not> fst (cb_allow (clock 0) s)"
  shows "\<exists>s'. withRetryAndCircuitBreaker cb_allow cb_success cb_failure status cd l h p rnd clock ab
           fn s = (Inl (Refused l cd Open), s', []) \<and> status s' = Open"
  using assms allow_refused [of s "clock 0"]
  by (simp add: withRetryAndCircuitBreaker_def split_beta)

text \<open>A call that returns a value leaves the circuit closed.\<close>

lemma success_closed:
  assumes "wf s" "\<And>k. \<not> ab k"
    and "withRetryAndCircuitBreaker cb_allow cb_success cb_failure status cd l h p rnd clock ab fn s
      = (Inr v, s', evs)"
  shows "status s' = Closed"
proof -
  let ?s1 = "snd (cb_allow (clock 0) s)"
  have "wf ?s1" using assms(1) by (rule wf_allow)
  obtain k where k: "breaker_loop cb_success cb_failure h p rnd clock ab fn (max_attempts p) 1
      (Err NotObject) ?s1 = (fn k, settle cb_success cb_failure (clock k) ?s1 (fn k),
        tries p rnd [1..<k] @ Call k # notify (fn k))"
    using breaker_loop_spec [of 1 "max_attempts p" ab, OF max_attempts_pos(1) assms(2)] by metis
  have "fst (cb_allow (clock 0) s)"
    using assms(3) by (simp add: withRetryAndCircuitBreaker_def split_beta split: if_splits)
  then have "fn k = Inr v" "s' = settle cb_success cb_failure (clock k) ?s1 (fn k)"
    using assms(3) k by (simp_all add: withRetryAndCircuitBreaker_def split_beta)
  then have "s' = cb_success (clock k) ?s1" by (simp add: settle_def)
  then show ?thesis using success_closes [OF \<open>wf ?s1\<close>] by simp
qed

end

section \<open>The plain loop\<close>

text \<open>How the plain loop leaves an attempt: it ends there, or it waits and goes on.\<close>

lemma retry_loop_cases:
  obtains (past) "mx < attempt" "retry_loop h p rnd sig fn mx attempt e = (Inl e, [])"
  | (stop) res evs where "attempt \<le> mx" "retry_loop h p rnd sig fn mx attempt e = (res, evs)"
      "calls evs = [] \<or> calls evs = [attempt]" "waited evs = 0"
  | (continue) err ev where "attempt < mx" "fn attempt = Inl err" "transient_thrown h err"
      "calls ev = []"
      "race_sleep sig attempt (computeDelay attempt p (rnd attempt)) = (None, ev)"
      "retry_loop h p rnd sig fn mx attempt e =
        (fst (retry_loop h p rnd sig fn mx (Suc attempt) err),
         Call attempt # ev @ snd (retry_loop h p rnd sig fn mx (Suc attempt) err))"
proof -
  have eq: "retry_loop h p rnd sig fn mx attempt e =
     (if mx < attempt then (Inl e, [])
      else if aborted_before sig attempt then (Inl AbortError, [])
      else case fn attempt of
        Inr v \<Rightarrow> (Inr v, [Call attempt])
      | Inl err \<Rightarrow>
          (if mx \<le> attempt \<or> \<not> transient_thrown h err then (Inl err, [Call attempt])
           else case race_sleep sig attempt (computeDelay attempt p (rnd attempt)) of
             (Some e, ev) \<Rightarrow> (Inl e, Call attempt # ev)
           | (None, ev) \<Rightarrow>
               (fst (retry_loop h p rnd sig fn mx (Suc attempt) err),
                Call attempt # ev @ snd (retry_loop h p rnd sig fn mx (Suc attempt) err))))"
    by (subst retry_loop.simps) (auto simp: split_beta Let_def split: sum.split option.split)
  consider "mx < attempt" | "attempt \<le> mx" "aborted_before sig attempt"
    | v where "attempt \<le> mx" "\<not> aborted_before sig attempt" "fn attempt = Inr v"
    | err where "attempt \<le> mx" "\<not> aborted_before sig attempt" "fn attempt = Inl err"
        "mx \<le> attempt \<or> \<not> transient_thrown h err"
    | err where "attempt < mx" "\<not> aborted_before sig attempt" "fn attempt = Inl err"
        "transient_thrown h err"
    by (metis not_le le_neq_implies_less sum.exhaust)
  then show thesis
  proof cases
    case (4 err)
    then show thesis by (intro stop [of "Inl err" "[Call attempt]"]) (auto simp: eq)
  next
    case 5
    show thesis
    proof (cases "race_sleep sig attempt (computeDelay attempt p (rnd attempt))")
      case (Pair x ev)
      have ev: "calls ev = []" "x \<noteq> None \<Longrightarrow> ev = []"
        using Pair by (auto simp: race_sleep_def split: option.splits prod.splits if_splits)
      show thesis
      proof (cases x)
        case None
        with 5 Pair ev show thesis by (intro continue [of err ev]) (simp_all add: eq)
      next
        case (Some e')
        with 5 Pair ev show thesis
          by (intro stop [of "Inl e'" "[Call attempt]"]) (simp_all add: eq)
      qed
    qed
  qed (auto simp: eq intro: past stop)
qed

lemma retry_loop_calls:
  "length (calls (snd (retry_loop h p rnd sig fn mx attempt e))) \<le> Suc mx - attempt
   \<and> (\<exists>n. calls (snd (retry_loop h p rnd sig fn mx attempt e)) = [attempt..<n])"
proof (induction "Suc mx - attempt" arbitrary: attempt e)
  case 0
  then show ?case by (subst (1 2) retry_loop.simps) (auto intro: exI [of _ 0])
next
  case (Suc n)
  show ?case
  proof (cases rule: retry_loop_cases [of mx attempt h p rnd sig fn e])
    case past
    then show ?thesis by (auto intro: exI [of _ 0])
  next
    case (stop res evs)
    then show ?thesis by (auto intro: exI [of _ attempt] exI [of _ "Suc attempt"])
  next
    case (continue err ev)
    have "n = Suc mx - Suc attempt" using Suc.hyps(2) by simp
    from Suc.hyps(1) [OF this, of err] obtain m where
      m: "calls (snd (retry_loop h p rnd sig fn mx (Suc attempt) err)) = [Suc attempt..<m]"
      "length [Suc attempt..<m] \<le> Suc mx - Suc attempt" by auto
    have "calls (snd (retry_loop h p rnd sig fn mx attempt e)) = attempt # [Suc attempt..<m]"
      using continue m by simp
    moreover have "\<exists>n. attempt # [Suc attempt..<m] = [attempt..<n]"
      by (cases "Suc attempt \<le> m")
        (auto simp: upt_conv_Cons intro: exI [of _ m] exI [of _ "Suc attempt"])
    ultimately show ?thesis using m(2) continue(1) by simp
  qed
qed

text \<open>Without an abort signal the loop never waits.\<close>

lemma retry_loop_no_wait: "waited (snd (retry_loop h p rnd None fn mx attempt e)) = 0"
proof (induction "Suc mx - attempt" arbitrary: attempt e)
  case 0
  then show ?case by (subst retry_loop.simps) simp
next
  case (Suc n)
  then have "waited (snd (retry_loop h p rnd None fn mx (Suc attempt) err)) = 0" for err
    by simp
  then show ?case
    by (subst retry_loop.simps) (auto simp: race_sleep_def split_beta split: sum.splits)
qed

section \<open>Properties\<close>

text \<open>
  Which errors are retried: an error counts as transient exactly if following its
  \<open>cause\<close> links from \<open>Error\<close> to \<open>Error\<close> reaches some object that is transient by its own
  status, code or message, however long the chain and even if the links form a cycle (on
  which the recursion still ends).
\<close>

theorem isTransient_follows_causes:
  "isTransient h r \<longleftrightarrow> (\<exists>k. transient_at h (cause_at h r k))"
  by (rule isTransient_iff)

text \<open>
  A call through the retry wrapper with a breaker that admits it and no abort: there is
  a first decisive attempt \<open>k\<close> (a success, an error that is not transient, an inner
  \<open>CircuitOpenError\<close>, or the last attempt allowed); attempts 1 to \<open>k\<close> are made, the result
  is that of attempt \<open>k\<close>, the breaker is notified exactly once and only by attempt \<open>k\<close>
  (not at all by an inner \<open>CircuitOpenError\<close>), and the waits are the delays of the policy.
\<close>

theorem retry_with_breaker_run:
  assumes "ca (clock 0) s = (True, s1)" "\<forall>k. \<not> ab k"
  shows "\<exists>k. 1 \<le> k \<and> k \<le> max_attempts p \<and> decisive h (max_attempts p) fn k
    \<and> (\<forall>j. 1 \<le> j \<and> j < k \<longrightarrow> \<not> decisive h (max_attempts p) fn j)
    \<and> (case withRetryAndCircuitBreaker ca cs cf st cd label h p rnd clock ab fn s of
         (res, s', evs) \<Rightarrow>
           res = fn k \<and> s' = settle cs cf (clock k) s1 (fn k)
           \<and> calls evs = [1..<Suc k] \<and> records evs = notify (fn k)
           \<and> waited evs = (\<Sum>j\<leftarrow>[1..<k]. computeDelay j p (rnd j)))"
proof -
  have "\<And>k. \<not> ab k" using assms(2) by simp
  then obtain k where all: "1 \<le> k \<and> k \<le> max_attempts p \<and> decisive h (max_attempts p) fn k
      \<and> (\<forall>j. 1 \<le> j \<and> j < k \<longrightarrow> \<not> decisive h (max_attempts p) fn j)
      \<and> breaker_loop cs cf h p rnd clock ab fn (max_attempts p) 1 (Err NotObject) s1 =
        (fn k, settle cs cf (clock k) s1 (fn k), tries p rnd [1..<k] @ Call k # notify (fn k))"
    by (rule exE [OF breaker_loop_spec [OF max_attempts_pos(1)]]) (rule that)
  then have k: "1 \<le> k" and
    run: "breaker_loop cs cf h p rnd clock ab fn (max_attempts p) 1 (Err NotObject) s1 =
      (fn k, settle cs cf (clock k) s1 (fn k), tries p rnd [1..<k] @ Call k # notify (fn k))"
    by blast+
  have "withRetryAndCircuitBreaker ca cs cf st cd label h p rnd clock ab fn s =
      (fn k, settle cs cf (clock k) s1 (fn k), tries p rnd [1..<k] @ Call k # notify (fn k))"
    by (simp only: withRetryAndCircuitBreaker_def assms(1) prod.case not_True_eq_False if_False run)
  moreover have "[1..<Suc k] = [1..<k] @ [k]" using k by (rule upt_Suc_append)
  ultimately have "case withRetryAndCircuitBreaker ca cs cf st cd label h p rnd clock ab fn s of
         (res, s', evs) \<Rightarrow>
           res = fn k \<and> s' = settle cs cf (clock k) s1 (fn k)
           \<and> calls evs = [1..<Suc k] \<and> records evs = notify (fn k)
           \<and> waited evs = (\<Sum>j\<leftarrow>[1..<k]. computeDelay j p (rnd j))"
    by (simp only: prod.case calls_append waited_append records_append trace_tries
        calls.simps waited.simps records.simps trace_notify append.simps) simp
  with all show ?thesis
    by (intro exI [of _ k] conjI) (elim conjE, assumption)+
qed

definition econnreset :: js_error where
  "econnreset = \<lparr>err_status = Absent, err_statusCode = Absent, err_code = Some ''ECONNRESET'',
     err_is_error = True, err_message = ''socket'', err_cause = NotObject\<rparr>"

definition flaky :: "nat \<Rightarrow> thrown + nat" where
  "flaky j = (if j = 1 then Inl (Err (Ref 0)) else Inr 7)"

theorem retry_with_breaker_run_witness:
  "\<exists>k \<ge> 1. decisive [econnreset] 3 flaky k
     \<and> fst (withRetryAndCircuitBreaker (allow USPTO_CIRCUIT_BREAKER) (\<lambda>t. onSuccess)
         (onFailure USPTO_CIRCUIT_BREAKER) cb_state (cooldownMs USPTO_CIRCUIT_BREAKER)
         ''Trademark'' [econnreset] DEFAULT_RETRY_POLICY (\<lambda>k. 0) (\<lambda>k. 5000) (\<lambda>k. False)
         flaky new_breaker) = flaky k"
proof -
  have "max_attempts DEFAULT_RETRY_POLICY = 3"
    by (simp add: max_attempts_def DEFAULT_RETRY_POLICY_def)
  moreover have "allow USPTO_CIRCUIT_BREAKER 5000 new_breaker = (True, new_breaker)"
    by (simp add: new_breaker_def)
  ultimately show ?thesis
    using retry_with_breaker_run [of "allow USPTO_CIRCUIT_BREAKER" "\<lambda>k. 5000" new_breaker
        new_breaker "\<lambda>k. False" DEFAULT_RETRY_POLICY "[econnreset]" flaky "\<lambda>t. onSuccess"
        "onFailure USPTO_CIRCUIT_BREAKER" "\<lambda>k. 0" cb_state "cooldownMs USPTO_CIRCUIT_BREAKER"
        "''Trademark''"]
    by (auto simp: split_beta)
qed

text \<open>
  The delays: with a sane policy and a jitter sample in the unit interval, the wait
  before any retry lies between 0 and the policy's ceiling, and never above the backoff of
  that attempt; the attempts of one call therefore wait at most \<open>maxAttempts - 1\<close> times the
  ceiling in total.
\<close>

theorem backoff_bounds:
  assumes "policy_ok p" "\<forall>j. 0 \<le> rnd j \<and> rnd j \<le> 1"
  shows "(\<forall>j. 0 \<le> computeDelay j p (rnd j)
        \<and> of_int (computeDelay j p (rnd j)) \<le> capped_delay j p
        \<and> capped_delay j p \<le> maxDelayMs p)
    \<and> of_int (\<Sum>j\<leftarrow>[1..<max_attempts p]. computeDelay j p (rnd j))
        \<le> of_nat (max_attempts p - 1) * maxDelayMs p"
proof -
  have "of_int (\<Sum>j\<leftarrow>js. computeDelay j p (rnd j)) \<le> of_nat (length js) * maxDelayMs p" for js
    using assms computeDelay_le_max
    by (induction js) (auto simp: algebra_simps intro: add_mono)
  from this [of "[1..<max_attempts p]"]
  have "of_int (\<Sum>j\<leftarrow>[1..<max_attempts p]. computeDelay j p (rnd j))
      \<le> of_nat (max_attempts p - 1) * maxDelayMs p" by simp
  with assms show ?thesis by (simp add: computeDelay_le_capped capped_delay_le)
qed

theorem backoff_bounds_witness:
  "of_int (\<Sum>j\<leftarrow>[1..<max_attempts UTILS_RETRY_POLICY]. computeDelay j UTILS_RETRY_POLICY (1/2))
     \<le> of_nat (max_attempts UTILS_RETRY_POLICY - 1) * maxDelayMs UTILS_RETRY_POLICY"
  using backoff_bounds [of UTILS_RETRY_POLICY "\<lambda>j. 1/2"]
  by (simp add: policy_ok_def UTILS_RETRY_POLICY_def)

text \<open>
  \<open>withRetry\<close> without an abort signal does not back off: whatever the policy, all
  attempts are made without waiting, because the resolved promise it races against the
  sleep wins at once. (With a signal the loop does wait, see \<^const>\<open>race_sleep\<close>.) The
  attempts themselves are numbered consecutively and bounded by the policy.
\<close>

theorem withRetry_without_signal_never_waits:
  "waited (snd (withRetry h p rnd None fn)) = 0
   \<and> (\<exists>n. calls (snd (withRetry h p rnd None fn)) = [1..<n])
   \<and> length (calls (snd (withRetry h p rnd None fn))) \<le> max_attempts p"
  using retry_loop_no_wait [of h p rnd fn "max_attempts p" 1 "Err NotObject"]
    retry_loop_calls [of h p rnd None fn "max_attempts p" 1 "Err NotObject"]
  by (simp add: withRetry_def)

text \<open>
  An abort counts against the provider: a call whose signal is already aborted reaches
  the provider not at all, yet is reported to the breaker as a failure; one such call opens
  a circuit that is one failure below its threshold.
\<close>

theorem abort_counts_as_failure:
  assumes "cb_state b = Closed" "ab 1" "failureThreshold q = failureCount b + 1"
    and "windowStart b \<noteq> 0" "clock 1 - windowStart b \<le> windowMs q"
  shows "case withRetryAndCircuitBreaker (allow q) (\<lambda>t. onSuccess) (onFailure q) cb_state
            (cooldownMs q) label h p rnd clock ab fn b of
    (res, b', evs) \<Rightarrow> res = Inl AbortError \<and> calls evs = [] \<and> cb_state b' = Open"
proof -
  have "breaker_loop (\<lambda>t. onSuccess) (onFailure q) h p rnd clock ab fn (max_attempts p) 1
      (Err NotObject) b = (Inl AbortError, onFailure q (clock 1) b, [RecordFailure])"
    using assms(2) by (intro breaker_loop_abort max_attempts_pos(1))
  moreover have "cb_state (onFailure q (clock 1) b) = Open"
    using assms by (simp add: onFailure_state count_failure_def)
  ultimately show ?thesis
    using assms(1) by (simp add: withRetryAndCircuitBreaker_def)
qed

theorem abort_counts_as_failure_witness:
  "case withRetryAndCircuitBreaker (allow USPTO_CIRCUIT_BREAKER) (\<lambda>t. onSuccess)
       (onFailure USPTO_CIRCUIT_BREAKER) cb_state (cooldownMs USPTO_CIRCUIT_BREAKER)
       ''Trademark'' [] DEFAULT_RETRY_POLICY (\<lambda>k. 0) (\<lambda>k. 5000) (\<lambda>k. True) (\<lambda>k. Inr (0::nat))
       \<lparr>cb_state = Closed, failureCount = 2, windowStart = 1000, openedAt = 0\<rparr> of
     (res, b', evs) \<Rightarrow> res = Inl AbortError \<and> calls evs = [] \<and> cb_state b' = Open"
  by (rule abort_counts_as_failure) (simp_all add: USPTO_CIRCUIT_BREAKER_def)

end
