(* ===== verification/DnsBreaker.thy ===== *)
theory DnsBreaker
  imports Retry "HOL-Library.AList"
begin

text \<open>
  The registry of per-endpoint circuits, \<open>src/providers/dns/dns-breaker.ts\<close>, in the
  composition without Redis (every circuit is an in-memory \<open>CircuitBreaker\<close>). The \<open>Map\<close> of
  the class is an association list in insertion order. Seen at one key the registry is
  again a circuit breaker, so the lemmas of the interface apply to it.
\<close>

section \<open>Keys\<close>

datatype leg_type = Doh | Dot | Native

record dns_lookup_spec =
  spec_type :: leg_type
  spec_endpoint :: "string option"
  spec_format :: "string option"
  spec_servername :: "string option"
  spec_port :: "nat option"
  spec_nameservers :: "string list option"

fun or_else :: "'a option \<Rightarrow> 'a \<Rightarrow> 'a" where
  "or_else None d = d"
| "or_else (Some x) d = x"

fun join :: "string \<Rightarrow> string list \<Rightarrow> string" where
  "join sep [] = []"
| "join sep [x] = x"
| "join sep (x # y # xs) = x @ sep @ join sep (y # xs)"

text \<open>
  \<open>new URL(s).hostname\<close> is a parameter (\<open>None\<close> where the constructor throws), as is the
  decimal form of a port.
\<close>

definition dnsBreakerKey ::
  "(string \<Rightarrow> string option) \<Rightarrow> (nat \<Rightarrow> string) \<Rightarrow> dns_lookup_spec \<Rightarrow> string list option \<Rightarrow> string"
where
  "dnsBreakerKey hostname show_port spec nameservers =
     (case spec_type spec of
        Doh \<Rightarrow>
          (case hostname (or_else (spec_endpoint spec) ''https://x.invalid'') of
             Some host \<Rightarrow> ''doh:'' @ host @ '':'' @ or_else (spec_format spec) ''json''
           | None \<Rightarrow> ''doh:'' @ or_else (spec_endpoint spec) ''unknown'' @ '':json'')
      | Dot \<Rightarrow>
          ''dot:'' @ or_else (spec_endpoint spec) ''unknown'' @ ''|''
            @ or_else (spec_servername spec) [] @ ''|'' @ show_port (or_else (spec_port spec) 853)
      | Native \<Rightarrow>
          (let ns = (case spec_nameservers spec of None \<Rightarrow> nameservers | Some l \<Rightarrow> Some l)
           in if ns \<noteq> None \<and> the ns \<noteq> [] then ''native:'' @ join '','' (the ns)
              else ''native:system-resolver''))"

section \<open>The registry\<close>

type_synonym registry = "(string \<times> breaker) list"

definition DNS_BREAKER_POLICY :: breaker_policy where
  "DNS_BREAKER_POLICY = \<lparr>failureThreshold = 5, windowMs = 60000, cooldownMs = 120000\<rparr>"

definition localBreaker :: "string \<Rightarrow> registry \<Rightarrow> breaker \<times> registry" where
  "localBreaker key reg =
     (case map_of reg key of
        Some b \<Rightarrow> (b, reg)
      | None \<Rightarrow> (new_breaker, AList.update key new_breaker reg))"

definition reg_allow :: "breaker_policy \<Rightarrow> string \<Rightarrow> ms \<Rightarrow> registry \<Rightarrow> bool \<times> registry" where
  "reg_allow p key now reg =
     (let (b, reg1) = localBreaker key reg;
          (allowed, b') = allow p now b
      in (allowed, AList.update key b' reg1))"

definition reg_onSuccess :: "string \<Rightarrow> registry \<Rightarrow> registry" where
  "reg_onSuccess key reg =
     (let (b, reg1) = localBreaker key reg in AList.update key (onSuccess b) reg1)"

definition reg_onFailure :: "breaker_policy \<Rightarrow> string \<Rightarrow> ms \<Rightarrow> registry \<Rightarrow> registry" where
  "reg_onFailure p key now reg =
     (let (b, reg1) = localBreaker key reg in AList.update key (onFailure p now b) reg1)"

record breaker_stats =
  n_open :: nat
  n_closed :: nat
  n_halfOpen :: nat
  n_total :: nat

fun tally :: "breaker list \<Rightarrow> nat \<Rightarrow> nat \<Rightarrow> nat \<Rightarrow> nat \<times> nat \<times> nat" where
  "tally [] op cl ha = (op, cl, ha)"
| "tally (b # bs) op cl ha =
     (case cb_state b of
        Open \<Rightarrow> tally bs (op + 1) cl ha
      | HalfOpen \<Rightarrow> tally bs op cl (ha + 1)
      | Closed \<Rightarrow> tally bs op (cl + 1) ha)"

definition snapshot :: "registry \<Rightarrow> breaker_stats" where
  "snapshot reg =
     (case tally (map snd reg) 0 0 0 of
        (op, cl, ha) \<Rightarrow>
          \<lparr>n_open = op, n_closed = cl, n_halfOpen = ha, n_total = length reg\<rparr>)"

definition reg_reset :: "registry \<Rightarrow> registry" where
  "reg_reset reg = []"

text \<open>
  Persistence. The cache row is the list of entries (JSON being transparent); \<open>None\<close> stands
  for a missing row or one that does not parse. \<open>saveState\<close> writes no row for an empty
  registry, and \<open>loadState\<close> restores only circuits that already exist.
\<close>

type_synonym breaker_row = "(string \<times> breaker_data) list"

definition saveState :: "registry \<Rightarrow> breaker_row option \<Rightarrow> breaker_row option" where
  "saveState reg cached =
     (let states = map (\<lambda>(k, b). (k, getStateForPersistence b)) reg
      in if states \<noteq> [] then Some states else cached)"

fun restore_entries :: "breaker_row \<Rightarrow> registry \<Rightarrow> registry" where
  "restore_entries [] reg = reg"
| "restore_entries ((k, d) # ds) reg =
     restore_entries ds
       (case map_of reg k of
          Some b \<Rightarrow> AList.update k (restoreFromPersistence d b) reg
        | None \<Rightarrow> reg)"

definition loadState :: "breaker_row option \<Rightarrow> registry \<Rightarrow> registry" where
  "loadState cached reg =
     (case cached of None \<Rightarrow> reg | Some states \<Rightarrow> restore_entries states reg)"

section \<open>The registry at one key\<close>

definition circuit_of :: "string \<Rightarrow> registry \<Rightarrow> breaker" where
  "circuit_of key reg = or_else (map_of reg key) new_breaker"

lemma circuit_of_update [simp]:
  "circuit_of k (AList.update key b reg) = (if k = key then b else circuit_of k reg)"
  by (simp add: circuit_of_def update_conv')

lemma localBreaker_circuit:
  "fst (localBreaker key reg) = circuit_of key reg"
  "circuit_of k (snd (localBreaker key reg)) = circuit_of k reg"
  by (auto simp: localBreaker_def circuit_of_def update_conv' split: option.splits)

lemma reg_allow_circuit:
  "fst (reg_allow p key t reg) = fst (allow p t (circuit_of key reg))"
  "circuit_of k (snd (reg_allow p key t reg)) =
     (if k = key then snd (allow p t (circuit_of key reg)) else circuit_of k reg)"
  by (simp_all add: reg_allow_def split_beta Let_def localBreaker_circuit)

lemma reg_onSuccess_circuit:
  "circuit_of k (reg_onSuccess key reg) =
     (if k = key then onSuccess (circuit_of key reg) else circuit_of k reg)"
  by (simp add: reg_onSuccess_def split_beta Let_def localBreaker_circuit)

lemma reg_onFailure_circuit:
  "circuit_of k (reg_onFailure p key t reg) =
     (if k = key then onFailure p t (circuit_of key reg) else circuit_of k reg)"
  by (simp add: reg_onFailure_def split_beta Let_def localBreaker_circuit)

lemmas reg_circuit = reg_allow_circuit reg_onSuccess_circuit reg_onFailure_circuit

text \<open>
  The contract of the registry at a key follows from that of the single circuit: the
  operations of the registry are those of the circuit seen through \<open>circuit_of\<close>.
\<close>

interpretation dns: circuit_breaker
  "reg_allow p key" "\<lambda>t. reg_onSuccess key" "reg_onFailure p key"
  "\<lambda>reg. cb_state (circuit_of key reg)"
  "\<lambda>reg. 1 \<le> failureThreshold p \<and> breaker_inv p (circuit_of key reg)" for p key
  by unfold_locales
     (simp_all add: reg_circuit memory_cb.allow_closed memory_cb.allow_half_open memory_cb.allow_refused
       memory_cb.allow_granted memory_cb.failure_half_open memory_cb.failure_open breaker_inv_allow
       breaker_inv_onSuccess breaker_inv_onFailure)

section \<open>Counting and persistence\<close>

lemma tally_eq:
  "tally bs op cl ha =
     (op + length (filter (\<lambda>b. cb_state b = Open) bs),
      cl + length (filter (\<lambda>b. cb_state b = Closed) bs),
      ha + length (filter (\<lambda>b. cb_state b = HalfOpen) bs))"
  by (induction bs arbitrary: op cl ha) (auto split: circuit_state.splits)

lemma filter_states_length:
  "length (filter (\<lambda>b. cb_state b = Open) bs) + length (filter (\<lambda>b. cb_state b = Closed) bs)
     + length (filter (\<lambda>b. cb_state b = HalfOpen) bs) = length bs"
  by (induction bs) (auto, metis circuit_state.exhaust)

lemma restore_entries_Nil [simp]: "restore_entries ds [] = []"
  by (induction ds) auto

lemma restore_persist [simp]: "restoreFromPersistence (getStateForPersistence b) b' = b"
  by (simp add: restoreFromPersistence_def getStateForPersistence_def)

lemma circuit_of_restore_notin:
  "k \<notin> fst ` set ds \<Longrightarrow> circuit_of k (restore_entries ds reg) = circuit_of k reg"
  by (induction ds reg rule: restore_entries.induct) (auto split: option.splits)

lemma restore_entries_keys: "fst ` set (restore_entries ds reg) = fst ` set reg"
proof (induction ds reg rule: restore_entries.induct)
  case (2 k d ds reg)
  have "map_of reg k = Some b \<Longrightarrow> fst ` set (AList.update k x reg) = fst ` set reg" for b x
    using map_of_SomeD [of reg k b] by (simp add: dom_update insert_absorb image_iff Bex_def)
       (metis insert_absorb image_eqI fst_conv)
  then show ?case using "2.IH" by (auto split: option.splits)
qed simp

lemma circuit_of_restore:
  assumes "distinct (map fst reg)" "(k, b) \<in> set reg" "k \<in> fst ` set reg'"
  shows "circuit_of k (restore_entries (map (\<lambda>(k, b). (k, getStateForPersistence b)) reg) reg') = b"
  using assms
proof (induction reg arbitrary: reg')
  case Nil
  then show ?case by simp
next
  case (Cons e reg)
  obtain k0 b0 where e: "e = (k0, b0)" by (cases e)
  let ?rows = "map (\<lambda>(k, b). (k, getStateForPersistence b)) reg"
  show ?case
  proof (cases "k = k0")
    case True
    then have "b = b0" "k \<notin> fst ` set ?rows"
      using Cons.prems(1,2) e by (auto simp: image_iff)
    moreover obtain b' where "map_of reg' k = Some b'"
      using Cons.prems(3) by (metis map_of_eq_None_iff not_Some_eq)
    ultimately show ?thesis using True e by (simp add: circuit_of_restore_notin)
  next
    case False
    then have "(k, b) \<in> set reg" using Cons.prems(2) e by simp
    moreover have "k \<in> fst ` set (AList.update k0 x reg')" for x
      using Cons.prems(3) by (simp add: dom_update)
    ultimately show ?thesis
      using Cons.prems(1,3) e Cons.IH by (simp split: option.splits)
  qed
qed

section \<open>Properties\<close>

text \<open>
  Isolation: an operation on one endpoint acts on the circuit of that endpoint as the
  single circuit breaker does, leaves the circuits of all other endpoints alone, and the
  counts of \<open>snapshot\<close> always add up to the number of circuits.
\<close>

theorem registry_isolates_endpoints:
  "circuit_of k (snd (reg_allow p key t reg)) =
     (if k = key then snd (allow p t (circuit_of key reg)) else circuit_of k reg)
   \<and> circuit_of k (reg_onSuccess key reg) =
     (if k = key then onSuccess (circuit_of key reg) else circuit_of k reg)
   \<and> circuit_of k (reg_onFailure p key t reg) =
     (if k = key then onFailure p t (circuit_of key reg) else circuit_of k reg)
   \<and> n_open (snapshot reg) + n_closed (snapshot reg) + n_halfOpen (snapshot reg) = length reg"
  using filter_states_length [of "map snd reg"]
  by (simp add: reg_circuit snapshot_def tally_eq del: length_map) (simp add: reg_circuit)

text \<open>
  Saving and loading: circuits that exist when the state is loaded come back exactly as
  they were saved; circuits that do not exist yet are not created. In particular loading
  into the fresh registry of a restarted process restores nothing: an endpoint whose
  circuit was saved as open is let through at once.
\<close>

theorem registry_load_restores_existing_only:
  assumes "distinct (map fst reg)" "(key, b) \<in> set reg"
  shows "(key \<in> fst ` set reg' \<longrightarrow> circuit_of key (loadState (saveState reg row) reg') = b)
    \<and> fst ` set (loadState (saveState reg row) reg') = fst ` set reg'
    \<and> loadState (saveState reg row) [] = []
    \<and> fst (reg_allow p key t (loadState (saveState reg row) []))"
proof -
  have "reg \<noteq> []" using assms(2) by auto
  then have save: "saveState reg row = Some (map (\<lambda>(k, b). (k, getStateForPersistence b)) reg)"
    by (simp add: saveState_def Let_def)
  have "cb_state (circuit_of key []) = Closed" by (simp add: circuit_of_def new_breaker_def)
  then have "fst (reg_allow p key t [])" by (simp add: reg_allow_circuit)
  with save assms show ?thesis
    by (simp add: loadState_def circuit_of_restore restore_entries_keys)
qed

definition tripped :: registry where
  "tripped = [(''native:10.0.0.1'',
     \<lparr>cb_state = Open, failureCount = 5, windowStart = 4000, openedAt = 5000\<rparr>)]"

theorem registry_load_restores_existing_only_witness:
  "fst (reg_allow DNS_BREAKER_POLICY ''native:10.0.0.1'' 5001 (loadState (saveState tripped None) []))
   \<and> \<not> fst (reg_allow DNS_BREAKER_POLICY ''native:10.0.0.1'' 5001 tripped)"
proof
  have "distinct (map fst tripped)" by (simp add: tripped_def)
  moreover have "(''native:10.0.0.1'',
      \<lparr>cb_state = Open, failureCount = 5, windowStart = 4000, openedAt = 5000\<rparr>) \<in> set tripped"
    by (simp add: tripped_def)
  ultimately show
    "fst (reg_allow DNS_BREAKER_POLICY ''native:10.0.0.1'' 5001 (loadState (saveState tripped None) []))"
    using registry_load_restores_existing_only by blast
  show "\<not> fst (reg_allow DNS_BREAKER_POLICY ''native:10.0.0.1'' 5001 tripped)"
    by (simp add: tripped_def reg_allow_circuit circuit_of_def allow_when_open DNS_BREAKER_POLICY_def)
qed

end
