(* ===== verification/RateLimit.thy ===== *)
theory RateLimit
  imports Prelude
begin

text \<open>
  The token bucket of \<open>src/providers/rate-limiter.ts\<close>: configuration and state records,
  \<open>acquire\<close> (which may reject), one iteration of the \<open>#processQueue\<close> loop, \<open>#refill\<close> and
  \<open>metrics\<close>. A run is a list of events with the clock reading of each. The lemmas bound
  the tokens and the grants, and show that requests are granted in order of arrival.
\<close>

section \<open>Configuration and state\<close>

datatype priority = Primary | Consensus | Tertiary

text \<open>
  \<open>tokensPerInterval = None\<close> is \<open>Number.POSITIVE_INFINITY\<close>. \<open>reservedRatio\<close> is the field of
  \<open>PriorityRateLimiter\<close>; the base class is the case 0.
\<close>

record limiter_config =
  maxTokens :: real
  tokensPerInterval :: "real option"
  intervalMs :: real
  maxQueueSize :: int
  reservedRatio :: real

record limiter =
  tokens :: real
  lastRefill :: ms
  queue :: "(nat \<times> priority option) list"
  processing :: bool

datatype rate_error = RateLimiterQueueFullError int int

definition new_limiter :: "limiter_config \<Rightarrow> ms \<Rightarrow> limiter" where
  "new_limiter c now = \<lparr>tokens = maxTokens c, lastRefill = now, queue = [], processing = False\<rparr>"

definition priority_config ::
  "real \<Rightarrow> real option \<Rightarrow> real \<Rightarrow> int option \<Rightarrow> real \<Rightarrow> limiter_config" where
  "priority_config mx tpi iv mq ratio =
     \<lparr>maxTokens = mx, tokensPerInterval = tpi, intervalMs = iv,
      maxQueueSize = (case mq of None \<Rightarrow> 1000 | Some n \<Rightarrow> n),
      reservedRatio = min (max ratio 0) (1 / 2)\<rparr>"

definition getReservedTokens :: "limiter_config \<Rightarrow> real" where
  "getReservedTokens c = of_int \<lfloor>maxTokens c * reservedRatio c\<rfloor>"

definition getPrimaryAvailableTokens :: "limiter_config \<Rightarrow> limiter \<Rightarrow> real" where
  "getPrimaryAvailableTokens c st = tokens st - getReservedTokens c"

definition getPriorityAvailableTokens :: "limiter \<Rightarrow> real" where
  "getPriorityAvailableTokens st = tokens st"

text \<open>Tokens per millisecond.\<close>

definition rate :: "limiter_config \<Rightarrow> real" where
  "rate c = (case tokensPerInterval c of None \<Rightarrow> 0 | Some r \<Rightarrow> r) / intervalMs c"

definition refill :: "limiter_config \<Rightarrow> ms \<Rightarrow> limiter \<Rightarrow> limiter" where
  "refill c now st =
     (let elapsed = of_int (now - lastRefill st);
          tokensToAdd = elapsed * rate c
      in if tokensToAdd \<ge> 1 / 1000
         then st\<lparr>tokens := min (maxTokens c) (tokens st + tokensToAdd), lastRefill := now\<rparr>
         else st)"

section \<open>Operations\<close>

text \<open>
  \<open>acquire\<close> appends the request and makes sure that the loop is running; the result
  \<open>Inr (False, _)\<close> is the immediate grant of an unlimited bucket.
\<close>

definition acquire ::
  "limiter_config \<Rightarrow> nat \<Rightarrow> priority option \<Rightarrow> limiter \<Rightarrow> rate_error + (bool \<times> limiter)" where
  "acquire c i pr st =
     (if tokensPerInterval c = None then Inr (False, st)
      else if maxQueueSize c > 0 \<and> int (length (queue st)) \<ge> maxQueueSize c
      then Inl (RateLimiterQueueFullError (int (length (queue st))) (maxQueueSize c))
      else Inr (True, st\<lparr>queue := queue st @ [(i, pr)], processing := True\<rparr>))"

datatype iteration = Finished | Granted nat | Sleep int

definition is_priority :: "priority option \<Rightarrow> bool" where
  "is_priority pr = (pr = Some Consensus \<or> pr = Some Tertiary)"

definition available :: "limiter_config \<Rightarrow> priority option \<Rightarrow> limiter \<Rightarrow> real" where
  "available c pr st =
     (if is_priority pr then getPriorityAvailableTokens st else getPrimaryAvailableTokens c st)"

definition processQueue_iter :: "limiter_config \<Rightarrow> ms \<Rightarrow> limiter \<Rightarrow> iteration \<times> limiter" where
  "processQueue_iter c now st =
     (case queue st of
        [] \<Rightarrow> (Finished, st\<lparr>processing := False\<rparr>)
      | (i, pr) # _ \<Rightarrow>
          let st1 = refill c now st;
              avail = available c pr st1
          in if avail \<ge> 1
             then (Granted i, st1\<lparr>tokens := tokens st1 - 1, queue := tl (queue st1)\<rparr>)
             else (Sleep (max \<lceil>(1 - avail) / rate c\<rceil> 1), st1))"

record limiter_metrics =
  m_maxTokens :: real
  m_currentTokens :: real
  m_queueLength :: nat
  m_maxQueueSize :: int
  m_tokensPerInterval :: real
  m_intervalMs :: real

definition metrics :: "limiter_config \<Rightarrow> ms \<Rightarrow> limiter \<Rightarrow> limiter_metrics \<times> limiter" where
  "metrics c now st =
     (let st1 = refill c now st
      in (\<lparr>m_maxTokens = maxTokens c, m_currentTokens = tokens st1,
           m_queueLength = length (queue st1), m_maxQueueSize = maxQueueSize c,
           m_tokensPerInterval = (case tokensPerInterval c of None \<Rightarrow> -1 | Some r \<Rightarrow> r),
           m_intervalMs = intervalMs c\<rparr>, st1))"

section \<open>Runs\<close>

text \<open>
  The log of a run: which requests were accepted into the queue and which were granted.
  Requests reach the limiter, and the loop iterates, in any interleaving.
\<close>

datatype rl_event = Acquire nat "priority option" | Iterate ms | Metrics ms

record rl_run =
  bucket :: limiter
  arrived :: "nat list"
  granted :: "nat list"

fun rl_step :: "limiter_config \<Rightarrow> rl_run \<Rightarrow> rl_event \<Rightarrow> rl_run" where
  "rl_step c r (Acquire i pr) =
     (case acquire c i pr (bucket r) of
        Inr (True, st) \<Rightarrow> r\<lparr>bucket := st, arrived := arrived r @ [i]\<rparr>
      | _ \<Rightarrow> r)"
| "rl_step c r (Iterate t) =
     (case processQueue_iter c t (bucket r) of
        (Granted i, st) \<Rightarrow> r\<lparr>bucket := st, granted := granted r @ [i]\<rparr>
      | (_, st) \<Rightarrow> r\<lparr>bucket := st\<rparr>)"
| "rl_step c r (Metrics t) = r\<lparr>bucket := snd (metrics c t (bucket r))\<rparr>"

definition rl_steps :: "limiter_config \<Rightarrow> rl_run \<Rightarrow> rl_event list \<Rightarrow> rl_run" where
  "rl_steps c = foldl (rl_step c)"

definition start :: "limiter_config \<Rightarrow> ms \<Rightarrow> rl_run" where
  "start c now = \<lparr>bucket = new_limiter c now, arrived = [], granted = []\<rparr>"

definition sane :: "limiter_config \<Rightarrow> bool" where
  "sane c = (0 \<le> maxTokens c \<and> 0 \<le> rate c \<and> 0 \<le> reservedRatio c)"

lemma reserved_nonneg: "sane c \<Longrightarrow> 0 \<le> getReservedTokens c"
  by (simp add: sane_def getReservedTokens_def)

lemma available_le: "sane c \<Longrightarrow> available c pr st \<le> tokens st"
  using reserved_nonneg [of c]
  by (simp add: available_def getPrimaryAvailableTokens_def getPriorityAvailableTokens_def)

lemma refill_frame [frame_simps, simp]:
  "queue (refill c t st) = queue st" "processing (refill c t st) = processing st"
  by (simp_all add: refill_def Let_def)

lemma iter_empty: "queue st = [] \<Longrightarrow> processQueue_iter c t st = (Finished, st\<lparr>processing := False\<rparr>)"
  by (simp add: processQueue_iter_def)

lemma iter_granted:
  "processQueue_iter c t st = (Granted i, st') \<longleftrightarrow>
     (\<exists>pr q. queue st = (i, pr) # q \<and> available c pr (refill c t st) \<ge> 1 \<and>
       st' = (refill c t st)\<lparr>tokens := tokens (refill c t st) - 1, queue := q\<rparr>)"
  by (auto simp: processQueue_iter_def Let_def split: list.splits)

lemma iter_sleep:
  "processQueue_iter c t st = (Sleep d, st') \<longleftrightarrow>
     (\<exists>i pr q. queue st = (i, pr) # q \<and> available c pr (refill c t st) < 1 \<and>
       st' = refill c t st \<and> d = max \<lceil>(1 - available c pr (refill c t st)) / rate c\<rceil> 1)"
  by (auto simp: processQueue_iter_def Let_def not_le split: list.splits)

lemma rl_step_iterate:
  obtains (empty) "queue (bucket r) = []"
      "rl_step c r (Iterate t) = r\<lparr>bucket := (bucket r)\<lparr>processing := False\<rparr>\<rparr>"
  | (granted) i pr q where "queue (bucket r) = (i, pr) # q"
      "available c pr (refill c t (bucket r)) \<ge> 1"
      "rl_step c r (Iterate t) =
        r\<lparr>bucket := (refill c t (bucket r))\<lparr>tokens := tokens (refill c t (bucket r)) - 1, queue := q\<rparr>,
          granted := granted r @ [i]\<rparr>"
  | (sleep) "rl_step c r (Iterate t) = r\<lparr>bucket := refill c t (bucket r)\<rparr>"
proof (cases "processQueue_iter c t (bucket r)")
  case (Pair x st)
  show thesis
  proof (cases x)
    case Finished
    then have "queue (bucket r) = []" using Pair
      by (auto simp: processQueue_iter_def Let_def split: list.splits if_splits)
    then show thesis by (intro empty) (simp_all add: iter_empty)
  next
    case (Granted i)
    with Pair obtain pr q where q: "queue (bucket r) = (i, pr) # q"
        "available c pr (refill c t (bucket r)) \<ge> 1"
        "st = (refill c t (bucket r))\<lparr>tokens := tokens (refill c t (bucket r)) - 1, queue := q\<rparr>"
      by (auto simp: iter_granted)
    with Pair Granted show thesis by (intro granted [of i pr q]) simp_all
  next
    case (Sleep d)
    with Pair have "st = refill c t (bucket r)" by (auto simp: iter_sleep)
    with Pair Sleep show thesis by (intro sleep) simp
  qed
qed

section \<open>Invariants\<close>

definition bucket_inv :: "limiter_config \<Rightarrow> limiter \<Rightarrow> bool" where
  "bucket_inv c st = (0 \<le> tokens st \<and> tokens st \<le> maxTokens c)"

lemma refill_inv: "sane c \<Longrightarrow> bucket_inv c st \<Longrightarrow> bucket_inv c (refill c t st)"
  by (auto simp: bucket_inv_def refill_def Let_def)

lemma rl_step_bucket_inv:
  assumes "sane c" "bucket_inv c (bucket r)"
  shows "bucket_inv c (bucket (rl_step c r e))"
proof (cases e)
  case (Acquire i pr)
  then show ?thesis using assms
    by (auto simp: acquire_def bucket_inv_def split: sum.splits bool.splits)
next
  case (Metrics t)
  then show ?thesis using assms by (simp add: metrics_def Let_def refill_inv)
next
  case (Iterate t)
  have inv: "bucket_inv c (refill c t (bucket r))" using assms by (rule refill_inv)
  show ?thesis
  proof (cases rule: rl_step_iterate [of r c t])
    case empty
    then show ?thesis using assms Iterate by (simp add: bucket_inv_def)
  next
    case (granted i pr q)
    then have "1 \<le> tokens (refill c t (bucket r))"
      using available_le [OF assms(1)] order_trans by blast
    with granted inv Iterate show ?thesis by (simp add: bucket_inv_def)
  next
    case sleep
    then show ?thesis using inv Iterate by simp
  qed
qed

text \<open>First in, first out, and nothing is lost.\<close>

definition fifo_inv :: "rl_run \<Rightarrow> bool" where
  "fifo_inv r = (granted r @ map fst (queue (bucket r)) = arrived r)"

lemma rl_step_fifo: "fifo_inv r \<Longrightarrow> fifo_inv (rl_step c r e)"
proof (cases e)
  case (Acquire i pr)
  assume "fifo_inv r"
  then show ?thesis using Acquire
    by (auto simp: acquire_def fifo_inv_def split: sum.splits bool.splits)
next
  case (Metrics t)
  assume "fifo_inv r"
  then show ?thesis using Metrics by (simp add: metrics_def Let_def fifo_inv_def)
next
  case (Iterate t)
  assume inv: "fifo_inv r"
  show ?thesis unfolding Iterate
    using inv by (cases rule: rl_step_iterate [of r c t]) (auto simp: fifo_inv_def)
qed

definition queue_bounded :: "limiter_config \<Rightarrow> limiter \<Rightarrow> bool" where
  "queue_bounded c st = (maxQueueSize c > 0 \<longrightarrow> int (length (queue st)) \<le> maxQueueSize c)"

lemma rl_step_queue_bounded:
  "queue_bounded c (bucket r) \<Longrightarrow> queue_bounded c (bucket (rl_step c r e))"
proof (cases e)
  case (Acquire i pr)
  assume "queue_bounded c (bucket r)"
  then show ?thesis using Acquire
    by (auto simp: acquire_def queue_bounded_def split: sum.splits bool.splits)
next
  case (Metrics t)
  assume "queue_bounded c (bucket r)"
  then show ?thesis using Metrics by (simp add: metrics_def Let_def queue_bounded_def)
next
  case (Iterate t)
  assume inv: "queue_bounded c (bucket r)"
  show ?thesis unfolding Iterate
    using inv by (cases rule: rl_step_iterate [of r c t]) (auto simp: queue_bounded_def)
qed

text \<open>
  The conformance potential: what was granted plus what is left never exceeds what was
  there at the start plus what the elapsed time has earned.
\<close>

fun event_time :: "rl_event \<Rightarrow> ms option" where
  "event_time (Acquire i pr) = None"
| "event_time (Iterate t) = Some t"
| "event_time (Metrics t) = Some t"

definition conform :: "limiter_config \<Rightarrow> real \<Rightarrow> rl_run \<Rightarrow> bool" where
  "conform c budget r =
     (tokens (bucket r) + real (length (granted r)) \<le> budget + of_int (lastRefill (bucket r)) * rate c)"

lemma refill_conform:
  assumes "conform c budget r"
  shows "conform c budget (r\<lparr>bucket := refill c t (bucket r)\<rparr>)"
  using assms by (auto simp: conform_def refill_def Let_def algebra_simps)

lemma rl_step_conform:
  assumes "conform c budget r"
  shows "conform c budget (rl_step c r e)"
proof (cases e)
  case (Acquire i pr)
  then show ?thesis using assms
    by (auto simp: acquire_def conform_def split: sum.splits bool.splits)
next
  case (Metrics t)
  then show ?thesis using refill_conform [OF assms] by (simp add: metrics_def Let_def)
next
  case (Iterate t)
  have "conform c budget (r\<lparr>bucket := refill c t (bucket r)\<rparr>)" by (rule refill_conform [OF assms])
  then show ?thesis unfolding Iterate
    using assms by (cases rule: rl_step_iterate [of r c t]) (auto simp: conform_def)
qed

lemma refill_last: "lastRefill st \<le> T \<Longrightarrow> t \<le> T \<Longrightarrow> lastRefill (refill c t st) \<le> T"
  by (simp add: refill_def Let_def)

lemma rl_step_last:
  assumes "lastRefill (bucket r) \<le> T" "\<And>t. event_time e = Some t \<Longrightarrow> t \<le> T"
  shows "lastRefill (bucket (rl_step c r e)) \<le> T"
proof (cases e)
  case (Acquire i pr)
  then show ?thesis using assms
    by (auto simp: acquire_def split: sum.splits bool.splits)
next
  case (Metrics t)
  then show ?thesis using assms by (simp add: metrics_def Let_def refill_last)
next
  case (Iterate t)
  have "lastRefill (refill c t (bucket r)) \<le> T" using assms Iterate by (simp add: refill_last)
  then show ?thesis unfolding Iterate
    using assms by (cases rule: rl_step_iterate [of r c t]) auto
qed

lemma rl_steps_invariant:
  assumes "\<And>r e. I r \<Longrightarrow> e \<in> set es \<Longrightarrow> I (rl_step c r e)" "I r"
  shows "I (rl_steps c r es)"
  using assms unfolding rl_steps_def by (induction es arbitrary: r) auto

lemma rl_steps_grants:
  assumes "\<And>e t. e \<in> set es \<Longrightarrow> event_time e = Some t \<Longrightarrow> t \<le> T"
    and "lastRefill (bucket r) \<le> T" "granted r = []" "sane c" "bucket_inv c (bucket r)"
  shows "real (length (granted (rl_steps c r es)))
           \<le> tokens (bucket r) + of_int (T - lastRefill (bucket r)) * rate c"
proof -
  let ?r = "rl_steps c r es"
  let ?budget = "tokens (bucket r) - of_int (lastRefill (bucket r)) * rate c"
  have "conform c ?budget ?r"
    by (rule rl_steps_invariant [where I = "conform c ?budget"])
       (rule rl_step_conform, assumption, simp add: conform_def assms(3))
  moreover have "bucket_inv c (bucket ?r)"
    by (rule rl_steps_invariant) (auto intro: rl_step_bucket_inv assms(4,5))
  moreover have "lastRefill (bucket ?r) \<le> T"
    by (rule rl_steps_invariant [where I = "\<lambda>r. lastRefill (bucket r) \<le> T"])
       (use assms in \<open>auto intro!: rl_step_last\<close>)
  then have "of_int (lastRefill (bucket ?r)) * rate c \<le> of_int T * rate c"
    using assms(4) by (intro mult_right_mono) (simp_all add: sane_def)
  ultimately show ?thesis
    unfolding conform_def bucket_inv_def by (simp add: algebra_simps)
qed

section \<open>Progress and blocking\<close>

lemma iterate_after_sleep:
  assumes "sane c" "0 < rate c" "bucket_inv c st"
    and "1 + getReservedTokens c \<le> maxTokens c"
    and sl: "processQueue_iter c t st = (Sleep d, st')"
    and "t + d \<le> t'" "1 / 1000 \<le> of_int (t' - lastRefill st') * rate c"
    and "lastRefill st \<le> t"
  shows "\<exists>i st''. processQueue_iter c t' st' = (Granted i, st'') \<and> i = fst (hd (queue st))"
proof -
  obtain i pr q where q: "queue st = (i, pr) # q" and av: "available c pr st' < 1"
      and st': "st' = refill c t st" and d: "d = max \<lceil>(1 - available c pr st') / rate c\<rceil> 1"
    using sl by (auto simp: iter_sleep)
  have "(1 - available c pr st') / rate c \<le> of_int d" unfolding d by linarith
  then have "1 - available c pr st' \<le> of_int d * rate c"
    using assms(2) by (simp add: pos_divide_le_eq)
  also have "\<dots> \<le> of_int (t' - lastRefill st') * rate c"
    using assms(2,6) refill_last [OF assms(8), of t c]
    by (intro mult_right_mono) (simp_all add: st')
  finally have enough: "1 - available c pr st' \<le> of_int (t' - lastRefill st') * rate c" .
  have tok: "tokens (refill c t' st') =
      min (maxTokens c) (tokens st' + of_int (t' - lastRefill st') * rate c)"
    using assms(7) by (simp add: refill_def Let_def)
  have "1 \<le> available c pr (refill c t' st')"
    using enough tok assms(4) reserved_nonneg [OF assms(1)]
    by (simp add: available_def getPrimaryAvailableTokens_def getPriorityAvailableTokens_def
        split: if_splits)
  then have "processQueue_iter c t' st' = (Granted i, (refill c t' st')\<lparr>tokens :=
      tokens (refill c t' st') - 1, queue := q\<rparr>)"
    using q st' by (auto simp: iter_granted)
  then show ?thesis using q by auto
qed

text \<open>A waiting request without priority at the head blocks everything behind it.\<close>

lemma head_of_line:
  assumes "queue st = (i, pr) # q" "\<not> is_priority pr"
    and "tokens (refill c t st) < 1 + getReservedTokens c"
  shows "\<exists>d. processQueue_iter c t st = (Sleep d, refill c t st)"
  using assms by (auto simp: iter_sleep available_def getPrimaryAvailableTokens_def)

section \<open>Properties\<close>


definition example_limiter :: limiter_config where
  "example_limiter = priority_config 2 (Some 2) 1000 None 0"


text \<open>
  Order and bounds: requests are granted in the order in which they were accepted and
  none is lost or granted twice (what was granted, followed by what waits, is what
  arrived); the tokens stay between 0 and the burst capacity, and the queue never exceeds
  its limit.
\<close>

theorem limiter_fifo_and_bounds:
  assumes "sane c"
  shows "granted (rl_steps c (start c now) es) @ map fst (queue (bucket (rl_steps c (start c now) es)))
      = arrived (rl_steps c (start c now) es)
    \<and> 0 \<le> tokens (bucket (rl_steps c (start c now) es))
    \<and> tokens (bucket (rl_steps c (start c now) es)) \<le> maxTokens c
    \<and> queue_bounded c (bucket (rl_steps c (start c now) es))"
proof -
  have "fifo_inv (rl_steps c (start c now) es)"
    by (intro rl_steps_invariant [where I = fifo_inv] rl_step_fifo)
       (simp_all add: fifo_inv_def start_def new_limiter_def)
  moreover have "bucket_inv c (bucket (rl_steps c (start c now) es))"
    using assms
    by (intro rl_steps_invariant [where I = "\<lambda>r. bucket_inv c (bucket r)"] rl_step_bucket_inv)
       (simp_all add: bucket_inv_def start_def new_limiter_def sane_def)
  moreover have "queue_bounded c (bucket (rl_steps c (start c now) es))"
    by (intro rl_steps_invariant [where I = "\<lambda>r. queue_bounded c (bucket r)"] rl_step_queue_bounded)
       (simp_all add: queue_bounded_def start_def new_limiter_def)
  ultimately show ?thesis by (simp add: fifo_inv_def bucket_inv_def)
qed

theorem limiter_fifo_and_bounds_witness:
  "granted (rl_steps example_limiter (start example_limiter 0) [Acquire 7 None, Acquire 4 None, Iterate 0])
     @ map fst (queue (bucket (rl_steps example_limiter (start example_limiter 0)
          [Acquire 7 None, Acquire 4 None, Iterate 0])))
   = arrived (rl_steps example_limiter (start example_limiter 0) [Acquire 7 None, Acquire 4 None, Iterate 0])"
  using limiter_fifo_and_bounds
    [of example_limiter 0 "[Acquire 7 None, Acquire 4 None, Iterate 0]"]
  by (simp add: example_limiter_def priority_config_def sane_def rate_def)

text \<open>
  Progress: if the bucket can hold one token on top of the reserved ones, then a loop
  iteration that goes to sleep for \<open>d\<close> milliseconds is followed, at any time from the end
  of that sleep at which the refill is not below its granularity of a thousandth of a
  token, by an iteration that grants the request at the head of the queue.
\<close>

theorem limiter_progress:
  assumes "sane c" "0 < rate c" "bucket_inv c st" "lastRefill st \<le> t"
    and "1 + getReservedTokens c \<le> maxTokens c"
    and "processQueue_iter c t st = (Sleep d, st')"
    and "t + d \<le> t'" "1 / 1000 \<le> of_int (t' - lastRefill st') * rate c"
  shows "\<exists>st''. processQueue_iter c t' st' = (Granted (fst (hd (queue st))), st'')"
  using iterate_after_sleep [OF assms(1-3,5-8,4)] by blast

definition drained :: limiter where
  "drained = \<lparr>tokens = 0, lastRefill = 100, queue = [(9, None)], processing = True\<rparr>"

lemma example_rate [simp]: "rate example_limiter = 1 / 500"
  by (simp add: example_limiter_def priority_config_def rate_def)

lemma example_max [simp]: "maxTokens example_limiter = 2"
  by (simp add: example_limiter_def priority_config_def)

lemma example_sane [simp]: "sane example_limiter"
  by (simp add: sane_def example_limiter_def priority_config_def rate_def)

lemma example_reserved [simp]: "getReservedTokens example_limiter = 0"
  by (simp add: getReservedTokens_def example_limiter_def priority_config_def)

theorem limiter_progress_witness:
  "\<exists>st''. processQueue_iter example_limiter 600 drained = (Granted (fst (hd (queue drained))), st'')"
proof (rule limiter_progress)
  show "processQueue_iter example_limiter 100 drained = (Sleep 500, drained)"
    by (simp add: processQueue_iter_def drained_def refill_def Let_def available_def
        is_priority_def getPrimaryAvailableTokens_def)
qed (simp_all add: bucket_inv_def drained_def)

text \<open>
  Reserved tokens do not prevent head-of-line blocking: when a request without priority
  is at the head and the tokens do not exceed the reserved share, the loop sleeps, whatever
  priority requests wait behind it and although the reserved tokens would serve them.
\<close>

theorem reserved_tokens_blocked_by_head:
  assumes "queue st = (i, Some Primary) # (j, Some Consensus) # q"
    and "1 \<le> tokens (refill c t st)" "tokens (refill c t st) < 1 + getReservedTokens c"
  shows "(\<exists>d. processQueue_iter c t st = (Sleep d, refill c t st))
    \<and> (\<exists>st'. processQueue_iter c t (st\<lparr>queue := (j, Some Consensus) # q\<rparr>) = (Granted j, st'))"
proof
  show "\<exists>d. processQueue_iter c t st = (Sleep d, refill c t st)"
    using assms(1,3) by (intro head_of_line) (auto simp: is_priority_def)
  have "tokens (refill c t (st\<lparr>queue := (j, Some Consensus) # q\<rparr>)) = tokens (refill c t st)"
    by (simp add: refill_def Let_def)
  with assms(2) show "\<exists>st'. processQueue_iter c t (st\<lparr>queue := (j, Some Consensus) # q\<rparr>) = (Granted j, st')"
    by (auto simp: iter_granted available_def is_priority_def getPriorityAvailableTokens_def)
qed

definition reserving_limiter :: limiter_config where
  "reserving_limiter = priority_config 4 (Some 4) 1000 None (1 / 2)"

theorem reserved_tokens_blocked_by_head_witness:
  "\<exists>d. processQueue_iter reserving_limiter 100
     \<lparr>tokens = 2, lastRefill = 100, queue = [(1, Some Primary), (2, Some Consensus)],
      processing = True\<rparr> =
     (Sleep d, refill reserving_limiter 100
        \<lparr>tokens = 2, lastRefill = 100, queue = [(1, Some Primary), (2, Some Consensus)],
         processing = True\<rparr>)"
  using reserved_tokens_blocked_by_head
    [of "\<lparr>tokens = 2, lastRefill = 100, queue = [(1, Some Primary), (2, Some Consensus)],
          processing = True\<rparr>" 1 2 "[]" reserving_limiter 100]
  by (simp add: refill_def reserving_limiter_def priority_config_def getReservedTokens_def)

end
