(* ===== verification/ProviderCache.thy ===== *)
theory ProviderCache
  imports Prelude "HOL-Library.AList"
begin

text \<open>
  The provider caches of \<open>src/providers/cached-provider.ts\<close>: the in-memory LRU cache with
  its time to live, and the two-level \<open>CachedProvider\<close> (memory, database row, live fetch)
  with request coalescing. The \<open>Map\<close> objects are association lists in insertion order; the
  database rows and the fetched results are the environment.
\<close>

section \<open>The memory cache\<close>

record 'v mem_entry =
  e_value :: 'v
  e_expiresAt :: ms

record 'v mem_cache =
  entries :: "(string \<times> 'v mem_entry) list"
  maxSize :: int
  ttlMs :: ms

definition new_cache :: "int \<Rightarrow> int \<Rightarrow> 'v mem_cache" where
  "new_cache n ttlSeconds = \<lparr>entries = [], maxSize = n, ttlMs = ttlSeconds * 1000\<rparr>"

definition mem_get :: "ms \<Rightarrow> string \<Rightarrow> 'v mem_cache \<Rightarrow> 'v option \<times> 'v mem_cache" where
  "mem_get now key m =
     (case map_of (entries m) key of
        None \<Rightarrow> (None, m)
      | Some entry \<Rightarrow>
          if now > e_expiresAt entry
          then (None, m\<lparr>entries := AList.delete key (entries m)\<rparr>)
          else (Some (e_value entry),
                m\<lparr>entries := AList.delete key (entries m) @ [(key, entry)]\<rparr>))"

definition mem_evict :: "string \<Rightarrow> 'v mem_cache \<Rightarrow> (string \<times> 'v mem_entry) list" where
  "mem_evict key m =
     (if key \<in> fst ` set (entries m) then AList.delete key (entries m)
      else if int (length (entries m)) \<ge> maxSize m then tl (entries m)
      else entries m)"

definition mem_set :: "ms \<Rightarrow> string \<Rightarrow> 'v \<Rightarrow> 'v mem_cache \<Rightarrow> 'v mem_cache" where
  "mem_set now key v m =
     (if maxSize m \<le> 0 then m
      else m\<lparr>entries := mem_evict key m @ [(key, \<lparr>e_value = v, e_expiresAt = now + ttlMs m\<rparr>)]\<rparr>)"

definition mem_clear :: "'v mem_cache \<Rightarrow> 'v mem_cache" where
  "mem_clear m = m\<lparr>entries := []\<rparr>"

definition mem_prune :: "ms \<Rightarrow> 'v mem_cache \<Rightarrow> nat \<times> 'v mem_cache" where
  "mem_prune now m =
     (let kept = filter (\<lambda>(k, e). \<not> e_expiresAt e < now) (entries m)
      in (length (entries m) - length kept, m\<lparr>entries := kept\<rparr>))"

definition keys :: "'v mem_cache \<Rightarrow> string list" where
  "keys m = map fst (entries m)"

text \<open>The representation invariant: no key twice, never more entries than allowed.\<close>

definition mem_inv :: "'v mem_cache \<Rightarrow> bool" where
  "mem_inv m = (distinct (keys m) \<and> int (length (keys m)) \<le> max 0 (maxSize m))"

section \<open>What a client of a cache relies on\<close>

text \<open>
  A store never makes values up: what it returns it holds, and what it holds after an
  operation it held before or was just given.
\<close>

locale value_store =
  fixes sget :: "ms \<Rightarrow> string \<Rightarrow> 's \<Rightarrow> 'v option \<times> 's"
    and sset :: "ms \<Rightarrow> string \<Rightarrow> 'v \<Rightarrow> 's \<Rightarrow> 's"
    and holds :: "'s \<Rightarrow> string \<Rightarrow> 'v \<Rightarrow> bool"
  assumes get_holds: "fst (sget t k s) = Some v \<Longrightarrow> holds s k v"
    and get_keeps: "holds (snd (sget t k s)) k' v \<Longrightarrow> holds s k' v"
    and set_holds: "holds (sset t k v s) k' v' \<Longrightarrow> (k', v') = (k, v) \<or> holds s k' v'"
begin

definition all_values :: "('v \<Rightarrow> bool) \<Rightarrow> 's \<Rightarrow> bool" where
  "all_values P s = (\<forall>k v. holds s k v \<longrightarrow> P v)"

lemma all_values_get: "all_values P s \<Longrightarrow> all_values P (snd (sget t k s))"
  by (auto simp: all_values_def dest: get_keeps)

lemma all_values_set: "all_values P s \<Longrightarrow> P v \<Longrightarrow> all_values P (sset t k v s)"
  by (auto simp: all_values_def dest: set_holds)

lemma all_values_hit: "all_values P s \<Longrightarrow> fst (sget t k s) = Some v \<Longrightarrow> P v"
  by (auto simp: all_values_def dest: get_holds)

end

definition mem_holds :: "'v mem_cache \<Rightarrow> string \<Rightarrow> 'v \<Rightarrow> bool" where
  "mem_holds m k v = (\<exists>e. (k, e) \<in> set (entries m) \<and> e_value e = v)"

lemma delete_subset: "(k', e) \<in> set (AList.delete k xs) \<Longrightarrow> (k', e) \<in> set xs"
  by (simp add: AList.delete_eq)

lemma tl_subset: "x \<in> set (tl xs) \<Longrightarrow> x \<in> set xs"
  by (cases xs) auto

lemma mem_evict_subset: "(k', e) \<in> set (mem_evict k m) \<Longrightarrow> (k', e) \<in> set (entries m)"
  by (auto simp: mem_evict_def dest: delete_subset tl_subset split: if_splits)

interpretation memory: value_store mem_get mem_set mem_holds
proof unfold_locales
  fix t k k' and m :: "'v mem_cache" and v v'
  show "fst (mem_get t k m) = Some v \<Longrightarrow> mem_holds m k v"
    by (auto simp: mem_get_def mem_holds_def dest: map_of_SomeD split: option.splits if_splits)
  show "mem_holds (snd (mem_get t k m)) k' v \<Longrightarrow> mem_holds m k' v"
    by (auto simp: mem_get_def mem_holds_def dest: map_of_SomeD delete_subset
        split: option.splits if_splits)
  show "mem_holds (mem_set t k v m) k' v' \<Longrightarrow> (k', v') = (k, v) \<or> mem_holds m k' v'"
    by (auto simp: mem_set_def mem_holds_def dest: mem_evict_subset split: if_splits)
qed

section \<open>Invariant and behaviour of the memory cache\<close>

lemma keys_delete: "map fst (AList.delete k xs) = filter (\<lambda>x. x \<noteq> k) (map fst xs)"
  by (induction xs) auto

lemma filter_neq_id: "k \<notin> set xs \<Longrightarrow> filter (\<lambda>x. x \<noteq> k) xs = xs"
  by (induction xs) auto

lemma length_filter_neq:
  "distinct xs \<Longrightarrow> k \<in> set xs \<Longrightarrow> Suc (length (filter (\<lambda>x. x \<noteq> k) xs)) = length xs"
  by (induction xs) (auto simp: filter_neq_id)

lemma keys_mem_get:
  "keys (snd (mem_get t k m)) =
     (case fst (mem_get t k m) of
        Some _ \<Rightarrow> filter (\<lambda>x. x \<noteq> k) (keys m) @ [k]
      | None \<Rightarrow> filter (\<lambda>x. x \<noteq> k) (keys m))"
proof (cases "map_of (entries m) k")
  case None
  then have "k \<notin> set (keys m)" by (simp add: keys_def map_of_eq_None_iff)
  then show ?thesis using None by (simp add: mem_get_def filter_neq_id)
next
  case (Some e)
  then show ?thesis by (auto simp: mem_get_def keys_def keys_delete)
qed

lemma maxSize_get [frame_simps, simp]: "maxSize (snd (mem_get t k m)) = maxSize m"
  by (auto simp: mem_get_def split: option.splits)

lemma mem_get_hit_key: "fst (mem_get t k m) = Some v \<Longrightarrow> k \<in> set (keys m)"
  using map_of_SomeD [of "entries m" k]
  by (force simp: mem_get_def keys_def split: option.splits if_splits)

lemma mem_inv_get: "mem_inv m \<Longrightarrow> mem_inv (snd (mem_get t k m))"
proof (cases "fst (mem_get t k m)")
  case None
  assume inv: "mem_inv m"
  have "length (filter (\<lambda>x. x \<noteq> k) (keys m)) \<le> length (keys m)" by simp
  then have "int (length (filter (\<lambda>x. x \<noteq> k) (keys m))) \<le> max 0 (maxSize m)"
    using inv unfolding mem_inv_def by linarith
  then show ?thesis using inv None by (simp add: mem_inv_def keys_mem_get)
next
  case (Some v)
  assume inv: "mem_inv m"
  have "Suc (length (filter (\<lambda>x. x \<noteq> k) (keys m))) = length (keys m)"
    using inv mem_get_hit_key [OF Some] by (intro length_filter_neq) (simp_all add: mem_inv_def)
  then have "int (Suc (length (filter (\<lambda>x. x \<noteq> k) (keys m)))) \<le> max 0 (maxSize m)"
    using inv by (simp only: mem_inv_def)
  then show ?thesis using inv Some by (simp add: mem_inv_def keys_mem_get)
qed

lemma keys_mem_set:
  assumes "0 < maxSize m"
  shows "keys (mem_set t k v m) =
    (if k \<in> set (keys m) then filter (\<lambda>x. x \<noteq> k) (keys m)
     else if maxSize m \<le> int (length (keys m)) then tl (keys m) else keys m) @ [k]"
  using assms by (simp add: mem_set_def mem_evict_def keys_def keys_delete map_tl)

lemma maxSize_set [frame_simps, simp]: "maxSize (mem_set t k v m) = maxSize m"
  by (simp add: mem_set_def)

lemma mem_inv_set: "mem_inv m \<Longrightarrow> mem_inv (mem_set t k v m)"
proof -
  assume inv: "mem_inv m"
  consider (off) "maxSize m \<le> 0" | (old) "0 < maxSize m" "k \<in> set (keys m)"
    | (full) "0 < maxSize m" "k \<notin> set (keys m)" "maxSize m \<le> int (length (keys m))"
    | (room) "0 < maxSize m" "k \<notin> set (keys m)" "int (length (keys m)) < maxSize m" by linarith
  then show ?thesis
  proof cases
    case off
    then show ?thesis using inv by (simp add: mem_set_def)
  next
    case old
    then have "Suc (length (filter (\<lambda>x. x \<noteq> k) (keys m))) = length (keys m)"
      using inv by (intro length_filter_neq) (simp_all add: mem_inv_def)
    then have "int (Suc (length (filter (\<lambda>x. x \<noteq> k) (keys m)))) \<le> max 0 (maxSize m)"
      using inv by (simp only: mem_inv_def)
    then show ?thesis using inv old by (simp add: mem_inv_def keys_mem_set)
  next
    case full
    then have "keys m \<noteq> []" by auto
    then have "Suc (length (tl (keys m))) = length (keys m)" by simp
    then have "int (Suc (length (tl (keys m)))) \<le> max 0 (maxSize m)"
      using inv by (simp only: mem_inv_def)
    moreover have "k \<notin> set (tl (keys m))" using full(2) tl_subset by metis
    ultimately show ?thesis
      using inv full by (simp add: mem_inv_def keys_mem_set distinct_tl)
  next
    case room
    then show ?thesis using inv by (simp add: mem_inv_def keys_mem_set)
  qed
qed

lemma mem_inv_prune: "mem_inv m \<Longrightarrow> mem_inv (snd (mem_prune t m))"
proof -
  assume inv: "mem_inv m"
  let ?kept = "filter (\<lambda>(k, e). \<not> e_expiresAt e < t) (entries m)"
  have "length ?kept \<le> length (entries m)" by (rule length_filter_le)
  then have "int (length ?kept) \<le> max 0 (maxSize m)"
    using inv unfolding mem_inv_def keys_def length_map by linarith
  moreover have "distinct (map fst ?kept)"
    using inv by (simp add: mem_inv_def keys_def distinct_map_filter)
  ultimately show ?thesis by (simp add: mem_prune_def Let_def mem_inv_def keys_def)
qed

text \<open>A value just stored is returned until its time to live has passed, and not after.\<close>

lemma map_of_snoc: "k \<notin> fst ` set xs \<Longrightarrow> map_of (xs @ [(k, e)]) k = Some e"
  by (induction xs) auto

lemma mem_evict_fresh: "distinct (keys m) \<Longrightarrow> k \<notin> fst ` set (mem_evict k m)"
proof -
  have "k \<notin> fst ` set (AList.delete k (entries m))"
    by (auto simp: AList.delete_eq)
  moreover have "k \<notin> fst ` set (entries m) \<Longrightarrow> k \<notin> fst ` set (tl (entries m))"
    using tl_subset by (force simp: image_iff)
  ultimately show ?thesis by (simp add: mem_evict_def)
qed

lemma mem_get_set:
  assumes "0 < maxSize m" "mem_inv m"
  shows "fst (mem_get t' k (mem_set t k v m)) = (if t' \<le> t + ttlMs m then Some v else None)"
proof -
  have "k \<notin> fst ` set (mem_evict k m)"
    using assms(2) by (intro mem_evict_fresh) (simp add: mem_inv_def)
  then have "map_of (entries (mem_set t k v m)) k = Some \<lparr>e_value = v, e_expiresAt = t + ttlMs m\<rparr>"
    using assms(1) by (simp add: mem_set_def map_of_snoc del: map_of_append)
  then show ?thesis by (simp add: mem_get_def)
qed

section \<open>Least recently used\<close>

text \<open>
  With enough time to live, storing the keys \<open>ks\<close> one after the other leaves exactly the
  most recently stored distinct keys, oldest first: \<^const>\<open>remdups\<close> keeps last
  occurrences.
\<close>

definition mem_sets :: "ms \<Rightarrow> (string \<times> 'v) list \<Rightarrow> 'v mem_cache \<Rightarrow> 'v mem_cache" where
  "mem_sets t kvs m = foldl (\<lambda>m (k, v). mem_set t k v m) m kvs"

definition last_n :: "nat \<Rightarrow> 'a list \<Rightarrow> 'a list" where
  "last_n n xs = drop (length xs - n) xs"

lemma remdups_snoc: "remdups (xs @ [x]) = filter (\<lambda>y. y \<noteq> x) (remdups xs) @ [x]"
  by (induction xs) auto

lemma last_n_step:
  assumes "distinct xs" "0 < n"
  shows "(if k \<in> set (last_n n xs) then filter (\<lambda>x. x \<noteq> k) (last_n n xs)
          else if n \<le> length (last_n n xs) then tl (last_n n xs) else last_n n xs) @ [k]
         = last_n n (filter (\<lambda>y. y \<noteq> k) xs @ [k])"
proof -
  let ?d = "length xs - n" and ?f = "filter (\<lambda>y. y \<noteq> k)"
  have xs: "xs = take ?d xs @ drop ?d xs" by simp
  have last: "last_n n xs = drop ?d xs" by (simp add: last_n_def)
  consider (recent) "k \<in> set (drop ?d xs)" | (older) "k \<in> set (take ?d xs)" "k \<notin> set (drop ?d xs)"
    | (new) "k \<notin> set xs"
    using xs by (metis Un_iff set_append)
  then show ?thesis
  proof cases
    case recent
    then have "k \<notin> set (take ?d xs)"
      using assms(1) xs by (metis disjoint_iff distinct_append)
    then have "?f (take ?d xs) = take ?d xs" by (rule filter_neq_id)
    then have f: "?f xs = take ?d xs @ ?f (drop ?d xs)" using xs by (metis filter_append)
    have "Suc (length (?f (drop ?d xs))) = length (drop ?d xs)"
      using assms(1) recent by (intro length_filter_neq) auto
    then show ?thesis using recent by (simp add: last f last_n_def)
  next
    case older
    then have "?f (drop ?d xs) = drop ?d xs" by (intro filter_neq_id)
    then have f: "?f xs = ?f (take ?d xs) @ drop ?d xs" using xs by (metis filter_append)
    have len: "Suc (length (?f (take ?d xs))) = length (take ?d xs)"
      using assms(1) older(1) by (intro length_filter_neq) auto
    then have d: "?d > 0" by (cases ?d) auto
    then have D: "length (drop ?d xs) = n" "drop ?d xs \<noteq> []" using assms(2) by auto
    have "length (?f xs @ [k]) - n = Suc (length (?f (take ?d xs)))"
      unfolding f length_append D by simp
    then have "last_n n (?f xs @ [k]) = drop (Suc (length (?f (take ?d xs)))) (?f xs @ [k])"
      by (simp only: last_n_def)
    also have "\<dots> = tl (drop ?d xs) @ [k]" using D(2) by (simp add: f drop_Suc tl_drop [symmetric])
    finally show ?thesis using older D by (simp add: last)
  next
    case new
    then have f: "?f xs = xs" by (rule filter_neq_id)
    have "k \<notin> set (drop ?d xs)" using new by (meson in_set_dropD)
    then show ?thesis using assms(2)
      by (simp add: last f last_n_def Suc_diff_le drop_Suc tl_drop split: if_splits)
  qed
qed

lemma mem_sets_lru:
  assumes "entries m = []" "0 < maxSize m"
  shows "keys (mem_sets t kvs m) = last_n (nat (maxSize m)) (remdups (map fst kvs))
    \<and> maxSize (mem_sets t kvs m) = maxSize m"
proof (induction kvs rule: rev_induct)
  case Nil
  then show ?case using assms by (simp add: mem_sets_def keys_def last_n_def)
next
  case (snoc kv kvs)
  obtain k v where kv: "kv = (k, v)" by (cases kv)
  let ?m = "mem_sets t kvs m" and ?n = "nat (maxSize m)"
  have step: "mem_sets t (kvs @ [(k, v)]) m = mem_set t k v ?m" by (simp add: mem_sets_def)
  have le: "maxSize m \<le> int x \<longleftrightarrow> ?n \<le> x" for x using assms(2) by linarith
  let ?xs = "remdups (map fst kvs)"
  have K: "keys ?m = last_n ?n ?xs" and M: "maxSize ?m = maxSize m" using snoc by simp_all
  have "keys (mem_set t k v ?m) =
      (if k \<in> set (last_n ?n ?xs) then filter (\<lambda>x. x \<noteq> k) (last_n ?n ?xs)
       else if ?n \<le> length (last_n ?n ?xs) then tl (last_n ?n ?xs) else last_n ?n ?xs) @ [k]"
    using keys_mem_set [of ?m t k v] assms(2) unfolding K M le by simp
  also have "\<dots> = last_n ?n (filter (\<lambda>y. y \<noteq> k) ?xs @ [k])"
    using assms(2) by (intro last_n_step) simp_all
  finally have "keys (mem_set t k v ?m) = last_n ?n (filter (\<lambda>y. y \<noteq> k) ?xs @ [k])" .
  then show ?case using snoc by (simp add: step kv remdups_snoc)
qed

section \<open>The database rows\<close>

text \<open>
  \<open>ProviderCacheRepository\<close> for one provider name: at most one row per key (the upsert of
  \<open>set\<close>), each with its expiry. \<open>row_value = None\<close> is a row that does not deserialize.
\<close>

record 'v cache_row =
  row_value :: "'v option"
  row_expires :: ms

type_synonym 'v rows = "(string \<times> 'v cache_row) list"

definition repo_get :: "ms \<Rightarrow> string \<Rightarrow> 'v rows \<Rightarrow> 'v option option" where
  "repo_get now key rows =
     (case map_of rows key of
        Some r \<Rightarrow> (if row_expires r > now then Some (row_value r) else None)
      | None \<Rightarrow> None)"

definition repo_set :: "ms \<Rightarrow> int \<Rightarrow> string \<Rightarrow> 'v \<Rightarrow> 'v rows \<Rightarrow> 'v rows" where
  "repo_set now ttlDays key v rows =
     AList.update key \<lparr>row_value = Some v, row_expires = now + ttlDays * 24 * 60 * 60 * 1000\<rparr> rows"

definition repo_pruneExpired :: "ms \<Rightarrow> 'v rows \<Rightarrow> nat \<times> 'v rows" where
  "repo_pruneExpired now rows =
     (let kept = filter (\<lambda>(k, r). \<not> row_expires r < now) rows
      in (length rows - length kept, kept))"

definition row_holds :: "'v rows \<Rightarrow> string \<Rightarrow> 'v \<Rightarrow> bool" where
  "row_holds rows k v = (\<exists>r. map_of rows k = Some r \<and> row_value r = Some v)"

interpretation rows: value_store
  "\<lambda>t k s. (case repo_get t k s of Some (Some v) \<Rightarrow> Some v | _ \<Rightarrow> None, s)"
  "\<lambda>t k v s. repo_set t ttlDays k v s" row_holds for ttlDays
  by unfold_locales
     (auto simp: repo_get_def repo_set_def row_holds_def update_conv' split: option.splits if_splits)

section \<open>The two-level provider\<close>

text \<open>
  \<open>inflight\<close> maps a term to the requests that wait for its fetch, the one that started it
  first. A request is answered from a cache, joins a fetch or starts one; a fetch that
  settles answers all its waiters.
\<close>

record 'v cp_config =
  memoryCacheSize :: int
  memoryCacheTtlSeconds :: int
  ttlDays :: int
  shouldCache :: "('v \<Rightarrow> bool) option"
  isStale :: "('v \<Rightarrow> bool) option"

record 'v cp =
  memoryCache :: "'v mem_cache option"
  db :: "'v rows"
  inflight :: "(string \<times> nat list) list"

datatype 'v answer = Served 'v | Joined | Fetching

definition new_provider :: "'v cp_config \<Rightarrow> 'v rows \<Rightarrow> 'v cp" where
  "new_provider c rows =
     \<lparr>memoryCache = (if memoryCacheSize c > 0
        then Some (new_cache (memoryCacheSize c) (memoryCacheTtlSeconds c)) else None),
      db = rows, inflight = []\<rparr>"

definition cacheable :: "'v cp_config \<Rightarrow> 'v \<Rightarrow> bool" where
  "cacheable c v = (case shouldCache c of None \<Rightarrow> True | Some p \<Rightarrow> p v)"

definition stale :: "'v cp_config \<Rightarrow> 'v \<Rightarrow> bool" where
  "stale c v = (case isStale c of None \<Rightarrow> False | Some p \<Rightarrow> p v)"

definition lookup_memory :: "ms \<Rightarrow> string \<Rightarrow> 'v cp \<Rightarrow> 'v option \<times> 'v cp" where
  "lookup_memory now term st =
     (case memoryCache st of
        None \<Rightarrow> (None, st)
      | Some m \<Rightarrow> (case mem_get now term m of (r, m') \<Rightarrow> (r, st\<lparr>memoryCache := Some m'\<rparr>)))"

definition store_memory :: "ms \<Rightarrow> string \<Rightarrow> 'v \<Rightarrow> 'v cp \<Rightarrow> 'v cp" where
  "store_memory now term v st =
     st\<lparr>memoryCache := map_option (mem_set now term v) (memoryCache st)\<rparr>"

definition lookup_db :: "'v cp_config \<Rightarrow> ms \<Rightarrow> string \<Rightarrow> bool \<Rightarrow> 'v cp \<Rightarrow> 'v option" where
  "lookup_db c now term force st =
     (if force then None
      else case repo_get now term (db st) of
        Some (Some v) \<Rightarrow> (if \<not> stale c v \<and> cacheable c v then Some v else None)
      | _ \<Rightarrow> None)"

definition join_or_fetch :: "nat \<Rightarrow> string \<Rightarrow> 'v cp \<Rightarrow> 'v answer \<times> 'v cp" where
  "join_or_fetch req term st =
     (case map_of (inflight st) term of
        Some ws \<Rightarrow> (Joined, st\<lparr>inflight := AList.update term (ws @ [req]) (inflight st)\<rparr>)
      | None \<Rightarrow> (Fetching, st\<lparr>inflight := AList.update term [req] (inflight st)\<rparr>))"

definition cp_get ::
  "'v cp_config \<Rightarrow> nat \<Rightarrow> string \<Rightarrow> ms \<Rightarrow> bool \<Rightarrow> 'v cp \<Rightarrow> 'v answer \<times> 'v cp" where
  "cp_get c req term now force st =
     (case lookup_memory now term st of
        (Some v, st1) \<Rightarrow> (Served v, st1)
      | (None, st1) \<Rightarrow>
          (case lookup_db c now term force st1 of
             Some v \<Rightarrow> (Served v, store_memory now term v st1)
           | None \<Rightarrow> join_or_fetch req term st1))"

text \<open>
  The fetch of \<open>term\<close> settles: \<open>Inr v\<close> with a value, \<open>Inl e\<close> with an error. \<open>written\<close> says
  whether the write of the database row succeeds (a failure is swallowed).
\<close>

definition cp_settle ::
  "'v cp_config \<Rightarrow> string \<Rightarrow> ms \<Rightarrow> bool \<Rightarrow> 'e + 'v \<Rightarrow> 'v cp \<Rightarrow> (nat \<times> ('e + 'v)) list \<times> 'v cp" where
  "cp_settle c term now written res st =
     (let waiters = (case map_of (inflight st) term of None \<Rightarrow> [] | Some ws \<Rightarrow> ws);
          st1 = (case res of
                   Inr v \<Rightarrow>
                     (if \<not> cacheable c v then st
                      else let st0 = store_memory now term v st
                           in if written
                              then st0\<lparr>db := repo_set now (ttlDays c) term v (db st0)\<rparr> else st0)
                 | Inl e \<Rightarrow> st)
      in (map (\<lambda>w. (w, res)) waiters,
          st1\<lparr>inflight := AList.delete term (inflight st1)\<rparr>))"

definition cp_clearCache :: "'v cp \<Rightarrow> 'v cp" where
  "cp_clearCache st = st\<lparr>memoryCache := map_option mem_clear (memoryCache st)\<rparr>"

definition cp_pruneCache :: "ms \<Rightarrow> 'v cp \<Rightarrow> 'v cp" where
  "cp_pruneCache now st = st\<lparr>memoryCache := map_option (\<lambda>m. snd (mem_prune now m)) (memoryCache st)\<rparr>"

text \<open>
  The invariant: the memory cache is well formed and holds only values that the predicate
  admits, and no term has two fetches in flight.
\<close>

definition cp_inv :: "'v cp_config \<Rightarrow> 'v cp \<Rightarrow> bool" where
  "cp_inv c st =
     ((\<forall>m. memoryCache st = Some m \<longrightarrow> mem_inv m \<and> memory.all_values (cacheable c) m)
      \<and> distinct (map fst (inflight st)))"

datatype ('e, 'v) cp_event =
    Get nat string ms bool
  | Settle string ms bool "'e + 'v"
  | ClearCache
  | PruneCache ms

fun cp_step :: "'v cp_config \<Rightarrow> 'v cp \<Rightarrow> ('e, 'v) cp_event \<Rightarrow> 'v cp" where
  "cp_step c st (Get req term now force) = snd (cp_get c req term now force st)"
| "cp_step c st (Settle term now written res) = snd (cp_settle c term now written res st)"
| "cp_step c st ClearCache = cp_clearCache st"
| "cp_step c st (PruneCache now) = cp_pruneCache now st"

lemma all_values_clear: "memory.all_values P (mem_clear m)"
  by (simp add: memory.all_values_def mem_holds_def mem_clear_def)

lemma all_values_prune: "memory.all_values P m \<Longrightarrow> memory.all_values P (snd (mem_prune t m))"
  by (auto simp: memory.all_values_def mem_holds_def mem_prune_def Let_def)

lemma mem_inv_clear: "mem_inv m \<Longrightarrow> mem_inv (mem_clear m)"
  by (simp add: mem_inv_def mem_clear_def keys_def)

lemma cp_inv_new: "cp_inv c (new_provider c rows)"
  by (simp add: cp_inv_def new_provider_def new_cache_def mem_inv_def keys_def
      memory.all_values_def mem_holds_def)

lemma lookup_memory_inv: "cp_inv c st \<Longrightarrow> cp_inv c (snd (lookup_memory now term st))"
  by (auto simp: cp_inv_def lookup_memory_def split_beta split: option.splits
      intro: mem_inv_get memory.all_values_get)

lemma lookup_memory_hit: "cp_inv c st \<Longrightarrow> fst (lookup_memory now term st) = Some v \<Longrightarrow> cacheable c v"
  by (auto simp: cp_inv_def lookup_memory_def split_beta split: option.splits
      dest: memory.all_values_hit)

lemma store_memory_inv: "cp_inv c st \<Longrightarrow> cacheable c v \<Longrightarrow> cp_inv c (store_memory now term v st)"
  by (auto simp: cp_inv_def store_memory_def intro: mem_inv_set memory.all_values_set)

lemma lookup_db_ok: "lookup_db c now term force st = Some v \<Longrightarrow> cacheable c v \<and> \<not> stale c v"
  by (auto simp: lookup_db_def split: option.splits if_splits)

lemma join_or_fetch_inv: "cp_inv c st \<Longrightarrow> cp_inv c (snd (join_or_fetch req term st))"
  by (auto simp: cp_inv_def join_or_fetch_def distinct_update split: option.splits)

lemma cp_get_inv: "cp_inv c st \<Longrightarrow> cp_inv c (snd (cp_get c req term now force st))"
proof (cases "lookup_memory now term st")
  case (Pair r st1)
  assume inv: "cp_inv c st"
  have "cp_inv c st1" using lookup_memory_inv [OF inv] Pair by (metis snd_conv)
  then show ?thesis using Pair
    by (auto simp: cp_get_def split: option.splits
        intro: join_or_fetch_inv store_memory_inv dest: lookup_db_ok)
qed

lemma cp_settle_inv: "cp_inv c st \<Longrightarrow> cp_inv c (snd (cp_settle c term now written res st))"
proof -
  assume inv: "cp_inv c st"
  have del: "cp_inv c st' \<Longrightarrow> cp_inv c (st'\<lparr>inflight := AList.delete term (inflight st')\<rparr>)" for st'
    by (auto simp: cp_inv_def distinct_delete)
  have db: "cp_inv c st' \<Longrightarrow> cp_inv c (st'\<lparr>db := d\<rparr>)" for st' d
    by (simp add: cp_inv_def)
  show ?thesis
    unfolding cp_settle_def Let_def snd_conv
    by (rule del) (auto simp: inv split: sum.splits intro!: db store_memory_inv)
qed

lemma cp_step_inv: "cp_inv c st \<Longrightarrow> cp_inv c (cp_step c st e)"
  by (cases e)
     (simp_all add: cp_get_inv cp_settle_inv,
      auto simp: cp_inv_def cp_clearCache_def cp_pruneCache_def
        intro: mem_inv_clear mem_inv_prune all_values_clear all_values_prune)

lemma cp_get_fetching:
  assumes "cp_get c req term now force st = (Fetching, st')"
  shows "map_of (inflight st) term = None"
proof -
  have "inflight (snd (lookup_memory now term st)) = inflight st"
    by (auto simp: lookup_memory_def split_beta split: option.splits)
  then show ?thesis using assms
    by (auto simp: cp_get_def join_or_fetch_def split: prod.splits option.splits)
qed

section \<open>Properties\<close>

text \<open>
  The memory cache is least-recently-used: after storing any sequence of entries into
  an empty cache (whose time to live does not matter here) its keys are exactly the most
  recently stored distinct keys, in the order of their last use, as many as the capacity
  allows.
\<close>

theorem cache_keeps_most_recent:
  assumes "0 < n"
  shows "keys (mem_sets t kvs (new_cache n ttl)) = last_n (nat n) (remdups (map fst kvs))"
  using assms mem_sets_lru [of "new_cache n ttl" t kvs] by (simp add: new_cache_def)

theorem cache_keeps_most_recent_witness:
  "keys (mem_sets 0 [(''a'', 1::nat), (''b'', 2), (''a'', 3), (''c'', 4)] (new_cache 2 300))
     = [''a'', ''c'']"
  using cache_keeps_most_recent [of 2 0 "[(''a'', 1::nat), (''b'', 2), (''a'', 3), (''c'', 4)]" 300]
  by (simp add: last_n_def)

text \<open>
  The time to live: a stored value is returned by every look-up until exactly its
  expiry and by none after it, and neither a look-up, nor storing another entry, nor
  pruning lets the cache exceed its capacity or hold a key twice.
\<close>

theorem cache_ttl_and_capacity:
  assumes "mem_inv m"
  shows "(0 < maxSize m \<longrightarrow>
      fst (mem_get u k (mem_set t k v m)) = (if u \<le> t + ttlMs m then Some v else None))
    \<and> mem_inv (snd (mem_get u k m)) \<and> mem_inv (mem_set t k v m) \<and> mem_inv (snd (mem_prune u m))"
  using assms by (simp add: mem_get_set mem_inv_get mem_inv_set mem_inv_prune)

theorem cache_ttl_and_capacity_witness:
  "fst (mem_get 300000 ''x'' (mem_set 0 ''x'' (5::nat) (new_cache 2 300))) = Some 5
   \<and> fst (mem_get 300001 ''x'' (mem_set 0 ''x'' (5::nat) (new_cache 2 300))) = None"
  using cache_ttl_and_capacity [of "new_cache 2 300" 300000 "''x''" 0 "5::nat"]
    cache_ttl_and_capacity [of "new_cache 2 300" 300001 "''x''" 0 "5::nat"]
  by (simp add: new_cache_def mem_inv_def keys_def)

text \<open>
  The two-level provider, over every history of requests, settled fetches, clears and
  prunes: a value served from a cache always satisfies the caching predicate, and one
  served from a database row is not stale either, so no transient or outdated verdict is
  ever served from a cache; and a fetch is started for a term only when none is in flight.
\<close>

theorem provider_serves_only_cacheable:
  assumes "foldl (cp_step c) (new_provider c rows) es = st"
  shows "(\<forall>v st'. cp_get c req key now force st = (Served v, st') \<longrightarrow> cacheable c v
      \<and> (fst (lookup_memory now key st) = None \<longrightarrow> \<not> force \<and> \<not> stale c v))
    \<and> (\<forall>st'. cp_get c req key now force st = (Fetching, st') \<longrightarrow>
        key \<notin> fst ` set (inflight st) \<and> map_of (inflight st') key = Some [req])
    \<and> distinct (map fst (inflight st))"
proof -
  have "cp_inv c st0 \<Longrightarrow> cp_inv c (foldl (cp_step c) st0 es)" for st0
    by (induction es arbitrary: st0) (simp_all add: cp_step_inv)
  then have inv: "cp_inv c st" using assms cp_inv_new by blast
  have hit: "lookup_memory now key st = (Some v, st1) \<Longrightarrow> cacheable c v" for v st1
    using lookup_memory_hit [OF inv] by (metis fst_conv)
  have served: "cacheable c v \<and> (fst (lookup_memory now key st) = None \<longrightarrow> \<not> force \<and> \<not> stale c v)"
    if "cp_get c req key now force st = (Served v, st')" for v st'
    using that
    by (auto simp: cp_get_def join_or_fetch_def lookup_db_def dest: hit
        split: prod.splits option.splits if_splits)
  have fetching: "key \<notin> fst ` set (inflight st) \<and> map_of (inflight st') key = Some [req]"
    if "cp_get c req key now force st = (Fetching, st')" for st'
    using that cp_get_fetching [OF that]
    by (auto simp: cp_get_def join_or_fetch_def map_of_eq_None_iff update_conv'
        split: prod.splits option.splits)
  have "distinct (map fst (inflight st))" using inv by (simp add: cp_inv_def)
  with served fetching show ?thesis by blast
qed

definition definitive_only :: "nat cp_config" where
  "definitive_only = \<lparr>memoryCacheSize = 8, memoryCacheTtlSeconds = 300, ttlDays = 7,
     shouldCache = Some (\<lambda>v. v \<noteq> 0), isStale = None\<rparr>"

definition example_events :: "(unit, nat) cp_event list" where
  "example_events = [Get 1 ''a.com'' 5 False, Settle ''a.com'' 9 True (Inr 3)]"

theorem provider_serves_only_cacheable_witness:
  "fst (cp_get definitive_only 2 ''a.com'' 20 False
      (foldl (cp_step definitive_only) (new_provider definitive_only []) example_events)) = Served 3
   \<and> cacheable definitive_only 3"
proof -
  let ?st = "foldl (cp_step definitive_only) (new_provider definitive_only []) example_events"
  have "fst (cp_get definitive_only 2 ''a.com'' 20 False ?st) = Served 3"
    by (simp add: example_events_def cp_get_def cp_settle_def lookup_memory_def mem_get_def
        lookup_db_def repo_get_def join_or_fetch_def new_provider_def new_cache_def cacheable_def
        store_memory_def mem_set_def mem_evict_def Let_def definitive_only_def)
  then obtain st' where "cp_get definitive_only 2 ''a.com'' 20 False ?st = (Served 3, st')"
    by (metis prod.collapse)
  then have "cacheable definitive_only 3"
    using provider_serves_only_cacheable [OF refl, where c = definitive_only and rows = "[]"
        and es = example_events] by blast
  with \<open>fst (cp_get definitive_only 2 ''a.com'' 20 False ?st) = Served 3\<close> show ?thesis by simp
qed

text \<open>
  Coalescing: when the fetch of a term settles, every request that waits for it gets
  that same result, in the order in which they joined, and the term is free again; a value
  the predicate rejects leaves the caches as they were.
\<close>

theorem settle_answers_all_waiters:
  assumes "cp_inv c st" "map_of (inflight st) key = Some ws"
  shows "fst (cp_settle c key now written res st) = map (\<lambda>w. (w, res)) ws
    \<and> map_of (inflight (snd (cp_settle c key now written res st))) key = None
    \<and> (\<forall>v. res = Inr v \<and> \<not> cacheable c v \<longrightarrow>
        memoryCache (snd (cp_settle c key now written res st)) = memoryCache st
        \<and> db (snd (cp_settle c key now written res st)) = db st)"
  using assms by (simp add: cp_settle_def Let_def delete_conv' split: sum.splits)

theorem settle_answers_all_waiters_witness:
  "fst (cp_settle definitive_only ''a.com'' 9 True (Inr 3 :: unit + nat)
      (foldl (cp_step definitive_only) (new_provider definitive_only [])
        ([Get 1 ''a.com'' 5 False, Get 2 ''a.com'' 6 False] :: (unit, nat) cp_event list)))
   = [(1, Inr 3), (2, Inr 3)]"
proof -
  let ?st = "foldl (cp_step definitive_only) (new_provider definitive_only [])
        ([Get 1 ''a.com'' 5 False, Get 2 ''a.com'' 6 False] :: (unit, nat) cp_event list)"
  have "cp_inv definitive_only ?st" by (simp add: cp_get_inv cp_inv_new)
  moreover have "map_of (inflight ?st) ''a.com'' = Some [1, 2]"
    by (simp add: cp_get_def lookup_memory_def mem_get_def lookup_db_def repo_get_def
        join_or_fetch_def new_provider_def new_cache_def definitive_only_def)
  ultimately show ?thesis
    by (simp only: conjunct1 [OF settle_answers_all_waiters] list.map)
qed

end
