(* ===== verification/Domain.thy ===== *)
theory Domain
  imports Prelude
begin

text \<open>
  Domain names: \<open>src/utils/domain.ts\<close>. The Public Suffix List (\<open>psl.parse\<close>) and the IDNA
  conversions of \<open>node:url\<close> are parameters. Strings are 8-bit, so the byte-order mark that
  \<open>normalizeDomain\<close> strips does not occur. The lemmas show what a valid result looks like,
  that normalising is idempotent and what the parser returns for malformed input.
\<close>

section \<open>Syntax\<close>

definition is_space :: "char \<Rightarrow> bool" where
  "is_space c = ((9 \<le> (of_char c :: nat) \<and> (of_char c :: nat) \<le> 13) \<or> c = CHR '' '' \<or> (of_char c :: nat) = 160)"

definition trim :: "string \<Rightarrow> string" where
  "trim s = rev (dropWhile is_space (rev (dropWhile is_space s)))"

text \<open>\<open>s.split('.')\<close>.\<close>

fun split_on :: "char \<Rightarrow> string \<Rightarrow> string list" where
  "split_on d [] = [[]]"
| "split_on d (c # s) =
     (if c = d then [] # split_on d s
      else case split_on d s of [] \<Rightarrow> [[c]] | p # ps \<Rightarrow> (c # p) # ps)"

definition hasNonAscii :: "string \<Rightarrow> bool" where
  "hasNonAscii s = list_ex (\<lambda>c. (of_char c :: nat) > 127) s"

definition is_ldh :: "char \<Rightarrow> bool" where
  "is_ldh c = (c = CHR ''-'' \<or> is_digit c \<or> is_lower c)"

definition is_alnum :: "char \<Rightarrow> bool" where
  "is_alnum c = (is_digit c \<or> is_lower c)"

fun invalid_char :: "string \<Rightarrow> char option" where
  "invalid_char [] = None"
| "invalid_char (c # s) = (if \<not> is_ldh c then Some c else invalid_char s)"

definition validateLabelSyntax :: "string \<Rightarrow> string option" where
  "validateLabelSyntax label =
     (if length label = 0 then Some ''empty label''
      else if length label > 63 then Some ''label exceeds 63 characters''
      else if starts_with label ''-'' then Some ''label starts with hyphen''
      else if ends_with label ''-'' then Some ''label ends with hyphen''
      else case invalid_char label of
        Some c \<Rightarrow> Some (''invalid character in label: '' @ [c])
      | None \<Rightarrow> None)"

text \<open>
  The regular expression for domains: 1 to 253 characters; one or more labels of at most 63
  letters, digits and inner hyphens, each followed by a dot; then a top-level label.
\<close>

definition re_label :: "string \<Rightarrow> bool" where
  "re_label l = (l \<noteq> [] \<and> is_alnum (hd l) \<and> is_alnum (last l) \<and> length l \<le> 63 \<and> list_all is_ldh l)"

definition re_tld :: "string \<Rightarrow> bool" where
  "re_tld l = ((starts_with l ''xn--'' \<and> length l > 4 \<and> list_all is_ldh (drop 4 l))
               \<or> (2 \<le> length l \<and> list_all is_lower l))"

definition DOMAIN_RE :: "string \<Rightarrow> bool" where
  "DOMAIN_RE s =
     (let ls = split_on (CHR ''.'') s
      in 1 \<le> length s \<and> length s \<le> 253 \<and> 2 \<le> length ls
         \<and> list_all re_label (butlast ls) \<and> re_tld (last ls))"

definition PUNY_RE :: "string \<Rightarrow> bool" where
  "PUNY_RE s = starts_with (to_lower s) ''xn--''"

section \<open>The normaliser and the parser\<close>

record normalized_domain =
  raw :: string
  normalized :: string
  sld :: string
  tld :: string
  sldUnicode :: string
  isValid :: bool
  invalidReason :: "string option"

definition invalid :: "string \<Rightarrow> string \<Rightarrow> string \<Rightarrow> normalized_domain" where
  "invalid r n reason = \<lparr>raw = r, normalized = n, sld = [], tld = [], sldUnicode = [],
     isValid = False, invalidReason = Some reason\<rparr>"

text \<open>What \<open>psl.parse\<close> may do; a component that it leaves out is null.\<close>

datatype psl_result = PslThrows | PslError | PslParsed "string option" "string option"

text \<open>A component that the code accepts: present and not the empty string.\<close>

fun truthy :: "string option \<Rightarrow> bool" where
  "truthy None = False"
| "truthy (Some s) = (s \<noteq> [])"

fun first_label_error :: "string list \<Rightarrow> string" where
  "first_label_error [] = ''syntax validation failed''"
| "first_label_error (l # ls) =
     (case validateLabelSyntax l of Some e \<Rightarrow> e | None \<Rightarrow> first_label_error ls)"

text \<open>
  The IDNA conversions: \<open>None\<close> when the call throws.
\<close>

record idna =
  domainToASCII :: "string \<Rightarrow> string option"
  domainToUnicode :: "string \<Rightarrow> string option"

definition normalizeDomain :: "idna \<Rightarrow> (string \<Rightarrow> psl_result) \<Rightarrow> string \<Rightarrow> normalized_domain" where
  "normalizeDomain env psl input =
     (let r = trim input
      in if r = [] then invalid r [] ''empty domain''
         else case (if hasNonAscii r then domainToASCII env r else Some (to_lower r)) of
           None \<Rightarrow> invalid r [] ''IDN conversion failed''
         | Some ascii \<Rightarrow>
             let lower = to_lower ascii;
                 hasIdn = (hasNonAscii r
                           \<or> (str_includes lower ''.''
                              \<and> list_ex PUNY_RE (split_on (CHR ''.'') lower)))
             in if \<not> DOMAIN_RE lower
                then invalid r lower (first_label_error (split_on (CHR ''.'') lower))
                else case psl lower of
                  PslThrows \<Rightarrow> invalid r lower ''PSL parse failed''
                | PslError \<Rightarrow> invalid r lower ''unrecognisable domain''
                | PslParsed s t \<Rightarrow>
                    (if \<not> truthy s \<or> \<not> truthy t then invalid r lower ''unrecognisable domain''
                     else \<lparr>raw = r, normalized = lower, sld = the s, tld = ''.'' @ the t,
                            sldUnicode =
                              (if hasIdn \<and> PUNY_RE (the s)
                               then case domainToUnicode env (the s) of
                                      None \<Rightarrow> the s | Some u \<Rightarrow> u
                               else the s),
                            isValid = True, invalidReason = None\<rparr>))"

definition isValidDomain :: "idna \<Rightarrow> (string \<Rightarrow> psl_result) \<Rightarrow> string \<Rightarrow> bool" where
  "isValidDomain env psl value = isValid (normalizeDomain env psl value)"

definition getSldForTrademark :: "idna \<Rightarrow> (string \<Rightarrow> psl_result) \<Rightarrow> string \<Rightarrow> string" where
  "getSldForTrademark env psl domain =
     (let norm = normalizeDomain env psl domain
      in if \<not> isValid norm then [] else if sldUnicode norm \<noteq> [] then sldUnicode norm else sld norm)"

record parsed_domain =
  p_input :: string
  p_sld :: string
  p_tld :: string

text \<open>\<open>None\<close>: \<open>psl.parse\<close> threw, which the parser does not catch.\<close>

definition parseDomain :: "(string \<Rightarrow> psl_result) \<Rightarrow> string \<Rightarrow> parsed_domain option" where
  "parseDomain psl s =
     (let input = trim (to_lower s)
      in if input = [] then Some \<lparr>p_input = [], p_sld = [], p_tld = ''.com''\<rparr>
         else case psl input of
           PslThrows \<Rightarrow> None
         | PslError \<Rightarrow> Some \<lparr>p_input = input, p_sld = input, p_tld = ''.com''\<rparr>
         | PslParsed l t \<Rightarrow>
             (if \<not> truthy l \<or> \<not> truthy t
              then Some \<lparr>p_input = input, p_sld = input, p_tld = ''.com''\<rparr>
              else Some \<lparr>p_input = input, p_sld = the l, p_tld = ''.'' @ the t\<rparr>))"

definition extractTld :: "(string \<Rightarrow> psl_result) \<Rightarrow> string \<Rightarrow> string option" where
  "extractTld psl s = map_option p_tld (parseDomain psl s)"

definition extractSld :: "(string \<Rightarrow> psl_result) \<Rightarrow> string \<Rightarrow> string option" where
  "extractSld psl s = map_option p_sld (parseDomain psl s)"

definition registrar_key :: "string \<Rightarrow> string" where
  "registrar_key t =
     (if t = [] \<or> t = ''.'' then []
      else map (\<lambda>c. if c = CHR ''.'' then CHR ''_'' else c) (drop 1 t))"

definition extractRegistrarTld :: "(string \<Rightarrow> psl_result) \<Rightarrow> string \<Rightarrow> string option" where
  "extractRegistrarTld psl domain = map_option registrar_key (extractTld psl domain)"

section \<open>Lemmas\<close>

lemma split_on_nonempty [simp]: "split_on d s \<noteq> []"
  by (induction s) (auto split: list.split)

lemma split_on_chars: "c \<in> set s \<Longrightarrow> c \<noteq> d \<Longrightarrow> \<exists>l \<in> set (split_on d s). c \<in> set l"
proof (induction s)
  case (Cons x s)
  show ?case
  proof (cases "x = d")
    case True
    with Cons show ?thesis by auto
  next
    case False
    obtain p ps where ps: "split_on d s = p # ps" by (cases "split_on d s") auto
    show ?thesis
    proof (cases "c = x")
      case True
      with False ps show ?thesis by simp
    next
      case False'': False
      then have "c \<in> set s" using Cons.prems by simp
      then obtain l where "l \<in> set (split_on d s)" "c \<in> set l" using Cons by blast
      with False ps show ?thesis by auto
    qed
  qed
qed simp

lemma ldh_not_upper: "is_ldh c \<Longrightarrow> \<not> is_upper c \<and> \<not> is_space c \<and> (of_char c :: nat) \<le> 127"
  by (auto simp: is_ldh_def is_upper_def is_digit_def is_lower_def is_space_def)

lemma DOMAIN_RE_chars:
  assumes "DOMAIN_RE s" "c \<in> set s"
  shows "c = CHR ''.'' \<or> is_ldh c"
proof (cases "c = CHR ''.''")
  case False
  then obtain l where l: "l \<in> set (split_on (CHR ''.'') s)" "c \<in> set l"
    using split_on_chars [OF assms(2)] by blast
  let ?ls = "split_on (CHR ''.'') s"
  have "?ls = butlast ?ls @ [last ?ls]" by simp
  then consider "l \<in> set (butlast ?ls)" | "l = last ?ls"
    using l(1) by (metis Un_iff empty_iff empty_set set_ConsD set_append)
  then show ?thesis
  proof cases
    case 1
    then have "re_label l" using assms(1) by (auto simp: DOMAIN_RE_def Let_def list_all_iff)
    then show ?thesis using l(2) by (auto simp: re_label_def list_all_iff)
  next
    case 2
    then have t: "re_tld l" using assms(1) by (auto simp: DOMAIN_RE_def Let_def)
    have "is_ldh c" if "starts_with l ''xn--''" "list_all is_ldh (drop 4 l)"
    proof -
      obtain r where r: "l = ''xn--'' @ r" using \<open>starts_with l ''xn--''\<close> by (auto simp: starts_with_iff)
      then have "list_all is_ldh r" using that(2) by simp
      moreover have "list_all is_ldh ''xn--''" by code_simp
      ultimately have "list_all is_ldh l" using r by (simp only: list_all_append)
      then show ?thesis using l(2) by (simp add: list_all_iff)
    qed
    moreover have "is_ldh c" if "list_all is_lower l"
      using that l(2) by (simp add: list_all_iff is_ldh_def)
    ultimately show ?thesis using t unfolding re_tld_def by blast
  qed
qed simp

lemma to_lower_id: "\<forall>c \<in> set s. \<not> is_upper c \<Longrightarrow> to_lower s = s"
  by (simp add: to_lower_def char_to_lower_def map_idI)

lemma dropWhile_none: "\<forall>c \<in> set s. \<not> P c \<Longrightarrow> dropWhile P s = s"
  by (cases s) auto

lemma trim_id: "\<forall>c \<in> set s. \<not> is_space c \<Longrightarrow> trim s = s"
  by (simp add: trim_def dropWhile_none)

lemma DOMAIN_RE_stable:
  assumes "DOMAIN_RE s"
  shows "to_lower s = s" "trim s = s" "\<not> hasNonAscii s" "s \<noteq> []"
proof -
  have c: "\<not> is_upper c \<and> \<not> is_space c \<and> (of_char c :: nat) \<le> 127" if "c \<in> set s" for c
  proof -
    have dot: "\<not> is_upper (CHR ''.'') \<and> \<not> is_space (CHR ''.'') \<and> (of_char (CHR ''.'') :: nat) \<le> 127"
      by (simp add: is_upper_def is_space_def)
    from DOMAIN_RE_chars [OF assms that] show ?thesis
      using dot ldh_not_upper by blast
  qed
  show "to_lower s = s" by (rule to_lower_id) (use c in blast)
  show "trim s = s" by (rule trim_id) (use c in blast)
  show "\<not> hasNonAscii s" using c by (auto simp: hasNonAscii_def list_ex_iff not_less)
  show "s \<noteq> []" using assms by (auto simp: DOMAIN_RE_def)
qed

lemma re_label_valid: "re_label l \<Longrightarrow> validateLabelSyntax l = None"
proof -
  assume l: "re_label l"
  have "is_alnum c \<Longrightarrow> c \<noteq> CHR ''-''" for c by (auto simp: is_alnum_def is_digit_def is_lower_def)
  then have h: "hd l \<noteq> CHR ''-''" "last l \<noteq> CHR ''-''" using l by (auto simp: re_label_def)
  have ne: "l \<noteq> []" using l by (simp add: re_label_def)
  have "\<not> starts_with l ''-''" using h(1) ne by (cases l) (auto simp: starts_with_def)
  moreover have "\<not> ends_with l ''-''"
  proof
    assume "ends_with l ''-''"
    then have "drop (length l - 1) l = ''-''" by (simp add: ends_with_def)
    then show False using h(2) ne by (metis last_drop last.simps diff_less length_greater_0_conv zero_less_one)
  qed
  moreover have "list_all is_ldh l \<Longrightarrow> invalid_char l = None" by (induction l) auto
  ultimately show ?thesis using l ne by (simp add: validateLabelSyntax_def re_label_def)
qed

lemma truthyD: "truthy x \<Longrightarrow> \<exists>s. x = Some s \<and> s \<noteq> []"
  by (cases x) auto

lemma invalid_simps [simp]:
  "isValid (invalid r n e) = False" "invalidReason (invalid r n e) = Some e"
  "sld (invalid r n e) = []" "tld (invalid r n e) = []" "sldUnicode (invalid r n e) = []"
  by (simp_all add: invalid_def)

text \<open>Every rejection goes through \<open>invalid\<close>; an acceptance has passed all the guards.\<close>

lemma normalize_cases:
  obtains (bad) r n e where "normalizeDomain env psl input = invalid r n e"
  | (good) n s t u where "DOMAIN_RE n" "psl n = PslParsed (Some s) (Some t)" "s \<noteq> []" "t \<noteq> []"
      "normalizeDomain env psl input = \<lparr>raw = trim input, normalized = n, sld = s, tld = ''.'' @ t,
         sldUnicode = u, isValid = True, invalidReason = None\<rparr>"
proof (cases "trim input = []")
  case True
  then show ?thesis using bad by (simp add: normalizeDomain_def)
next
  case ne: False
  let ?a = "if hasNonAscii (trim input) then domainToASCII env (trim input)
            else Some (to_lower (trim input))"
  show ?thesis
  proof (cases ?a)
    case None
    show ?thesis by (rule bad) (simp only: normalizeDomain_def Let_def ne None if_False option.case)
  next
    case (Some ascii)
    let ?n = "to_lower ascii"
    note eq = normalizeDomain_def [of env psl input, unfolded Let_def, unfolded ne Some if_False option.case]
    show ?thesis
    proof (cases "DOMAIN_RE ?n")
      case False
      show ?thesis by (rule bad) (simp only: eq ne Some False not_False_eq_True if_True if_False)
    next
      case re: True
      show ?thesis
      proof (cases "psl ?n")
        case PslThrows
        show ?thesis
          by (rule bad) (simp only: eq ne Some re PslThrows not_True_eq_False if_False psl_result.case)
      next
        case PslError
        show ?thesis
          by (rule bad) (simp only: eq ne Some re PslError not_True_eq_False if_False psl_result.case)
      next
        case (PslParsed x y)
        show ?thesis
        proof (cases "\<not> truthy x \<or> \<not> truthy y")
          case True
          show ?thesis
            by (rule bad) (simp only: eq ne Some re PslParsed True not_True_eq_False if_False if_True psl_result.case)
        next
          case False
          then obtain s t where st: "x = Some s" "s \<noteq> []" "y = Some t" "t \<noteq> []"
            using truthyD by blast
          show ?thesis
            by (rule good [of ?n s t])
              (use re PslParsed st in \<open>simp_all only: eq ne Some False not_True_eq_False if_False
                  psl_result.case option.sel refl not_False_eq_True truthy.simps simp_thms\<close>)
        qed
      qed
    qed
  qed
qed

lemma normalize_valid:
  assumes "isValid (normalizeDomain env psl input)"
  shows "DOMAIN_RE (normalized (normalizeDomain env psl input))
    \<and> (\<exists>s t. psl (normalized (normalizeDomain env psl input)) = PslParsed (Some s) (Some t)
        \<and> s \<noteq> [] \<and> t \<noteq> []
        \<and> sld (normalizeDomain env psl input) = s \<and> tld (normalizeDomain env psl input) = ''.'' @ t)"
  using assms by (cases rule: normalize_cases [of env psl input]) auto

lemma normalize_of_valid:
  assumes "DOMAIN_RE n" "psl n = PslParsed (Some s) (Some t)" "s \<noteq> []" "t \<noteq> []"
  shows "isValid (normalizeDomain env psl n) \<and> normalized (normalizeDomain env psl n) = n
    \<and> sld (normalizeDomain env psl n) = s \<and> tld (normalizeDomain env psl n) = ''.'' @ t"
  using assms DOMAIN_RE_stable [OF assms(1)] by (simp add: normalizeDomain_def Let_def)

section \<open>Properties\<close>

text \<open>
  C37. Normalising a domain is sound and idempotent: a domain that is accepted consists of
  dot-separated labels that all (the last one apart, which has its own syntax) pass the
  label check, has a non-empty second-level label and a suffix that begins with a dot, and
  normalising the result again accepts it and returns the same name and the same split;
  a rejected one has a reason and no split.
\<close>

theorem normalize_sound_idempotent:
  fixes env :: idna and psl :: "string \<Rightarrow> psl_result" and input :: string
  defines "r \<equiv> normalizeDomain env psl input"
  shows "if isValid r
    then (\<forall>l \<in> set (butlast (split_on (CHR ''.'') (normalized r))). validateLabelSyntax l = None)
      \<and> sld r \<noteq> [] \<and> starts_with (tld r) ''.''
      \<and> isValid (normalizeDomain env psl (normalized r))
      \<and> normalized (normalizeDomain env psl (normalized r)) = normalized r
      \<and> sld (normalizeDomain env psl (normalized r)) = sld r
      \<and> tld (normalizeDomain env psl (normalized r)) = tld r
    else invalidReason r \<noteq> None \<and> sld r = [] \<and> tld r = [] \<and> sldUnicode r = []"
proof (cases "isValid r")
  case True
  then obtain s t where *: "DOMAIN_RE (normalized r)" "psl (normalized r) = PslParsed (Some s) (Some t)"
    "s \<noteq> []" "t \<noteq> []" "sld r = s" "tld r = ''.'' @ t"
    using normalize_valid [of env psl input] unfolding r_def by blast
  have "list_all re_label (butlast (split_on (CHR ''.'') (normalized r)))"
    using *(1) by (simp add: DOMAIN_RE_def Let_def)
  then have "\<forall>l \<in> set (butlast (split_on (CHR ''.'') (normalized r))). validateLabelSyntax l = None"
    using re_label_valid by (auto simp: list_all_iff)
  moreover have "starts_with (tld r) ''.''" using *(6) by (simp add: starts_with_def)
  ultimately show ?thesis
    using True * normalize_of_valid [of "normalized r" psl s t env] by simp
next
  case False
  then show ?thesis
    unfolding r_def by (cases rule: normalize_cases [of env psl input]) auto
qed

text \<open>A suffix list that knows one suffix.\<close>

definition example_psl :: "string \<Rightarrow> psl_result" where
  "example_psl s = (if s = ''nike.co.uk'' then PslParsed (Some ''nike'') (Some ''co.uk'') else PslError)"

definition example_idna :: idna where
  "example_idna = \<lparr>domainToASCII = Some, domainToUnicode = Some\<rparr>"

theorem normalize_sound_idempotent_witness:
  "normalized (normalizeDomain example_idna example_psl (normalized
      (normalizeDomain example_idna example_psl '' Nike.co.UK''))) = ''nike.co.uk''"
proof -
  have "isValid (normalizeDomain example_idna example_psl '' Nike.co.UK'')
    \<and> normalized (normalizeDomain example_idna example_psl '' Nike.co.UK'') = ''nike.co.uk''"
    by code_simp
  then show ?thesis
    using normalize_sound_idempotent [of example_idna example_psl "'' Nike.co.UK''"] by simp
qed

text \<open>
  The parser ignores case and surrounding space, always yields a suffix that begins with a
  dot, yields an empty label only for blank input, and its registrar key (the suffix with
  underscores for dots) never contains a dot.
\<close>

theorem parse_total:
  assumes "\<And>s. psl s \<noteq> PslThrows"
  shows "\<exists>p. parseDomain psl s = Some p \<and> parseDomain psl (to_lower s) = Some p
    \<and> p_input p = trim (to_lower s)
    \<and> starts_with (p_tld p) ''.'' \<and> (p_sld p = [] \<longleftrightarrow> p_input p = [])
    \<and> (\<exists>k. extractRegistrarTld psl s = Some k \<and> CHR ''.'' \<notin> set k
           \<and> (p_tld p = ''.'' \<or> length k + 1 = length (p_tld p)))"
proof -
  have "\<exists>p. parseDomain psl s = Some p \<and> p_input p = trim (to_lower s)
    \<and> starts_with (p_tld p) ''.'' \<and> (p_sld p = [] \<longleftrightarrow> p_input p = [])"
    using assms [of "trim (to_lower s)"]
    by (cases "psl (trim (to_lower s))")
      (auto simp: parseDomain_def Let_def starts_with_def dest!: truthyD)
  then obtain p where p: "parseDomain psl s = Some p" "p_input p = trim (to_lower s)"
    "starts_with (p_tld p) ''.''" "p_sld p = [] \<longleftrightarrow> p_input p = []" by blast
  have "parseDomain psl (to_lower s) = Some p" using p(1) by (simp add: parseDomain_def)
  moreover have "extractRegistrarTld psl s = Some (registrar_key (p_tld p))"
    using p(1) by (simp add: extractRegistrarTld_def extractTld_def)
  moreover have "CHR ''.'' \<notin> set (registrar_key (p_tld p))"
    by (auto simp: registrar_key_def)
  moreover have "p_tld p = ''.'' \<or> length (registrar_key (p_tld p)) + 1 = length (p_tld p)"
    using p(3) by (cases "p_tld p") (auto simp: registrar_key_def starts_with_def)
  ultimately show ?thesis using p by blast
qed

theorem parse_total_witness:
  "\<exists>p. parseDomain example_psl '' Nike.co.UK'' = Some p \<and> starts_with (p_tld p) ''.''"
proof -
  have "example_psl s \<noteq> PslThrows" for s by (simp add: example_psl_def)
  then show ?thesis using parse_total [of example_psl "'' Nike.co.UK''"] by blast
qed

end
