(* ===== verification/Weights.thy ===== *)
theory Weights
  imports Prelude
begin

text \<open>
  Scoring weights: \<open>src/scoring/weights.ts\<close> (the constants) and
  \<open>src/scoring/weights-loader.ts\<close> (which weights and thresholds apply when signals lack
  data, and the validation of an operator's override file). The JSON reader for the
  override files of the weights and of the TLD bonuses (\<open>src/scoring/tld-bonus-loader.ts\<close>)
  is the type \<open>json\<close>.
\<close>

section \<open>Weights and constants\<close>

record scoring_weights =
  w_intrinsic :: real
  w_commercial :: real
  w_market :: real
  w_expiry :: real

record signal_availability =
  a_intrinsic :: bool
  a_commercial :: bool
  a_market :: bool
  a_expiry :: bool

definition DEFAULT_WEIGHTS :: scoring_weights where
  "DEFAULT_WEIGHTS = \<lparr>w_intrinsic = 3 / 10, w_commercial = 35 / 100, w_market = 25 / 100,
     w_expiry = 1 / 10\<rparr>"

definition WEIGHT_RECOMMEND_THRESHOLD :: real where
  "WEIGHT_RECOMMEND_THRESHOLD = 4 / 10"

definition SIGNAL_DATA_THRESHOLD :: real where
  "SIGNAL_DATA_THRESHOLD = 7 / 10"

definition DEFAULT_FALLBACK_WEIGHTS :: scoring_weights where
  "DEFAULT_FALLBACK_WEIGHTS = \<lparr>w_intrinsic = 6 / 10, w_commercial = 0, w_market = 0,
     w_expiry = 4 / 10\<rparr>"

definition MIN_EFFECTIVE_RECOMMEND_THRESHOLD :: real where
  "MIN_EFFECTIVE_RECOMMEND_THRESHOLD = 2 / 10"

definition MIN_EFFECTIVE_CONFIDENCE_THRESHOLD :: real where
  "MIN_EFFECTIVE_CONFIDENCE_THRESHOLD = 18 / 100"

definition MAX_EFFECTIVE_CONFIDENCE_THRESHOLD :: real where
  "MAX_EFFECTIVE_CONFIDENCE_THRESHOLD = 3 / 10"

definition DEFAULT_TLD_BONUS :: "(string \<times> real) list" where
  "DEFAULT_TLD_BONUS =
     [(''.com'', 1), (''.ai'', 9/10), (''.io'', 85/100), (''.co'', 75/100), (''.net'', 65/100),
      (''.org'', 55/100), (''.app'', 1/2), (''.dev'', 1/2), (''.tv'', 1/2), (''.me'', 45/100),
      (''.us'', 45/100), (''.tech'', 45/100), (''.xyz'', 45/100), (''.shop'', 4/10),
      (''.site'', 4/10), (''.online'', 4/10), (''.store'', 4/10)]"

definition UNKNOWN_TLD_MULTIPLIER :: real where
  "UNKNOWN_TLD_MULTIPLIER = 45 / 100"

lemmas weight_constants =
  DEFAULT_WEIGHTS_def WEIGHT_RECOMMEND_THRESHOLD_def SIGNAL_DATA_THRESHOLD_def
  DEFAULT_FALLBACK_WEIGHTS_def MIN_EFFECTIVE_RECOMMEND_THRESHOLD_def
  MIN_EFFECTIVE_CONFIDENCE_THRESHOLD_def MAX_EFFECTIVE_CONFIDENCE_THRESHOLD_def
  UNKNOWN_TLD_MULTIPLIER_def

section \<open>Effective weights and thresholds\<close>

definition sumAvailable :: "scoring_weights \<Rightarrow> signal_availability \<Rightarrow> real" where
  "sumAvailable w a =
     (if a_intrinsic a then w_intrinsic w else 0) + (if a_commercial a then w_commercial w else 0)
     + (if a_market a then w_market w else 0) + (if a_expiry a then w_expiry w else 0)"

definition zero_unavailable :: "signal_availability \<Rightarrow> scoring_weights \<Rightarrow> scoring_weights" where
  "zero_unavailable a w =
     \<lparr>w_intrinsic = (if a_intrinsic a then w_intrinsic w else 0),
      w_commercial = (if a_commercial a then w_commercial w else 0),
      w_market = (if a_market a then w_market w else 0),
      w_expiry = (if a_expiry a then w_expiry w else 0)\<rparr>"

definition resolveEffectiveWeights ::
  "signal_availability \<Rightarrow> scoring_weights \<Rightarrow> scoring_weights \<Rightarrow> scoring_weights" where
  "resolveEffectiveWeights a w fallback =
     (if sumAvailable w a \<ge> SIGNAL_DATA_THRESHOLD then w
      else
        let result = zero_unavailable a w;
            toRedistribute = 1 - sumAvailable w a;
            fallbackTotal = w_intrinsic fallback + w_expiry fallback
        in if a_intrinsic a \<and> a_expiry a then
             result\<lparr>w_intrinsic := w_intrinsic result
                      + toRedistribute * (w_intrinsic fallback / fallbackTotal),
                    w_expiry := w_expiry result
                      + toRedistribute * (w_expiry fallback / fallbackTotal)\<rparr>
           else if a_intrinsic a then
             result\<lparr>w_intrinsic := w_intrinsic result + toRedistribute\<rparr>
           else if a_expiry a then
             result\<lparr>w_expiry := w_expiry result + toRedistribute\<rparr>
           else result)"

definition availability_ratio :: "signal_availability \<Rightarrow> scoring_weights \<Rightarrow> real" where
  "availability_ratio a w = min 1 (sumAvailable w a / SIGNAL_DATA_THRESHOLD)"

text \<open>The recommend threshold and the confidence threshold.\<close>

definition computeEffectiveThresholds ::
  "signal_availability \<Rightarrow> scoring_weights \<Rightarrow> real \<times> real" where
  "computeEffectiveThresholds a w =
     (let ratio = availability_ratio a w;
          recommendRange = WEIGHT_RECOMMEND_THRESHOLD - MIN_EFFECTIVE_RECOMMEND_THRESHOLD;
          confidenceRange = MAX_EFFECTIVE_CONFIDENCE_THRESHOLD - MIN_EFFECTIVE_CONFIDENCE_THRESHOLD
      in (round2 (MIN_EFFECTIVE_RECOMMEND_THRESHOLD + recommendRange * ratio),
          round2 (MIN_EFFECTIVE_CONFIDENCE_THRESHOLD + confidenceRange * ratio)))"

section \<open>Override files\<close>

text \<open>
  A value that \<open>JSON.parse\<close> returned. An object is the list of its members as
  \<open>Object.entries\<close> enumerates them, one per key. A number is a finite one: the literals
  that overflow to infinity are rejected by the code as every other invalid value is.
\<close>

datatype json =
    JNull
  | JBool bool
  | JNumber real
  | JString string
  | JArray "json list"
  | JObject "(string \<times> json) list"

definition is_object :: "json \<Rightarrow> bool" where
  "is_object j = (case j of JArray _ \<Rightarrow> True | JObject _ \<Rightarrow> True | _ \<Rightarrow> False)"

definition member :: "json \<Rightarrow> string \<Rightarrow> json option" where
  "member j key = (case j of JObject ms \<Rightarrow> map_of ms key | _ \<Rightarrow> None)"

definition weight_value :: "json \<Rightarrow> string \<Rightarrow> real option" where
  "weight_value j key =
     (case member j key of
        Some (JNumber v) \<Rightarrow> (if v < 0 \<or> v > 1 then None else Some v)
      | _ \<Rightarrow> None)"

definition WEIGHTS_OVERRIDE_SUM_TOLERANCE :: real where
  "WEIGHTS_OVERRIDE_SUM_TOLERANCE = 1 / 1000"

definition validateOverrideOrDefault :: "json \<Rightarrow> scoring_weights" where
  "validateOverrideOrDefault parsed =
     (if \<not> is_object parsed then DEFAULT_WEIGHTS
      else case member parsed ''weights'' of
        None \<Rightarrow> DEFAULT_WEIGHTS
      | Some ws \<Rightarrow>
          (if \<not> is_object ws then DEFAULT_WEIGHTS
           else case (weight_value ws ''intrinsic'', weight_value ws ''commercial'',
                      weight_value ws ''market'', weight_value ws ''expiry'') of
             (Some i, Some c, Some m, Some e) \<Rightarrow>
               (if \<bar>i + c + m + e - 1\<bar> > WEIGHTS_OVERRIDE_SUM_TOLERANCE then DEFAULT_WEIGHTS
                else \<lparr>w_intrinsic = i, w_commercial = c, w_market = m, w_expiry = e\<rparr>)
           | _ \<Rightarrow> DEFAULT_WEIGHTS))"

text \<open>
  The file system is a parameter: \<open>None\<close> for a path that does not exist, \<open>Some None\<close> for a
  file that cannot be read or is not JSON.
\<close>

definition loadWeights :: "(string \<Rightarrow> json option option) \<Rightarrow> string option \<Rightarrow> scoring_weights" where
  "loadWeights fs overridePath =
     (case overridePath of
        None \<Rightarrow> DEFAULT_WEIGHTS
      | Some path \<Rightarrow>
          (if path = [] then DEFAULT_WEIGHTS
           else case fs path of
             None \<Rightarrow> DEFAULT_WEIGHTS
           | Some None \<Rightarrow> DEFAULT_WEIGHTS
           | Some (Some parsed) \<Rightarrow> validateOverrideOrDefault parsed))"

text \<open>
  The bonus table is an insertion-ordered object; a later entry for the same TLD wins. The
  members of a parsed array are keyed by their index.
\<close>

definition json_entries :: "(nat \<Rightarrow> string) \<Rightarrow> json \<Rightarrow> (string \<times> json) list" where
  "json_entries show_index j =
     (case j of
        JObject ms \<Rightarrow> ms
      | JArray xs \<Rightarrow> zip (map show_index [0..<length xs]) xs
      | _ \<Rightarrow> [])"

definition normalise_tld :: "string \<Rightarrow> string" where
  "normalise_tld tld = (if starts_with tld ''.'' then tld else ''.'' @ tld)"

fun merge_bonuses :: "(string \<times> json) list \<Rightarrow> (string \<Rightarrow> real option) \<Rightarrow> (string \<Rightarrow> real option)" where
  "merge_bonuses [] merged = merged"
| "merge_bonuses ((tld, JNumber v) # ms) merged =
     merge_bonuses ms (if 0 \<le> v \<and> v \<le> 1 then merged(normalise_tld tld \<mapsto> v) else merged)"
| "merge_bonuses (_ # ms) merged = merge_bonuses ms merged"

definition loadTldBonuses ::
  "(nat \<Rightarrow> string) \<Rightarrow> (string \<Rightarrow> json option option) \<Rightarrow> string option \<Rightarrow> (string \<Rightarrow> real option)" where
  "loadTldBonuses show_index fs overridePath =
     (case overridePath of
        None \<Rightarrow> map_of DEFAULT_TLD_BONUS
      | Some path \<Rightarrow>
          (if path = [] then map_of DEFAULT_TLD_BONUS
           else case fs path of
             Some (Some parsed) \<Rightarrow>
               (if is_object parsed
                then merge_bonuses (json_entries show_index parsed) (map_of DEFAULT_TLD_BONUS)
                else map_of DEFAULT_TLD_BONUS)
           | _ \<Rightarrow> map_of DEFAULT_TLD_BONUS))"

section \<open>Valid weights\<close>

definition weight_sum :: "scoring_weights \<Rightarrow> real" where
  "weight_sum w = w_intrinsic w + w_commercial w + w_market w + w_expiry w"

definition nonneg :: "scoring_weights \<Rightarrow> bool" where
  "nonneg w = (0 \<le> w_intrinsic w \<and> 0 \<le> w_commercial w \<and> 0 \<le> w_market w \<and> 0 \<le> w_expiry w)"

definition valid_weights :: "scoring_weights \<Rightarrow> bool" where
  "valid_weights w = (nonneg w \<and> \<bar>weight_sum w - 1\<bar> \<le> WEIGHTS_OVERRIDE_SUM_TOLERANCE)"

lemma DEFAULT_WEIGHTS_valid [simp]: "valid_weights DEFAULT_WEIGHTS" "weight_sum DEFAULT_WEIGHTS = 1"
  by (simp_all add: valid_weights_def nonneg_def weight_sum_def DEFAULT_WEIGHTS_def
      WEIGHTS_OVERRIDE_SUM_TOLERANCE_def)

lemma weight_value_bounds: "weight_value j k = Some v \<Longrightarrow> 0 \<le> v \<and> v \<le> 1"
  by (auto simp: weight_value_def split: option.splits json.splits if_splits)

lemma validateOverrideOrDefault_valid: "valid_weights (validateOverrideOrDefault j)"
proof (cases "validateOverrideOrDefault j = DEFAULT_WEIGHTS")
  case True
  then show ?thesis by simp
next
  case False
  then obtain ws i c m e where
    v: "weight_value ws ''intrinsic'' = Some i" "weight_value ws ''commercial'' = Some c"
      "weight_value ws ''market'' = Some m" "weight_value ws ''expiry'' = Some e" and
    eq: "validateOverrideOrDefault j
      = \<lparr>w_intrinsic = i, w_commercial = c, w_market = m, w_expiry = e\<rparr>" and
    sum: "\<not> \<bar>i + c + m + e - 1\<bar> > WEIGHTS_OVERRIDE_SUM_TOLERANCE"
    unfolding validateOverrideOrDefault_def
    by (auto split: option.splits if_splits)
  then show ?thesis
    using v [THEN weight_value_bounds] by (simp add: valid_weights_def nonneg_def weight_sum_def)
qed

lemma sumAvailable_bounds: "nonneg w \<Longrightarrow> 0 \<le> sumAvailable w a \<and> sumAvailable w a \<le> weight_sum w"
  by (auto simp: sumAvailable_def weight_sum_def nonneg_def)

lemma total_zero_unavailable: "weight_sum (zero_unavailable a w) = sumAvailable w a"
  by (simp add: weight_sum_def zero_unavailable_def sumAvailable_def)

lemma nonneg_zero_unavailable: "nonneg w \<Longrightarrow> nonneg (zero_unavailable a w)"
  by (simp add: nonneg_def zero_unavailable_def)

lemma DEFAULT_FALLBACK_simps [simp]:
  "w_intrinsic DEFAULT_FALLBACK_WEIGHTS = 6 / 10" "w_expiry DEFAULT_FALLBACK_WEIGHTS = 4 / 10"
  by (simp_all add: DEFAULT_FALLBACK_WEIGHTS_def)

text \<open>Redistribution: below the data threshold the weights again sum to one.\<close>

lemma resolve_total:
  assumes "a_intrinsic a"
  shows "weight_sum (resolveEffectiveWeights a w DEFAULT_FALLBACK_WEIGHTS) =
    (if sumAvailable w a \<ge> SIGNAL_DATA_THRESHOLD then weight_sum w else 1)"
proof (cases "sumAvailable w a \<ge> SIGNAL_DATA_THRESHOLD")
  case True
  then show ?thesis by (simp add: resolveEffectiveWeights_def)
next
  case False
  let ?z = "zero_unavailable a w"
  have z: "w_intrinsic ?z + w_commercial ?z + w_market ?z + w_expiry ?z = sumAvailable w a"
    using total_zero_unavailable [of a w] by (simp add: weight_sum_def)
  have "weight_sum (resolveEffectiveWeights a w DEFAULT_FALLBACK_WEIGHTS) = 1"
  proof (cases "a_expiry a")
    case True
    have "weight_sum (resolveEffectiveWeights a w DEFAULT_FALLBACK_WEIGHTS)
      = sumAvailable w a + (1 - sumAvailable w a) * (3/5) + (1 - sumAvailable w a) * (2/5)"
      using False True assms by (simp add: resolveEffectiveWeights_def Let_def weight_sum_def z [symmetric])
    then show ?thesis by (simp add: field_simps)
  next
    case False': False
    show ?thesis
      using False False' assms by (simp add: resolveEffectiveWeights_def Let_def weight_sum_def z [symmetric])
  qed
  with False show ?thesis by simp
qed

lemma resolve_nonneg:
  assumes "nonneg w"
  shows "nonneg (resolveEffectiveWeights a w DEFAULT_FALLBACK_WEIGHTS)"
  using nonneg_zero_unavailable [OF assms, of a] assms
  by (auto simp: resolveEffectiveWeights_def Let_def nonneg_def SIGNAL_DATA_THRESHOLD_def)

lemma ratio_bounds: "nonneg w \<Longrightarrow> 0 \<le> availability_ratio a w \<and> availability_ratio a w \<le> 1"
  using sumAvailable_bounds [of w a]
  by (simp add: availability_ratio_def SIGNAL_DATA_THRESHOLD_def)

lemma round2_numeral:
  "round2 (1 / 5) = 1 / 5" "round2 (2 / 5) = 2 / 5" "round2 (9 / 50) = 9 / 50"
  "round2 (3 / 10) = 3 / 10"
  by (simp_all add: round_to_def js_round_def)

lemma thresholds_bounds:
  assumes "nonneg w"
  shows "fst (computeEffectiveThresholds a w) \<in> {2 / 10..4 / 10}"
    and "snd (computeEffectiveThresholds a w) \<in> {18 / 100..3 / 10}"
proof -
  let ?r = "availability_ratio a w"
  have r: "0 \<le> ?r" "?r \<le> 1" using ratio_bounds [OF assms, of a] by auto
  have "round2 (1 / 5) \<le> round2 (1 / 5 + (1 / 5) * ?r)"
    "round2 (1 / 5 + (1 / 5) * ?r) \<le> round2 (2 / 5)"
    "round2 (9 / 50) \<le> round2 (9 / 50 + (3 / 25) * ?r)"
    "round2 (9 / 50 + (3 / 25) * ?r) \<le> round2 (3 / 10)"
    using r by (intro round_to_mono, linarith)+
  then show "fst (computeEffectiveThresholds a w) \<in> {2 / 10..4 / 10}"
    "snd (computeEffectiveThresholds a w) \<in> {18 / 100..3 / 10}"
    by (simp_all add: computeEffectiveThresholds_def Let_def weight_constants round2_numeral)
qed

section \<open>Properties\<close>

text \<open>
  Whatever the override file contains (missing, unreadable, malformed, out of range,
  badly summed), the weights that are loaded are usable: none is negative and they sum to
  one within the tolerance of a thousandth; and an accepted file's own numbers are used.
\<close>

theorem loaded_weights_valid:
  "valid_weights (loadWeights fs path)
   \<and> (\<forall>p ws i c m e. path = Some p \<and> p \<noteq> [] \<and> fs p = Some (Some (JObject [(''weights'', ws)]))
        \<and> is_object ws
        \<and> weight_value ws ''intrinsic'' = Some i \<and> weight_value ws ''commercial'' = Some c
        \<and> weight_value ws ''market'' = Some m \<and> weight_value ws ''expiry'' = Some e
        \<and> \<bar>i + c + m + e - 1\<bar> \<le> WEIGHTS_OVERRIDE_SUM_TOLERANCE \<longrightarrow>
        loadWeights fs path = \<lparr>w_intrinsic = i, w_commercial = c, w_market = m, w_expiry = e\<rparr>)"
proof (intro conjI allI impI)
  show "valid_weights (loadWeights fs path)"
    by (simp add: loadWeights_def validateOverrideOrDefault_valid split: option.split)
next
  fix p ws i c m e
  assume A: "path = Some p \<and> p \<noteq> [] \<and> fs p = Some (Some (JObject [(''weights'', ws)]))
        \<and> is_object ws
        \<and> weight_value ws ''intrinsic'' = Some i \<and> weight_value ws ''commercial'' = Some c
        \<and> weight_value ws ''market'' = Some m \<and> weight_value ws ''expiry'' = Some e
        \<and> \<bar>i + c + m + e - 1\<bar> \<le> WEIGHTS_OVERRIDE_SUM_TOLERANCE"
  have "member (JObject [(''weights'', ws)]) ''weights'' = Some ws" by (simp add: member_def)
  moreover have "is_object (JObject [(''weights'', ws)])" by (simp add: is_object_def)
  ultimately show
    "loadWeights fs path = \<lparr>w_intrinsic = i, w_commercial = c, w_market = m, w_expiry = e\<rparr>"
    using A by (simp add: loadWeights_def validateOverrideOrDefault_def)
qed

definition example_override :: json where
  "example_override = JObject [(''intrinsic'', JNumber (2/5)), (''commercial'', JNumber (1/5)),
     (''market'', JNumber (1/5)), (''expiry'', JNumber (1/5))]"

theorem loaded_weights_valid_witness:
  "loadWeights (\<lambda>p. Some (Some (JObject [(''weights'', example_override)]))) (Some ''w.json'')
     = \<lparr>w_intrinsic = 2/5, w_commercial = 1/5, w_market = 1/5, w_expiry = 1/5\<rparr>"
proof -
  let ?fs = "\<lambda>p::string. Some (Some (JObject [(''weights'', example_override)]))"
  have v: "weight_value example_override ''intrinsic'' = Some (2/5)"
    "weight_value example_override ''commercial'' = Some (1/5)"
    "weight_value example_override ''market'' = Some (1/5)"
    "weight_value example_override ''expiry'' = Some (1/5)"
    by (simp_all add: weight_value_def member_def example_override_def)
  have "is_object example_override" by (simp add: is_object_def example_override_def)
  with v loaded_weights_valid [of ?fs "Some ''w.json''"] show ?thesis
    by (simp add: WEIGHTS_OVERRIDE_SUM_TOLERANCE_def)
qed

text \<open>
  Redistribution: with the intrinsic signal available (the engine always has it), the
  effective weights are never negative; when less than 70 percent of the weight has data
  they sum to exactly one and every unavailable signal gets weight zero, otherwise they are
  the configured weights. The recommendation threshold stays in [0.2, 0.4] and the
  confidence threshold in [0.18, 0.3], the upper ends being reached with full data.
\<close>

theorem effective_weights_and_thresholds:
  assumes "nonneg w" "a_intrinsic a"
  shows "nonneg (resolveEffectiveWeights a w DEFAULT_FALLBACK_WEIGHTS)
    \<and> (if sumAvailable w a \<ge> 7 / 10
       then resolveEffectiveWeights a w DEFAULT_FALLBACK_WEIGHTS = w
         \<and> computeEffectiveThresholds a w = (4 / 10, 3 / 10)
       else weight_sum (resolveEffectiveWeights a w DEFAULT_FALLBACK_WEIGHTS) = 1
         \<and> zero_unavailable a (resolveEffectiveWeights a w DEFAULT_FALLBACK_WEIGHTS)
             = resolveEffectiveWeights a w DEFAULT_FALLBACK_WEIGHTS)
    \<and> fst (computeEffectiveThresholds a w) \<in> {2 / 10..4 / 10}
    \<and> snd (computeEffectiveThresholds a w) \<in> {18 / 100..3 / 10}"
proof -
  let ?e = "resolveEffectiveWeights a w DEFAULT_FALLBACK_WEIGHTS"
  have full: "?e = w \<and> computeEffectiveThresholds a w = (4 / 10, 3 / 10)"
    if "sumAvailable w a \<ge> 7 / 10"
  proof -
    have "availability_ratio a w = 1"
      using that by (simp add: availability_ratio_def SIGNAL_DATA_THRESHOLD_def)
    then have "computeEffectiveThresholds a w = (round2 (4 / 10), round2 (3 / 10))"
      by (simp add: computeEffectiveThresholds_def Let_def weight_constants)
    moreover have "?e = w"
      using that by (simp add: resolveEffectiveWeights_def SIGNAL_DATA_THRESHOLD_def)
    ultimately show ?thesis by (simp add: round2_numeral)
  qed
  have sparse: "weight_sum ?e = 1 \<and> zero_unavailable a ?e = ?e" if "\<not> sumAvailable w a \<ge> 7 / 10"
    using that assms(2) resolve_total [OF assms(2), of w]
    by (auto simp: resolveEffectiveWeights_def zero_unavailable_def Let_def
        SIGNAL_DATA_THRESHOLD_def)
  show ?thesis
    using full sparse resolve_nonneg [OF assms(1)] thresholds_bounds [OF assms(1)] by simp
qed

theorem effective_weights_and_thresholds_witness:
  "weight_sum (resolveEffectiveWeights
      \<lparr>a_intrinsic = True, a_commercial = False, a_market = False, a_expiry = True\<rparr>
      DEFAULT_WEIGHTS DEFAULT_FALLBACK_WEIGHTS) = 1"
  using effective_weights_and_thresholds [of DEFAULT_WEIGHTS
      "\<lparr>a_intrinsic = True, a_commercial = False, a_market = False, a_expiry = True\<rparr>"]
  by (simp add: nonneg_def sumAvailable_def DEFAULT_WEIGHTS_def)

end
