(* ===== verification/Signals.thy ===== *)
theory Signals
  imports Weights
begin

text \<open>
  The four scoring signals: \<open>src/scoring/signals/*.ts\<close> and their configuration
  (\<open>src/scoring/scoring-config.ts\<close>). The keyword and comparable-sales providers are
  parameters: a call returns the data or the message of its error. A sale date is the
  instant it denotes, \<open>None\<close> when it does not parse.
\<close>

section \<open>Configuration and results\<close>

record intrinsic_config =
  idealLength :: real
  maxLength :: real

record commercial_config =
  maxVolume :: real
  maxCpc :: real
  degradationEnabled :: "bool option"

record market_config =
  floorValue :: real
  highValue :: real
  salesTarget :: "real option"
  maxSaleAgeYears :: "real option"

record expiry_config =
  maxAgeYears :: real
  maxBacklinks :: real
  maxWaybackSnapshots :: real

definition DEFAULT_INTRINSIC_CONFIG :: intrinsic_config where
  "DEFAULT_INTRINSIC_CONFIG = \<lparr>idealLength = 7, maxLength = 20\<rparr>"

definition DEFAULT_COMMERCIAL_CONFIG :: commercial_config where
  "DEFAULT_COMMERCIAL_CONFIG = \<lparr>maxVolume = 1000000, maxCpc = 50, degradationEnabled = Some True\<rparr>"

definition DEFAULT_MARKET_CONFIG :: market_config where
  "DEFAULT_MARKET_CONFIG = \<lparr>floorValue = 500, highValue = 10000, salesTarget = None,
     maxSaleAgeYears = None\<rparr>"

definition DEFAULT_EXPIRY_CONFIG :: expiry_config where
  "DEFAULT_EXPIRY_CONFIG = \<lparr>maxAgeYears = 20, maxBacklinks = 1000, maxWaybackSnapshots = 500\<rparr>"

record scoring_input =
  in_domain :: string
  in_tld :: "string option"
  in_sld :: "string option"
  isCloseout :: bool
  domainAge :: "real option"
  backlinks :: "real option"
  waybackSnapshots :: "real option"
  registrar :: "string option"
  renewalCost :: "real option"

record signal_output =
  score :: real
  weight :: real
  dataAvailable :: bool
  providerError :: "string option"

record intrinsic_output = signal_output +
  d_sld :: string
  d_length :: nat
  hyphenCount :: nat
  digitCount :: nat
  lengthScore :: real
  penaltyScore :: real
  pronounceabilityScore :: real
  tldMultiplier :: real

record commercial_output = signal_output +
  d_term :: string
  monthlySearchVolume :: real
  cpc :: real
  volumeScore :: real
  cpcScore :: real

record market_output = signal_output +
  comparables :: nat
  medianSalePrice :: real
  dataDensity :: real

record expiry_output = signal_output +
  hasExpiryData :: bool
  ageScore :: real
  backlinkScore :: real
  waybackScore :: real

section \<open>Intrinsic signal\<close>

definition STRICT_VOWELS :: "string list" where
  "STRICT_VOWELS = [''a'', ''e'', ''i'', ''o'', ''u'']"

definition DIPHTHONGS :: "string list" where
  "DIPHTHONGS = [''ai'', ''au'', ''ea'', ''ee'', ''ei'', ''ie'', ''oa'', ''oe'', ''oi'', ''oo'',
     ''ou'', ''ue'']"

definition PRONOUNCEABLE_CLUSTERS :: "string list" where
  "PRONOUNCEABLE_CLUSTERS = [''th'', ''sh'', ''ch'', ''ph'', ''ck'', ''ng'', ''gh'', ''wh'', ''wr'',
     ''kn'', ''qu'', ''dg'', ''tch'']"

definition pair_token :: "char \<Rightarrow> char \<Rightarrow> string option" where
  "pair_token a b =
     (if List.member DIPHTHONGS [a, b] then Some ''V''
      else if List.member PRONOUNCEABLE_CLUSTERS [a, b] then Some ''C'' else None)"

fun tokenise :: "string \<Rightarrow> string list" where
  "tokenise [] = []"
| "tokenise [a] = [[a]]"
| "tokenise [a, b] = (case pair_token a b of Some t \<Rightarrow> [t] | None \<Rightarrow> [a] # tokenise [b])"
| "tokenise (a # b # c # s) =
     (if [a, b, c] = ''tch'' then ''tch'' # tokenise s
      else case pair_token a b of
        Some t \<Rightarrow> t # tokenise (c # s)
      | None \<Rightarrow> [a] # tokenise (b # c # s))"

definition tokenisePronounceability :: "string \<Rightarrow> string list" where
  "tokenisePronounceability input = tokenise (to_lower input)"

text \<open>The counters of the scan: vowels, the current and the longest consonant cluster.\<close>

fun scan_token :: "string \<Rightarrow> nat \<times> nat \<times> nat \<Rightarrow> nat \<times> nat \<times> nat" where
  "scan_token t (v, c, m) =
     (if t = ''V'' then (v + 1, 0, m)
      else if t = ''C'' then (v, c + 1, max m (c + 1))
      else if List.member STRICT_VOWELS t then (v + 1, 0, m)
      else if t = ''y'' then (if c > 0 then (v + 1, 0, m) else (v, c + 1, max m (c + 1)))
      else (v, c + 1, max m (c + 1)))"

fun scan_tokens :: "string list \<Rightarrow> nat \<times> nat \<times> nat \<Rightarrow> nat \<times> nat \<times> nat" where
  "scan_tokens [] st = st"
| "scan_tokens (t # ts) st = scan_tokens ts (scan_token t st)"

definition is_letter :: "char \<Rightarrow> bool" where
  "is_letter c = (is_lower c \<or> 192 \<le> (of_char c :: nat))"

definition computePronounceability :: "string \<Rightarrow> real" where
  "computePronounceability s =
     (let normalized = to_lower s; letters = filter is_letter normalized
      in if length normalized = 0 then 0
         else if length normalized > 100 then 0
         else if length letters = 0 then 0
         else
           let (vowelCount, _, maxCluster) = scan_tokens (tokenisePronounceability letters) (0, 0, 0);
               vowelRatio = real vowelCount / real (length letters);
               clusterPenalty = max 0 ((real maxCluster - 3) * (2 / 10))
           in clamp01 (vowelRatio * (18 / 10) - clusterPenalty))"

text \<open>
  The engine always sets \<open>sld\<close> and \<open>tld\<close>. A maximum equal to the ideal length makes the
  quotient infinite, so the length score of a longer name is zero.
\<close>

definition length_score :: "intrinsic_config \<Rightarrow> nat \<Rightarrow> real" where
  "length_score config n =
     (if real n \<le> idealLength config then 1
      else if maxLength config = idealLength config then 0
      else max 0 (1 - (real n - idealLength config) / (maxLength config - idealLength config)))"

definition computeIntrinsicScore ::
  "string \<Rightarrow> string \<Rightarrow> real \<Rightarrow> intrinsic_config \<Rightarrow> (string \<Rightarrow> real option) \<Rightarrow> intrinsic_output" where
  "computeIntrinsicScore the_sld the_tld wt config tldBonuses =
     (let n = length the_sld;
          ls = length_score config n;
          hyphens = length (filter (\<lambda>c. c = CHR ''-'') the_sld);
          digits = length (filter is_digit the_sld);
          ps = max 0 (1 - real hyphens * (25 / 100) - real digits * (15 / 100));
          mult = (case tldBonuses the_tld of Some b \<Rightarrow> b | None \<Rightarrow> UNKNOWN_TLD_MULTIPLIER);
          pr = computePronounceability the_sld;
          r = (ls * (3 / 10) + ps * (35 / 100) + pr * (35 / 100)) * mult
      in \<lparr>score = clamp01 r, weight = wt, dataAvailable = True, providerError = None,
          d_sld = the_sld, d_length = n, hyphenCount = hyphens, digitCount = digits,
          lengthScore = ls, penaltyScore = ps, pronounceabilityScore = pr, tldMultiplier = mult\<rparr>)"

section \<open>Commercial signal\<close>

text \<open>The provider yields the monthly search volume and the cost per click.\<close>

definition computeCommercialScore ::
  "string \<Rightarrow> (string \<Rightarrow> string + real \<times> real) \<Rightarrow> real \<Rightarrow> commercial_config \<Rightarrow> commercial_output" where
  "computeCommercialScore the_sld getMetrics wt config =
     (let (err, volume, clicks) =
            (case getMetrics the_sld of Inl e \<Rightarrow> (Some e, 0, 0) | Inr (v, c) \<Rightarrow> (None, v, c));
          vs = min 1 (volume / maxVolume config);
          cs = min 1 (clicks / maxCpc config)
      in \<lparr>score = clamp01 (vs * (6 / 10) + cs * (4 / 10)), weight = wt,
          dataAvailable = (volume > 0 \<or> clicks > 0), providerError = err,
          d_term = the_sld, monthlySearchVolume = volume, cpc = clicks,
          volumeScore = vs, cpcScore = cs\<rparr>)"

section \<open>Expiry signal\<close>

definition capped_ratio :: "real option \<Rightarrow> real \<Rightarrow> real" where
  "capped_ratio x m = (case x of Some v \<Rightarrow> min 1 (v / m) | None \<Rightarrow> 0)"

definition computeExpiryScore :: "scoring_input \<Rightarrow> real \<Rightarrow> expiry_config \<Rightarrow> expiry_output" where
  "computeExpiryScore input wt config =
     (if \<not> (domainAge input \<noteq> None \<or> backlinks input \<noteq> None \<or> waybackSnapshots input \<noteq> None)
      then \<lparr>score = 0, weight = wt, dataAvailable = False, providerError = None,
            hasExpiryData = False, ageScore = 0, backlinkScore = 0, waybackScore = 0\<rparr>
      else
        let a = capped_ratio (domainAge input) (maxAgeYears config);
            b = capped_ratio (backlinks input) (maxBacklinks config);
            w = capped_ratio (waybackSnapshots input) (maxWaybackSnapshots config)
        in \<lparr>score = clamp01 (a * (4 / 10) + b * (4 / 10) + w * (2 / 10)), weight = wt,
            dataAvailable = True, providerError = None, hasExpiryData = True,
            ageScore = a, backlinkScore = b, waybackScore = w\<rparr>)"

section \<open>Market signal\<close>

record comparable_sale =
  sale_domain :: string
  salePrice :: real
  saleDate :: "ms option"
  venue :: string

record weighted_sale =
  price :: real
  s_weight :: real
  s_date :: "ms option"

definition YEAR_MS :: real where
  "YEAR_MS = 36525 / 100 * 24 * 60 * 60 * 1000"

definition recencyWeight :: "ms \<Rightarrow> ms option \<Rightarrow> real" where
  "recencyWeight now date =
     (case date of
        None \<Rightarrow> 1 / 2
      | Some d \<Rightarrow>
          let ageMs = now - d; ageYears = of_int ageMs / YEAR_MS
          in if ageMs < 0 then 1 / 2
             else if ageYears \<le> 1 then 1
             else if ageYears \<le> 2 then 7 / 10
             else if ageYears \<le> 5 then 4 / 10
             else 2 / 10)"

definition weigh_sales :: "ms \<Rightarrow> comparable_sale list \<Rightarrow> weighted_sale list" where
  "weigh_sales now sales =
     sort_key price (map (\<lambda>s. \<lparr>price = salePrice s, s_weight = recencyWeight now (saleDate s),
       s_date = saleDate s\<rparr>) sales)"

fun median_loop :: "real \<Rightarrow> real \<Rightarrow> weighted_sale list \<Rightarrow> real" where
  "median_loop half cumulative [] = 0"
| "median_loop half cumulative (w # ws) =
     (let c = cumulative + s_weight w
      in if c \<ge> half
         then (if c = half \<and> ws \<noteq> [] then (price w + price (hd ws)) / 2 else price w)
         else median_loop half c ws)"

text \<open>
  Newest first. The comparison yields NaN when a date does not parse; the language leaves
  the order of such an array to the implementation, here the parameter \<open>unordered\<close>.
\<close>

definition by_date ::
  "(weighted_sale list \<Rightarrow> weighted_sale list) \<Rightarrow> weighted_sale list \<Rightarrow> weighted_sale list" where
  "by_date unordered ws =
     (if list_all (\<lambda>w. s_date w \<noteq> None) ws then sort_key (\<lambda>w. - the (s_date w)) ws
      else unordered ws)"

definition data_density ::
  "(weighted_sale list \<Rightarrow> weighted_sale list) \<Rightarrow> real \<Rightarrow> weighted_sale list \<Rightarrow> real" where
  "data_density unordered target weighted =
     (let totalWeight = (\<Sum>w\<leftarrow>weighted. s_weight w);
          recencyFactor =
            (if totalWeight > 0
             then min 1 ((\<Sum>w\<leftarrow>take 10 (by_date unordered weighted). s_weight w) / 5) else 0);
          countFactor = min 1 (real (length weighted) / target)
      in round3 (countFactor * (7 / 10) + recencyFactor * (3 / 10)))"

definition computeMarketScore ::
  "(weighted_sale list \<Rightarrow> weighted_sale list) \<Rightarrow> ms \<Rightarrow> string \<Rightarrow>
   (string \<Rightarrow> string + comparable_sale list) \<Rightarrow> real \<Rightarrow> market_config \<Rightarrow> market_output" where
  "computeMarketScore unordered now the_sld getSales wt config =
     (let (err, sales) = (case getSales the_sld of Inl e \<Rightarrow> (Some e, []) | Inr s \<Rightarrow> (None, s));
          target = (case salesTarget config of Some t \<Rightarrow> t | None \<Rightarrow> 20)
      in if sales = []
         then \<lparr>score = 0, weight = wt, dataAvailable = False, providerError = err,
               comparables = 0, medianSalePrice = 0, dataDensity = 0\<rparr>
         else
           let weighted = weigh_sales now sales;
               totalWeight = (\<Sum>w\<leftarrow>weighted. s_weight w);
               median = median_loop (totalWeight / 2) 0 weighted;
               density = data_density unordered target weighted
           in \<lparr>score = clamp01 ((median - floorValue config) / (highValue config - floorValue config)),
               weight = wt, dataAvailable = True, providerError = err,
               comparables = length sales, medianSalePrice = median, dataDensity = density\<rparr>)"

section \<open>Bounds\<close>

lemma tokenise_length: "length (tokenise s) \<le> length s"
  by (induction s rule: tokenise.induct) (auto split: option.split)

lemma scan_token_vowels: "fst (scan_token t st) \<le> fst st + 1"
  by (cases st) simp

lemma scan_vowels: "fst (scan_tokens ts st) \<le> fst st + length ts"
proof (induction ts arbitrary: st)
  case (Cons t ts)
  show ?case using Cons.IH [of "scan_token t st"] scan_token_vowels [of t st] by simp
qed simp

lemma pronounceability_bounds:
  "0 \<le> computePronounceability s \<and> computePronounceability s \<le> 1"
  by (simp add: computePronounceability_def Let_def split: prod.split)

lemma length_score_bounds:
  "idealLength c \<le> maxLength c \<Longrightarrow> 0 \<le> length_score c n \<and> length_score c n \<le> 1"
  by (auto simp: length_score_def divide_nonneg_nonneg)

lemma recencyWeight_bounds: "1 / 5 \<le> recencyWeight now d \<and> recencyWeight now d \<le> 1"
  by (simp add: recencyWeight_def Let_def split: option.split)

lemma weigh_sales_props:
  "length (weigh_sales now sales) = length sales"
  "sorted (map price (weigh_sales now sales))"
  "w \<in> set (weigh_sales now sales) \<Longrightarrow> 1 / 5 \<le> s_weight w \<and> s_weight w \<le> 1"
  "mset (map price (weigh_sales now sales)) = mset (map salePrice sales)"
     apply (simp add: weigh_sales_def)
    apply (simp add: weigh_sales_def)
   apply (use recencyWeight_bounds in \<open>auto simp: weigh_sales_def\<close>)[1]
  apply (simp add: weigh_sales_def image_mset.compositionality comp_def)
  done

lemma by_date_mset:
  "(\<And>ws. mset (unordered ws) = mset ws) \<Longrightarrow> mset (by_date unordered ws) = mset ws"
  by (simp add: by_date_def)

text \<open>The weight of the sales on one side of a price.\<close>

definition weight_below :: "real \<Rightarrow> weighted_sale list \<Rightarrow> real" where
  "weight_below x ws = (\<Sum>w\<leftarrow>filter (\<lambda>w. price w < x) ws. s_weight w)"

definition weight_above :: "real \<Rightarrow> weighted_sale list \<Rightarrow> real" where
  "weight_above x ws = (\<Sum>w\<leftarrow>filter (\<lambda>w. price w > x) ws. s_weight w)"

lemma sum_list_filter_le:
  fixes f :: "'a \<Rightarrow> real"
  shows "(\<And>x. x \<in> set xs \<Longrightarrow> 0 \<le> f x) \<Longrightarrow> (\<Sum>x\<leftarrow>filter P xs. f x) \<le> (\<Sum>x\<leftarrow>xs. f x)"
proof (induction xs)
  case (Cons x xs)
  have "0 \<le> f x" "(\<Sum>x\<leftarrow>filter P xs. f x) \<le> (\<Sum>x\<leftarrow>xs. f x)"
    using Cons.IH Cons.prems by auto
  then show ?case by simp
qed simp

text \<open>
  The loop stops at the first sale whose cumulated weight reaches the half: it splits the
  list there.
\<close>

lemma median_loop_split:
  assumes "cumulative < half" "half \<le> cumulative + (\<Sum>w\<leftarrow>ws. s_weight w)"
  shows "\<exists>pre w post. ws = pre @ w # post
    \<and> cumulative + (\<Sum>w\<leftarrow>pre. s_weight w) < half
    \<and> half \<le> cumulative + (\<Sum>w\<leftarrow>pre. s_weight w) + s_weight w
    \<and> median_loop half cumulative ws =
        (if cumulative + (\<Sum>w\<leftarrow>pre. s_weight w) + s_weight w = half \<and> post \<noteq> []
         then (price w + price (hd post)) / 2 else price w)"
  using assms
proof (induction ws arbitrary: cumulative)
  case (Cons w ws)
  show ?case
  proof (cases "cumulative + s_weight w \<ge> half")
    case True
    then show ?thesis using Cons.prems by (intro exI [of _ "[]"] exI [of _ w] exI [of _ ws]) simp
  next
    case False
    then obtain pre u post where "ws = pre @ u # post"
      "cumulative + s_weight w + (\<Sum>w\<leftarrow>pre. s_weight w) < half"
      "half \<le> cumulative + s_weight w + (\<Sum>w\<leftarrow>pre. s_weight w) + s_weight u"
      "median_loop half (cumulative + s_weight w) ws =
        (if cumulative + s_weight w + (\<Sum>w\<leftarrow>pre. s_weight w) + s_weight u = half \<and> post \<noteq> []
         then (price u + price (hd post)) / 2 else price u)"
      using Cons.IH [of "cumulative + s_weight w"] Cons.prems by (auto simp: algebra_simps)
    then show ?thesis
      using False by (intro exI [of _ "w # pre"] exI [of _ u] exI [of _ post]) (simp add: algebra_simps)
  qed
qed simp

lemma sorted_split:
  assumes "sorted (map price (pre @ w # post))"
  shows "\<And>x. x \<in> set pre \<Longrightarrow> price x \<le> price w" "\<And>x. x \<in> set post \<Longrightarrow> price w \<le> price x"
    "post \<noteq> [] \<Longrightarrow> x \<in> set post \<Longrightarrow> price (hd post) \<le> price x"
  using assms by (auto simp: sorted_append neq_Nil_conv)

lemma filter_weight_zero: "(\<And>w. w \<in> set ws \<Longrightarrow> \<not> P w) \<Longrightarrow> (\<Sum>w\<leftarrow>filter P ws. s_weight w) = 0"
  by (simp add: filter_empty_conv)

text \<open>The weighted median halves the weight, and lies within the range of the prices.\<close>

lemma median_halves:
  assumes sorted: "sorted (map price ws)" and ne: "ws \<noteq> []"
    and pos: "\<And>w. w \<in> set ws \<Longrightarrow> 0 < s_weight w"
  defines "tw \<equiv> \<Sum>w\<leftarrow>ws. s_weight w"
  defines "x \<equiv> median_loop (tw / 2) 0 ws"
  shows "weight_below x ws \<le> tw / 2 \<and> weight_above x ws \<le> tw / 2
    \<and> (\<exists>u \<in> set ws. \<exists>v \<in> set ws. price u \<le> x \<and> x \<le> price v)"
proof -
  obtain a as where as: "ws = a # as" using ne by (cases ws) auto
  have sum_nonneg: "0 \<le> (\<Sum>w\<leftarrow>us. s_weight w)" if "set us \<subseteq> set ws" for us
    using that pos by (intro sum_list_nonneg) (auto intro: less_imp_le)
  have tw_pos: "0 < tw"
    using sum_nonneg [of as] pos [of a] by (simp add: tw_def as subset_insertI)
  obtain pre w post where sp: "ws = pre @ w # post"
    "(\<Sum>w\<leftarrow>pre. s_weight w) < tw / 2"
    "tw / 2 \<le> (\<Sum>w\<leftarrow>pre. s_weight w) + s_weight w"
    "x = (if (\<Sum>w\<leftarrow>pre. s_weight w) + s_weight w = tw / 2 \<and> post \<noteq> []
          then (price w + price (hd post)) / 2 else price w)"
    using median_loop_split [of 0 "tw / 2" ws] tw_pos
    unfolding x_def by (auto simp: tw_def)
  have tot: "tw = (\<Sum>w\<leftarrow>pre. s_weight w) + s_weight w + (\<Sum>w\<leftarrow>post. s_weight w)"
    by (simp add: tw_def sp(1))
  have pre: "price u \<le> price w" if "u \<in> set pre" for u
    using sorted_split(1) [of pre w post u] sorted sp(1) that by simp
  have post: "price w \<le> price u" if "u \<in> set post" for u
    using sorted_split(2) [of pre w post u] sorted sp(1) that by simp
  have hd: "price (hd post) \<le> price u" if "u \<in> set post" for u
    by (rule sorted_split(3) [of pre w post u]) (use sorted sp(1) that in auto)
  have x: "price w \<le> x" "\<And>u. u \<in> set post \<Longrightarrow> x \<le> price u"
    "post \<noteq> [] \<Longrightarrow> x \<le> price (hd post)"
    using sp(4) post hd by (auto dest: hd_in_set split: if_splits) (smt (verit) field_sum_of_halves)
  have nonneg: "0 \<le> s_weight u" if "u \<in> set ws" for u using pos [OF that] by simp
  have filt: "(\<Sum>u\<leftarrow>filter P us. s_weight u) \<le> (\<Sum>u\<leftarrow>us. s_weight u)" if "set us \<subseteq> set ws" for P us
    using that nonneg by (intro sum_list_filter_le) auto
  have "weight_below x ws \<le> tw / 2"
  proof -
    have "(\<Sum>u\<leftarrow>filter (\<lambda>u. price u < x) post. s_weight u) = 0"
      using x(2) by (intro filter_weight_zero) (auto simp: not_less)
    then have "weight_below x ws = (\<Sum>u\<leftarrow>filter (\<lambda>u. price u < x) pre. s_weight u)
        + (if price w < x then s_weight w else 0)"
      by (simp add: weight_below_def sp(1))
    moreover have "(\<Sum>u\<leftarrow>filter (\<lambda>u. price u < x) pre. s_weight u) \<le> (\<Sum>u\<leftarrow>pre. s_weight u)"
      by (rule filt) (auto simp: sp(1))
    ultimately show ?thesis using sp(2,4) by (auto split: if_splits)
  qed
  moreover have "weight_above x ws \<le> tw / 2"
  proof -
    have "(\<Sum>u\<leftarrow>filter (\<lambda>u. x < price u) pre. s_weight u) = 0"
      using x(1) pre by (intro filter_weight_zero) (force simp: not_less)
    then have "weight_above x ws = (\<Sum>u\<leftarrow>filter (\<lambda>u. x < price u) post. s_weight u)"
      using x(1) by (simp add: weight_above_def sp(1))
    moreover have "\<dots> \<le> (\<Sum>u\<leftarrow>post. s_weight u)" by (rule filt) (auto simp: sp(1))
    ultimately show ?thesis using sp(3) tot by simp
  qed
  moreover have "\<exists>v \<in> set ws. x \<le> price v"
  proof (cases "x = price w")
    case False
    then have "post \<noteq> []" using sp(4) by (auto split: if_splits)
    then show ?thesis using x(3) sp(1) by (auto intro!: bexI [of _ "hd post"])
  qed (use sp(1) in auto)
  ultimately show ?thesis using x(1) sp(1) by auto
qed

lemma weigh_sales_pos: "w \<in> set (weigh_sales now sales) \<Longrightarrow> 0 < s_weight w"
  using weigh_sales_props(3) by fastforce

lemma take_sum_nonneg:
  "set ws \<subseteq> set (weigh_sales now sales) \<Longrightarrow> 0 \<le> (\<Sum>w\<leftarrow>take n ws. s_weight w)"
  using weigh_sales_pos [THEN less_imp_le] by (intro sum_list_nonneg) (auto dest!: in_set_takeD)

section \<open>Properties\<close>

definition sane_market :: "market_config \<Rightarrow> bool" where
  "sane_market c = (floorValue c < highValue c
     \<and> (case salesTarget c of None \<Rightarrow> True | Some t \<Rightarrow> t > 0))"

lemma data_density_bounds:
  assumes "\<And>ws. mset (unordered ws) = mset ws" "0 < t"
    and "\<And>w. w \<in> set ws \<Longrightarrow> 0 \<le> s_weight w"
  shows "0 \<le> data_density unordered t ws \<and> data_density unordered t ws \<le> 1"
proof -
  have s: "set (by_date unordered ws) = set ws"
    using by_date_mset [of unordered, OF assms(1)] mset_eq_setD by blast
  have n: "0 \<le> (\<Sum>w\<leftarrow>take 10 (by_date unordered ws). s_weight w)"
    using assms(3) s by (intro sum_list_nonneg) (auto dest!: in_set_takeD)
  define a b where "a = min 1 (real (length ws) / t)"
    and "b = (if (\<Sum>w\<leftarrow>ws. s_weight w) > 0
              then min 1 ((\<Sum>w\<leftarrow>take 10 (by_date unordered ws). s_weight w) / 5) else 0)"
  have "0 \<le> a" "a \<le> 1" "0 \<le> b" "b \<le> 1" using assms(2) n by (simp_all add: a_def b_def)
  then have "0 \<le> round3 (a * (7 / 10) + b * (3 / 10)) \<and> round3 (a * (7 / 10) + b * (3 / 10)) \<le> 1"
    by (intro conjI round_to_nonneg round_to_le_1) linarith+
  then show ?thesis by (simp only: data_density_def Let_def a_def b_def)
qed

lemma density_bounds:
  assumes "\<And>ws. mset (unordered ws) = mset ws" "sane_market c"
  shows "0 \<le> dataDensity (computeMarketScore unordered now l p wt c)
    \<and> dataDensity (computeMarketScore unordered now l p wt c) \<le> 1"
proof -
  have "0 < (case salesTarget c of None \<Rightarrow> 20 | Some t \<Rightarrow> t)"
    using assms(2) by (auto simp: sane_market_def split: option.splits)
  then have "0 \<le> data_density unordered (case salesTarget c of None \<Rightarrow> 20 | Some t \<Rightarrow> t) (weigh_sales now s)
    \<and> data_density unordered (case salesTarget c of None \<Rightarrow> 20 | Some t \<Rightarrow> t) (weigh_sales now s) \<le> 1"
    for s using data_density_bounds [of unordered, OF assms(1)] weigh_sales_pos [THEN less_imp_le] by blast
  then show ?thesis by (simp add: computeMarketScore_def Let_def split: sum.split)
qed

text \<open>
  Whatever the providers return, error included, each of the four signal scores lies in
  the unit interval, and so does the market data density; a provider that fails or has no
  data gives score zero and is reported as having no data.
\<close>

theorem signal_scores_bounded:
  assumes "\<And>ws. mset (unordered ws) = mset ws" "sane_market mc"
  shows "score (computeIntrinsicScore l t wi ic b) \<in> {0..1}
    \<and> score (computeCommercialScore l metrics wc cc) \<in> {0..1}
    \<and> score (computeExpiryScore i we ec) \<in> {0..1}
    \<and> score (computeMarketScore unordered now l sales wm mc) \<in> {0..1}
    \<and> dataDensity (computeMarketScore unordered now l sales wm mc) \<in> {0..1}
    \<and> (metrics l \<in> {Inl e, Inr (0, 0)} \<longrightarrow>
         score (computeCommercialScore l metrics wc cc) = 0
         \<and> \<not> dataAvailable (computeCommercialScore l metrics wc cc))
    \<and> (sales l \<in> {Inl e, Inr []} \<longrightarrow>
         score (computeMarketScore unordered now l sales wm mc) = 0
         \<and> \<not> dataAvailable (computeMarketScore unordered now l sales wm mc))
    \<and> (domainAge i = None \<and> backlinks i = None \<and> waybackSnapshots i = None \<longrightarrow>
         score (computeExpiryScore i we ec) = 0
         \<and> \<not> dataAvailable (computeExpiryScore i we ec))"
proof -
  have c: "score (computeCommercialScore l metrics wc cc) \<in> {0..1}"
    by (simp add: computeCommercialScore_def Let_def split: prod.split)
  have m: "score (computeMarketScore unordered now l sales wm mc) \<in> {0..1}"
    by (simp add: computeMarketScore_def Let_def split: prod.split)
  have "score (computeIntrinsicScore l t wi ic b) \<in> {0..1}"
    by (simp add: computeIntrinsicScore_def Let_def)
  moreover have "score (computeExpiryScore i we ec) \<in> {0..1}"
    by (simp add: computeExpiryScore_def Let_def)
  moreover have "metrics l \<in> {Inl e, Inr (0, 0)} \<longrightarrow>
      score (computeCommercialScore l metrics wc cc) = 0
      \<and> \<not> dataAvailable (computeCommercialScore l metrics wc cc)"
    by (auto simp: computeCommercialScore_def Let_def clamp01_def)
  moreover have "sales l \<in> {Inl e, Inr []} \<longrightarrow>
      score (computeMarketScore unordered now l sales wm mc) = 0
      \<and> \<not> dataAvailable (computeMarketScore unordered now l sales wm mc)"
    by (auto simp: computeMarketScore_def Let_def)
  ultimately show ?thesis
    using c m density_bounds [OF assms, of now l sales wm]
    by (simp add: computeExpiryScore_def)
qed

theorem signal_scores_bounded_witness:
  "score (computeMarketScore rev 0 ''nike'' (\<lambda>_. Inl ''down'') 1 DEFAULT_MARKET_CONFIG) = 0"
  using signal_scores_bounded [of rev DEFAULT_MARKET_CONFIG "''nike''" "[]" 1
      DEFAULT_INTRINSIC_CONFIG Map.empty "\<lambda>_. Inl ''down''" 1 DEFAULT_COMMERCIAL_CONFIG _ 1
      DEFAULT_EXPIRY_CONFIG 0 "\<lambda>_. Inl ''down''" 1 "''down''"]
  by (simp add: sane_market_def DEFAULT_MARKET_CONFIG_def)

text \<open>
  The market value is a weighted median: of the recency-weighted sales, at most half of
  the weight lies below the reported price and at most half above it, and the price lies
  between two sale prices.
\<close>

theorem market_median:
  fixes now :: ms and l :: string
    and unordered :: "weighted_sale list \<Rightarrow> weighted_sale list" and wt :: real and c :: market_config
  assumes "getSales l = Inr sales" "sales \<noteq> []"
  defines "ws \<equiv> weigh_sales now sales"
    and "x \<equiv> medianSalePrice (computeMarketScore unordered now l getSales wt c)"
  shows "2 * weight_below x ws \<le> (\<Sum>w\<leftarrow>ws. s_weight w)
    \<and> 2 * weight_above x ws \<le> (\<Sum>w\<leftarrow>ws. s_weight w)
    \<and> (\<exists>u \<in> set sales. \<exists>v \<in> set sales. salePrice u \<le> x \<and> x \<le> salePrice v)"
proof -
  have ne: "ws \<noteq> []" using weigh_sales_props(1) [of now sales] assms(2) by (auto simp: ws_def)
  have x: "x = median_loop ((\<Sum>w\<leftarrow>ws. s_weight w) / 2) 0 ws"
    using assms(1,2) by (simp add: x_def ws_def computeMarketScore_def Let_def)
  have prices: "price ` set ws = salePrice ` set sales"
    using arg_cong [OF weigh_sales_props(4) [of now sales], of set_mset] by (simp add: ws_def)
  note h = median_halves [OF weigh_sales_props(2) [of now sales, folded ws_def] ne]
  have "weight_below x ws \<le> (\<Sum>w\<leftarrow>ws. s_weight w) / 2
    \<and> weight_above x ws \<le> (\<Sum>w\<leftarrow>ws. s_weight w) / 2
    \<and> (\<exists>u \<in> set ws. \<exists>v \<in> set ws. price u \<le> x \<and> x \<le> price v)"
    unfolding x by (rule h) (simp add: ws_def weigh_sales_pos)
  then obtain u v where *: "weight_below x ws \<le> (\<Sum>w\<leftarrow>ws. s_weight w) / 2"
    "weight_above x ws \<le> (\<Sum>w\<leftarrow>ws. s_weight w) / 2"
    "u \<in> set ws" "v \<in> set ws" "price u \<le> x" "x \<le> price v" by blast
  have "price u \<in> salePrice ` set sales" "price v \<in> salePrice ` set sales"
    using prices *(3,4) by auto
  then obtain u' v' where "u' \<in> set sales" "v' \<in> set sales" "price u = salePrice u'"
    "price v = salePrice v'" by auto
  then have "\<exists>u \<in> set sales. \<exists>v \<in> set sales. salePrice u \<le> x \<and> x \<le> salePrice v"
    using *(5,6) by metis
  then show ?thesis using *(1,2) by simp
qed

theorem market_median_witness:
  "medianSalePrice (computeMarketScore id 0 ''nike''
      (\<lambda>_. Inr [\<lparr>sale_domain = ''nike.io'', salePrice = 700, saleDate = Some 0, venue = ''sedo''\<rparr>]) 1 DEFAULT_MARKET_CONFIG) = 700"
  using market_median [where getSales = "\<lambda>_. Inr [\<lparr>sale_domain = ''nike.io'', salePrice = 700, saleDate = Some 0, venue = ''sedo''\<rparr>]"
      and l = "''nike''" and now = 0 and unordered = id and wt = 1 and c = DEFAULT_MARKET_CONFIG]
  by simp

end
