(* ===== verification/Engine.thy ===== *)
theory Engine
  imports Domain Signals
begin

text \<open>
  The scoring engine: \<open>src/scoring/scoring-engine.ts\<close>. One call of \<open>score\<close> parses the
  domain, computes the four signals, resolves weights and thresholds for the data that is
  available, scales the market weight by its data density and derives confidence, value,
  bids and the recommendation. The Public Suffix List, the two providers and the clock are
  parameters.
\<close>

section \<open>State\<close>

record scoring_constants =
  buyMaxRatio :: real
  listPriceMultiplier :: real
  baseMarketValueEur :: real
  confidenceBase :: real
  confidenceCap :: real
  intrinsicQualityInfluence :: real
  holdingYears :: real

record scoring_config =
  c_intrinsic :: intrinsic_config
  c_commercial :: commercial_config
  c_market :: market_config
  c_expiry :: expiry_config
  c_constants :: scoring_constants

definition DEFAULT_SCORING_CONSTANTS :: scoring_constants where
  "DEFAULT_SCORING_CONSTANTS = \<lparr>buyMaxRatio = 1 / 2, listPriceMultiplier = 5 / 2,
     baseMarketValueEur = 500, confidenceBase = 2 / 10, confidenceCap = 8 / 10,
     intrinsicQualityInfluence = 12 / 100, holdingYears = 3\<rparr>"

definition DEFAULT_SCORING_CONFIG :: scoring_config where
  "DEFAULT_SCORING_CONFIG = \<lparr>c_intrinsic = DEFAULT_INTRINSIC_CONFIG,
     c_commercial = DEFAULT_COMMERCIAL_CONFIG, c_market = DEFAULT_MARKET_CONFIG,
     c_expiry = DEFAULT_EXPIRY_CONFIG, c_constants = DEFAULT_SCORING_CONSTANTS\<rparr>"

record engine =
  weights :: scoring_weights
  tldBonuses :: "string \<Rightarrow> real option"
  buyMaxAbsoluteCap :: real
  scoringConfig :: scoring_config

definition updateWeights :: "scoring_weights \<Rightarrow> engine \<Rightarrow> engine" where
  "updateWeights w e = e\<lparr>weights := w\<rparr>"

definition updateTldBonuses :: "(string \<Rightarrow> real option) \<Rightarrow> engine \<Rightarrow> engine" where
  "updateTldBonuses b e = e\<lparr>tldBonuses := b\<rparr>"

definition currentWeights :: "engine \<Rightarrow> scoring_weights" where
  "currentWeights e = weights e"

record signal_status_item =
  st_name :: string
  st_available :: bool
  st_error :: "string option"
  st_dataDensity :: "real option"

record score_result =
  r_domain :: string
  expectedValue :: real
  confidence :: real
  suggestedBuyMax :: real
  suggestedListPrice :: real
  conservative :: real
  aggressive :: real
  weightedScore :: real
  b_intrinsic :: intrinsic_output
  b_commercial :: commercial_output
  b_market :: market_output
  b_expiry :: expiry_output
  recommended :: bool
  scoredAt :: ms
  signalStatus :: "signal_status_item list"
  effectiveWeights :: scoring_weights
  effectiveRecommendThreshold :: real
  effectiveConfidenceThreshold :: real

section \<open>The steps of one scoring\<close>

definition availability_of ::
  "commercial_output \<Rightarrow> market_output \<Rightarrow> expiry_output \<Rightarrow> signal_availability" where
  "availability_of commercial market expiry =
     \<lparr>a_intrinsic = True, a_commercial = dataAvailable commercial,
      a_market = (comparables market \<noteq> 0), a_expiry = dataAvailable expiry\<rparr>"

text \<open>
  The market's share of the weight that its density does not support goes to the intrinsic
  signal. The density that the market signal returns is always a finite number.
\<close>

definition density_adjusted :: "bool \<Rightarrow> real \<Rightarrow> scoring_weights \<Rightarrow> scoring_weights" where
  "density_adjusted hasMarketData density w =
     (if hasMarketData \<and> density < 1
      then w\<lparr>w_market := w_market w * density,
             w_intrinsic := w_intrinsic w + w_market w * (1 - density)\<rparr>
      else w)"

definition weighted_score ::
  "intrinsic_output \<Rightarrow> commercial_output \<Rightarrow> market_output \<Rightarrow> expiry_output \<Rightarrow> scoring_weights \<Rightarrow> real" where
  "weighted_score i c m e w =
     score i * w_intrinsic w + score c * w_commercial w + score m * w_market w
     + score e * w_expiry w"

definition truthy_error :: "string option \<Rightarrow> string option" where
  "truthy_error err = (case err of Some e \<Rightarrow> (if e = [] then None else Some e) | None \<Rightarrow> None)"

definition signal_status ::
  "commercial_output \<Rightarrow> market_output \<Rightarrow> expiry_output \<Rightarrow> signal_status_item list" where
  "signal_status commercial market expiry =
     [\<lparr>st_name = ''intrinsic'', st_available = True, st_error = None, st_dataDensity = None\<rparr>,
      \<lparr>st_name = ''commercial'', st_available = dataAvailable commercial,
       st_error = truthy_error (providerError commercial), st_dataDensity = None\<rparr>,
      \<lparr>st_name = ''market'', st_available = (comparables market \<noteq> 0),
       st_error = truthy_error (providerError market),
       st_dataDensity = (if comparables market \<noteq> 0 then Some (dataDensity market) else None)\<rparr>,
      \<lparr>st_name = ''expiry'', st_available = dataAvailable expiry, st_error = None,
       st_dataDensity = None\<rparr>]"

definition confidence_of :: "scoring_constants \<Rightarrow> signal_availability \<Rightarrow> real \<Rightarrow> real" where
  "confidence_of k a intrinsicScore =
     (let coveredWeight = w_intrinsic DEFAULT_WEIGHTS
            + (if a_commercial a then w_commercial DEFAULT_WEIGHTS else 0)
            + (if a_market a then w_market DEFAULT_WEIGHTS else 0)
            + (if a_expiry a then w_expiry DEFAULT_WEIGHTS else 0);
          minCovered = w_intrinsic DEFAULT_WEIGHTS;
          variableRange = 1 - minCovered;
          extraCovered = max 0 (coveredWeight - minCovered);
          signalConfidence = (extraCovered / variableRange) * (confidenceCap k - confidenceBase k)
            * (1 - intrinsicQualityInfluence k);
          qualityBoost =
            (if extraCovered > 0
             then intrinsicScore * intrinsicQualityInfluence k * (confidenceCap k - confidenceBase k)
             else 0)
      in min (confidenceCap k) (confidenceBase k + signalConfidence + qualityBoost))"

definition value_anchor :: "scoring_constants \<Rightarrow> market_output \<Rightarrow> real" where
  "value_anchor k market =
     (if comparables market \<noteq> 0
      then baseMarketValueEur k
           + (max (baseMarketValueEur k) (medianSalePrice market) - baseMarketValueEur k)
             * min 1 (dataDensity market * 3)
      else baseMarketValueEur k)"

definition buy_max :: "engine \<Rightarrow> scoring_input \<Rightarrow> real \<Rightarrow> real" where
  "buy_max eng input expected =
     (let k = c_constants (scoringConfig eng);
          raw = expected * buyMaxRatio k;
          net = (case renewalCost input of
                   Some rc \<Rightarrow> max 0 (raw - rc * holdingYears k) | None \<Rightarrow> raw)
      in if buyMaxAbsoluteCap eng > 0 then min net (buyMaxAbsoluteCap eng) else net)"

definition round_weights :: "scoring_weights \<Rightarrow> scoring_weights" where
  "round_weights w = \<lparr>w_intrinsic = round2 (w_intrinsic w), w_commercial = round2 (w_commercial w),
     w_market = round2 (w_market w), w_expiry = round2 (w_expiry w)\<rparr>"

text \<open>What one call observes of its environment.\<close>

record environment =
  psl_parse :: "string \<Rightarrow> psl_result"
  unordered :: "weighted_sale list \<Rightarrow> weighted_sale list"
  clock_market :: ms
  clock_end :: ms
  getMetrics :: "string \<Rightarrow> string + real \<times> real"
  getSales :: "string \<Rightarrow> string + comparable_sale list"

section \<open>score\<close>

text \<open>\<open>None\<close>: the domain parser threw.\<close>

definition score_domain :: "environment \<Rightarrow> engine \<Rightarrow> scoring_input \<Rightarrow> score_result option" where
  "score_domain env eng input =
     (case parseDomain (psl_parse env) (in_domain input) of
        None \<Rightarrow> None
      | Some parsed \<Rightarrow>
          let the_sld = (case in_sld input of Some s \<Rightarrow> s | None \<Rightarrow> p_sld parsed);
              the_tld = (case in_tld input of Some t \<Rightarrow> t | None \<Rightarrow> p_tld parsed);
              cfg = scoringConfig eng;
              k = c_constants cfg;
              intrinsic = computeIntrinsicScore the_sld the_tld (w_intrinsic (weights eng))
                            (c_intrinsic cfg) (tldBonuses eng);
              expiry = computeExpiryScore input (w_expiry (weights eng)) (c_expiry cfg);
              commercial = computeCommercialScore the_sld (getMetrics env)
                             (w_commercial (weights eng)) (c_commercial cfg);
              market = computeMarketScore (unordered env) (clock_market env) the_sld (getSales env)
                         (w_market (weights eng)) (c_market cfg);
              a = availability_of commercial market expiry;
              adjusted = density_adjusted (a_market a) (dataDensity market)
                           (resolveEffectiveWeights a (weights eng) DEFAULT_FALLBACK_WEIGHTS);
              (rt, ct) = computeEffectiveThresholds a (weights eng);
              ws = weighted_score intrinsic commercial market expiry adjusted;
              conf = confidence_of k a (score intrinsic);
              expected = ws * value_anchor k market;
              bid = buy_max eng input expected
          in Some
            \<lparr>r_domain = in_domain input,
             expectedValue = round2 expected,
             confidence = round3 conf,
             suggestedBuyMax = round2 bid,
             suggestedListPrice = round2 (expected * listPriceMultiplier k),
             conservative = round2 (round2 (bid * conf)),
             aggressive = round2 bid,
             weightedScore = round3 ws,
             b_intrinsic = intrinsic, b_commercial = commercial, b_market = market,
             b_expiry = expiry,
             recommended = (conf \<ge> ct \<and> ws \<ge> rt),
             scoredAt = clock_end env,
             signalStatus = signal_status commercial market expiry,
             effectiveWeights = round_weights adjusted,
             effectiveRecommendThreshold = round2 rt,
             effectiveConfidenceThreshold = round2 ct\<rparr>)"

section \<open>Sane configurations and the bounds of each step\<close>

definition sane_constants :: "scoring_constants \<Rightarrow> bool" where
  "sane_constants k =
     (0 \<le> buyMaxRatio k \<and> 0 \<le> listPriceMultiplier k \<and> 0 \<le> baseMarketValueEur k
      \<and> 0 \<le> confidenceBase k \<and> confidenceBase k \<le> confidenceCap k \<and> confidenceCap k \<le> 1
      \<and> 0 \<le> intrinsicQualityInfluence k \<and> intrinsicQualityInfluence k \<le> 1 \<and> 0 \<le> holdingYears k)"

definition sane_engine :: "engine \<Rightarrow> bool" where
  "sane_engine e = (valid_weights (weights e) \<and> sane_constants (c_constants (scoringConfig e))
     \<and> sane_market (c_market (scoringConfig e)))"

lemma density_adjusted_sum [simp]: "weight_sum (density_adjusted b d w) = weight_sum w"
  by (simp add: weight_sum_def density_adjusted_def algebra_simps)

lemma density_adjusted_nonneg: "0 \<le> d \<Longrightarrow> nonneg w \<Longrightarrow> nonneg (density_adjusted b d w)"
  by (simp add: nonneg_def density_adjusted_def)

lemma weighted_score_bounds:
  assumes "nonneg w" "score i \<in> {0..1}" "score c \<in> {0..1}" "score m \<in> {0..1}" "score e \<in> {0..1}"
  shows "0 \<le> weighted_score i c m e w \<and> weighted_score i c m e w \<le> weight_sum w"
proof
  show "0 \<le> weighted_score i c m e w"
    using assms by (simp add: weighted_score_def nonneg_def)
  have "score i * w_intrinsic w \<le> w_intrinsic w" "score c * w_commercial w \<le> w_commercial w"
    "score m * w_market w \<le> w_market w" "score e * w_expiry w \<le> w_expiry w"
    using assms by (auto simp: nonneg_def intro!: convex_le_1)
  then show "weighted_score i c m e w \<le> weight_sum w"
    unfolding weighted_score_def weight_sum_def by linarith
qed

lemma confidence_bounds:
  assumes "sane_constants k" "s \<in> {0..1}"
  shows "confidenceBase k \<le> confidence_of k a s \<and> confidence_of k a s \<le> confidenceCap k"
proof -
  have "0 \<le> s * intrinsicQualityInfluence k * (confidenceCap k - confidenceBase k)"
    using assms by (simp add: sane_constants_def)
  moreover have "0 \<le> (x / (1 - 3/10)) * (confidenceCap k - confidenceBase k) * (1 - intrinsicQualityInfluence k)"
    if "0 \<le> x" for x
    using assms that by (simp add: sane_constants_def)
  ultimately show ?thesis
    using assms by (auto simp: confidence_of_def Let_def sane_constants_def DEFAULT_WEIGHTS_def)
qed

lemma value_anchor_bounds:
  assumes "sane_constants k" "0 \<le> dataDensity m"
  shows "baseMarketValueEur k \<le> value_anchor k m
    \<and> value_anchor k m \<le> max (baseMarketValueEur k) (medianSalePrice m)"
proof -
  let ?g = "max (baseMarketValueEur k) (medianSalePrice m) - baseMarketValueEur k"
  have "0 \<le> ?g * min 1 (dataDensity m * 3)" using assms(2) by simp
  moreover have "?g * min 1 (dataDensity m * 3) \<le> ?g * 1" by (rule mult_left_mono) simp_all
  ultimately show ?thesis by (auto simp: value_anchor_def)
qed

lemma buy_max_bounds:
  assumes "sane_constants (c_constants (scoringConfig eng))" "0 \<le> x"
  shows "0 \<le> buy_max eng i x \<and> (buyMaxAbsoluteCap eng > 0 \<longrightarrow> buy_max eng i x \<le> buyMaxAbsoluteCap eng)"
  using assms by (auto simp: buy_max_def Let_def sane_constants_def split: option.split)

text \<open>Splitting one scoring into its steps.\<close>

lemma score_domain_SomeE:
  assumes "score_domain env eng input = Some r"
  obtains the_sld the_tld wi we wc wm where
    "b_intrinsic r = computeIntrinsicScore the_sld the_tld wi (c_intrinsic (scoringConfig eng)) (tldBonuses eng)"
    "b_expiry r = computeExpiryScore input we (c_expiry (scoringConfig eng))"
    "b_commercial r = computeCommercialScore the_sld (getMetrics env) wc (c_commercial (scoringConfig eng))"
    "b_market r = computeMarketScore (unordered env) (clock_market env) the_sld (getSales env) wm
       (c_market (scoringConfig eng))"
  using assms by (auto simp: score_domain_def Let_def split: option.splits prod.splits)

definition result_availability :: "score_result \<Rightarrow> signal_availability" where
  "result_availability r = availability_of (b_commercial r) (b_market r) (b_expiry r)"

definition result_weights :: "engine \<Rightarrow> score_result \<Rightarrow> scoring_weights" where
  "result_weights eng r = density_adjusted (a_market (result_availability r)) (dataDensity (b_market r))
     (resolveEffectiveWeights (result_availability r) (weights eng) DEFAULT_FALLBACK_WEIGHTS)"

definition raw_score :: "engine \<Rightarrow> score_result \<Rightarrow> real" where
  "raw_score eng r = weighted_score (b_intrinsic r) (b_commercial r) (b_market r) (b_expiry r)
     (result_weights eng r)"

definition raw_confidence :: "engine \<Rightarrow> score_result \<Rightarrow> real" where
  "raw_confidence eng r = confidence_of (c_constants (scoringConfig eng)) (result_availability r)
     (score (b_intrinsic r))"

definition raw_value :: "engine \<Rightarrow> score_result \<Rightarrow> real" where
  "raw_value eng r = raw_score eng r * value_anchor (c_constants (scoringConfig eng)) (b_market r)"

lemma score_domain_fields:
  assumes "score_domain env eng input = Some r"
  shows "weightedScore r = round3 (raw_score eng r)"
    "confidence r = round3 (raw_confidence eng r)"
    "expectedValue r = round2 (raw_value eng r)"
    "suggestedBuyMax r = round2 (buy_max eng input (raw_value eng r))"
    "aggressive r = suggestedBuyMax r"
    "conservative r = round2 (buy_max eng input (raw_value eng r) * raw_confidence eng r)"
    "effectiveWeights r = round_weights (result_weights eng r)"
    "recommended r \<longleftrightarrow>
       snd (computeEffectiveThresholds (result_availability r) (weights eng)) \<le> raw_confidence eng r
       \<and> fst (computeEffectiveThresholds (result_availability r) (weights eng)) \<le> raw_score eng r"
  using assms
  by (auto simp: score_domain_def Let_def result_availability_def result_weights_def raw_score_def
      raw_confidence_def raw_value_def split: option.splits prod.splits)

lemma result_signals:
  assumes "score_domain env eng input = Some r" "sane_engine eng"
    and "\<And>ws. mset (unordered env ws) = mset ws"
  shows "score (b_intrinsic r) \<in> {0..1}" "score (b_commercial r) \<in> {0..1}"
    "score (b_market r) \<in> {0..1}" "score (b_expiry r) \<in> {0..1}" "dataDensity (b_market r) \<in> {0..1}"
proof -
  obtain s t wi we wc wm where *:
    "b_intrinsic r = computeIntrinsicScore s t wi (c_intrinsic (scoringConfig eng)) (tldBonuses eng)"
    "b_expiry r = computeExpiryScore input we (c_expiry (scoringConfig eng))"
    "b_commercial r = computeCommercialScore s (getMetrics env) wc (c_commercial (scoringConfig eng))"
    "b_market r = computeMarketScore (unordered env) (clock_market env) s (getSales env) wm
       (c_market (scoringConfig eng))"
    using score_domain_SomeE [OF assms(1)] by blast
  have "sane_market (c_market (scoringConfig eng))" using assms(2) by (simp add: sane_engine_def)
  note b = density_bounds [of "unordered env", OF assms(3) this, of "clock_market env" s "getSales env" wm]
  show "score (b_intrinsic r) \<in> {0..1}" by (simp add: *(1) computeIntrinsicScore_def Let_def)
  show "score (b_commercial r) \<in> {0..1}"
    by (simp add: *(3) computeCommercialScore_def Let_def split: prod.split)
  show "score (b_market r) \<in> {0..1}"
    by (simp add: *(4) computeMarketScore_def Let_def split: prod.split)
  show "score (b_expiry r) \<in> {0..1}" by (simp add: *(2) computeExpiryScore_def Let_def)
  show "dataDensity (b_market r) \<in> {0..1}" using b by (simp add: *(4))
qed

lemma result_availability_intrinsic [simp]: "a_intrinsic (result_availability r)"
  by (simp add: result_availability_def availability_of_def)

lemma result_weights_props:
  assumes "valid_weights (weights eng)" "0 \<le> dataDensity (b_market r)"
  shows "nonneg (result_weights eng r)" "weight_sum (result_weights eng r) \<le> 1001 / 1000"
proof -
  have n: "nonneg (weights eng)" "\<bar>weight_sum (weights eng) - 1\<bar> \<le> 1 / 1000"
    using assms(1) by (simp_all add: valid_weights_def WEIGHTS_OVERRIDE_SUM_TOLERANCE_def)
  show "nonneg (result_weights eng r)"
    unfolding result_weights_def by (intro density_adjusted_nonneg resolve_nonneg n(1) assms(2))
  have "weight_sum (weights eng) \<le> 1001 / 1000" using n(2) by linarith
  then show "weight_sum (result_weights eng r) \<le> 1001 / 1000"
    using resolve_total [OF result_availability_intrinsic, of r "weights eng"]
    by (simp add: result_weights_def split: if_splits)
qed

lemma round3_1001: "round3 (1001 / 1000) = 1001 / 1000"
  by (simp add: round_to_def js_round_def)

section \<open>Properties\<close>

text \<open>
  C4. Every scoring is within bounds, whatever the providers return: the weighted score is at
  least 0 and at most 1.001 (the tolerance that an accepted override file may add), the
  confidence stays between base and cap, the value and both bids are never negative, the
  conservative bid never exceeds the aggressive one, and the aggressive bid never exceeds a
  configured absolute cap.
\<close>

theorem score_result_bounds:
  assumes "score_domain env eng input = Some r" "sane_engine eng"
    and "\<And>ws. mset (unordered env ws) = mset ws"
  shows "0 \<le> weightedScore r \<and> weightedScore r \<le> 1001 / 1000
    \<and> round3 (confidenceBase (c_constants (scoringConfig eng))) \<le> confidence r
    \<and> confidence r \<le> round3 (confidenceCap (c_constants (scoringConfig eng)))
    \<and> 0 \<le> expectedValue r \<and> 0 \<le> conservative r
    \<and> conservative r \<le> aggressive r \<and> aggressive r = suggestedBuyMax r
    \<and> (buyMaxAbsoluteCap eng > 0 \<longrightarrow> aggressive r \<le> round2 (buyMaxAbsoluteCap eng))"
proof -
  let ?k = "c_constants (scoringConfig eng)" and ?c = "raw_confidence eng r"
    and ?b = "buy_max eng input (raw_value eng r)"
  note sig = result_signals [OF assms] and f = score_domain_fields [OF assms(1)]
  have k: "sane_constants ?k" and v: "valid_weights (weights eng)"
    using assms(2) by (simp_all add: sane_engine_def)
  have d: "0 \<le> dataDensity (b_market r)" using sig(5) by simp
  note w = result_weights_props [OF v d]
  have s: "0 \<le> raw_score eng r \<and> raw_score eng r \<le> 1001 / 1000"
    using weighted_score_bounds [OF w(1) sig(1-4)] w(2) unfolding raw_score_def by linarith
  have c: "confidenceBase ?k \<le> ?c" "?c \<le> confidenceCap ?k" "0 \<le> ?c" "?c \<le> 1"
    using confidence_bounds [OF k sig(1), of "result_availability r", folded raw_confidence_def] k
    by (auto simp: sane_constants_def)
  have x: "0 \<le> raw_value eng r"
    using s value_anchor_bounds [OF k d] k by (simp add: raw_value_def sane_constants_def)
  note b = buy_max_bounds [OF k x, of input]
  have "?b * ?c \<le> ?b" using c(4) b by (simp add: mult_left_le)
  moreover have "0 \<le> ?b * ?c" using b c(3) by simp
  moreover have "round3 (raw_score eng r) \<le> 1001 / 1000"
    using round_to_mono [of "raw_score eng r" "1001 / 1000" 3] s round3_1001 by simp
  ultimately show ?thesis
    using s c x b by (simp add: f round_to_mono round_to_nonneg)
qed

definition example_environment :: environment where
  "example_environment = \<lparr>psl_parse = example_psl, unordered = id, clock_market = 0, clock_end = 0,
     getMetrics = (\<lambda>_. Inl ''timeout''), getSales = (\<lambda>_. Inl ''timeout'')\<rparr>"

definition example_engine :: engine where
  "example_engine = \<lparr>weights = DEFAULT_WEIGHTS, tldBonuses = map_of DEFAULT_TLD_BONUS,
     buyMaxAbsoluteCap = 100, scoringConfig = DEFAULT_SCORING_CONFIG\<rparr>"

definition example_input :: scoring_input where
  "example_input = \<lparr>in_domain = ''nike.co.uk'', in_tld = None, in_sld = None, isCloseout = False,
     domainAge = None, backlinks = None, waybackSnapshots = None, registrar = None, renewalCost = Some 10\<rparr>"

lemma example_engine_sane: "sane_engine example_engine"
  by (simp add: sane_engine_def example_engine_def sane_constants_def sane_market_def
      DEFAULT_SCORING_CONFIG_def DEFAULT_SCORING_CONSTANTS_def DEFAULT_MARKET_CONFIG_def)

lemma example_parse: "parseDomain example_psl ''nike.co.uk'' \<noteq> None"
  by code_simp

theorem score_result_bounds_witness:
  "\<exists>r. score_domain example_environment example_engine example_input = Some r
    \<and> 0 \<le> conservative r \<and> conservative r \<le> aggressive r"
proof -
  have "score_domain example_environment example_engine example_input \<noteq> None"
    using example_parse
    by (simp add: score_domain_def Let_def example_environment_def example_input_def
        split: option.split prod.split)
  then obtain r where r: "score_domain example_environment example_engine example_input = Some r"
    by blast
  have "mset (unordered example_environment ws) = mset ws" for ws
    by (simp add: example_environment_def)
  from score_result_bounds [OF r example_engine_sane this] r show ?thesis by blast
qed

text \<open>
  Without data the engine degrades and never recommends: when both providers fail or have
  nothing and the domain has no expiry data, scoring still succeeds, puts all the weight on
  the intrinsic signal, values the domain on the base value alone and, with the default
  constants and weights, does not recommend it, however good the name is.
\<close>

theorem intrinsic_only_never_recommended:
  assumes "score_domain env eng input = Some r"
    and "weights eng = DEFAULT_WEIGHTS" "c_constants (scoringConfig eng) = DEFAULT_SCORING_CONSTANTS"
    and "\<And>s. getMetrics env s \<in> {Inl e, Inr (0, 0)}" "\<And>s. getSales env s \<in> {Inl e', Inr []}"
    and "domainAge input = None" "backlinks input = None" "waybackSnapshots input = None"
  shows "\<not> recommended r
    \<and> effectiveWeights r = \<lparr>w_intrinsic = 1, w_commercial = 0, w_market = 0, w_expiry = 0\<rparr>
    \<and> weightedScore r = round3 (score (b_intrinsic r))
    \<and> expectedValue r = round2 (score (b_intrinsic r) * 500)
    \<and> confidence r = 2 / 10"
proof -
  obtain s t wi we wc wm where "b_intrinsic r
      = computeIntrinsicScore s t wi (c_intrinsic (scoringConfig eng)) (tldBonuses eng)" and *:
    "b_expiry r = computeExpiryScore input we (c_expiry (scoringConfig eng))"
    "b_commercial r = computeCommercialScore s (getMetrics env) wc (c_commercial (scoringConfig eng))"
    "b_market r = computeMarketScore (unordered env) (clock_market env) s (getSales env) wm
       (c_market (scoringConfig eng))"
    by (rule score_domain_SomeE [OF assms(1)]) (rule that)
  have c: "\<not> dataAvailable (b_commercial r)" "score (b_commercial r) = 0"
    using assms(4) [of s] by (auto simp: *(2) computeCommercialScore_def Let_def clamp01_def)
  have m: "comparables (b_market r) = 0" "score (b_market r) = 0"
    using assms(5) [of s] by (auto simp: *(3) computeMarketScore_def Let_def)
  have x: "\<not> dataAvailable (b_expiry r)" "score (b_expiry r) = 0"
    using assms(6-8) by (auto simp: *(1) computeExpiryScore_def)
  have a: "result_availability r = \<lparr>a_intrinsic = True, a_commercial = False, a_market = False,
      a_expiry = False\<rparr>"
    using c m x by (simp add: result_availability_def availability_of_def)
  have w: "result_weights eng r = \<lparr>w_intrinsic = 1, w_commercial = 0, w_market = 0, w_expiry = 0\<rparr>"
    by (simp add: result_weights_def a assms(2) density_adjusted_def resolveEffectiveWeights_def
        sumAvailable_def DEFAULT_WEIGHTS_def SIGNAL_DATA_THRESHOLD_def zero_unavailable_def Let_def)
  have rs: "raw_score eng r = score (b_intrinsic r)"
    by (simp add: raw_score_def w weighted_score_def)
  have rc: "raw_confidence eng r = 2 / 10"
    by (simp add: raw_confidence_def a confidence_of_def Let_def assms(3)
        DEFAULT_SCORING_CONSTANTS_def)
  have th: "snd (computeEffectiveThresholds (result_availability r) (weights eng)) = 23 / 100"
    by (simp add: a assms(2) computeEffectiveThresholds_def Let_def availability_ratio_def
        sumAvailable_def weight_constants round_to_def js_round_def)
  have val: "raw_value eng r = score (b_intrinsic r) * 500"
    by (simp add: raw_value_def rs value_anchor_def m(1) assms(3) DEFAULT_SCORING_CONSTANTS_def)
  have r1: "round3 (1 / 5) = 1 / 5" by (simp add: round_to_def js_round_def)
  show ?thesis
    by (simp add: score_domain_fields [OF assms(1)] th rc rs w val round_weights_def r1)
qed

theorem intrinsic_only_never_recommended_witness:
  "\<exists>r. score_domain example_environment example_engine example_input = Some r \<and> \<not> recommended r"
proof -
  have "score_domain example_environment example_engine example_input \<noteq> None"
    using example_parse
    by (simp add: score_domain_def Let_def example_environment_def example_input_def
        split: option.split prod.split)
  then obtain r where r: "score_domain example_environment example_engine example_input = Some r"
    by blast
  have "\<not> recommended r"
    by (rule intrinsic_only_never_recommended [where e = "''timeout''" and e' = "''timeout''", OF r,
          THEN conjunct1])
      (simp_all add: example_engine_def DEFAULT_SCORING_CONFIG_def example_environment_def
        example_input_def)
  with r show ?thesis by blast
qed

end
