(* ===== verification/MatchDetector.thy ===== *)
theory MatchDetector
  imports Prelude
begin

text \<open>
  Trademark matching: \<open>src/trademark/match-detector.ts\<close>. A second-level label and a mark are
  split into tokens of letters (digits spelled out); a mark conflicts when each of its tokens
  is close to some token of the label: equal, contained, or within a small edit distance.
  The distance is computed by the two-row table of the code and proved to be the least
  number of edits.
\<close>

record match_candidate =
  markName :: string
  owner :: string
  status :: string
  source :: string

record match_config =
  minTokenLengthForFuzzy :: nat
  minMarkTokenLengthForSubstring :: nat
  maxLevenshteinDistance :: nat

definition DEFAULT_MATCH_DETECTOR_CONFIG :: match_config where
  "DEFAULT_MATCH_DETECTOR_CONFIG = \<lparr>minTokenLengthForFuzzy = 4, minMarkTokenLengthForSubstring = 3,
     maxLevenshteinDistance = 1\<rparr>"

section \<open>Tokens\<close>

definition DIGIT_WORDS :: "char \<Rightarrow> string" where
  "DIGIT_WORDS d =
     (if d = CHR ''0'' then ''zero'' else if d = CHR ''1'' then ''one''
      else if d = CHR ''2'' then ''two'' else if d = CHR ''3'' then ''three''
      else if d = CHR ''4'' then ''four'' else if d = CHR ''5'' then ''five''
      else if d = CHR ''6'' then ''six'' else if d = CHR ''7'' then ''seven''
      else if d = CHR ''8'' then ''eight'' else if d = CHR ''9'' then ''nine'' else [d])"

definition normalise :: "string \<Rightarrow> string" where
  "normalise s = concat (map DIGIT_WORDS (to_lower s))"

text \<open>
  Splitting at every other character leaves empty pieces between adjacent separators, which
  the filter drops as it drops those of the regular expression's runs.
\<close>

fun split_letters :: "string \<Rightarrow> string list" where
  "split_letters [] = [[]]"
| "split_letters (c # s) =
     (if is_lower c
      then (case split_letters s of [] \<Rightarrow> [[c]] | p # ps \<Rightarrow> (c # p) # ps)
      else [] # split_letters s)"

definition tokenise :: "string \<Rightarrow> string list" where
  "tokenise s = filter (\<lambda>t. t \<noteq> []) (split_letters (normalise s))"

section \<open>Edit distance\<close>

text \<open>
  One row of the table: the cells of the previous row from the current column on, and the
  cell to the left.
\<close>

fun row_loop :: "char \<Rightarrow> string \<Rightarrow> nat list \<Rightarrow> nat \<Rightarrow> nat list" where
  "row_loop x [] prev left = []"
| "row_loop x (y # ys) prev left =
     (case prev of
        diag # up # rest \<Rightarrow>
          (let cost = (if x = y then 0 else 1);
               v = min (min (up + 1) (left + 1)) (diag + cost)
           in v # row_loop x ys (up # rest) v)
      | _ \<Rightarrow> [])"

fun rows :: "string \<Rightarrow> string \<Rightarrow> nat \<Rightarrow> nat list \<Rightarrow> nat list" where
  "rows [] b i prev = prev"
| "rows (x # a) b i prev = rows a b (i + 1) (i # row_loop x b prev i)"

definition levenshtein :: "string \<Rightarrow> string \<Rightarrow> nat" where
  "levenshtein a b =
     (if a = b then 0
      else if length a > 100 \<or> length b > 100 then max (length a) (length b)
      else if length a = 0 then length b
      else if length b = 0 then length a
      else last (rows a b 1 [0..<length b + 1]))"

section \<open>Matching\<close>

definition isTokenClose :: "match_config \<Rightarrow> string \<Rightarrow> string \<Rightarrow> bool" where
  "isTokenClose config sldToken markToken =
     (if sldToken = markToken then True
      else if length sldToken > length markToken \<and> str_includes sldToken markToken
              \<and> length markToken \<ge> minMarkTokenLengthForSubstring config
      then True
      else length sldToken \<ge> minTokenLengthForFuzzy config
           \<and> length markToken \<ge> minTokenLengthForFuzzy config
           \<and> \<bar>int (length sldToken) - int (length markToken)\<bar> \<le> int (maxLevenshteinDistance config)
           \<and> levenshtein sldToken markToken \<le> maxLevenshteinDistance config)"

definition all_covered :: "match_config \<Rightarrow> string list \<Rightarrow> string list \<Rightarrow> bool" where
  "all_covered config sldTokens markTokens =
     list_all (\<lambda>mt. list_ex (\<lambda>st. isTokenClose config st mt) sldTokens) markTokens"

fun detect_loop :: "match_config \<Rightarrow> string list \<Rightarrow> match_candidate list \<Rightarrow> match_candidate option" where
  "detect_loop config sldTokens [] = None"
| "detect_loop config sldTokens (mark # marks) =
     (let markTokens = tokenise (markName mark)
      in if markTokens = [] then detect_loop config sldTokens marks
         else if all_covered config sldTokens markTokens then Some mark
         else detect_loop config sldTokens marks)"

definition detectMatch :: "match_config \<Rightarrow> string \<Rightarrow> match_candidate list \<Rightarrow> match_candidate option" where
  "detectMatch config domainSld marks =
     (let sldTokens = tokenise domainSld
      in if sldTokens = [] then None else detect_loop config sldTokens marks)"

section \<open>The distance is least\<close>

text \<open>
  An alignment of two strings with its cost: characters are paired, at cost one when they
  differ, or one of them is dropped, at cost one.
\<close>

inductive align :: "nat \<Rightarrow> string \<Rightarrow> string \<Rightarrow> bool" where
  empty: "align 0 [] []"
| pair: "align n a b \<Longrightarrow> align (n + (if x = y then 0 else 1)) (x # a) (y # b)"
| delete: "align n a b \<Longrightarrow> align (n + 1) (x # a) b"
| insert: "align n a b \<Longrightarrow> align (n + 1) a (y # b)"

inductive_cases align_NilE: "align n [] b"

lemma align_append: "align n a b \<Longrightarrow> align m c d \<Longrightarrow> align (n + m) (a @ c) (b @ d)"
proof (induction rule: align.induct)
  case (pair n a b x y)
  then show ?case using align.pair [of "n + m" "a @ c" "b @ d" x y] by (simp add: ac_simps split: if_splits)
next
  case (delete n a b x)
  then show ?case using align.delete [of "n + m" "a @ c" "b @ d" x] by (simp add: ac_simps)
next
  case (insert n a b y)
  then show ?case using align.insert [of "n + m" "a @ c" "b @ d" y] by (simp add: ac_simps)
qed simp

lemma align_rev: "align n a b \<Longrightarrow> align n (rev a) (rev b)"
proof (induction rule: align.induct)
  case empty
  show ?case by (simp add: align.empty)
next
  case (pair n a b x y)
  have "align (0 + (if x = y then 0 else 1)) [x] [y]" by (rule align.pair [OF align.empty])
  from align_append [OF pair.IH this] show ?case by simp
next
  case (delete n a b x)
  have "align (0 + 1) [x] []" by (rule align.delete [OF align.empty])
  from align_append [OF delete.IH this] show ?case by simp
next
  case (insert n a b y)
  have "align (0 + 1) [] [y]" by (rule align.insert [OF align.empty])
  from align_append [OF insert.IH this] show ?case by simp
qed

fun lev :: "string \<Rightarrow> string \<Rightarrow> nat" where
  "lev [] b = length b"
| "lev (x # a) [] = length a + 1"
| "lev (x # a) (y # b) =
     min (min (lev a (y # b) + 1) (lev (x # a) b + 1)) (lev a b + (if x = y then 0 else 1))"

lemma lev_Nil2 [simp]: "lev a [] = length a"
  by (cases a) auto

lemma align_lev: "align (lev a b) a b"
proof (induction a b rule: lev.induct)
  case (1 b)
  show ?case
  proof (induction b)
    case (Cons y b)
    then show ?case using align.insert [of "length b" "[]" b y] by simp
  qed (simp add: align.empty)
next
  case (2 x a)
  have "align (length s) s []" for s
  proof (induction s)
    case (Cons z s)
    then show ?case using align.delete [of "length s" s "[]" z] by simp
  qed (simp add: align.empty)
  from this [of "x # a"] show ?case by simp
next
  case (3 x a y b)
  show ?case
    using align.delete [OF 3(1), of x] align.insert [OF 3(2), of y] align.pair [OF 3(3), of x y]
    by (simp add: min_def)
qed

lemma lev_delete: "lev (x # a) b \<le> lev a b + 1"
  by (cases b) auto

lemma lev_insert: "lev a (y # b) \<le> lev a b + 1"
  by (cases a) auto

lemma lev_least: "align n a b \<Longrightarrow> lev a b \<le> n"
proof (induction rule: align.induct)
  case (delete n a b x)
  then show ?case using lev_delete [of x a b] by simp
next
  case (insert n a b y)
  then show ?case using lev_insert [of a y b] by simp
qed auto

lemma lev_rev: "lev (rev a) (rev b) = lev a b"
proof (rule antisym)
  show "lev (rev a) (rev b) \<le> lev a b" by (rule lev_least [OF align_rev [OF align_lev]])
  show "lev a b \<le> lev (rev a) (rev b)"
    using lev_least [OF align_rev [OF align_lev [of "rev a" "rev b"]]] by simp
qed

text \<open>The rows of the table hold the distances of the prefixes, reversed.\<close>

fun lev_row :: "string \<Rightarrow> string \<Rightarrow> string \<Rightarrow> nat list" where
  "lev_row u r [] = [lev u r]"
| "lev_row u r (y # ys) = lev u r # lev_row u (y # r) ys"

lemma lev_row_cons: "lev_row u r ys = lev u r # tl (lev_row u r ys)"
  by (cases ys) simp_all

lemma row_loop_step: "row_loop x ys (lev_row u r ys) (lev (x # u) r) = tl (lev_row (x # u) r ys)"
proof (induction ys arbitrary: r)
  case (Cons y ys)
  have "lev_row u (y # r) ys = lev u (y # r) # tl (lev_row u (y # r) ys)" by (rule lev_row_cons)
  then obtain rest where rest: "lev_row u (y # r) ys = lev u (y # r) # rest" by blast
  have v: "min (min (lev u (y # r) + 1) (lev (x # u) r + 1)) (lev u r + (if x = y then 0 else 1))
    = lev (x # u) (y # r)" by simp
  have "row_loop x (y # ys) (lev_row u r (y # ys)) (lev (x # u) r)
    = lev (x # u) (y # r) # row_loop x ys (lev_row u (y # r) ys) (lev (x # u) (y # r))"
    unfolding rest lev_row.simps row_loop.simps list.case Let_def v by (simp only: rest)
  also have "\<dots> = lev (x # u) (y # r) # tl (lev_row (x # u) (y # r) ys)"
    by (simp only: Cons.IH)
  also have "\<dots> = lev_row (x # u) (y # r) ys" by (rule lev_row_cons [symmetric])
  finally show ?case by (simp only: lev_row.simps list.sel)
qed simp

lemma rows_step: "rows a b (length u + 1) (lev_row u [] b) = lev_row (rev a @ u) [] b"
proof (induction a arbitrary: u)
  case (Cons x a)
  have "lev (x # u) [] = length u + 1" by simp
  then have "(length u + 1) # row_loop x b (lev_row u [] b) (length u + 1) = lev_row (x # u) [] b"
    using row_loop_step [of x b u "[]"] lev_row_cons [of "x # u" "[]" b] by simp
  then show ?case using Cons.IH [of "x # u"] by simp
qed simp

lemma lev_row_first: "lev_row [] r ys = [length r..<length r + length ys + 1]"
proof (induction ys arbitrary: r)
  case (Cons y ys)
  have "[length r..<length r + length (y # ys) + 1]
    = length r # [Suc (length r)..<length r + length (y # ys) + 1]"
    by (rule upt_conv_Cons) simp
  then show ?case using Cons.IH [of "y # r"] by simp
qed simp

lemma lev_row_last: "last (lev_row u r ys) = lev u (rev ys @ r)"
proof (induction ys arbitrary: r)
  case (Cons y ys)
  have "lev_row u (y # r) ys \<noteq> []" by (subst lev_row_cons) simp
  then show ?case using Cons.IH by simp
qed simp

lemma lev_same [simp]: "lev a a = 0"
  by (induction a) auto

lemma levenshtein_lev:
  assumes "length a \<le> 100" "length b \<le> 100"
  shows "levenshtein a b = lev a b"
proof -
  have "last (rows a b 1 [0..<length b + 1]) = lev (rev a) (rev b)"
    using rows_step [of a b "[]"] lev_row_first [of "[]" b] lev_row_last [of "rev a" "[]" b] by simp
  then show ?thesis using assms by (simp add: levenshtein_def lev_rev)
qed

lemma detect_loop_Some:
  "detect_loop c st marks = Some m \<Longrightarrow>
     m \<in> set marks \<and> tokenise (markName m) \<noteq> [] \<and> all_covered c st (tokenise (markName m))"
  by (induction marks) (auto simp: Let_def split: if_splits)

lemma detect_loop_None:
  "detect_loop c st marks = None \<longleftrightarrow>
     (\<forall>m \<in> set marks. tokenise (markName m) = [] \<or> \<not> all_covered c st (tokenise (markName m)))"
  by (induction marks) (auto simp: Let_def)

text \<open>When a mark conflicts with a label.\<close>

definition conflicts :: "match_config \<Rightarrow> string \<Rightarrow> match_candidate \<Rightarrow> bool" where
  "conflicts c l m = (tokenise l \<noteq> [] \<and> tokenise (markName m) \<noteq> []
     \<and> (\<forall>mt \<in> set (tokenise (markName m)). \<exists>st \<in> set (tokenise l). isTokenClose c st mt))"

lemma detectMatch_None: "detectMatch c l marks = None \<longleftrightarrow> (\<forall>m \<in> set marks. \<not> conflicts c l m)"
  by (auto simp: detectMatch_def Let_def detect_loop_None conflicts_def all_covered_def
      list_all_iff list_ex_iff)

lemma detectMatch_Some: "detectMatch c l marks = Some m \<Longrightarrow> m \<in> set marks \<and> conflicts c l m"
proof -
  assume m: "detectMatch c l marks = Some m"
  then have "tokenise l \<noteq> []" "detect_loop c (tokenise l) marks = Some m"
    by (simp_all add: detectMatch_def Let_def split: if_splits)
  then show ?thesis
    using detect_loop_Some [of c "tokenise l" marks m]
    by (simp add: conflicts_def all_covered_def list_all_iff list_ex_iff)
qed

lemma isTokenClose_refl [simp]: "isTokenClose c t t"
  by (simp add: isTokenClose_def)

lemma conflicts_same_name: "tokenise l \<noteq> [] \<Longrightarrow> markName m = l \<Longrightarrow> conflicts c l m"
  by (auto simp: conflicts_def intro!: bexI)

lemma normalise_to_lower [simp]: "normalise (to_lower s) = normalise s"
  by (simp add: normalise_def)

lemma conflicts_case: "conflicts c (to_lower l) m = conflicts c l m"
  by (simp add: conflicts_def tokenise_def)

section \<open>Properties\<close>

text \<open>
  The two-row table computes the edit distance: for strings of at most 100 characters
  the result is the cost of some alignment of the two strings and no alignment is cheaper.
\<close>

theorem levenshtein_least:
  assumes "length a \<le> 100" "length b \<le> 100"
  shows "align (levenshtein a b) a b \<and> (\<forall>n. align n a b \<longrightarrow> levenshtein a b \<le> n)"
  unfolding levenshtein_lev [OF assms] using align_lev lev_least by blast

theorem levenshtein_least_witness:
  "align (levenshtein ''applle'' ''apple'') ''applle'' ''apple''
   \<and> levenshtein ''applle'' ''apple'' = 1"
proof -
  have "levenshtein ''applle'' ''apple'' = 1" by code_simp
  then show ?thesis using levenshtein_least [of "''applle''" "''apple''"] by simp
qed

text \<open>
  Matching is sound and complete for the policy: a mark is reported exactly when some
  mark conflicts, every token of it being close to a token of the label; the reported mark
  is one of the given marks and conflicts; the letter case of the label does not matter; a
  mark with the label's own name is never missed, and more marks never clear a label.
\<close>

theorem match_detection:
  "(detectMatch c l marks = None \<longleftrightarrow> (\<forall>m \<in> set marks. \<not> conflicts c l m))
   \<and> (\<forall>m. detectMatch c l marks = Some m \<longrightarrow> m \<in> set marks \<and> conflicts c l m)
   \<and> detectMatch c (to_lower l) marks = detectMatch c l marks
   \<and> (tokenise l \<noteq> [] \<and> (\<exists>m \<in> set marks. markName m = l) \<longrightarrow> detectMatch c l marks \<noteq> None)
   \<and> (detectMatch c l marks \<noteq> None \<longrightarrow> detectMatch c l (ms1 @ marks @ ms2) \<noteq> None)"
proof (intro conjI)
  show "detectMatch c l marks = None \<longleftrightarrow> (\<forall>m \<in> set marks. \<not> conflicts c l m)"
    by (rule detectMatch_None)
  show "\<forall>m. detectMatch c l marks = Some m \<longrightarrow> m \<in> set marks \<and> conflicts c l m"
    using detectMatch_Some by blast
  show "detectMatch c (to_lower l) marks = detectMatch c l marks"
    by (simp add: detectMatch_def tokenise_def)
  show "tokenise l \<noteq> [] \<and> (\<exists>m \<in> set marks. markName m = l) \<longrightarrow> detectMatch c l marks \<noteq> None"
    using conflicts_same_name [of l _ c] unfolding detectMatch_None by blast
  show "detectMatch c l marks \<noteq> None \<longrightarrow> detectMatch c l (ms1 @ marks @ ms2) \<noteq> None"
    unfolding detectMatch_None by auto
qed

definition apple_mark :: match_candidate where
  "apple_mark = \<lparr>markName = ''App Store'', owner = ''Apple'', status = ''live'', source = ''USPTO''\<rparr>"

theorem match_detection_witness:
  "detectMatch DEFAULT_MATCH_DETECTOR_CONFIG ''app'' [apple_mark] = None
   \<and> detectMatch DEFAULT_MATCH_DETECTOR_CONFIG ''myappstorre'' [apple_mark]
       = detectMatch DEFAULT_MATCH_DETECTOR_CONFIG ''MyAppStorre'' [apple_mark]
   \<and> detectMatch DEFAULT_MATCH_DETECTOR_CONFIG ''app-store'' ([] @ [apple_mark] @ []) \<noteq> None"
proof -
  have "detectMatch DEFAULT_MATCH_DETECTOR_CONFIG ''app'' [apple_mark] = None"
    "detectMatch DEFAULT_MATCH_DETECTOR_CONFIG ''app-store'' [apple_mark] \<noteq> None"
    "to_lower ''MyAppStorre'' = ''myappstorre''"
    by code_simp+
  then show ?thesis
    using match_detection [of DEFAULT_MATCH_DETECTOR_CONFIG "''MyAppStorre''" "[apple_mark]"]
      match_detection [of DEFAULT_MATCH_DETECTOR_CONFIG "''app-store''" "[apple_mark]" "[]" "[]"]
    by simp
qed

end
