(* ===== verification/TrademarkGate.thy ===== *)
theory TrademarkGate
  imports Domain MatchDetector
begin

text \<open>
  The trademark gate: \<open>src/trademark/trademark-gate.ts\<close>. Both registers are searched; the
  gate combines what they answered into a verdict. The two providers (with their own retries
  and breakers) are parameters: a search yields marks or fails with an error that may carry
  a code. The telemetry callback, whose failure the gate swallows, is not modelled.
\<close>

text \<open>
  The field \<open>matched\<close> stands for \<open>matchedMark\<close>, \<open>matchedOwner\<close> and \<open>matchSource\<close>, which are
  set together from one mark.
\<close>

datatype verdict = Clear | Blocked | Unverified

record gate_result =
  g_domain :: string
  g_verdict :: verdict
  g_partial :: "bool option"
  verifiedSources :: "string list"
  usptoFailed :: "bool option"
  matched :: "match_candidate option"

text \<open>A thrown value: its \<open>code\<close>, when it is an object with a string code.\<close>

record search_failure =
  code :: "string option"

datatype gate_error = ProviderRejected search_failure | ParserThrew

record trademark_gate =
  usptoProvider :: "string \<Rightarrow> search_failure + match_candidate list"
  euipoProvider :: "string \<Rightarrow> search_failure + match_candidate list"
  matchConfig :: match_config
  configuredSources :: "string list"

definition new_gate ::
  "(string \<Rightarrow> search_failure + match_candidate list) \<Rightarrow>
   (string \<Rightarrow> search_failure + match_candidate list) \<Rightarrow> match_config option \<Rightarrow>
   string list option \<Rightarrow> trademark_gate" where
  "new_gate uspto euipo cfg sources =
     \<lparr>usptoProvider = uspto, euipoProvider = euipo,
      matchConfig = (case cfg of Some c \<Rightarrow> c | None \<Rightarrow> DEFAULT_MATCH_DETECTOR_CONFIG),
      configuredSources = (case sources of Some s \<Rightarrow> s | None \<Rightarrow> [''USPTO'', ''EUIPO''])\<rparr>"

definition STRICT_USPTO_TLDS :: "string list" where
  "STRICT_USPTO_TLDS = [''.com'', ''.us'']"

definition INCOMPLETE_RESULT_CODES :: "string list" where
  "INCOMPLETE_RESULT_CODES = [''EUIPO_RESULT_TRUNCATED'']"

definition isTruncation :: "search_failure \<Rightarrow> bool" where
  "isTruncation err = (case code err of Some c \<Rightarrow> List.member INCOMPLETE_RESULT_CODES c | None \<Rightarrow> False)"

definition isUnconfigured :: "search_failure \<Rightarrow> bool" where
  "isUnconfigured err = (code err = Some ''EUIPO_MISSING_CREDENTIALS'')"

definition isStrictTld :: "(string \<Rightarrow> psl_result) \<Rightarrow> string \<Rightarrow> bool option" where
  "isStrictTld psl domain = map_option (\<lambda>p. List.member STRICT_USPTO_TLDS (p_tld p)) (parseDomain psl domain)"

record source_outcome =
  ok :: bool
  matches :: "match_candidate list"
  truncated :: bool
  unconfigured :: bool

text \<open>
  One source. A failure counts as an outcome, unless the run's own signal has aborted: then
  it is rethrown.
\<close>

definition searchSource ::
  "bool \<Rightarrow> (string \<Rightarrow> search_failure + match_candidate list) \<Rightarrow> string \<Rightarrow> search_failure + source_outcome" where
  "searchSource runAborted provider l =
     (case provider l of
        Inr ms \<Rightarrow> Inr \<lparr>ok = True, matches = ms, truncated = False, unconfigured = False\<rparr>
      | Inl err \<Rightarrow>
          if runAborted then Inl err
          else Inr \<lparr>ok = False, matches = [], truncated = isTruncation err,
                     unconfigured = isUnconfigured err\<rparr>)"

definition by_source :: "source_outcome \<Rightarrow> source_outcome \<Rightarrow> string \<Rightarrow> source_outcome option" where
  "by_source u e s = (if s = ''USPTO'' then Some u else if s = ''EUIPO'' then Some e else None)"

definition computePartial :: "string list \<Rightarrow> source_outcome \<Rightarrow> source_outcome \<Rightarrow> bool" where
  "computePartial configured u e =
     list_ex (\<lambda>s. case by_source u e s of None \<Rightarrow> False | Some out \<Rightarrow> \<not> ok out \<and> \<not> unconfigured out)
       configured"

definition verified :: "source_outcome \<Rightarrow> source_outcome \<Rightarrow> string list" where
  "verified u e = (if ok u then [''USPTO''] else []) @ (if ok e then [''EUIPO''] else [])"

definition judge ::
  "trademark_gate \<Rightarrow> (string \<Rightarrow> psl_result) \<Rightarrow> string \<Rightarrow> string \<Rightarrow> source_outcome \<Rightarrow> source_outcome \<Rightarrow>
   gate_error + gate_result" where
  "judge g psl domain l u e =
     (case detectMatch (matchConfig g) l (matches u @ matches e) of
        Some m \<Rightarrow>
          Inr \<lparr>g_domain = domain, g_verdict = Blocked, g_partial = None, verifiedSources = [],
               usptoFailed = None, matched = Some m\<rparr>
      | None \<Rightarrow>
          let vs = verified u e;
              unverified = \<lparr>g_domain = domain, g_verdict = Unverified, g_partial = None,
                            verifiedSources = vs, usptoFailed = None, matched = None\<rparr>;
              finish = (if vs = [] then unverified
                        else unverified\<lparr>g_verdict := Clear,
                               g_partial := Some (computePartial (configuredSources g) u e)\<rparr>)
          in if truncated u \<or> truncated e
             then Inr (unverified\<lparr>g_partial := Some (computePartial (configuredSources g) u e)\<rparr>)
             else if \<not> ok u
             then (case isStrictTld psl domain of
                     None \<Rightarrow> Inl ParserThrew
                   | Some strict \<Rightarrow>
                       if strict then Inr (unverified\<lparr>usptoFailed := Some True\<rparr>) else Inr finish)
             else Inr finish)"

text \<open>
  The label that is searched: the decoded one of a valid name, else that of the parser.
\<close>

definition search_label :: "idna \<Rightarrow> (string \<Rightarrow> psl_result) \<Rightarrow> string \<Rightarrow> string option" where
  "search_label env psl domain =
     (let l = getSldForTrademark env psl domain in if l \<noteq> [] then Some l else extractSld psl domain)"

definition check ::
  "trademark_gate \<Rightarrow> idna \<Rightarrow> (string \<Rightarrow> psl_result) \<Rightarrow> bool \<Rightarrow> string \<Rightarrow> gate_error + gate_result" where
  "check g env psl runAborted domain =
     (case search_label env psl domain of
        None \<Rightarrow> Inl ParserThrew
      | Some l \<Rightarrow>
          (case (searchSource runAborted (usptoProvider g) l, searchSource runAborted (euipoProvider g) l) of
             (Inl err, _) \<Rightarrow> Inl (ProviderRejected err)
           | (_, Inl err) \<Rightarrow> Inl (ProviderRejected err)
           | (Inr u, Inr e) \<Rightarrow> judge g psl domain l u e))"

section \<open>What a verdict rests on\<close>

definition answered :: "search_failure + match_candidate list \<Rightarrow> match_candidate list" where
  "answered r = (case r of Inr ms \<Rightarrow> ms | Inl _ \<Rightarrow> [])"

lemma searchSource_not_aborted:
  "searchSource False p l = Inr \<lparr>ok = (\<exists>ms. p l = Inr ms), matches = answered (p l),
     truncated = (\<exists>e. p l = Inl e \<and> isTruncation e),
     unconfigured = (\<exists>e. p l = Inl e \<and> isUnconfigured e)\<rparr>"
  by (simp add: searchSource_def answered_def split: sum.split)

lemma check_Inr:
  assumes "check g env psl ab domain = Inr r"
  obtains l u e where "search_label env psl domain = Some l"
    "searchSource ab (usptoProvider g) l = Inr u" "searchSource ab (euipoProvider g) l = Inr e"
    "judge g psl domain l u e = Inr r"
  using assms by (auto simp: check_def split: option.splits sum.splits)

lemma searchSource_Inr:
  assumes "searchSource ab p l = Inr out"
  shows "matches out = answered (p l)" "ok out \<longleftrightarrow> (\<exists>ms. p l = Inr ms)"
    "truncated out \<longleftrightarrow> (\<exists>e. p l = Inl e \<and> isTruncation e)"
  using assms by (auto simp: searchSource_def answered_def split: sum.splits if_splits)

lemma judge_Blocked:
  "judge g psl d l u e = Inr r \<Longrightarrow>
     g_verdict r = Blocked \<longleftrightarrow> detectMatch (matchConfig g) l (matches u @ matches e) \<noteq> None"
  by (auto simp: judge_def Let_def split: option.splits if_splits)

lemma judge_matched:
  "judge g psl d l u e = Inr r \<Longrightarrow> matched r = detectMatch (matchConfig g) l (matches u @ matches e)"
  by (auto simp: judge_def Let_def split: option.splits if_splits)

lemma judge_Clear:
  assumes "judge g psl d l u e = Inr r" "g_verdict r = Clear"
  shows "\<not> truncated u \<and> \<not> truncated e \<and> (ok u \<or> ok e) \<and> (ok u \<or> isStrictTld psl d = Some False)
    \<and> verifiedSources r = verified u e \<and> g_partial r = Some (computePartial (configuredSources g) u e)"
  using assms by (auto simp: judge_def Let_def verified_def split: option.splits if_splits)

lemma check_evidence:
  assumes "check g env psl ab domain = Inr r"
  shows "\<exists>l. search_label env psl domain = Some l
    \<and> (let found = answered (usptoProvider g l) @ answered (euipoProvider g l)
       in (g_verdict r = Blocked \<longleftrightarrow> (\<exists>m \<in> set found. conflicts (matchConfig g) l m))
        \<and> (g_verdict r = Blocked \<longrightarrow>
             (\<exists>m \<in> set found. matched r = Some m \<and> conflicts (matchConfig g) l m))
        \<and> (g_verdict r = Clear \<longrightarrow>
             (\<forall>m \<in> set found. \<not> conflicts (matchConfig g) l m)
             \<and> ((\<exists>ms. usptoProvider g l = Inr ms) \<or> (\<exists>ms. euipoProvider g l = Inr ms))
             \<and> ((\<exists>ms. usptoProvider g l = Inr ms) \<or> isStrictTld psl domain = Some False)
             \<and> (\<forall>err. usptoProvider g l = Inl err \<or> euipoProvider g l = Inl err \<longrightarrow> \<not> isTruncation err)))"
proof -
  obtain l u e where *: "search_label env psl domain = Some l"
    "searchSource ab (usptoProvider g) l = Inr u" "searchSource ab (euipoProvider g) l = Inr e"
    "judge g psl domain l u e = Inr r"
    by (rule check_Inr [OF assms]) (rule that)
  note u = searchSource_Inr [OF *(2)] and e = searchSource_Inr [OF *(3)]
  let ?found = "answered (usptoProvider g l) @ answered (euipoProvider g l)"
  have d: "detectMatch (matchConfig g) l (matches u @ matches e) = detectMatch (matchConfig g) l ?found"
    by (simp add: u e)
  have b: "g_verdict r = Blocked \<longleftrightarrow> (\<exists>m \<in> set ?found. conflicts (matchConfig g) l m)"
    unfolding judge_Blocked [OF *(4)] d detectMatch_None by blast
  have m: "\<exists>m \<in> set ?found. matched r = Some m \<and> conflicts (matchConfig g) l m" if "g_verdict r = Blocked"
  proof -
    have "detectMatch (matchConfig g) l ?found \<noteq> None" using judge_Blocked [OF *(4)] that d by simp
    then obtain m where "detectMatch (matchConfig g) l ?found = Some m" by blast
    with detectMatch_Some [OF this] judge_matched [OF *(4)] d show ?thesis by auto
  qed
  have c: "(\<forall>m \<in> set ?found. \<not> conflicts (matchConfig g) l m)
      \<and> ((\<exists>ms. usptoProvider g l = Inr ms) \<or> (\<exists>ms. euipoProvider g l = Inr ms))
      \<and> ((\<exists>ms. usptoProvider g l = Inr ms) \<or> isStrictTld psl domain = Some False)
      \<and> (\<forall>err. usptoProvider g l = Inl err \<or> euipoProvider g l = Inl err \<longrightarrow> \<not> isTruncation err)"
    if "g_verdict r = Clear"
  proof -
    have "\<not> (\<exists>m \<in> set ?found. conflicts (matchConfig g) l m)" using b that by simp
    then show ?thesis using judge_Clear [OF *(4) that] u(2,3) e(2,3) by blast
  qed
  show ?thesis using *(1) b m c by (simp add: Let_def)
qed

section \<open>Properties\<close>

text \<open>
  C5. The gate is fail-closed: a domain is cleared only if at least one register answered, no
  mark that any register returned conflicts with its label, neither register reported a
  truncated result, and, for a TLD whose register is mandatory, the USPTO answered; a verdict
  Blocked is given exactly when a returned mark conflicts, and it names such a mark.
\<close>

theorem gate_clear_requires_evidence:
  assumes "check g env psl ab domain = Inr r"
  shows "\<exists>l. search_label env psl domain = Some l
    \<and> (let found = answered (usptoProvider g l) @ answered (euipoProvider g l)
       in (g_verdict r = Blocked \<longleftrightarrow> (\<exists>m \<in> set found. conflicts (matchConfig g) l m))
        \<and> (g_verdict r = Blocked \<longrightarrow>
             (\<exists>m \<in> set found. matched r = Some m \<and> conflicts (matchConfig g) l m))
        \<and> (g_verdict r = Clear \<longrightarrow>
             (\<forall>m \<in> set found. \<not> conflicts (matchConfig g) l m)
             \<and> ((\<exists>ms. usptoProvider g l = Inr ms) \<or> (\<exists>ms. euipoProvider g l = Inr ms))
             \<and> ((\<exists>ms. usptoProvider g l = Inr ms) \<or> isStrictTld psl domain = Some False)
             \<and> (\<forall>err. usptoProvider g l = Inl err \<or> euipoProvider g l = Inl err \<longrightarrow> \<not> isTruncation err)))"
  using check_evidence [OF assms] .

definition example_gate :: trademark_gate where
  "example_gate = new_gate (\<lambda>_. Inr [apple_mark]) (\<lambda>_. Inl \<lparr>code = None\<rparr>) None None"

theorem gate_clear_requires_evidence_witness:
  "\<exists>r. check example_gate example_idna example_psl False ''nike.co.uk'' = Inr r
    \<and> g_verdict r = Clear \<and> (\<forall>m \<in> {apple_mark}. \<not> conflicts DEFAULT_MATCH_DETECTOR_CONFIG ''nike'' m)"
proof -
  let ?c = "check example_gate example_idna example_psl False ''nike.co.uk''"
  obtain r where r: "?c = Inr r" "g_verdict r = Clear"
  proof -
    have "(case ?c of Inr r \<Rightarrow> g_verdict r = Clear | Inl _ \<Rightarrow> False)" by code_simp
    then show ?thesis using that by (auto split: sum.splits)
  qed
  have "search_label example_idna example_psl ''nike.co.uk'' = Some ''nike''" by code_simp
  with gate_clear_requires_evidence [OF r(1)] r show ?thesis
    by (auto simp: Let_def example_gate_def new_gate_def answered_def)
qed

text \<open>
  A label without a letter or digit of the ASCII range is never blocked: even when a
  register returns a mark with exactly that name, the gate clears the domain once a mandatory
  register has answered.
\<close>

theorem gate_clears_non_latin_mark:
  assumes "search_label env psl domain = Some l" "tokenise l = []"
    and "usptoProvider g l = Inr us" "euipoProvider g l = Inr es"
  shows "\<exists>r. check g env psl ab domain = Inr r \<and> g_verdict r = Clear"
  using assms
  by (simp add: check_def searchSource_def judge_def detectMatch_def verified_def Let_def)

definition eszett_psl :: "string \<Rightarrow> psl_result" where
  "eszett_psl s = PslParsed (Some ''xn--zca'') (Some ''com'')"

definition eszett :: char where
  "eszett = char_of (223 :: nat)"

definition eszett_idna :: idna where
  "eszett_idna = \<lparr>domainToASCII = Some, domainToUnicode = (\<lambda>_. Some [eszett])\<rparr>"

definition eszett_gate :: trademark_gate where
  "eszett_gate = new_gate (\<lambda>l. Inr [\<lparr>markName = l, owner = ''x'', status = ''live'', source = ''USPTO''\<rparr>])
     (\<lambda>_. Inr []) None None"

theorem gate_clears_non_latin_mark_witness:
  "\<exists>r. check eszett_gate eszett_idna eszett_psl False ''xn--zca.com'' = Inr r \<and> g_verdict r = Clear
    \<and> usptoProvider eszett_gate [eszett]
        = Inr [\<lparr>markName = [eszett], owner = ''x'', status = ''live'', source = ''USPTO''\<rparr>]"
proof -
  have "search_label eszett_idna eszett_psl ''xn--zca.com'' = Some [eszett]" "tokenise [eszett] = []"
    by code_simp+
  from gate_clears_non_latin_mark [OF this, of eszett_gate] show ?thesis
    by (simp add: eszett_gate_def new_gate_def)
qed

end
