(* ===== verification/JobQueue.thy ===== *)
theory JobQueue
  imports Prelude
begin

text \<open>
  The persistent job queue: \<open>src/db/repositories/job-queue-repository.ts\<close>. The tables
  \<open>job_queue\<close> and \<open>dead_letter_jobs\<close> are lists of rows; each SQL statement of the repository
  is a definition on them, and \<open>fail\<close> and \<open>retryDeadLetter\<close> compose them. Timestamps have a
  resolution of a second, as the strings that the code stores. The order of rows that tie on
  priority and time is the database's choice, the parameter \<open>tie\<close>. The step relation lets any
  number of workers dequeue, finish, fail, abort and be reaped in any order.
\<close>

section \<open>Tables\<close>

datatype job_status = Queued | Running | Completed | Failed | DeadLetter

type_synonym sec = int

record job =
  jid :: nat
  jobType :: string
  payloadJson :: string
  status :: job_status
  priority :: int
  attempts :: nat
  maxAttempts :: nat
  scheduledAt :: sec
  startedAt :: "sec option"
  finishedAt :: "sec option"
  error :: "string option"
  resultJson :: "string option"
  createdAt :: sec
  updatedAt :: sec
  lockedBy :: "string option"
  heartbeatAt :: "sec option"

record dead_letter =
  dl_id :: nat
  originalJobId :: nat
  dl_jobType :: string
  dl_payloadJson :: string
  dl_error :: string
  dl_attempts :: nat
  failedAt :: sec
  originalCreatedAt :: sec

record queue_db =
  jobs :: "job list"
  dead :: "dead_letter list"
  next_job :: nat
  next_dead :: nat

definition empty_db :: queue_db where
  "empty_db = \<lparr>jobs = [], dead = [], next_job = 1, next_dead = 1\<rparr>"

text \<open>The two clocks: that of the process, in milliseconds, and that of the database.\<close>

record clocks =
  js_now :: ms
  db_now :: sec

definition ts :: "ms \<Rightarrow> sec" where
  "ts t = t div 1000"

section \<open>Statements\<close>

record enqueue_options =
  o_priority :: "int option"
  o_maxAttempts :: "nat option"
  o_scheduledAt :: "sec option"

definition no_options :: enqueue_options where
  "no_options = \<lparr>o_priority = None, o_maxAttempts = None, o_scheduledAt = None\<rparr>"

definition new_job :: "clocks \<Rightarrow> nat \<Rightarrow> string \<Rightarrow> string \<Rightarrow> enqueue_options \<Rightarrow> job" where
  "new_job c i ty payload opts =
     \<lparr>jid = i, jobType = ty, payloadJson = payload, status = Queued,
      priority = (case o_priority opts of Some p \<Rightarrow> p | None \<Rightarrow> 0), attempts = 0,
      maxAttempts = (case o_maxAttempts opts of Some m \<Rightarrow> m | None \<Rightarrow> 3),
      scheduledAt = (case o_scheduledAt opts of Some t \<Rightarrow> t | None \<Rightarrow> ts (js_now c)),
      startedAt = None, finishedAt = None, error = None, resultJson = None,
      createdAt = db_now c, updatedAt = db_now c, lockedBy = None, heartbeatAt = None\<rparr>"

definition enqueue ::
  "clocks \<Rightarrow> string \<Rightarrow> string \<Rightarrow> enqueue_options \<Rightarrow> queue_db \<Rightarrow> nat \<times> queue_db" where
  "enqueue c ty payload opts db =
     (let i = next_job db
      in (i, db\<lparr>jobs := jobs db @ [new_job c i ty payload opts], next_job := i + 1\<rparr>))"

definition depth :: "queue_db \<Rightarrow> nat" where
  "depth db = length (filter (\<lambda>j. status j = Queued \<or> status j = Running) (jobs db))"

text \<open>\<open>None\<close>: the queue is full and the call throws.\<close>

definition enqueueWithDepthCheck ::
  "clocks \<Rightarrow> string \<Rightarrow> string \<Rightarrow> nat \<Rightarrow> enqueue_options \<Rightarrow> queue_db \<Rightarrow> (nat \<times> queue_db) option" where
  "enqueueWithDepthCheck c ty payload maxDepth opts db =
     (if depth db < maxDepth then Some (enqueue c ty payload opts db) else None)"

definition update_job :: "nat \<Rightarrow> (job \<Rightarrow> job) \<Rightarrow> queue_db \<Rightarrow> queue_db" where
  "update_job i f db = db\<lparr>jobs := map (\<lambda>j. if jid j = i then f j else j) (jobs db)\<rparr>"

definition getById :: "nat \<Rightarrow> queue_db \<Rightarrow> job option" where
  "getById i db = find (\<lambda>j. jid j = i) (jobs db)"

definition eligible :: "sec \<Rightarrow> queue_db \<Rightarrow> job list" where
  "eligible now db = filter (\<lambda>j. status j = Queued \<and> scheduledAt j \<le> now) (jobs db)"

definition before :: "job \<Rightarrow> job \<Rightarrow> bool" where
  "before j k = (priority j > priority k \<or> (priority j = priority k \<and> scheduledAt j < scheduledAt k))"

definition first_jobs :: "job list \<Rightarrow> job list" where
  "first_jobs js = filter (\<lambda>j. \<not> list_ex (\<lambda>k. before k j) js) js"

definition claim :: "clocks \<Rightarrow> string \<Rightarrow> job \<Rightarrow> job" where
  "claim c worker j = j\<lparr>status := Running, attempts := attempts j + 1, startedAt := Some (db_now c),
     heartbeatAt := Some (db_now c), lockedBy := Some worker, updatedAt := db_now c\<rparr>"

definition dequeue ::
  "(job list \<Rightarrow> job) \<Rightarrow> clocks \<Rightarrow> string \<Rightarrow> queue_db \<Rightarrow> job option \<times> queue_db" where
  "dequeue tie c worker db =
     (let best = first_jobs (eligible (ts (js_now c)) db)
      in if best = [] then (None, db)
         else let j = tie best
              in (Some (claim c worker j), update_job (jid j) (claim c worker) db))"

definition valid_tie :: "(job list \<Rightarrow> job) \<Rightarrow> bool" where
  "valid_tie tie = (\<forall>js. js \<noteq> [] \<longrightarrow> tie js \<in> set js)"

definition heartbeat :: "clocks \<Rightarrow> nat list \<Rightarrow> string \<Rightarrow> queue_db \<Rightarrow> queue_db" where
  "heartbeat c ids worker db =
     (if ids = [] then db
      else db\<lparr>jobs := map (\<lambda>j. if List.member ids (jid j) \<and> lockedBy j = Some worker \<and> status j = Running
                          then j\<lparr>heartbeatAt := Some (db_now c), updatedAt := db_now c\<rparr> else j) (jobs db)\<rparr>)"

definition complete :: "clocks \<Rightarrow> nat \<Rightarrow> string \<Rightarrow> queue_db \<Rightarrow> queue_db" where
  "complete c i result db =
     update_job i (\<lambda>j. j\<lparr>status := Completed, finishedAt := Some (db_now c),
       resultJson := Some result, updatedAt := db_now c\<rparr>) db"

definition RETRY_BASE_MS :: nat where
  "RETRY_BASE_MS = 5000"

definition RETRY_MAX_MS :: nat where
  "RETRY_MAX_MS = 5 * 60000"

definition backoffMs :: "nat \<Rightarrow> nat" where
  "backoffMs n = min (RETRY_BASE_MS * 2 ^ (n - 1)) RETRY_MAX_MS"

text \<open>The jitter is a random number of the unit interval.\<close>

definition run_at :: "clocks \<Rightarrow> real \<Rightarrow> nat \<Rightarrow> sec" where
  "run_at c random n = ts \<lfloor>of_int (js_now c) + real (backoffMs n) * (1 + random * (1 / 10))\<rfloor>"

definition moveToDeadLetter :: "clocks \<Rightarrow> nat \<Rightarrow> string \<Rightarrow> nat \<Rightarrow> queue_db \<Rightarrow> queue_db" where
  "moveToDeadLetter c i err n db =
     (case getById i db of
        None \<Rightarrow> db
      | Some j \<Rightarrow>
          db\<lparr>dead := dead db @ [\<lparr>dl_id = next_dead db, originalJobId = jid j, dl_jobType = jobType j,
               dl_payloadJson = payloadJson j, dl_error = err, dl_attempts = n,
               failedAt = db_now c, originalCreatedAt = createdAt j\<rparr>],
             next_dead := next_dead db + 1,
             jobs := filter (\<lambda>k. jid k \<noteq> i) (jobs db)\<rparr>)"

definition fail :: "clocks \<Rightarrow> real \<Rightarrow> nat \<Rightarrow> string \<Rightarrow> queue_db \<Rightarrow> bool \<times> queue_db" where
  "fail c random i err db =
     (case getById i db of
        None \<Rightarrow> (False, db)
      | Some j \<Rightarrow>
          if attempts j \<ge> maxAttempts j then (True, moveToDeadLetter c i err (attempts j) db)
          else (False, update_job i (\<lambda>k. k\<lparr>status := Queued, error := Some err,
                  scheduledAt := run_at c random (attempts j), updatedAt := db_now c\<rparr>) db))"

definition stuck :: "sec \<Rightarrow> job \<Rightarrow> bool" where
  "stuck cutoff j =
     (status j = Running
      \<and> (case heartbeatAt j of
           Some h \<Rightarrow> h \<le> cutoff
         | None \<Rightarrow> (case startedAt j of Some s \<Rightarrow> s \<le> cutoff | None \<Rightarrow> False)))"

definition requeueStuck :: "clocks \<Rightarrow> int \<Rightarrow> queue_db \<Rightarrow> nat \<times> queue_db" where
  "requeueStuck c maxRunningAgeMs db =
     (let cutoff = ts (js_now c - maxRunningAgeMs)
      in (length (filter (stuck cutoff) (jobs db)),
          db\<lparr>jobs := map (\<lambda>j. if stuck cutoff j
               then j\<lparr>status := Queued, startedAt := None, lockedBy := None, heartbeatAt := None,
                      updatedAt := db_now c\<rparr> else j) (jobs db)\<rparr>))"

definition list_jobs :: "(job list \<Rightarrow> job list) \<Rightarrow> job_status option \<Rightarrow> string option \<Rightarrow> nat option \<Rightarrow>
  nat option \<Rightarrow> queue_db \<Rightarrow> job list" where
  "list_jobs order st ty limit offset db =
     take (case limit of Some n \<Rightarrow> n | None \<Rightarrow> 100)
       (drop (case offset of Some n \<Rightarrow> n | None \<Rightarrow> 0)
         (order (filter (\<lambda>j. (case st of Some s \<Rightarrow> status j = s | None \<Rightarrow> True)
            \<and> (case ty of Some t \<Rightarrow> jobType j = t | None \<Rightarrow> True)) (jobs db))))"

record job_stats =
  s_queued :: nat
  s_running :: nat
  s_completed :: nat
  s_failed :: nat
  s_deadLetter :: nat
  s_total :: nat

definition count_status :: "job_status \<Rightarrow> queue_db \<Rightarrow> nat" where
  "count_status s db = length (filter (\<lambda>j. status j = s) (jobs db))"

text \<open>
  The count of the status \<open>dead_letter\<close> is stored under its own name, not under \<open>deadLetter\<close>.
\<close>

definition getStats :: "queue_db \<Rightarrow> job_stats" where
  "getStats db = \<lparr>s_queued = count_status Queued db, s_running = count_status Running db,
     s_completed = count_status Completed db, s_failed = count_status Failed db, s_deadLetter = 0,
     s_total = length (jobs db)\<rparr>"

definition countDeadLetter :: "queue_db \<Rightarrow> nat" where
  "countDeadLetter db = length (dead db)"

definition retryDeadLetter :: "clocks \<Rightarrow> nat \<Rightarrow> queue_db \<Rightarrow> nat option \<times> queue_db" where
  "retryDeadLetter c d db =
     (case find (\<lambda>l. dl_id l = d) (dead db) of
        None \<Rightarrow> (None, db)
      | Some l \<Rightarrow>
          let (i, db1) = enqueue c (dl_jobType l) (dl_payloadJson l)
                \<lparr>o_priority = Some 10, o_maxAttempts = Some 3, o_scheduledAt = None\<rparr> db
          in (Some i, db1\<lparr>dead := filter (\<lambda>k. dl_id k \<noteq> d) (dead db1)\<rparr>))"

definition old_completed :: "sec \<Rightarrow> job \<Rightarrow> bool" where
  "old_completed cutoff j =
     (status j = Completed \<and> (case finishedAt j of Some t \<Rightarrow> t < cutoff | None \<Rightarrow> False))"

definition deleteCompleted :: "clocks \<Rightarrow> int \<Rightarrow> queue_db \<Rightarrow> nat \<times> queue_db" where
  "deleteCompleted c days db =
     (let cutoff = ts (js_now c - days * 24 * 60 * 60 * 1000)
      in (length (filter (old_completed cutoff) (jobs db)),
          db\<lparr>jobs := filter (\<lambda>j. \<not> old_completed cutoff j) (jobs db)\<rparr>))"

definition deleteDeadLetter :: "clocks \<Rightarrow> int \<Rightarrow> queue_db \<Rightarrow> nat \<times> queue_db" where
  "deleteDeadLetter c days db =
     (let cutoff = ts (js_now c - days * 24 * 60 * 60 * 1000)
      in (length (filter (\<lambda>l. failedAt l < cutoff) (dead db)),
          db\<lparr>dead := filter (\<lambda>l. \<not> failedAt l < cutoff) (dead db)\<rparr>))"

section \<open>The workers\<close>

text \<open>
  The executions in progress: which worker is handling which job. A worker that has finished
  reports by job jid, whatever has happened to the row in the meantime; one that was aborted
  or crashed does not report.
\<close>

record system =
  db :: queue_db
  active :: "(string \<times> nat) list"
  purged :: "nat set"

definition initial :: system where
  "initial = \<lparr>db = empty_db, active = [], purged = {}\<rparr>"

text \<open>\<open>reaping\<close> says whether stuck jobs are requeued, that is whether an execution may go stale.\<close>

inductive step :: "bool \<Rightarrow> system \<Rightarrow> system \<Rightarrow> bool" for reaping :: bool where
  enqueue: "m > 0 \<Longrightarrow> step reaping s
     (s\<lparr>db := snd (enqueue c ty payload (opts\<lparr>o_maxAttempts := Some m\<rparr>) (db s))\<rparr>)"
| dequeue: "\<lbrakk>valid_tie tie; dequeue tie c w (db s) = (Some j, d)\<rbrakk> \<Longrightarrow>
     step reaping s (s\<lparr>db := d, active := (w, jid j) # active s\<rparr>)"
| complete: "(w, i) \<in> set (active s) \<Longrightarrow>
     step reaping s (s\<lparr>db := complete c i res (db s), active := remove1 (w, i) (active s)\<rparr>)"
| fail: "(w, i) \<in> set (active s) \<Longrightarrow>
     step reaping s (s\<lparr>db := snd (fail c r i e (db s)), active := remove1 (w, i) (active s)\<rparr>)"
| vanish: "step reaping s (s\<lparr>active := remove1 (w, i) (active s)\<rparr>)"
| beat: "step reaping s (s\<lparr>db := heartbeat c ids w (db s)\<rparr>)"
| reap: "reaping \<Longrightarrow> step reaping s (s\<lparr>db := snd (requeueStuck c age (db s))\<rparr>)"
| retry: "step reaping s (s\<lparr>db := snd (retryDeadLetter c d (db s)),
     purged := purged s \<union> originalJobId ` {l \<in> set (dead (db s)). dl_id l = d}\<rparr>)"
| purge_jobs: "step reaping s (s\<lparr>db := snd (deleteCompleted c days (db s)),
     purged := purged s \<union> jid ` {j \<in> set (jobs (db s)). status j = Completed
                                  \<and> j \<notin> set (jobs (snd (deleteCompleted c days (db s))))}\<rparr>)"
| purge_dead: "step reaping s (s\<lparr>db := snd (deleteDeadLetter c days (db s)),
     purged := purged s \<union> originalJobId ` {l \<in> set (dead (db s)).
                                  l \<notin> set (dead (snd (deleteDeadLetter c days (db s))))}\<rparr>)"

inductive reachable :: "bool \<Rightarrow> system \<Rightarrow> bool" for reaping :: bool where
  start: "reachable reaping initial"
| another: "reachable reaping s \<Longrightarrow> step reaping s t \<Longrightarrow> reachable reaping t"

section \<open>Effects of the statements\<close>

lemma update_job_simps [simp]:
  "dead (update_job i f d) = dead d" "next_job (update_job i f d) = next_job d"
  "next_dead (update_job i f d) = next_dead d"
  by (simp_all add: update_job_def)

lemma map_jid_update [simp]:
  "(\<And>j. jid (f j) = jid j) \<Longrightarrow> map jid (jobs (update_job i f d)) = map jid (jobs d)"
  by (simp add: update_job_def comp_def if_distrib cong: if_cong)

lemma set_update_job:
  "set (jobs (update_job i f d)) = (\<lambda>j. if jid j = i then f j else j) ` set (jobs d)"
  by (simp add: update_job_def)

lemma claim_simps [simp]:
  "jid (claim c w j) = jid j" "maxAttempts (claim c w j) = maxAttempts j"
  "attempts (claim c w j) = attempts j + 1" "status (claim c w j) = Running"
  "lockedBy (claim c w j) = Some w"
  by (simp_all add: claim_def)

lemma getById_Some: "getById i d = Some j \<Longrightarrow> j \<in> set (jobs d) \<and> jid j = i"
  by (auto simp: getById_def find_Some_iff)

lemma getById_None: "getById i d = None \<longleftrightarrow> i \<notin> jid ` set (jobs d)"
  by (auto simp: getById_def find_None_iff)

lemma getById_unique:
  assumes "distinct (map jid (jobs d))" "j \<in> set (jobs d)"
  shows "getById (jid j) d = Some j"
proof -
  obtain k where k: "getById (jid j) d = Some k"
    using getById_None [of "jid j" d] assms(2) by auto
  from getById_Some [OF this] have "k \<in> set (jobs d)" "jid k = jid j" by auto
  with assms have "k = j" by (simp add: distinct_map inj_on_def)
  with k show ?thesis by simp
qed

text \<open>The first jobs of a non-empty list exist: the order is a strict weak order on a list.\<close>

lemma before_trans: "before a b \<Longrightarrow> before b c \<Longrightarrow> before a c"
  by (auto simp: before_def)

lemma before_irrefl: "\<not> before a a"
  by (simp add: before_def)

lemma exists_first: "js \<noteq> [] \<Longrightarrow> \<exists>j \<in> set js. \<forall>k \<in> set js. \<not> before k j"
proof (induction js)
  case (Cons j js)
  show ?case
  proof (cases "js = []")
    case False
    then obtain m where m: "m \<in> set js" "\<forall>k \<in> set js. \<not> before k m" using Cons.IH by blast
    show ?thesis
    proof (cases "before j m")
      case True
      have "\<not> before k j" if "k \<in> set js" for k
        using before_trans [OF _ True] m(2) that by blast
      then show ?thesis using before_irrefl by auto
    next
      case False
      then show ?thesis using m by auto
    qed
  qed (simp add: before_irrefl)
qed simp

lemma first_jobs_Nil: "first_jobs js = [] \<longleftrightarrow> js = []"
  using exists_first [of js] by (auto simp: first_jobs_def filter_empty_conv list_ex_iff)

lemma first_jobs_in: "j \<in> set (first_jobs js) \<longleftrightarrow> j \<in> set js \<and> (\<forall>k \<in> set js. \<not> before k j)"
  by (auto simp: first_jobs_def list_ex_iff)

lemma dequeue_Some:
  assumes "valid_tie tie" "dequeue tie c w d = (Some j', d')"
  shows "\<exists>j. j \<in> set (jobs d) \<and> status j = Queued \<and> scheduledAt j \<le> ts (js_now c)
    \<and> (\<forall>k \<in> set (eligible (ts (js_now c)) d). \<not> before k j)
    \<and> j' = claim c w j \<and> d' = update_job (jid j) (claim c w) d"
proof -
  let ?e = "eligible (ts (js_now c)) d"
  have ne: "first_jobs ?e \<noteq> []" using assms(2) by (auto simp: dequeue_def Let_def split: if_splits)
  have "tie (first_jobs ?e) \<in> set (first_jobs ?e)" using assms(1) ne by (simp add: valid_tie_def)
  then have "tie (first_jobs ?e) \<in> set ?e" "\<forall>k \<in> set ?e. \<not> before k (tie (first_jobs ?e))"
    by (simp_all add: first_jobs_in)
  moreover have "j' = claim c w (tie (first_jobs ?e))"
    "d' = update_job (jid (tie (first_jobs ?e))) (claim c w) d"
    using assms(2) ne by (auto simp: dequeue_def Let_def)
  ultimately show ?thesis
    by (intro exI [of _ "tie (first_jobs ?e)"]) (simp add: eligible_def)
qed

section \<open>No job is lost\<close>

definition live :: "queue_db \<Rightarrow> nat set" where
  "live d = jid ` set (jobs d) \<union> originalJobId ` set (dead d)"

definition wf_db :: "queue_db \<Rightarrow> bool" where
  "wf_db d = (distinct (map jid (jobs d)) \<and> (\<forall>j \<in> set (jobs d). jid j < next_job d)
     \<and> 0 < next_job d)"

definition accounted :: "system \<Rightarrow> bool" where
  "accounted s = (wf_db (db s) \<and> {1..<next_job (db s)} \<subseteq> live (db s) \<union> purged s)"

lemma accounted_cong:
  assumes "accounted s" "map jid (jobs d) = map jid (jobs (db s))" "dead d = dead (db s)"
    "next_job d = next_job (db s)"
  shows "accounted (s\<lparr>db := d, active := a\<rparr>)" "accounted (s\<lparr>db := d\<rparr>)"
proof -
  have s: "jid ` set (jobs d) = jid ` set (jobs (db s))"
    using arg_cong [OF assms(2), of set] by simp
  then have "(\<forall>j \<in> set (jobs d). jid j < n) \<longleftrightarrow> (\<forall>j \<in> set (jobs (db s)). jid j < n)" for n
    by (metis (no_types, lifting) imageE imageI)
  with s show "accounted (s\<lparr>db := d, active := a\<rparr>)" "accounted (s\<lparr>db := d\<rparr>)"
    using assms by (simp_all add: accounted_def wf_db_def live_def)
qed

lemma accounted_enqueue:
  assumes "accounted s"
  shows "accounted (s\<lparr>db := snd (enqueue c ty p opts (db s))\<rparr>)"
proof -
  have "{1..<next_job (db s) + 1} \<subseteq> insert (next_job (db s)) {1..<next_job (db s)}" by auto
  then have "{1..<next_job (db s) + 1} \<subseteq> insert (next_job (db s)) (live (db s) \<union> purged s)"
    using assms by (auto simp: accounted_def)
  moreover have "next_job (db s) \<notin> jid ` set (jobs (db s))"
    using assms by (auto simp: accounted_def wf_db_def)
  ultimately show ?thesis
    using assms by (auto simp: accounted_def enqueue_def Let_def live_def wf_db_def new_job_def)
qed

lemma accounted_fail:
  assumes "accounted s"
  shows "accounted (s\<lparr>db := snd (fail c r i e (db s)), active := a\<rparr>)"
proof (cases "getById i (db s)")
  case None
  then show ?thesis using assms by (simp add: fail_def accounted_def)
next
  case (Some j)
  note j = getById_Some [OF Some]
  show ?thesis
  proof (cases "attempts j \<ge> maxAttempts j")
    case True
    then show ?thesis
      using assms Some j
      by (auto simp: fail_def moveToDeadLetter_def accounted_def wf_db_def live_def distinct_map
          inj_on_def)
  next
    case False
    then show ?thesis
      using Some by (simp add: fail_def) (rule accounted_cong [OF assms]; simp)
  qed
qed

lemma accounted_retry:
  assumes "accounted s"
  shows "accounted (s\<lparr>db := snd (retryDeadLetter c d (db s)),
     purged := purged s \<union> originalJobId ` {l \<in> set (dead (db s)). dl_id l = d}\<rparr>)"
proof (cases "find (\<lambda>l. dl_id l = d) (dead (db s))")
  case None
  then show ?thesis using assms by (auto simp: retryDeadLetter_def accounted_def)
next
  case (Some l)
  let ?o = "\<lparr>o_priority = Some 10, o_maxAttempts = Some 3, o_scheduledAt = None\<rparr>"
  have "accounted (s\<lparr>db := snd (enqueue c (dl_jobType l) (dl_payloadJson l) ?o (db s))\<rparr>)"
    by (rule accounted_enqueue [OF assms])
  moreover have "originalJobId ` set (dead (db s))
      = originalJobId ` {k \<in> set (dead (db s)). dl_id k = d}
        \<union> originalJobId ` {k \<in> set (dead (db s)). dl_id k \<noteq> d}"
    by auto
  ultimately show ?thesis
    using Some by (simp add: retryDeadLetter_def accounted_def enqueue_def Let_def live_def wf_db_def
        Un_ac)
qed

lemma deleteCompleted_jobs:
  "\<exists>Q. snd (deleteCompleted c days d) = d\<lparr>jobs := filter (\<lambda>j. \<not> Q j) (jobs d)\<rparr>
    \<and> (\<forall>j. Q j \<longrightarrow> status j = Completed)"
  by (intro exI [of _ "old_completed (ts (js_now c - days * 24 * 60 * 60 * 1000))"])
    (simp add: deleteCompleted_def Let_def old_completed_def)

lemma accounted_delete:
  assumes "accounted s" "set (jobs d) \<subseteq> set (jobs (db s))" "distinct (map jid (jobs d))"
    "next_job d = next_job (db s)" "live (db s) \<subseteq> live d \<union> P"
  shows "accounted (s\<lparr>db := d, purged := purged s \<union> P\<rparr>)"
proof -
  have "{1..<next_job d} \<subseteq> live d \<union> (purged s \<union> P)"
    using assms(1,4,5) by (simp add: accounted_def) blast
  moreover have "wf_db d" using assms(1-4) by (auto simp: accounted_def wf_db_def)
  ultimately show ?thesis by (simp add: accounted_def)
qed

lemma accounted_step:
  assumes "accounted s" "step reaping s t"
  shows "accounted t"
  using assms(2)
proof cases
  case (enqueue m c ty payload opts)
  then show ?thesis using accounted_enqueue [OF assms(1)] by simp
next
  case (dequeue tie c w j d)
  obtain j0 :: job where "d = update_job (jid j0) (claim c w) (db s)"
    using dequeue_Some [OF dequeue(2,3)] by metis
  then show ?thesis
    using dequeue(1) accounted_cong(1) [OF assms(1), of d] by simp
next
  case (complete w i c res)
  then show ?thesis
    using accounted_cong(1) [OF assms(1), of "complete c i res (db s)"] by (simp add: complete_def)
next
  case (fail w i c r e)
  then show ?thesis using accounted_fail [OF assms(1)] by simp
next
  case (vanish w i)
  then show ?thesis using assms(1) by (simp add: accounted_def)
next
  case (beat c ids w)
  have "map jid (jobs (heartbeat c ids w (db s))) = map jid (jobs (db s))"
    "dead (heartbeat c ids w (db s)) = dead (db s)" "next_job (heartbeat c ids w (db s)) = next_job (db s)"
    by (simp_all add: heartbeat_def comp_def if_distrib cong: if_cong)
  then show ?thesis using accounted_cong(2) [OF assms(1)] beat by simp
next
  case (reap c age)
  have "map jid (jobs (snd (requeueStuck c age (db s)))) = map jid (jobs (db s))"
    "dead (snd (requeueStuck c age (db s))) = dead (db s)"
    "next_job (snd (requeueStuck c age (db s))) = next_job (db s)"
    by (simp_all add: requeueStuck_def Let_def comp_def if_distrib cong: if_cong)
  then show ?thesis using accounted_cong(2) [OF assms(1)] reap by simp
next
  case (retry c d)
  then show ?thesis using accounted_retry [OF assms(1)] by simp
next
  case (purge_jobs c days)
  let ?d = "snd (deleteCompleted c days (db s))"
  let ?P = "{j \<in> set (jobs (db s)). status j = Completed \<and> j \<notin> set (jobs ?d)}"
  obtain Q where Q: "?d = (db s)\<lparr>jobs := filter (\<lambda>j. \<not> Q j) (jobs (db s))\<rparr>"
    "\<And>j. Q j \<Longrightarrow> status j = Completed"
    using deleteCompleted_jobs [of c days "db s"] by blast
  have sub: "set (jobs ?d) \<subseteq> set (jobs (db s))" unfolding Q(1) by auto
  have del: "set (jobs (db s)) \<subseteq> set (jobs ?d) \<union> ?P" unfolding Q(1) using Q(2) by auto
  have rest: "distinct (map jid (jobs ?d))" "dead ?d = dead (db s)" "next_job ?d = next_job (db s)"
    using assms(1) unfolding Q(1) by (simp_all add: accounted_def wf_db_def distinct_map_filter)
  have "jid ` set (jobs (db s)) \<subseteq> jid ` set (jobs ?d) \<union> jid ` ?P"
    using image_mono [OF del, of jid] by (simp only: image_Un)
  then have "live (db s) \<subseteq> live ?d \<union> jid ` ?P" by (auto simp: live_def rest(2))
  then show ?thesis
    unfolding purge_jobs using accounted_delete [OF assms(1) sub rest(1,3)] by blast
next
  case (purge_dead c days)
  let ?d = "snd (deleteDeadLetter c days (db s))"
  let ?P = "{l \<in> set (dead (db s)). l \<notin> set (dead ?d)}"
  have j: "jobs ?d = jobs (db s)" "next_job ?d = next_job (db s)"
    by (simp_all add: deleteDeadLetter_def Let_def)
  have "set (dead (db s)) \<subseteq> set (dead ?d) \<union> ?P" by blast
  then have "originalJobId ` set (dead (db s)) \<subseteq> originalJobId ` set (dead ?d) \<union> originalJobId ` ?P"
    using image_mono [of "set (dead (db s))" "set (dead ?d) \<union> ?P" originalJobId]
    by (simp only: image_Un)
  then have "live (db s) \<subseteq> live ?d \<union> originalJobId ` ?P" by (auto simp: live_def j)
  moreover have "distinct (map jid (jobs ?d))" using assms(1) j by (simp add: accounted_def wf_db_def)
  ultimately show ?thesis
    unfolding purge_dead using accounted_delete [OF assms(1), of ?d] j by simp
qed

lemma accounted_reachable: "reachable reaping s \<Longrightarrow> accounted s"
proof (induction rule: reachable.induct)
  case start
  show ?case by (simp add: accounted_def wf_db_def initial_def empty_db_def)
qed (rule accounted_step)

section \<open>Exclusive execution without reaping\<close>

definition held :: "system \<Rightarrow> string \<Rightarrow> nat \<Rightarrow> bool" where
  "held s w i = (\<exists>j \<in> set (jobs (db s)). jid j = i \<and> status j = Running \<and> lockedBy j = Some w)"

definition within_attempts :: "job \<Rightarrow> bool" where
  "within_attempts j = (attempts j \<le> maxAttempts j \<and> (status j = Queued \<longrightarrow> attempts j < maxAttempts j))"

definition exclusive :: "system \<Rightarrow> bool" where
  "exclusive s = (wf_db (db s) \<and> distinct (map snd (active s))
     \<and> (\<forall>(w, i) \<in> set (active s). held s w i)
     \<and> (\<forall>j \<in> set (jobs (db s)). within_attempts j))"

lemma running_unique:
  assumes "wf_db d" "j \<in> set (jobs d)" "k \<in> set (jobs d)" "jid j = jid k"
  shows "j = k"
  using assms by (simp add: wf_db_def distinct_map inj_on_def)

lemma remove1_active:
  assumes "distinct (map snd act)"
  shows "distinct (map snd (remove1 x act))" "set (remove1 x act) \<subseteq> set act"
    "(w, i) \<in> set act \<Longrightarrow> (v, k) \<in> set (remove1 (w, i) act) \<Longrightarrow> k \<noteq> i"
proof -
  show "distinct (map snd (remove1 x act))"
    using assms by (simp add: distinct_map inj_on_diff)
  show "set (remove1 x act) \<subseteq> set act" by (rule set_remove1_subset)
  assume 1: "(w, i) \<in> set act" and 2: "(v, k) \<in> set (remove1 (w, i) act)"
  have d: "distinct act" "inj_on snd (set act)" using assms by (simp_all add: distinct_map)
  have 3: "(v, k) \<in> set act" "(v, k) \<noteq> (w, i)" using 2 d(1) by simp_all
  show "k \<noteq> i"
  proof
    assume "k = i"
    then have "snd (v, k) = snd (w, i)" by simp
    from inj_onD [OF d(2) this 3(1) 1] 3(2) show False by contradiction
  qed
qed

lemma held_update_other:
  assumes "held s w i" "i \<noteq> k" "\<And>j. jid (f j) = jid j"
  shows "held (s\<lparr>db := update_job k f (db s), active := a\<rparr>) w i"
  using assms by (force simp: held_def set_update_job)

lemma exclusive_update:
  assumes "exclusive s" "(w, i) \<in> set (active s)" "\<And>j. jid (f j) = jid j"
    and "\<And>j. j \<in> set (jobs (db s)) \<Longrightarrow> jid j = i \<Longrightarrow> within_attempts (f j)"
  shows "exclusive (s\<lparr>db := update_job i f (db s), active := remove1 (w, i) (active s)\<rparr>)"
proof -
  have d: "distinct (map snd (active s))" using assms(1) by (simp add: exclusive_def)
  have "held (s\<lparr>db := update_job i f (db s), active := remove1 (w, i) (active s)\<rparr>) v k"
    if "(v, k) \<in> set (remove1 (w, i) (active s))" for v k
  proof (rule held_update_other [OF _ _ assms(3)])
    show "held s v k" using assms(1) remove1_active(2) [OF d, of "(w, i)"] that
      by (auto simp: exclusive_def)
    show "k \<noteq> i" by (rule remove1_active(3) [OF d assms(2) that])
  qed
  moreover have "wf_db (update_job i f (db s))"
  proof -
    have "map jid (jobs (update_job i f (db s))) = map jid (jobs (db s))" by (simp add: assms(3))
    moreover have "jid ` set (jobs (update_job i f (db s))) = jid ` set (jobs (db s))"
      using arg_cong [OF calculation, of set] by simp
    ultimately show ?thesis
      using assms(1) by (auto simp: exclusive_def wf_db_def set_update_job assms(3))
  qed
  ultimately show ?thesis
    using assms(1,4) remove1_active(1) [OF d]
    by (auto simp: exclusive_def set_update_job)
qed

lemma exclusive_subset:
  assumes "exclusive s" "set (jobs d) \<subseteq> set (jobs (db s))" "distinct (map jid (jobs d))"
    "next_job d = next_job (db s)" "distinct (map snd a)" "set a \<subseteq> set (active s)"
    and "\<And>w i. (w, i) \<in> set a \<Longrightarrow> held s w i \<Longrightarrow> held (s\<lparr>db := d\<rparr>) w i"
  shows "exclusive (s\<lparr>db := d, active := a\<rparr>)"
  using assms by (fastforce simp: exclusive_def wf_db_def held_def)

lemma wf_enqueue: "wf_db d \<Longrightarrow> wf_db (snd (enqueue c ty p opts d))"
  by (auto simp: enqueue_def Let_def wf_db_def new_job_def)

lemma exclusive_enqueue:
  assumes "exclusive s" "m > 0"
  shows "exclusive (s\<lparr>db := snd (enqueue c ty p (opts\<lparr>o_maxAttempts := Some m\<rparr>) (db s))\<rparr>)"
proof -
  let ?d = "snd (enqueue c ty p (opts\<lparr>o_maxAttempts := Some m\<rparr>) (db s))"
  obtain j where j: "jobs ?d = jobs (db s) @ [j]" "within_attempts j"
    using assms(2) by (simp add: enqueue_def Let_def new_job_def within_attempts_def)
  have "held (s\<lparr>db := ?d\<rparr>) w i" if "held s w i" for w i
    using that by (auto simp: held_def j(1))
  moreover have "wf_db ?d" using assms(1) by (simp add: exclusive_def wf_enqueue)
  ultimately show ?thesis
    using assms(1) j(2) by (auto simp: exclusive_def j(1))
qed

lemma exclusive_dequeue:
  assumes "exclusive s" "valid_tie tie" "dequeue tie c w (db s) = (Some j, d)"
  shows "exclusive (s\<lparr>db := d, active := (w, jid j) # active s\<rparr>)"
proof -
  obtain k where k: "k \<in> set (jobs (db s))" "status k = Queued" "j = claim c w k"
    "d = update_job (jid k) (claim c w) (db s)"
    using dequeue_Some [OF assms(2,3)] by metis
  have wf: "wf_db (db s)" using assms(1) by (simp add: exclusive_def)
  have free: "jid k \<notin> snd ` set (active s)"
  proof
    assume "jid k \<in> snd ` set (active s)"
    then obtain v where "(v, jid k) \<in> set (active s)" by auto
    then obtain l where l: "l \<in> set (jobs (db s))" "jid l = jid k" "status l = Running"
      using assms(1) by (auto simp: exclusive_def held_def)
    with running_unique [OF wf l(1) k(1) l(2)] k(2) show False by simp
  qed
  have other: "held (s\<lparr>db := d, active := a\<rparr>) v i" if "(v, i) \<in> set (active s)" for v i a
    unfolding k(4)
  proof (rule held_update_other)
    show "held s v i" using assms(1) that by (auto simp: exclusive_def)
    show "i \<noteq> jid k" using free that by force
  qed simp
  have new: "held (s\<lparr>db := d, active := a\<rparr>) w (jid j)" for a
    using k by (auto simp: held_def set_update_job intro!: bexI [of _ "claim c w k"] image_eqI [of _ _ k])
  have "within_attempts x" if "x \<in> set (jobs d)" for x
  proof -
    obtain y where y: "y \<in> set (jobs (db s))" "x = (if jid y = jid k then claim c w y else y)"
      using \<open>x \<in> set (jobs d)\<close> by (auto simp: k(4) set_update_job)
    have wy: "within_attempts y" "within_attempts k" using assms(1) y(1) k(1) by (auto simp: exclusive_def)
    show ?thesis
    proof (cases "jid y = jid k")
      case True
      then have "y = k" using running_unique [OF wf y(1) k(1)] by simp
      then show ?thesis using y(2) wy(2) k(2) by (simp add: within_attempts_def)
    qed (use y(2) wy(1) in simp)
  qed
  moreover have "wf_db d"
  proof -
    have "map jid (jobs d) = map jid (jobs (db s))" by (simp add: k(4))
    moreover have "jid ` set (jobs d) = jid ` set (jobs (db s))"
      using arg_cong [OF calculation, of set] by simp
    ultimately show ?thesis using wf by (auto simp: wf_db_def k(4) set_update_job)
  qed
  moreover have "distinct (map snd ((w, jid j) # active s))"
    using assms(1) free k(3) by (simp add: exclusive_def)
  ultimately show ?thesis using other new by (auto simp: exclusive_def)
qed

lemma exclusive_fail:
  assumes "exclusive s" "(w, i) \<in> set (active s)"
  shows "exclusive (s\<lparr>db := snd (fail c r i e (db s)), active := remove1 (w, i) (active s)\<rparr>)"
proof -
  have d: "distinct (map snd (active s))" and wf: "wf_db (db s)"
    using assms(1) by (simp_all add: exclusive_def)
  note act = remove1_active(1,2) [OF d, of "(w, i)"]
  show ?thesis
  proof (cases "getById i (db s)")
    case None
    show ?thesis
      using exclusive_subset [OF assms(1) subset_refl _ refl act] wf None
      by (simp add: fail_def wf_db_def)
  next
    case (Some j)
    note j = getById_Some [OF Some]
    show ?thesis
    proof (cases "attempts j \<ge> maxAttempts j")
      case True
      have k: "k \<noteq> i" if "(v, k) \<in> set (remove1 (w, i) (active s))" for v k
        by (rule remove1_active(3) [OF d assms(2) that])
      show ?thesis
      proof (rule exclusive_subset [OF assms(1) _ _ _ act])
        show "distinct (map jid (jobs (snd (fail c r i e (db s)))))"
          using wf Some True by (simp add: fail_def moveToDeadLetter_def wf_db_def distinct_map_filter)
        show "held (s\<lparr>db := snd (fail c r i e (db s))\<rparr>) v k"
          if "(v, k) \<in> set (remove1 (w, i) (active s))" "held s v k" for v k
          using that(2) k [OF that(1)] Some True
          by (auto simp: fail_def moveToDeadLetter_def held_def)
      qed (use Some True in \<open>auto simp: fail_def moveToDeadLetter_def\<close>)
    next
      case False
      have "within_attempts (k\<lparr>status := Queued, error := Some e, scheduledAt := x, updatedAt := y\<rparr>)"
        if "k \<in> set (jobs (db s))" "jid k = i" for k x y
      proof -
        have "k = j" using running_unique [OF wf that(1), of j] j that(2) by simp
        then show ?thesis using False by (simp add: within_attempts_def)
      qed
      then show ?thesis
        using Some False by (simp add: fail_def) (rule exclusive_update [OF assms]; simp)
    qed
  qed
qed

lemma exclusive_heartbeat:
  assumes "exclusive s"
  shows "exclusive (s\<lparr>db := heartbeat c ids w (db s)\<rparr>)"
proof (cases "ids = []")
  case True
  then show ?thesis using assms by (simp add: heartbeat_def)
next
  case False
  define f where "f j = (if List.member ids (jid j) \<and> lockedBy j = Some w \<and> status j = Running
    then j\<lparr>heartbeatAt := Some (db_now c), updatedAt := db_now c\<rparr> else j)" for j :: job
  have d: "heartbeat c ids w (db s) = (db s)\<lparr>jobs := map f (jobs (db s))\<rparr>"
    using False by (simp add: heartbeat_def f_def [abs_def])
  have f: "jid (f j) = jid j" "status (f j) = status j" "lockedBy (f j) = lockedBy j"
    "within_attempts (f j) = within_attempts j" for j
    by (simp_all add: f_def within_attempts_def)
  have "held (s\<lparr>db := (db s)\<lparr>jobs := map f (jobs (db s))\<rparr>\<rparr>) v k" if "held s v k" for v k
    using that by (auto simp: held_def f)
  then show ?thesis
    unfolding d using assms by (auto simp: exclusive_def wf_db_def comp_def f)
qed

lemma exclusive_step:
  assumes "exclusive s" "step False s t"
  shows "exclusive t"
  using assms(2)
proof cases
  case (enqueue m c ty payload opts)
  then show ?thesis using exclusive_enqueue [OF assms(1)] by simp
next
  case (dequeue tie c w j d)
  then show ?thesis using exclusive_dequeue [OF assms(1)] by simp
next
  case (complete w i c res)
  have "within_attempts (j\<lparr>status := Completed, finishedAt := x, resultJson := y, updatedAt := z\<rparr>)"
    if "j \<in> set (jobs (db s))" for j x y z
    using assms(1) that by (auto simp: exclusive_def within_attempts_def)
  then show ?thesis
    unfolding complete complete_def by (intro exclusive_update [OF assms(1) complete(2)]) simp_all
next
  case (fail w i c r e)
  then show ?thesis using exclusive_fail [OF assms(1)] by simp
next
  case (vanish w i)
  have d: "distinct (map snd (active s))" using assms(1) by (simp add: exclusive_def)
  show ?thesis
    using exclusive_subset [OF assms(1) subset_refl _ refl remove1_active(1,2) [OF d]] assms(1) vanish
    by (simp add: exclusive_def wf_db_def)
next
  case (beat c ids w)
  then show ?thesis using exclusive_heartbeat [OF assms(1)] by simp
next
  case (retry d c)
  show ?thesis
  proof (cases "find (\<lambda>l. dl_id l = d) (dead (db s))")
    case None
    then show ?thesis using assms(1) retry by (simp add: retryDeadLetter_def exclusive_def held_def)
  next
    case (Some l)
    let ?o = "\<lparr>o_priority = Some 10, o_maxAttempts = None, o_scheduledAt = None\<rparr>"
    have "exclusive (s\<lparr>db := snd (enqueue c (dl_jobType l) (dl_payloadJson l)
        (?o\<lparr>o_maxAttempts := Some 3\<rparr>) (db s))\<rparr>)"
      by (rule exclusive_enqueue [OF assms(1)]) simp
    then show ?thesis
      using Some retry
      by (simp add: retryDeadLetter_def Let_def enqueue_def exclusive_def held_def wf_db_def)
  qed
next
  case (purge_jobs c days)
  obtain Q where Q: "snd (deleteCompleted c days (db s))
      = (db s)\<lparr>jobs := filter (\<lambda>j. \<not> Q j) (jobs (db s))\<rparr>" "\<And>j. Q j \<Longrightarrow> status j = Completed"
    using deleteCompleted_jobs [of c days "db s"] by blast
  have "held (s\<lparr>db := (db s)\<lparr>jobs := filter (\<lambda>j. \<not> Q j) (jobs (db s))\<rparr>, purged := P\<rparr>) w i"
    if "held s w i" for w i P
    using that Q(2) by (force simp: held_def)
  then show ?thesis
    unfolding purge_jobs Q(1) using assms(1)
    by (auto simp: exclusive_def wf_db_def distinct_map_filter)
next
  case (purge_dead c days)
  then show ?thesis
    using assms(1) by (simp add: deleteDeadLetter_def Let_def exclusive_def held_def wf_db_def)
qed simp

lemma exclusive_reachable: "reachable False s \<Longrightarrow> exclusive s"
proof (induction rule: reachable.induct)
  case start
  show ?case by (simp add: exclusive_def wf_db_def initial_def empty_db_def)
qed (rule exclusive_step)

section \<open>Properties\<close>

lemma backoff_bounds_ms: "5000 \<le> backoffMs n \<and> backoffMs n \<le> 300000"
proof -
  have "(1::nat) \<le> 2 ^ (n - 1)" by simp
  then have "(5000::nat) \<le> 5000 * 2 ^ (n - 1)" by linarith
  then show ?thesis by (simp add: backoffMs_def RETRY_BASE_MS_def RETRY_MAX_MS_def)
qed

lemma run_at_bounds:
  assumes "0 \<le> r" "r \<le> 1"
  shows "ts (js_now c + int (backoffMs n)) \<le> run_at c r n \<and> run_at c r n \<le> ts (js_now c + 330000)"
proof -
  let ?b = "real (backoffMs n)"
  have b: "0 \<le> ?b" "?b \<le> 300000" using backoff_bounds_ms [of n] by simp_all
  have 1: "?b \<le> ?b * (1 + r * (1 / 10))" using b(1) assms by (simp add: algebra_simps)
  have "?b * (1 + r * (1 / 10)) \<le> 300000 * (1 + 1 / 10)"
    using b assms by (intro mult_mono) simp_all
  then have 2: "?b * (1 + r * (1 / 10)) \<le> 330000" by simp
  have "js_now c + int (backoffMs n) \<le> \<lfloor>of_int (js_now c) + ?b * (1 + r * (1 / 10))\<rfloor>"
    using 1 by (simp add: le_floor_iff)
  moreover have "\<lfloor>of_int (js_now c) + ?b * (1 + r * (1 / 10))\<rfloor> \<le> js_now c + 330000"
    using 2 by (simp add: floor_le_iff)
  ultimately show ?thesis unfolding run_at_def ts_def by (intro conjI zdiv_mono1) simp_all
qed

text \<open>
  C6. No job is lost: however workers dequeue, report, crash, are reaped and rows are retried
  or purged, the ids in the queue are distinct, and every id ever handed out by an enqueue is
  in the queue, in the dead-letter table, or was retired on purpose (a completed job or a
  dead letter that was purged or retried).
\<close>

theorem queue_no_job_lost:
  assumes "reachable reaping s"
  shows "distinct (map jid (jobs (db s)))
    \<and> (\<forall>i. 1 \<le> i \<and> i < next_job (db s) \<longrightarrow>
         i \<in> jid ` set (jobs (db s)) \<or> i \<in> originalJobId ` set (dead (db s)) \<or> i \<in> purged s)"
  using accounted_reachable [OF assms] by (auto simp: accounted_def wf_db_def live_def)

definition c0 :: clocks where
  "c0 = \<lparr>js_now = 0, db_now = 0\<rparr>"

definition c1 :: clocks where
  "c1 = \<lparr>js_now = 1000000, db_now = 1000\<rparr>"

definition db1 :: queue_db where
  "db1 = snd (enqueue c0 ''BACKUP'' ''{}'' (no_options\<lparr>o_maxAttempts := Some 3\<rparr>) empty_db)"

lemma reachable_one: "reachable reaping (initial\<lparr>db := db1\<rparr>)"
  using reachable.another [OF reachable.start step.enqueue
      [of 3 reaping initial c0 "''BACKUP''" "''{}''" no_options]]
  by (simp add: db1_def initial_def)

theorem queue_no_job_lost_witness:
  "1 \<in> jid ` set (jobs db1) \<or> 1 \<in> originalJobId ` set (dead db1) \<or> 1 \<in> purged initial"
proof -
  have "next_job db1 = 2" by (simp add: db1_def enqueue_def empty_db_def Let_def)
  then show ?thesis
    using queue_no_job_lost [OF reachable_one [of True]] by (auto dest!: spec [of _ 1])
qed

text \<open>
  Dequeue hands out the right job, once: it returns nothing only when no queued job is
  due; otherwise it claims one due queued job such that no other due job has a higher
  priority, or the same priority and an earlier time, counts the attempt, marks the worker
  as owner, and leaves every other row alone.
\<close>

theorem dequeue_order:
  assumes "valid_tie tie" "distinct (map jid (jobs d))"
  shows "case dequeue tie c w d of
      (None, d') \<Rightarrow> d' = d \<and> eligible (ts (js_now c)) d = []
    | (Some j', d') \<Rightarrow>
        \<exists>j \<in> set (eligible (ts (js_now c)) d).
          (\<forall>k \<in> set (eligible (ts (js_now c)) d). \<not> before k j)
          \<and> j' = claim c w j
          \<and> getById (jid j) d' = Some (claim c w j)
          \<and> (\<forall>i. i \<noteq> jid j \<longrightarrow> getById i d' = getById i d)"
proof (cases "dequeue tie c w d")
  case (Pair r d')
  show ?thesis
  proof (cases r)
    case None
    then show ?thesis using Pair by (auto simp: dequeue_def Let_def first_jobs_Nil split: if_splits)
  next
    case (Some j')
    then obtain j where j: "j \<in> set (jobs d)" "status j = Queued" "scheduledAt j \<le> ts (js_now c)"
      "\<forall>k \<in> set (eligible (ts (js_now c)) d). \<not> before k j"
      "j' = claim c w j" "d' = update_job (jid j) (claim c w) d"
      using dequeue_Some [OF assms(1)] Pair by metis
    have "distinct (map jid (jobs d'))" using assms(2) by (simp add: j(6))
    moreover have "claim c w j \<in> set (jobs d')" using j(1) by (auto simp: j(6) set_update_job)
    ultimately have "getById (jid j) d' = Some (claim c w j)"
      using getById_unique [of d' "claim c w j"] by simp
    moreover have "getById i d' = getById i d" if "i \<noteq> jid j" for i
    proof -
      have "find (\<lambda>k. jid k = i) (map (\<lambda>k. if jid k = jid j then claim c w k else k) js)
        = find (\<lambda>k. jid k = i) js" for js
        using that by (induction js) auto
      then show ?thesis by (simp add: getById_def j(6) update_job_def)
    qed
    moreover have "j \<in> set (eligible (ts (js_now c)) d)" using j(1-3) by (simp add: eligible_def)
    ultimately show ?thesis using Some Pair j(4,5) by auto
  qed
qed

lemma valid_tie_hd: "valid_tie hd"
  by (simp add: valid_tie_def)

theorem dequeue_order_witness:
  "case dequeue hd c0 ''w'' db1 of (None, _) \<Rightarrow> False | (Some j, _) \<Rightarrow> attempts j = 1"
proof -
  have d: "distinct (map jid (jobs db1))" and e: "eligible (ts (js_now c0)) db1 \<noteq> []"
    and a: "\<forall>j \<in> set (jobs db1). attempts j = 0"
    by (simp_all add: db1_def enqueue_def empty_db_def Let_def new_job_def eligible_def no_options_def
        c0_def)
  show ?thesis
    using dequeue_order [OF valid_tie_hd d, of c0 "''w''"] e a
    by (auto simp: eligible_def split: prod.splits option.splits)
qed

text \<open>
  A failure is retried with bounded backoff until the attempts are used up: a failing
  job with attempts left goes back to the queue with its error, due again no earlier than
  its backoff (5 s doubling to at most 5 minutes) and no later than 5.5 minutes from now;
  at the last attempt it moves, with payload, error and attempt count, to the dead letters.
\<close>

theorem fail_outcome:
  assumes "getById i d = Some j" "distinct (map jid (jobs d))" "0 \<le> r" "r \<le> 1"
  shows "5000 \<le> backoffMs (attempts j) \<and> backoffMs (attempts j) \<le> 300000
    \<and> (if attempts j < maxAttempts j
       then \<exists>d' k. fail c r i e d = (False, d') \<and> getById i d' = Some k
          \<and> status k = Queued \<and> error k = Some e \<and> attempts k = attempts j
          \<and> ts (js_now c + int (backoffMs (attempts j))) \<le> scheduledAt k
          \<and> scheduledAt k \<le> ts (js_now c + 330000) \<and> dead d' = dead d
       else \<exists>d' l. fail c r i e d = (True, d') \<and> getById i d' = None \<and> dead d' = dead d @ [l]
          \<and> originalJobId l = i \<and> dl_payloadJson l = payloadJson j \<and> dl_error l = e
          \<and> dl_attempts l = attempts j)"
proof -
  note j = getById_Some [OF assms(1)]
  show ?thesis
  proof (cases "attempts j < maxAttempts j")
    case True
    let ?f = "\<lambda>k. k\<lparr>status := Queued, error := Some e, scheduledAt := run_at c r (attempts j),
      updatedAt := db_now c\<rparr>"
    have fl: "fail c r i e d = (False, update_job i ?f d)" using assms(1) True by (simp add: fail_def)
    have "?f j \<in> set (jobs (update_job i ?f d))" using j by (auto simp: set_update_job)
    then have "getById i (update_job i ?f d) = Some (?f j)"
      using getById_unique [of "update_job i ?f d" "?f j"] assms(2) j by simp
    then have "\<exists>d' k. fail c r i e d = (False, d') \<and> getById i d' = Some k
          \<and> status k = Queued \<and> error k = Some e \<and> attempts k = attempts j
          \<and> ts (js_now c + int (backoffMs (attempts j))) \<le> scheduledAt k
          \<and> scheduledAt k \<le> ts (js_now c + 330000) \<and> dead d' = dead d"
      using run_at_bounds [OF assms(3,4), of c "attempts j"]
      by (intro exI [of _ "update_job i ?f d"] exI [of _ "?f j"]) (simp add: fl)
    then show ?thesis using True backoff_bounds_ms by simp
  next
    case False
    then show ?thesis
      using assms(1) j backoff_bounds_ms
      by (auto simp: fail_def moveToDeadLetter_def getById_None)
  qed
qed

theorem fail_outcome_witness:
  "\<exists>d' k. fail c0 0 1 ''boom'' db1 = (False, d') \<and> getById 1 d' = Some k \<and> status k = Queued"
proof -
  obtain j where j: "getById 1 db1 = Some j" "distinct (map jid (jobs db1))" "attempts j < maxAttempts j"
    by (simp add: db1_def enqueue_def empty_db_def Let_def new_job_def getById_def)
  from fail_outcome [OF j(1,2), of 0 c0 "''boom''"] j(3) show ?thesis by auto
qed

text \<open>
  C7. As long as no running job is taken for stuck, execution is exclusive and bounded: no
  two workers ever handle the same job, a worker that is handling a job is the recorded
  owner of its running row, and no job has more attempts than its maximum.
\<close>

theorem queue_exclusive_without_reaping:
  assumes "reachable False s"
  shows "distinct (map snd (active s))
    \<and> (\<forall>w i. (w, i) \<in> set (active s) \<longrightarrow>
         (\<exists>j \<in> set (jobs (db s)). jid j = i \<and> status j = Running \<and> lockedBy j = Some w))
    \<and> (\<forall>j \<in> set (jobs (db s)). attempts j \<le> maxAttempts j)"
  using exclusive_reachable [OF assms] by (auto simp: exclusive_def held_def within_attempts_def)

theorem queue_exclusive_without_reaping_witness:
  "\<exists>s. reachable False s \<and> active s = [(''w'', 1)]
    \<and> (\<exists>j \<in> set (jobs (db s)). jid j = 1 \<and> lockedBy j = Some ''w'')"
proof -
  obtain j d where jd: "dequeue hd c0 ''w'' db1 = (Some j, d)" "jid j = 1"
    by (simp add: db1_def enqueue_def empty_db_def Let_def new_job_def dequeue_def eligible_def
        first_jobs_def no_options_def c0_def before_def)
  let ?s = "initial\<lparr>db := d, active := [(''w'', 1)]\<rparr>"
  have r: "reachable False ?s"
    using reachable.another [OF reachable_one
        step.dequeue [OF valid_tie_hd, of c0 "''w''" "initial\<lparr>db := db1\<rparr>" j d]] jd
    by (simp add: initial_def)
  have "\<exists>j \<in> set (jobs (db ?s)). jid j = 1 \<and> status j = Running \<and> lockedBy j = Some ''w''"
    using queue_exclusive_without_reaping [OF r] by simp
  with r show ?thesis by (intro exI [of _ ?s]) auto
qed

definition crashed :: "nat \<Rightarrow> job \<Rightarrow> bool" where
  "crashed n j = (jid j = 1 \<and> status j = Queued \<and> attempts j = n \<and> maxAttempts j = 3
     \<and> scheduledAt j \<le> 0)"

text \<open>
  Reaping does not count against the attempts: a job whose worker dies every time (with a
  maximum of three attempts) is requeued for ever; for every number n there is a run after
  which it has been executed n times, is queued again and nothing is in the dead letters.
\<close>

theorem poison_job_never_dead_lettered:
  "\<exists>s j. reachable True s \<and> jobs (db s) = [j] \<and> crashed n j \<and> dead (db s) = []"
proof (induction n)
  case 0
  have "\<exists>j. jobs db1 = [j] \<and> crashed 0 j \<and> dead db1 = []"
    by (simp add: db1_def enqueue_def empty_db_def Let_def new_job_def no_options_def c0_def
        crashed_def ts_def)
  then show ?case using reachable_one [of True] by (intro exI [of _ "initial\<lparr>db := db1\<rparr>"]) auto
next
  case (Suc n)
  then obtain s j where s: "reachable True s" "jobs (db s) = [j]" "crashed n j" "dead (db s) = []"
    by blast
  have q: "jid j = 1" "status j = Queued" "scheduledAt j \<le> 0" "attempts j = n" "maxAttempts j = 3"
    using s(3) by (simp_all add: crashed_def)
  let ?d = "(db s)\<lparr>jobs := [claim c0 ''w'' j]\<rparr>"
  have "dequeue hd c0 ''w'' (db s) = (Some (claim c0 ''w'' j), ?d)"
    using s(2) q by (simp add: dequeue_def Let_def eligible_def first_jobs_def before_irrefl
        update_job_def ts_def c0_def)
  from reachable.another [OF s(1) step.dequeue [OF valid_tie_hd this]]
  have "reachable True (s\<lparr>db := ?d, active := (''w'', jid (claim c0 ''w'' j)) # active s\<rparr>)" .
  from reachable.another [OF this step.reap [of True _ c1 300000]]
  have "reachable True (s\<lparr>db := snd (requeueStuck c1 300000 ?d),
      active := (''w'', jid (claim c0 ''w'' j)) # active s\<rparr>)"
    by (cases s) simp
  moreover have "jobs (snd (requeueStuck c1 300000 ?d)) = [(claim c0 ''w'' j)\<lparr>status := Queued,
      startedAt := None, lockedBy := None, heartbeatAt := None, updatedAt := 1000\<rparr>]"
    by (simp add: requeueStuck_def Let_def stuck_def claim_def ts_def c0_def c1_def)
  moreover have "dead (snd (requeueStuck c1 300000 ?d)) = []"
    using s(4) by (simp add: requeueStuck_def Let_def)
  ultimately show ?case
    using q by (intro exI) (auto simp: crashed_def claim_def)
qed

text \<open>
  A stale worker undoes a finished job: reports are accepted by id alone, so after a job
  was reaped, run by a second worker and completed, the failure report of the first worker
  puts the completed job back into the queue, to run again.
\<close>

theorem stale_report_requeues_completed:
  "\<exists>s t. reachable True s \<and> step True s t
    \<and> (\<exists>j \<in> set (jobs (db s)). jid j = 1 \<and> status j = Completed \<and> resultJson j \<noteq> None)
    \<and> (\<exists>j \<in> set (jobs (db t)). jid j = 1 \<and> status j = Queued)"
proof -
  define j1 where "j1 = new_job c0 1 ''BACKUP'' ''{}'' (no_options\<lparr>o_maxAttempts := Some 3\<rparr>)"
  define ja where "ja = claim c0 ''a'' j1"
  define jr where "jr = ja\<lparr>status := Queued, startedAt := None, lockedBy := None, heartbeatAt := None,
    updatedAt := 1000\<rparr>"
  define jb where "jb = claim c1 ''b'' jr"
  define jc where "jc = jb\<lparr>status := Completed, finishedAt := Some 1000, resultJson := Some ''ok'',
    updatedAt := 1000\<rparr>"
  let ?db = "\<lambda>j. \<lparr>jobs = [j], dead = [], next_job = 2, next_dead = 1\<rparr>"
  let ?s = "\<lambda>j act. \<lparr>db = ?db j, active = act, purged = {}\<rparr>"
  have jid: "jid j1 = 1" "jid ja = 1" "jid jr = 1" "jid jb = 1" "jid jc = 1"
    by (simp_all add: j1_def ja_def jr_def jb_def jc_def new_job_def)
  have 1: "reachable True (?s j1 [])"
    using reachable_one [of True]
    by (simp add: initial_def db1_def enqueue_def empty_db_def Let_def j1_def numeral_2_eq_2)
  have "dequeue hd c0 ''a'' (?db j1) = (Some ja, ?db ja)"
    by (simp add: dequeue_def Let_def eligible_def first_jobs_def before_irrefl update_job_def
        j1_def ja_def new_job_def no_options_def)
  from reachable.another [OF 1 step.dequeue [OF valid_tie_hd, of c0 "''a''" "?s j1 []" ja "?db ja"]] this
  have 2: "reachable True (?s ja [(''a'', 1)])" by (simp add: jid)
  have "snd (requeueStuck c1 300000 (?db ja)) = ?db jr"
    by (simp add: requeueStuck_def Let_def stuck_def claim_def ts_def c0_def c1_def ja_def jr_def)
  from reachable.another [OF 2 step.reap [of True "?s ja [(''a'', 1)]" c1 300000]] this
  have 3: "reachable True (?s jr [(''a'', 1)])" by simp
  have "dequeue hd c1 ''b'' (?db jr) = (Some jb, ?db jb)"
    by (simp add: dequeue_def Let_def eligible_def first_jobs_def before_irrefl update_job_def
        j1_def ja_def jr_def jb_def new_job_def no_options_def claim_def ts_def c0_def c1_def)
  from reachable.another [OF 3 step.dequeue [OF valid_tie_hd, of c1 "''b''" "?s jr [(''a'', 1)]" jb "?db jb"]] this
  have 4: "reachable True (?s jb [(''b'', 1), (''a'', 1)])" by (simp add: jid)
  have "complete c1 1 ''ok'' (?db jb) = ?db jc"
    using jid by (simp add: complete_def update_job_def jc_def c1_def)
  with reachable.another [OF 4 step.complete [of "''b''" 1 "?s jb [(''b'', 1), (''a'', 1)]" True c1 "''ok''"]]
  have 5: "reachable True (?s jc [(''a'', 1)])" by simp
  have s: "step True (?s jc [(''a'', 1)])
      ((?s jc [(''a'', 1)])\<lparr>db := snd (fail c1 0 1 ''stale'' (?db jc)), active := []\<rparr>)"
    using step.fail [of "''a''" 1 "?s jc [(''a'', 1)]" True c1 0 "''stale''"] by simp
  have "attempts jc = 2" "maxAttempts jc = 3"
    by (simp_all add: jc_def jb_def jr_def ja_def j1_def new_job_def)
  then have "\<exists>j \<in> set (jobs (snd (fail c1 0 1 ''stale'' (?db jc)))). jid j = 1 \<and> status j = Queued"
    using jid by (simp add: fail_def getById_def update_job_def)
  moreover have "status jc = Completed" "resultJson jc \<noteq> None" by (simp_all add: jc_def)
  ultimately show ?thesis
    using 5 s jid
    by (intro exI [of _ "?s jc [(''a'', 1)]"] exI conjI) auto
qed

end
