(* ===== verification/Worker.thy ===== *)
theory Worker
  imports JobQueue
begin

text \<open>
  The job worker: \<open>src/jobs/worker.ts\<close>, and the enqueue side of \<open>src/app/job-queue-service.ts\<close>.
  A worker's own state (running flag, timers, active jobs, the count of busy errors) is a
  record; \<open>start\<close>, \<open>stop\<close>, one poll and the processing of one job are functions on it. The
  repository calls that a poll makes are parameters on an abstract database, so that they
  may also fail; what processing a job does to the outside is a list of effects.
\<close>

section \<open>State\<close>

record worker_config =
  concurrency :: nat
  pollIntervalMs :: nat
  maxRunningAgeMs :: nat
  gracefulShutdownTimeoutMs :: nat
  heartbeatIntervalMs :: nat
  notifiers :: "string list option"

record partial_config =
  p_concurrency :: "nat option"
  p_pollIntervalMs :: "nat option"
  p_maxRunningAgeMs :: "nat option"
  p_gracefulShutdownTimeoutMs :: "nat option"
  p_heartbeatIntervalMs :: "nat option"
  p_notifiers :: "string list option"

text \<open>
  \<open>pollTimer\<close> holds the delay of the scheduled poll; \<open>shutdownWaiting\<close> says that \<open>stop\<close>
  waits for the active jobs.
\<close>

record worker =
  config :: worker_config
  running :: bool
  activeJobs :: "nat list"
  pollTimer :: "real option"
  heartbeatTimer :: bool
  shutdownWaiting :: bool
  consecutiveBusy :: nat

definition or_default :: "'a option \<Rightarrow> 'a \<Rightarrow> 'a" where
  "or_default x d = (case x of Some v \<Rightarrow> v | None \<Rightarrow> d)"

definition new_worker :: "partial_config \<Rightarrow> worker" where
  "new_worker p =
     \<lparr>config = \<lparr>concurrency = or_default (p_concurrency p) 2,
                pollIntervalMs = or_default (p_pollIntervalMs p) 5000,
                maxRunningAgeMs = or_default (p_maxRunningAgeMs p) 300000,
                gracefulShutdownTimeoutMs = or_default (p_gracefulShutdownTimeoutMs p) 30000,
                heartbeatIntervalMs = or_default (p_heartbeatIntervalMs p) 15000,
                notifiers = None\<rparr>,
      running = False, activeJobs = [], pollTimer = None, heartbeatTimer = False,
      shutdownWaiting = False, consecutiveBusy = 0\<rparr>"

section \<open>Polling\<close>

definition pollDelayMs :: "worker \<Rightarrow> nat" where
  "pollDelayMs w =
     (if consecutiveBusy w = 0 then pollIntervalMs (config w)
      else min (pollIntervalMs (config w) * 2 ^ min (consecutiveBusy w - 1) 5) 30000)"

definition schedulePoll :: "real \<Rightarrow> worker \<Rightarrow> worker" where
  "schedulePoll random w =
     (if \<not> running w then w
      else let base = (if consecutiveBusy w > 0 then pollDelayMs w else pollIntervalMs (config w))
           in w\<lparr>pollTimer := Some (real base * (8 / 10 + random * (4 / 10)))\<rparr>)"

definition start :: "real \<Rightarrow> worker \<Rightarrow> worker" where
  "start random w =
     (if running w then w
      else (schedulePoll random (w\<lparr>running := True\<rparr>))\<lparr>heartbeatTimer := True\<rparr>)"

text \<open>Whether \<open>stop\<close> returns at once (or has to wait for the active jobs).\<close>

definition stop :: "worker \<Rightarrow> bool \<times> worker" where
  "stop w =
     (if \<not> running w then (True, w)
      else let w1 = w\<lparr>running := False, pollTimer := None, heartbeatTimer := False\<rparr>
           in if activeJobs w1 = [] then (True, w1)
              else (False, w1\<lparr>shutdownWaiting := True\<rparr>))"

definition checkShutdown :: "worker \<Rightarrow> worker" where
  "checkShutdown w =
     (if \<not> running w \<and> activeJobs w = [] \<and> shutdownWaiting w then w\<lparr>shutdownWaiting := False\<rparr> else w)"

text \<open>A dequeue yields a job id, nothing, or an error, which the code tells busy or other.\<close>

datatype db_error = Busy | OtherError

definition map_set :: "nat \<Rightarrow> nat list \<Rightarrow> nat list" where
  "map_set i is = (if List.member is i then is else is @ [i])"

fun poll_loop ::
  "('d \<Rightarrow> (db_error + nat option) \<times> 'd) \<Rightarrow> nat \<Rightarrow> nat \<Rightarrow> worker \<Rightarrow> 'd \<Rightarrow> nat \<times> worker \<times> 'd" where
  "poll_loop dq 0 dequeued w d = (dequeued, w, d)"
| "poll_loop dq (Suc slots) dequeued w d =
     (case dq d of
        (Inl Busy, d') \<Rightarrow> (dequeued, w\<lparr>consecutiveBusy := consecutiveBusy w + 1\<rparr>, d')
      | (Inl OtherError, d') \<Rightarrow> (dequeued, w, d')
      | (Inr None, d') \<Rightarrow> (dequeued, w, d')
      | (Inr (Some i), d') \<Rightarrow>
          poll_loop dq slots (dequeued + 1) (w\<lparr>activeJobs := map_set i (activeJobs w)\<rparr>) d')"

text \<open>
  One firing of the poll timer; the first component says whether its promise rejects, which
  nothing handles.
\<close>

definition poll ::
  "('d \<Rightarrow> (db_error + nat option) \<times> 'd) \<Rightarrow> ('d \<Rightarrow> (db_error + nat) \<times> 'd) \<Rightarrow> real \<Rightarrow> worker \<Rightarrow> 'd \<Rightarrow>
   bool \<times> worker \<times> 'd" where
  "poll dq rq random w0 d =
     (let w = w0\<lparr>pollTimer := None\<rparr>
      in if \<not> running w then (False, w, d)
         else if length (activeJobs w) \<ge> concurrency (config w)
         then (False, schedulePoll random (w\<lparr>consecutiveBusy := 0\<rparr>), d)
         else
           let (dequeued, w1, d1) =
                 poll_loop dq (concurrency (config w) - length (activeJobs w)) 0 w d;
               w2 = (if dequeued > 0 then w1\<lparr>consecutiveBusy := 0\<rparr> else w1)
           in case rq d1 of
                (Inl err, d2) \<Rightarrow> (True, w2, d2)
              | (Inr n, d2) \<Rightarrow> (False, schedulePoll random w2, d2))"

section \<open>Processing a job\<close>

datatype handler_outcome = Returned string | AbortError | Threw string

datatype effect = CompleteJob nat string | FailJob nat string | Alert nat

definition notifyDeadLetter :: "worker \<Rightarrow> nat \<Rightarrow> effect list" where
  "notifyDeadLetter w i =
     (case notifiers (config w) of None \<Rightarrow> [] | Some ns \<Rightarrow> if ns = [] then [] else [Alert i])"

definition finish :: "nat \<Rightarrow> worker \<Rightarrow> worker" where
  "finish i w = checkShutdown (w\<lparr>activeJobs := remove1 i (activeJobs w)\<rparr>)"

text \<open>
  \<open>handler\<close> is what the registered handler did, \<open>None\<close> when there is none (a payload that is
  not JSON, and an error on completing, count as thrown). \<open>failed\<close> is the answer of the
  repository's \<open>fail\<close>: whether the job is now a dead letter, or \<open>None\<close> when the call throws.
  The last component says whether processing ends with an unhandled rejection.
\<close>

definition processJob ::
  "nat \<Rightarrow> handler_outcome option \<Rightarrow> (string \<Rightarrow> string option) \<Rightarrow> bool option \<Rightarrow> worker \<Rightarrow>
   worker \<times> effect list \<times> bool" where
  "processJob i handler store failed w0 =
     (let w = w0\<lparr>activeJobs := map_set i (activeJobs w0)\<rparr>;
          report = (\<lambda>err. FailJob i err
                      # (case failed of Some True \<Rightarrow> notifyDeadLetter w i | _ \<Rightarrow> []))
      in case handler of
           None \<Rightarrow>
             (case failed of
                None \<Rightarrow> (w, report ''No handler registered for job type'', True)
              | Some _ \<Rightarrow> (finish i w, report ''No handler registered for job type'', False))
         | Some AbortError \<Rightarrow> (finish i w, [], False)
         | Some (Threw err) \<Rightarrow> (finish i w, report err, failed = None)
         | Some (Returned r) \<Rightarrow>
             (case store r of
                None \<Rightarrow> (finish i w, [CompleteJob i r], False)
              | Some err \<Rightarrow> (finish i w, CompleteJob i r # report err, failed = None)))"

section \<open>The enqueue side\<close>

datatype job_kind = PipelineRun | PortfolioRescore | BacktestBuild | Backup | Prune | WatchlistPoll
  | RenewalCheck | WeightTune | PortfolioHealthcheck | AutoList | PostAcquisition | RevenueSync

definition kind_name :: "job_kind \<Rightarrow> string" where
  "kind_name k = (case k of PipelineRun \<Rightarrow> ''PIPELINE_RUN'' | PortfolioRescore \<Rightarrow> ''PORTFOLIO_RESCORE''
     | BacktestBuild \<Rightarrow> ''BACKTEST_BUILD'' | Backup \<Rightarrow> ''BACKUP'' | Prune \<Rightarrow> ''PRUNE''
     | WatchlistPoll \<Rightarrow> ''WATCHLIST_POLL'' | RenewalCheck \<Rightarrow> ''RENEWAL_CHECK''
     | WeightTune \<Rightarrow> ''WEIGHT_TUNE'' | PortfolioHealthcheck \<Rightarrow> ''PORTFOLIO_HEALTHCHECK''
     | AutoList \<Rightarrow> ''AUTO_LIST'' | PostAcquisition \<Rightarrow> ''POST_ACQUISITION''
     | RevenueSync \<Rightarrow> ''REVENUE_SYNC'')"

text \<open>The options with which the service enqueues each kind.\<close>

definition kind_options :: "job_kind \<Rightarrow> enqueue_options" where
  "kind_options k =
     \<lparr>o_priority = Some (case k of PipelineRun \<Rightarrow> 10 | PortfolioRescore \<Rightarrow> 5 | PostAcquisition \<Rightarrow> 5 | _ \<Rightarrow> 0),
      o_maxAttempts = (case k of PostAcquisition \<Rightarrow> Some 3 | _ \<Rightarrow> None), o_scheduledAt = None\<rparr>"

text \<open>
  The private \<open>enqueue\<close> of the service: a depth limit of zero switches the check off. The
  payload is the text stored, with the tenant added.
\<close>

definition service_enqueue ::
  "nat option \<Rightarrow> clocks \<Rightarrow> job_kind \<Rightarrow> string \<Rightarrow> queue_db \<Rightarrow> (nat \<times> queue_db) option" where
  "service_enqueue maxQueueDepth c k payload d =
     (let maxDepth = or_default maxQueueDepth 1000
      in if maxDepth > 0 then enqueueWithDepthCheck c (kind_name k) payload maxDepth (kind_options k) d
         else Some (enqueue c (kind_name k) payload (kind_options k) d))"

section \<open>Lemmas\<close>

lemma map_set_length: "length (map_set i is) \<le> length is + 1"
  by (simp add: map_set_def)

lemma poll_loop_bounds:
  "poll_loop dq slots n w d = (n', w', d') \<Longrightarrow>
     length (activeJobs w') \<le> length (activeJobs w) + slots \<and> config w' = config w
     \<and> running w' = running w \<and> pollTimer w' = pollTimer w \<and> n \<le> n'"
proof (induction dq slots n w d arbitrary: n' w' d' rule: poll_loop.induct)
  case (2 dq slots n w d)
  obtain r e where r: "dq d = (r, e)" by (cases "dq d")
  show ?case
  proof (cases r)
    case (Inl err)
    then show ?thesis using 2(2) r by (cases err) auto
  next
    case (Inr j)
    show ?thesis
    proof (cases j)
      case None
      then show ?thesis using 2(2) r Inr by auto
    next
      case (Some i)
      have "poll_loop dq slots (n + 1) (w\<lparr>activeJobs := map_set i (activeJobs w)\<rparr>) e = (n', w', d')"
        using 2(2) r Inr Some by simp
      from 2(1) [OF r [symmetric] Inr Some this] show ?thesis
        using map_set_length [of i "activeJobs w"] by auto
    qed
  qed
qed simp

lemma pollDelay_bounds:
  "min (pollIntervalMs (config w)) 30000 \<le> pollDelayMs w
   \<and> (consecutiveBusy w > 0 \<longrightarrow> pollDelayMs w \<le> 30000)"
proof -
  have "min x 30000 \<le> min (x * 2 ^ k) 30000" for x k :: nat by (intro min.mono) simp_all
  then show ?thesis unfolding pollDelayMs_def by (simp only: split: if_split) simp
qed

lemma schedulePoll_simps [simp]:
  "activeJobs (schedulePoll r w) = activeJobs w" "running (schedulePoll r w) = running w"
  "config (schedulePoll r w) = config w"
  by (simp_all add: schedulePoll_def Let_def)

lemma schedulePoll_timer:
  assumes "running w" "0 \<le> r" "r \<le> 1"
  shows "\<exists>t. pollTimer (schedulePoll r w) = Some t
    \<and> 8 / 10 * real (min (pollIntervalMs (config w)) 30000) \<le> t
    \<and> t \<le> 12 / 10 * real (max (pollIntervalMs (config w)) 30000)"
proof -
  let ?b = "if consecutiveBusy w > 0 then pollDelayMs w else pollIntervalMs (config w)"
  have b: "min (pollIntervalMs (config w)) 30000 \<le> ?b" "?b \<le> max (pollIntervalMs (config w)) 30000"
    using pollDelay_bounds [of w] by auto
  have "8 / 10 * real (min (pollIntervalMs (config w)) 30000) \<le> real ?b * (8 / 10 + r * (4 / 10))"
  proof -
    have "real (min (pollIntervalMs (config w)) 30000) * (8 / 10) \<le> real ?b * (8 / 10 + r * (4 / 10))"
      using b(1) assms(2) by (intro mult_mono) (simp_all del: of_nat_min)
    then show ?thesis by simp
  qed
  moreover have "real ?b * (8 / 10 + r * (4 / 10)) \<le> 12 / 10 * real (max (pollIntervalMs (config w)) 30000)"
  proof -
    have "real ?b * (8 / 10 + r * (4 / 10)) \<le> real (max (pollIntervalMs (config w)) 30000) * (12 / 10)"
      using b(2) assms(2,3) by (intro mult_mono) (simp_all del: of_nat_max)
    then show ?thesis by simp
  qed
  ultimately show ?thesis using assms(1) by (simp only: schedulePoll_def) (simp add: Let_def)
qed

section \<open>Properties\<close>

text \<open>
  Polling: a poll never makes the worker exceed its concurrency; the next poll is
  scheduled, between 0.8 and 1.2 times the larger or smaller of interval and backoff cap,
  whenever requeueing the stuck jobs succeeds; but when that call fails, the promise rejects
  unhandled, no poll is scheduled and the worker, still running, never polls again.
\<close>

theorem poll_concurrency_and_schedule:
  assumes "running w" "length (activeJobs w) \<le> concurrency (config w)" "0 \<le> r" "r \<le> 1"
    and "poll dq rq r w d = (rejected, w', d')"
  shows "length (activeJobs w') \<le> concurrency (config w) \<and> running w'
    \<and> (rejected \<longleftrightarrow> pollTimer w' = None)
    \<and> (rejected \<longrightarrow> (\<exists>d1 e d2. rq d1 = (Inl e, d2)))
    \<and> (\<not> rejected \<longrightarrow> (\<exists>t. pollTimer w' = Some t
         \<and> 8 / 10 * real (min (pollIntervalMs (config w)) 30000) \<le> t
         \<and> t \<le> 12 / 10 * real (max (pollIntervalMs (config w)) 30000)))"
proof (cases "length (activeJobs w) \<ge> concurrency (config w)")
  case True
  let ?w = "w\<lparr>pollTimer := None, consecutiveBusy := 0\<rparr>"
  have w': "w' = schedulePoll r ?w" "\<not> rejected"
    using assms(1,5) True by (simp_all add: poll_def Let_def)
  show ?thesis
    using schedulePoll_timer [of ?w r] assms(1-4) by (auto simp: w')
next
  case False
  let ?w0 = "w\<lparr>pollTimer := None\<rparr>"
  obtain n w1 d1 where l: "poll_loop dq (concurrency (config w) - length (activeJobs w)) 0 ?w0 d
      = (n, w1, d1)" by (metis prod_cases3)
  note b = poll_loop_bounds [OF l]
  let ?w2 = "if n > 0 then w1\<lparr>consecutiveBusy := 0\<rparr> else w1"
  have w2: "length (activeJobs ?w2) \<le> concurrency (config w)" "running ?w2" "config ?w2 = config w"
    "pollTimer ?w2 = None"
    using b assms(1,2) by auto
  have p: "poll dq rq r w d = (case rq d1 of
      (Inl err, d2) \<Rightarrow> (True, ?w2, d2) | (Inr n, d2) \<Rightarrow> (False, schedulePoll r ?w2, d2))"
    using assms(1) False l by (simp add: poll_def Let_def)
  obtain q d2 where q: "rq d1 = (q, d2)" by (cases "rq d1")
  show ?thesis
  proof (cases q)
    case (Inl e)
    then have "rejected" "w' = ?w2" using p q assms(5) by simp_all
    then show ?thesis using w2 q Inl by blast
  next
    case (Inr k)
    then have "\<not> rejected" "w' = schedulePoll r ?w2" using p q assms(5) by simp_all
    then show ?thesis using schedulePoll_timer [OF w2(2) assms(3,4)] w2 by auto
  qed
qed

definition running_worker :: worker where
  "running_worker = start 0 (new_worker \<lparr>p_concurrency = None, p_pollIntervalMs = None,
     p_maxRunningAgeMs = None, p_gracefulShutdownTimeoutMs = None, p_heartbeatIntervalMs = None,
     p_notifiers = Some [''telegram'']\<rparr>)"

theorem poll_concurrency_and_schedule_witness:
  "let (rejected, w', _) = poll (\<lambda>d::unit. (Inr None, d)) (\<lambda>d. (Inl Busy, d)) 0 running_worker ()
   in rejected \<and> running w' \<and> pollTimer w' = None"
proof -
  obtain rejected w' d' where p: "poll (\<lambda>d::unit. (Inr None, d)) (\<lambda>d. (Inl Busy, d)) 0
      running_worker () = (rejected, w', d')" by (metis prod_cases3)
  have w: "running running_worker" "length (activeJobs running_worker) \<le> concurrency (config running_worker)"
    by (simp_all add: running_worker_def start_def new_worker_def)
  have "rejected"
    using p by (simp add: poll_def Let_def running_worker_def start_def new_worker_def or_default_def
        numeral_2_eq_2 split: prod.splits)
  then show ?thesis using poll_concurrency_and_schedule [OF w _ _ p] p by simp
qed

text \<open>
  Processing a job reports exactly one outcome: a job that its handler finished is
  completed, one that threw or has no handler is failed, an aborted one is left to be
  reaped; the slot is freed, except when there is no handler and failing the job fails.
  A dead letter never alerts anyone, since the constructor drops the notifiers it is given.
\<close>

theorem process_job_outcome:
  assumes "processJob i handler store failed w = (w', effects, rejected)" "i \<notin> set (activeJobs w)"
    and "config w = config (new_worker p)"
  shows "(activeJobs w' = activeJobs w \<or> (handler = None \<and> failed = None \<and> activeJobs w' = activeJobs w @ [i]))
    \<and> (\<forall>k. Alert k \<notin> set effects)
    \<and> (case handler of
         None \<Rightarrow> \<exists>e. effects = [FailJob i e]
       | Some AbortError \<Rightarrow> effects = []
       | Some (Threw e) \<Rightarrow> effects = [FailJob i e]
       | Some (Returned r) \<Rightarrow>
           effects = CompleteJob i r # (case store r of None \<Rightarrow> [] | Some e \<Rightarrow> [FailJob i e]))"
proof -
  have n: "notifyDeadLetter (w\<lparr>activeJobs := is\<rparr>) i = []" for "is"
    using assms(3) by (simp add: notifyDeadLetter_def new_worker_def)
  have m: "map_set i (activeJobs w) = activeJobs w @ [i]" using assms(2) by (simp add: map_set_def)
  have f: "activeJobs (finish i (w\<lparr>activeJobs := activeJobs w @ [i]\<rparr>)) = activeJobs w"
    using assms(2) by (simp add: finish_def checkShutdown_def remove1_append)
  have r: "(case failed of Some True \<Rightarrow> [] | _ \<Rightarrow> []) = ([] :: effect list)"
    by (simp split: option.split bool.split)
  show ?thesis
    using assms(1) f
    by (cases handler; cases failed)
      (auto simp: processJob_def Let_def n m r split: handler_outcome.splits option.splits
        bool.splits)
qed

theorem process_job_outcome_witness:
  "fst (snd (processJob 7 (Some (Threw ''boom'')) (\<lambda>_. None) (Some True) running_worker))
     = [FailJob 7 ''boom'']"
proof -
  obtain w' effects rejected where p: "processJob 7 (Some (Threw ''boom'')) (\<lambda>_. None) (Some True)
      running_worker = (w', effects, rejected)" by (metis prod_cases3)
  have c: "config running_worker = config (new_worker \<lparr>p_concurrency = None, p_pollIntervalMs = None,
     p_maxRunningAgeMs = None, p_gracefulShutdownTimeoutMs = None, p_heartbeatIntervalMs = None,
     p_notifiers = Some [''telegram'']\<rparr>)" and a: "7 \<notin> set (activeJobs running_worker)"
    by (simp_all add: running_worker_def start_def new_worker_def)
  show ?thesis using process_job_outcome [OF p a c] p by simp
qed

end
