(* ===== verification/Listings.thy ===== *)
theory Listings
  imports Engine TrademarkGate
begin

text \<open>
  Listings for sale: \<open>src/listing/listing-manager.ts\<close> on
  \<open>src/db/repositories/listing-repository.ts\<close>, with the offer rules
  (\<open>src/listing/offer-rules.ts\<close>). The tables are lists of rows, each with its tenant; the
  current tenant is an argument. The marketplace provider, the trademark gate and the scoring
  engine are parameters; the calls made to the marketplace are logged. An operation that
  throws still returns the state it has reached.
\<close>

section \<open>Rows\<close>

datatype listing_status = Draft | Listed | OfferReceived | Sold | Expired | Unlisted | Pending | Paused

datatype offer_status = OfferPending | Accepted | Declined | Countered | OfferExpired | Withdrawn

record listing =
  l_id :: nat
  l_tenant :: string
  l_domain :: string
  marketplace :: string
  externalId :: "string option"
  listingUrl :: "string option"
  priceEur :: real
  l_status :: listing_status
  listedAt :: "ms option"
  expiresAt :: "ms option"
  l_notes :: "string option"
  l_createdAt :: ms

record listing_update =
  u_priceEur :: "real option"
  u_status :: "listing_status option"
  u_externalId :: "string option option"
  u_listingUrl :: "string option"
  u_expiresAt :: "ms option"
  u_notes :: "string option"

record offer =
  o_id :: nat
  o_listingId :: nat
  amountEur :: real
  buyer :: string
  o_status :: offer_status
  receivedAt :: ms
  respondedAt :: "ms option"
  o_notes :: "string option"

record sale_outcome =
  oc_tenant :: string
  oc_domain :: string
  occurredAt :: ms
  salePriceEur :: real
  listingPriceEur :: real
  daysListed :: int
  oc_venue :: "string option"
  commissionPct :: "real option"
  acquisitionCostEur :: "real option"
  totalRenewalCostEur :: "real option"
  oc_notes :: "string option"

datatype remote_call = RemoteCreate string | RemoteUpdate string | RemoteCancel string

record market =
  listings :: "listing list"
  offers :: "offer list"
  outcomes :: "sale_outcome list"
  next_listing :: nat
  next_offer :: nat
  remote :: "remote_call list"

text \<open>The portfolio: the costs of the domains that a tenant holds.\<close>

type_synonym portfolio = "string \<Rightarrow> string \<Rightarrow> (real \<times> real) option"

section \<open>The repository\<close>

record new_listing =
  n_domain :: string
  n_marketplace :: string
  n_externalId :: "string option"
  n_priceEur :: real
  n_listingUrl :: "string option"
  n_status :: listing_status
  n_listedAt :: "ms option"
  n_expiresAt :: "ms option"
  n_notes :: "string option"

definition repo_insert :: "string \<Rightarrow> ms \<Rightarrow> new_listing \<Rightarrow> market \<Rightarrow> nat \<times> market" where
  "repo_insert t now n m =
     (next_listing m,
      m\<lparr>listings := listings m @ [\<lparr>l_id = next_listing m, l_tenant = t, l_domain = n_domain n,
          marketplace = n_marketplace n, externalId = n_externalId n, listingUrl = n_listingUrl n,
          priceEur = n_priceEur n, l_status = n_status n, listedAt = n_listedAt n,
          expiresAt = n_expiresAt n, l_notes = n_notes n, l_createdAt = now\<rparr>],
        next_listing := next_listing m + 1\<rparr>)"

definition no_update :: listing_update where
  "no_update = \<lparr>u_priceEur = None, u_status = None, u_externalId = None, u_listingUrl = None,
     u_expiresAt = None, u_notes = None\<rparr>"

definition apply_update :: "listing_update \<Rightarrow> listing \<Rightarrow> listing" where
  "apply_update u l =
     l\<lparr>priceEur := (case u_priceEur u of Some p \<Rightarrow> p | None \<Rightarrow> priceEur l),
       externalId := (case u_externalId u of Some e \<Rightarrow> e | None \<Rightarrow> externalId l),
       l_status := (case u_status u of Some s \<Rightarrow> s | None \<Rightarrow> l_status l),
       listingUrl := (case u_listingUrl u of Some x \<Rightarrow> Some x | None \<Rightarrow> listingUrl l),
       expiresAt := (case u_expiresAt u of Some x \<Rightarrow> Some x | None \<Rightarrow> expiresAt l),
       l_notes := (case u_notes u of Some x \<Rightarrow> Some x | None \<Rightarrow> l_notes l)\<rparr>"

definition repo_update :: "string \<Rightarrow> nat \<Rightarrow> listing_update \<Rightarrow> market \<Rightarrow> market" where
  "repo_update t i u m =
     m\<lparr>listings := map (\<lambda>l. if l_id l = i \<and> l_tenant l = t then apply_update u l else l) (listings m)\<rparr>"

definition set_status :: "string \<Rightarrow> nat \<Rightarrow> listing_status \<Rightarrow> market \<Rightarrow> market" where
  "set_status t i s m = repo_update t i (no_update\<lparr>u_status := Some s\<rparr>) m"

text \<open>The offers of a deleted listing go with it.\<close>

definition repo_delete :: "string \<Rightarrow> nat \<Rightarrow> market \<Rightarrow> market" where
  "repo_delete t i m =
     (if list_ex (\<lambda>l. l_id l = i \<and> l_tenant l = t) (listings m)
      then m\<lparr>listings := filter (\<lambda>l. \<not> (l_id l = i \<and> l_tenant l = t)) (listings m),
             offers := filter (\<lambda>k. o_listingId k \<noteq> i) (offers m)\<rparr>
      else m)"

definition findById :: "string \<Rightarrow> nat \<Rightarrow> market \<Rightarrow> listing option" where
  "findById t i m = find (\<lambda>l. l_id l = i \<and> l_tenant l = t) (listings m)"

definition findByDomain :: "string \<Rightarrow> string \<Rightarrow> market \<Rightarrow> listing list" where
  "findByDomain t d m = filter (\<lambda>l. l_domain l = d \<and> l_tenant l = t) (listings m)"

definition findByMarketplaceAndExternalId :: "string \<Rightarrow> string \<Rightarrow> string \<Rightarrow> market \<Rightarrow> listing option" where
  "findByMarketplaceAndExternalId t mp e m =
     find (\<lambda>l. marketplace l = mp \<and> externalId l = Some e \<and> l_tenant l = t) (listings m)"

definition findByDomainAndMarketplace :: "string \<Rightarrow> string \<Rightarrow> string \<Rightarrow> market \<Rightarrow> listing option" where
  "findByDomainAndMarketplace t d mp m =
     find (\<lambda>l. l_domain l = d \<and> marketplace l = mp \<and> l_tenant l = t) (listings m)"

definition owns_listing :: "string \<Rightarrow> nat \<Rightarrow> market \<Rightarrow> bool" where
  "owns_listing t i m = list_ex (\<lambda>l. l_id l = i \<and> l_tenant l = t) (listings m)"

definition insertOffer ::
  "ms \<Rightarrow> nat \<Rightarrow> real \<Rightarrow> string \<Rightarrow> string option \<Rightarrow> market \<Rightarrow> nat \<times> market" where
  "insertOffer now i amount who notes m =
     (next_offer m,
      m\<lparr>offers := offers m @ [\<lparr>o_id = next_offer m, o_listingId = i, amountEur = amount, buyer = who,
          o_status = OfferPending, receivedAt = now, respondedAt = None, o_notes = notes\<rparr>],
        next_offer := next_offer m + 1\<rparr>)"

definition findOffersByListingId :: "string \<Rightarrow> nat \<Rightarrow> market \<Rightarrow> offer list" where
  "findOffersByListingId t i m =
     (if owns_listing t i m
      then sort_key (\<lambda>k. - receivedAt k) (filter (\<lambda>k. o_listingId k = i) (offers m)) else [])"

definition findPendingOffer :: "string \<Rightarrow> nat \<Rightarrow> market \<Rightarrow> offer option" where
  "findPendingOffer t i m = find (\<lambda>k. o_status k = OfferPending) (findOffersByListingId t i m)"

definition updateOfferStatus ::
  "string \<Rightarrow> ms \<Rightarrow> nat \<Rightarrow> offer_status \<Rightarrow> string option \<Rightarrow> market \<Rightarrow> market" where
  "updateOfferStatus t now i s notes m =
     m\<lparr>offers := map (\<lambda>k. if o_id k = i \<and> owns_listing t (o_listingId k) m
          then k\<lparr>o_status := s, respondedAt := Some now,
                 o_notes := (case notes of Some x \<Rightarrow> Some x | None \<Rightarrow> o_notes k)\<rparr> else k) (offers m)\<rparr>"

section \<open>Offer rules\<close>

record listing_settings =
  pricePolicyFixed :: bool
  basePriceEur :: "real option"
  offerAutoDeclineBelowEur :: "real option"
  offerCounterEur :: "real option"

datatype offer_rule_outcome = KeepPending | RuleDeclined | RuleCountered real

definition evaluateOfferRules :: "listing_settings \<Rightarrow> real \<Rightarrow> offer_rule_outcome" where
  "evaluateOfferRules s amount =
     (if (case offerAutoDeclineBelowEur s of Some f \<Rightarrow> amount < f | None \<Rightarrow> False) then RuleDeclined
      else case offerCounterEur s of
        Some c \<Rightarrow> if amount < c then RuleCountered c else KeepPending
      | None \<Rightarrow> KeepPending)"

section \<open>The manager\<close>

text \<open>
  The remote side: \<open>createListing\<close> yields the remote id and the URL of the new listing, or
  fails; the errors of updates and cancellations are caught and ignored.
\<close>

record marketplace_provider =
  p_name :: string
  isAvailable :: bool
  createListing :: "string \<Rightarrow> real \<Rightarrow> (string \<times> string option) option"

record manager =
  provider :: marketplace_provider
  gate :: "string \<Rightarrow> gate_error + gate_result"
  suggest_price :: "string \<Rightarrow> real option"
  listing_settings :: "listing_settings option"
  records_outcomes :: bool
  portfolio_costs :: "portfolio option"

datatype listing_error = ListingNotFound | TrademarkRefused | StatusRefused | MarketplaceMismatch
  | GateFailed gate_error | ScoringFailed | InvalidAmount | BuyerRequired | OfferNotFound
  | OfferNotPending | AlreadySold | NoActiveListing | DomainNotFound

type_synonym 'a outcome = "(listing_error + 'a) \<times> market"

definition fetch :: "string \<Rightarrow> nat \<Rightarrow> market \<Rightarrow> listing outcome" where
  "fetch t i m = (case findById t i m of None \<Rightarrow> (Inl ListingNotFound, m) | Some l \<Rightarrow> (Inr l, m))"

definition listDomain ::
  "manager \<Rightarrow> string \<Rightarrow> ms \<Rightarrow> string \<Rightarrow> string \<Rightarrow> real option \<Rightarrow> string option \<Rightarrow> market \<Rightarrow> listing outcome" where
  "listDomain mg t now d mp asked notes m =
     (case findByDomainAndMarketplace t d mp m of
        Some l \<Rightarrow> (Inr l, m)
      | None \<Rightarrow>
          (case gate mg d of
             Inl e \<Rightarrow> (Inl (GateFailed e), m)
           | Inr g \<Rightarrow>
               if g_verdict g = Blocked then (Inl TrademarkRefused, m)
               else case (case asked of Some p \<Rightarrow> Some p | None \<Rightarrow> suggest_price mg d) of
                 None \<Rightarrow> (Inl ScoringFailed, m)
               | Some p \<Rightarrow>
                   let (i, m1) = repo_insert t now
                         \<lparr>n_domain = d, n_marketplace = mp, n_externalId = None, n_priceEur = p,
                          n_listingUrl = None, n_status = Draft, n_listedAt = None,
                          n_expiresAt = None, n_notes = notes\<rparr> m
                   in fetch t i m1))"

text \<open>The id by which the marketplace knows a listing.\<close>

definition remote_id :: "(nat \<Rightarrow> string) \<Rightarrow> listing \<Rightarrow> string" where
  "remote_id show_id l = (case externalId l of Some e \<Rightarrow> e | None \<Rightarrow> show_id (l_id l))"

definition updateListing ::
  "(nat \<Rightarrow> string) \<Rightarrow> manager \<Rightarrow> string \<Rightarrow> nat \<Rightarrow> listing_update \<Rightarrow> market \<Rightarrow> listing outcome" where
  "updateListing show_id mg t i u m =
     (case findById t i m of
        None \<Rightarrow> (Inl ListingNotFound, m)
      | Some l \<Rightarrow>
          if u_status u = Some Listed \<or> u_status u = Some Sold \<or> u_status u = Some OfferReceived
          then (Inl StatusRefused, m)
          else let m1 = repo_update t i u m;
                   m2 = (if l_status l \<noteq> Draft \<and> isAvailable (provider mg)
                         then m1\<lparr>remote := remote m1 @ [RemoteUpdate (remote_id show_id l)]\<rparr> else m1)
               in fetch t i m2)"

definition deleteListing :: "(nat \<Rightarrow> string) \<Rightarrow> manager \<Rightarrow> string \<Rightarrow> nat \<Rightarrow> market \<Rightarrow> unit outcome" where
  "deleteListing show_id mg t i m =
     (case findById t i m of
        None \<Rightarrow> (Inr (), m)
      | Some l \<Rightarrow>
          let m1 = (if l_status l = Listed \<and> isAvailable (provider mg)
                    then m\<lparr>remote := remote m @ [RemoteCancel (remote_id show_id l)]\<rparr> else m)
          in (Inr (), repo_delete t i m1))"

definition listOnMarketplace :: "manager \<Rightarrow> string \<Rightarrow> nat \<Rightarrow> market \<Rightarrow> listing outcome" where
  "listOnMarketplace mg t i m =
     (case findById t i m of
        None \<Rightarrow> (Inl ListingNotFound, m)
      | Some l \<Rightarrow>
          if l_status l \<noteq> Draft then (Inr l, m)
          else case gate mg (l_domain l) of
            Inl e \<Rightarrow> (Inl (GateFailed e), m)
          | Inr g \<Rightarrow>
              if g_verdict g \<noteq> Clear then (Inl TrademarkRefused, m)
              else if p_name (provider mg) \<noteq> ''manual'' \<and> marketplace l \<noteq> p_name (provider mg)
              then (Inl MarketplaceMismatch, m)
              else if p_name (provider mg) = ''manual'' \<or> \<not> isAvailable (provider mg)
              then fetch t i (set_status t i Listed m)
              else
                let m1 = m\<lparr>remote := remote m @ [RemoteCreate (l_domain l)]\<rparr>
                in case createListing (provider mg) (l_domain l) (priceEur l) of
                     Some (rid, url) \<Rightarrow>
                       fetch t i (repo_update t i (no_update\<lparr>u_status := Some Listed,
                         u_listingUrl := url, u_externalId := Some (Some rid)\<rparr>) m1)
                   | None \<Rightarrow> fetch t i (set_status t i Pending m1))"

definition applyOfferRules ::
  "manager \<Rightarrow> string \<Rightarrow> ms \<Rightarrow> listing \<Rightarrow> offer \<Rightarrow> market \<Rightarrow> offer \<times> market" where
  "applyOfferRules mg t now l k m =
     (case listing_settings mg of
        None \<Rightarrow> (k, m)
      | Some s \<Rightarrow>
          if l_status l = Sold then (k, m)
          else
            let answer = (\<lambda>st note.
                  (k\<lparr>o_status := st, respondedAt := Some now, o_notes := Some note\<rparr>,
                   set_status t (o_listingId k) Listed (updateOfferStatus t now (o_id k) st (Some note) m)))
            in case evaluateOfferRules s (amountEur k) of
                 RuleDeclined \<Rightarrow> answer Declined ''Auto-declined''
               | RuleCountered c \<Rightarrow> answer Countered ''Auto-countered''
               | KeepPending \<Rightarrow> (k, m))"

definition recordOffer ::
  "manager \<Rightarrow> string \<Rightarrow> ms \<Rightarrow> nat \<Rightarrow> real \<Rightarrow> string \<Rightarrow> string option \<Rightarrow> market \<Rightarrow> offer outcome" where
  "recordOffer mg t now i amount who notes m =
     (case findById t i m of
        None \<Rightarrow> (Inl ListingNotFound, m)
      | Some l \<Rightarrow>
          if amount \<le> 0 then (Inl InvalidAmount, m)
          else
            let (k, m1) = insertOffer now i amount who notes m;
                m2 = set_status t i OfferReceived m1;
                (answered, m3) = applyOfferRules mg t now l
                  \<lparr>o_id = k, o_listingId = i, amountEur = amount, buyer = who, o_status = OfferPending,
                   receivedAt = now, respondedAt = None, o_notes = notes\<rparr> m2
            in (Inr answered, m3))"

definition find_offer :: "string \<Rightarrow> nat \<Rightarrow> nat \<Rightarrow> market \<Rightarrow> offer option" where
  "find_offer t i k m = find (\<lambda>x. o_id x = k) (findOffersByListingId t i m)"

definition respondToOffer ::
  "string \<Rightarrow> ms \<Rightarrow> nat \<Rightarrow> nat \<Rightarrow> bool \<Rightarrow> market \<Rightarrow> unit outcome" where
  "respondToOffer t now k i accept m =
     (case find_offer t i k m of
        None \<Rightarrow> (Inl OfferNotFound, m)
      | Some x \<Rightarrow>
          if o_status x \<noteq> OfferPending then (Inl OfferNotPending, m)
          else let m1 = updateOfferStatus t now k (if accept then Accepted else Declined) None m
               in (Inr (), if accept then set_status t i Sold m1 else m1))"

record sale =
  s_priceEur :: real
  s_commissionPct :: "real option"
  s_venue :: "string option"
  s_notes :: "string option"

definition DAY_MS :: int where
  "DAY_MS = 1000 * 60 * 60 * 24"

text \<open>
  The outcome repository refuses a domain that the tenant's portfolio does not hold, after
  listing and offer have been updated. \<open>held\<close> is the portfolio as that repository sees it.
\<close>

definition sellDomain ::
  "manager \<Rightarrow> portfolio \<Rightarrow> string \<Rightarrow> ms \<Rightarrow> nat \<Rightarrow> nat \<Rightarrow> sale \<Rightarrow> market \<Rightarrow> (listing \<times> offer) outcome" where
  "sellDomain mg held t now i k s m =
     (case findById t i m of
        None \<Rightarrow> (Inl ListingNotFound, m)
      | Some l \<Rightarrow>
          if l_status l = Sold then (Inl AlreadySold, m)
          else case find_offer t i k m of
            None \<Rightarrow> (Inl OfferNotFound, m)
          | Some x \<Rightarrow>
              if o_status x \<noteq> OfferPending then (Inl OfferNotPending, m)
              else if s_priceEur s \<le> 0 then (Inl InvalidAmount, m)
              else
                let m1 = updateOfferStatus t now k Accepted (Some ''Accepted sale'') (set_status t i Sold m);
                    days = max 1 (js_round (of_int (now - l_createdAt l) / of_int DAY_MS));
                    costs = (case portfolio_costs mg of None \<Rightarrow> None | Some p \<Rightarrow> p t (l_domain l));
                    answer = (l\<lparr>l_status := Sold\<rparr>, x\<lparr>o_status := Accepted\<rparr>)
                in if \<not> records_outcomes mg then (Inr answer, m1)
                   else if held t (l_domain l) = None then (Inl DomainNotFound, m1)
                   else (Inr answer, m1\<lparr>outcomes := outcomes m1 @
                     [\<lparr>oc_tenant = t, oc_domain = l_domain l, occurredAt = now,
                       salePriceEur = s_priceEur s, listingPriceEur = priceEur l, daysListed = days,
                       oc_venue = s_venue s, commissionPct = s_commissionPct s,
                       acquisitionCostEur = map_option fst costs,
                       totalRenewalCostEur = map_option snd costs, oc_notes = s_notes s\<rparr>]\<rparr>))"

definition recordPublicOffer ::
  "manager \<Rightarrow> string \<Rightarrow> ms \<Rightarrow> string \<Rightarrow> real \<Rightarrow> string \<Rightarrow> string option \<Rightarrow> market \<Rightarrow> offer outcome" where
  "recordPublicOffer mg t now d amount who notes m =
     (if amount \<le> 0 then (Inl InvalidAmount, m)
      else if who = [] then (Inl BuyerRequired, m)
      else case find (\<lambda>l. l_status l \<noteq> Sold) (findByDomain t d m) of
        None \<Rightarrow> (Inl NoActiveListing, m)
      | Some l \<Rightarrow> recordOffer mg t now (l_id l) amount who notes m)"

section \<open>Synchronisation\<close>

record remote_listing =
  rl_id :: nat
  rl_domain :: string
  rl_marketplace :: string
  rl_externalId :: "string option"
  rl_priceEur :: real
  rl_status :: listing_status
  rl_url :: "string option"
  rl_listedAt :: "ms option"
  rl_expiresAt :: "ms option"

record remote_offer =
  ro_id :: nat
  ro_listingId :: nat
  ro_amountEur :: real
  ro_buyer :: string
  ro_status :: offer_status

definition remoteExternalId :: "(nat \<Rightarrow> string) \<Rightarrow> remote_listing \<Rightarrow> string" where
  "remoteExternalId show_id r = (case rl_externalId r of Some e \<Rightarrow> e | None \<Rightarrow> show_id (rl_id r))"

text \<open>One remote listing: the map from remote ids to local rows, and the state.\<close>

definition sync_listing ::
  "(nat \<Rightarrow> string) \<Rightarrow> manager \<Rightarrow> string \<Rightarrow> ms \<Rightarrow> remote_listing \<Rightarrow> (string \<Rightarrow> nat option) \<times> market \<Rightarrow>
   gate_error + ((string \<Rightarrow> nat option) \<times> market)" where
  "sync_listing show_id mg t now r st =
     (let (byExternal, m) = st;
          e = remoteExternalId show_id r;
          local = (case findByMarketplaceAndExternalId t (rl_marketplace r) e m of
                     Some l \<Rightarrow> Some l
                   | None \<Rightarrow> findByDomainAndMarketplace t (rl_domain r) (rl_marketplace r) m)
      in case gate mg (rl_domain r) of
           Inl err \<Rightarrow> Inl err
         | Inr g \<Rightarrow>
             if g_verdict g = Blocked
             then Inr (byExternal,
                    (case local of
                       Some l \<Rightarrow> (if l_status l = Listed \<or> l_status l = OfferReceived
                                 then set_status t (l_id l) Unlisted m else m)
                     | None \<Rightarrow> m))
             else case local of
               Some l \<Rightarrow>
                 Inr (byExternal(e \<mapsto> l_id l),
                      repo_update t (l_id l)
                        (no_update\<lparr>u_externalId := (if externalId l \<noteq> Some e then Some (Some e) else None),
                                   u_status := (if l_status l \<noteq> rl_status r then Some (rl_status r) else None),
                                   u_priceEur := (if priceEur l \<noteq> rl_priceEur r then Some (rl_priceEur r) else None)\<rparr>) m)
             | None \<Rightarrow>
                 let (i, m1) = repo_insert t now
                       \<lparr>n_domain = rl_domain r, n_marketplace = rl_marketplace r, n_externalId = Some e,
                        n_priceEur = rl_priceEur r, n_listingUrl = rl_url r, n_status = rl_status r,
                        n_listedAt = rl_listedAt r, n_expiresAt = rl_expiresAt r, n_notes = None\<rparr> m
                 in Inr (byExternal(e \<mapsto> i), m1))"

fun sync_listings ::
  "(nat \<Rightarrow> string) \<Rightarrow> manager \<Rightarrow> string \<Rightarrow> ms \<Rightarrow> remote_listing list \<Rightarrow> (string \<Rightarrow> nat option) \<times> market \<Rightarrow>
   gate_error option \<times> (string \<Rightarrow> nat option) \<times> market" where
  "sync_listings show_id mg t now [] st = (None, st)"
| "sync_listings show_id mg t now (r # rs) st =
     (case sync_listing show_id mg t now r st of
        Inl err \<Rightarrow> (Some err, st)
      | Inr st' \<Rightarrow> sync_listings show_id mg t now rs st')"

text \<open>One remote offer, linked through the remote listing to the local row.\<close>

definition sync_offer ::
  "(nat \<Rightarrow> string) \<Rightarrow> string \<Rightarrow> ms \<Rightarrow> remote_listing list \<Rightarrow> (string \<Rightarrow> nat option) \<Rightarrow> remote_offer \<Rightarrow>
   market \<Rightarrow> market" where
  "sync_offer show_id t now rs byExternal o1 m =
     (case find (\<lambda>r. rl_id r = ro_listingId o1) (rev rs) of
        None \<Rightarrow> m
      | Some r \<Rightarrow>
          (case byExternal (remoteExternalId show_id r) of
             None \<Rightarrow> m
           | Some i \<Rightarrow>
               (case findPendingOffer t i m of
                  Some x \<Rightarrow>
                    (if amountEur x \<noteq> ro_amountEur o1
                     then let m1 = snd (insertOffer now i (ro_amountEur o1) (ro_buyer o1) None m)
                          in if ro_status o1 = OfferPending then set_status t i OfferReceived m1 else m1
                     else m)
                | None \<Rightarrow>
                    let m1 = snd (insertOffer now i (ro_amountEur o1) (ro_buyer o1) None m)
                    in if ro_status o1 = OfferPending then set_status t i OfferReceived m1 else m1)))"

definition syncAll ::
  "(nat \<Rightarrow> string) \<Rightarrow> manager \<Rightarrow> string \<Rightarrow> ms \<Rightarrow> remote_listing list \<Rightarrow> remote_offer list \<Rightarrow> market \<Rightarrow>
   unit outcome" where
  "syncAll show_id mg t now rs ros m =
     (if \<not> isAvailable (provider mg) then (Inr (), m)
      else case sync_listings show_id mg t now rs (Map.empty, m) of
        (Some err, _, m1) \<Rightarrow> (Inl (GateFailed err), m1)
      | (None, byExternal, m1) \<Rightarrow> (Inr (), fold (sync_offer show_id t now rs byExternal) ros m1))"

section \<open>Runs\<close>

text \<open>Any operation of any tenant, whether it succeeds or throws.\<close>

inductive market_step :: "manager \<Rightarrow> string \<Rightarrow> market \<Rightarrow> market \<Rightarrow> bool" for mg :: manager and t :: string where
  listed: "market_step mg t m (snd (listDomain mg t now d mp asked notes m))"
| updated: "market_step mg t m (snd (updateListing show_id mg t i u m))"
| deleted: "market_step mg t m (snd (deleteListing show_id mg t i m))"
| published: "market_step mg t m (snd (listOnMarketplace mg t i m))"
| offered: "market_step mg t m (snd (recordOffer mg t now i amount who notes m))"
| public_offer: "market_step mg t m (snd (recordPublicOffer mg t now d amount who notes m))"
| answered: "market_step mg t m (snd (respondToOffer t now k i accept m))"
| sold: "market_step mg t m (snd (sellDomain mg held t now i k s m))"
| synced: "market_step mg t m (snd (syncAll show_id mg t now rs ros m))"

inductive_cases market_stepE: "market_step mg t m m'"

definition empty_market :: market where
  "empty_market = \<lparr>listings = [], offers = [], outcomes = [], next_listing = 1, next_offer = 1, remote = []\<rparr>"

inductive reachable_market :: "manager \<Rightarrow> market \<Rightarrow> bool" for mg :: manager where
  initially: "reachable_market mg empty_market"
| afterwards: "reachable_market mg m \<Longrightarrow> market_step mg t m m' \<Longrightarrow> reachable_market mg m'"

text \<open>
  Every operation is a sequence of primitive prims. Each primitive write of a tenant keeps
  the invariants below, so the operations do.
\<close>

inductive prim :: "(string \<Rightarrow> bool) \<Rightarrow> string \<Rightarrow> market \<Rightarrow> market \<Rightarrow> bool" for fine :: "string \<Rightarrow> bool" and t :: string where
  w_insert: "fine (n_domain n) \<Longrightarrow> prim fine t m (snd (repo_insert t now n m))"
| w_update: "prim fine t m (repo_update t i u m)"
| w_delete: "prim fine t m (repo_delete t i m)"
| w_offer: "owns_listing t i m \<Longrightarrow> prim fine t m (snd (insertOffer now i amount who notes m))"
| w_answer: "prim fine t m (updateOfferStatus t now k st notes m)"
| w_remote: "prim fine t m (m\<lparr>remote := c\<rparr>)"
| w_outcome: "oc_tenant x = t \<Longrightarrow> prim fine t m (m\<lparr>outcomes := outcomes m @ [x]\<rparr>)"

abbreviation prims :: "(string \<Rightarrow> bool) \<Rightarrow> string \<Rightarrow> market \<Rightarrow> market \<Rightarrow> bool" where
  "prims fine t \<equiv> (prim fine t)\<^sup>*\<^sup>*"

lemmas w_intros = w_insert w_update w_delete w_offer w_answer w_remote w_outcome

lemma w1: "prim fine t m m' \<Longrightarrow> prims fine t m m'"
  by (rule r_into_rtranclp)

lemma w2: "prims fine t m m' \<Longrightarrow> prim fine t m' m'' \<Longrightarrow> prims fine t m m''"
  by (rule rtranclp.rtrancl_into_rtrancl)

lemma w_status: "prim fine t m (set_status t i s m)"
  by (simp add: set_status_def w_update)

lemma fetch_snd [simp]: "snd (fetch t i m) = m"
  by (simp add: fetch_def split: option.split)

lemma findById_owns: "findById t i m = Some l \<Longrightarrow> owns_listing t i m \<and> l_id l = i \<and> l_tenant l = t \<and> l \<in> set (listings m)"
  by (auto simp: findById_def owns_listing_def list_ex_iff find_Some_iff)

lemma apply_update_simps [simp]:
  "l_id (apply_update u l) = l_id l" "l_tenant (apply_update u l) = l_tenant l"
  "l_domain (apply_update u l) = l_domain l" "marketplace (apply_update u l) = marketplace l"
  "l_createdAt (apply_update u l) = l_createdAt l"
  by (simp_all add: apply_update_def)

lemma owns_update [simp]: "owns_listing t i (repo_update t' j u m) = owns_listing t i m"
proof -
  have "list_ex (\<lambda>l. l_id l = i \<and> l_tenant l = t) (map (\<lambda>l. if l_id l = j \<and> l_tenant l = t'
      then apply_update u l else l) ls) = list_ex (\<lambda>l. l_id l = i \<and> l_tenant l = t) ls" for ls
    by (induction ls) auto
  then show ?thesis by (simp add: owns_listing_def repo_update_def)
qed

lemma owns_status [simp]: "owns_listing t i (set_status t' j s m) = owns_listing t i m"
  by (simp add: set_status_def)

lemma owns_remote [simp]: "owns_listing t i (m\<lparr>remote := c\<rparr>) = owns_listing t i m"
  by (simp add: owns_listing_def)

lemma owns_offer [simp]: "owns_listing t i (snd (insertOffer now j a w n m)) = owns_listing t i m"
  by (simp add: owns_listing_def insertOffer_def)

lemma owns_answer [simp]: "owns_listing t i (updateOfferStatus t' now j s n m) = owns_listing t i m"
  by (simp add: owns_listing_def updateOfferStatus_def)

definition unblocked :: "manager \<Rightarrow> string \<Rightarrow> bool" where
  "unblocked mg d = (\<exists>g. gate mg d = Inr g \<and> g_verdict g \<noteq> Blocked)"

lemma prims_listDomain: "prims (unblocked mg) t m (snd (listDomain mg t now d mp asked notes m))"
proof -
  have "prims (unblocked mg) t m (snd (repo_insert t now n m))" if "n_domain n = d" "unblocked mg d" for n
    using that by (intro w1 w_insert) simp
  from this [of "\<lparr>n_domain = d, n_marketplace = mp, n_externalId = None, n_priceEur = p,
      n_listingUrl = None, n_status = Draft, n_listedAt = None, n_expiresAt = None, n_notes = notes\<rparr>" for p]
  show ?thesis
    by (auto simp: listDomain_def unblocked_def Let_def case_prod_beta
        split: option.split sum.split)
qed

lemma prims_updateListing: "prims fine t m (snd (updateListing show_id mg t i u m))"
  by (auto simp: updateListing_def Let_def split: option.split
      intro: w1 w2 w_update w_remote)

lemma prims_deleteListing: "prims fine t m (snd (deleteListing show_id mg t i m))"
  by (auto simp: deleteListing_def Let_def split: option.split intro: w1 w2 w_delete w_remote)

lemma prims_listOnMarketplace: "prims fine t m (snd (listOnMarketplace mg t i m))"
proof -
  have r: "prims fine t m (repo_update t i u (m\<lparr>remote := c\<rparr>))" for u c
    by (rule w2 [OF w1 [OF w_remote] w_update])
  show ?thesis
    by (auto simp: listOnMarketplace_def set_status_def Let_def split: option.split sum.split
        intro: w1 w_update r)
qed

lemma prims_applyOfferRules: "prims fine t m (snd (applyOfferRules mg t now l k m))"
  by (auto simp: applyOfferRules_def Let_def split: option.split offer_rule_outcome.split
      intro: w1 w2 w_answer w_status)

lemma prims_recordOffer: "prims fine t m (snd (recordOffer mg t now i amount who notes m))"
proof (cases "findById t i m")
  case (Some l)
  then have "owns_listing t i m" using findById_owns by blast
  then have "prims fine t m (set_status t i OfferReceived (snd (insertOffer now i amount who notes m)))"
    by (intro w2 [OF w1 [OF w_offer] w_status])
  then show ?thesis
    using Some prims_applyOfferRules [of fine t _ mg now l]
    by (auto simp: recordOffer_def Let_def case_prod_beta intro: rtranclp_trans)
qed (simp add: recordOffer_def)

lemma prims_respond: "prims fine t m (snd (respondToOffer t now k i accept m))"
  by (auto simp: respondToOffer_def Let_def split: option.split intro: w1 w2 w_answer w_status)

lemma prims_sell: "prims fine t m (snd (sellDomain mg held t now i k s m))"
proof -
  have "prims fine t m (updateOfferStatus t now k a n (set_status t i b m))" for a b n
    by (rule w2 [OF w1 [OF w_status] w_answer])
  moreover from this have "prims fine t m
      ((updateOfferStatus t now k a n (set_status t i b m))\<lparr>outcomes :=
        outcomes (updateOfferStatus t now k a n (set_status t i b m)) @ [x]\<rparr>)"
    if "oc_tenant x = t" for a b n x
    by (rule w2) (rule w_outcome [OF that])
  ultimately show ?thesis
    by (auto simp: sellDomain_def Let_def split: option.split)
qed

lemma prims_public: "prims fine t m (snd (recordPublicOffer mg t now d amount who notes m))"
  by (auto simp: recordPublicOffer_def split: option.split intro: prims_recordOffer)

lemma prims_sync_listing:
  assumes "sync_listing show_id mg t now r (f, m) = Inr (f', m')"
  shows "prims (unblocked mg) t m m'"
proof -
  have i: "prims (unblocked mg) t m (snd (repo_insert t now n m))"
    if "n_domain n = rl_domain r" "unblocked mg (rl_domain r)" for n
    using that by (intro w1 w_insert) simp
  show ?thesis
    using assms
    by (auto simp: sync_listing_def Let_def case_prod_beta unblocked_def
        split: sum.splits if_splits option.splits intro: w1 w_update w_status i)
qed

lemma prims_sync_listings:
  "sync_listings show_id mg t now rs (f, m) = (e, f', m') \<Longrightarrow> prims (unblocked mg) t m m'"
proof (induction rs arbitrary: f m)
  case (Cons r rs)
  show ?case
  proof (cases "sync_listing show_id mg t now r (f, m)")
    case (Inl err)
    then show ?thesis using Cons.prems by auto
  next
    case (Inr st)
    obtain g n where st: "st = (g, n)" by (cases st)
    have "prims (unblocked mg) t m n" by (rule prims_sync_listing [OF Inr [unfolded st]])
    moreover have "prims (unblocked mg) t n m'" using Cons.IH [of g n] Cons.prems Inr st by simp
    ultimately show ?thesis by (rule rtranclp_trans)
  qed
qed auto

text \<open>The local rows that a synchronisation links offers to are the tenant's.\<close>

lemma owns_insert: "owns_listing t i m \<Longrightarrow> owns_listing t i (snd (repo_insert t' now n m))"
  by (simp add: owns_listing_def repo_insert_def)

lemma sync_listing_owns:
  assumes "sync_listing show_id mg t now r (f, m) = Inr (f', m')"
    and "\<forall>e i. f e = Some i \<longrightarrow> owns_listing t i m"
  shows "\<forall>e i. f' e = Some i \<longrightarrow> owns_listing t i m'"
proof -
  have fnd: "find P (listings m) = Some l \<Longrightarrow> (\<And>x. P x \<Longrightarrow> l_tenant x = t) \<Longrightarrow> owns_listing t (l_id l) m" for P l
    by (auto simp: find_Some_iff owns_listing_def list_ex_iff)
  have d: "findByDomainAndMarketplace t a b m = Some l \<Longrightarrow> owns_listing t (l_id l) m"
    "findByMarketplaceAndExternalId t a b m = Some l \<Longrightarrow> owns_listing t (l_id l) m" for a b l
    using fnd [of "\<lambda>l. l_domain l = a \<and> marketplace l = b \<and> l_tenant l = t" l]
      fnd [of "\<lambda>l. marketplace l = a \<and> externalId l = Some b \<and> l_tenant l = t" l]
    by (auto simp: findByDomainAndMarketplace_def findByMarketplaceAndExternalId_def)
  have n: "owns_listing t (next_listing m) (snd (repo_insert t now n m))" for n
    by (simp add: owns_listing_def repo_insert_def)
  have fi: "fst (repo_insert t now n m) = next_listing m" for n by (simp add: repo_insert_def)
  show ?thesis
    using assms
    by (auto simp: sync_listing_def Let_def case_prod_beta fi d n owns_insert
        split: sum.splits if_splits option.splits)
qed

lemma sync_listings_owns:
  "sync_listings show_id mg t now rs (f, m) = (e, f', m') \<Longrightarrow>
     \<forall>e i. f e = Some i \<longrightarrow> owns_listing t i m \<Longrightarrow> \<forall>e i. f' e = Some i \<longrightarrow> owns_listing t i m'"
proof (induction rs arbitrary: f m)
  case (Cons r rs)
  show ?case
  proof (cases "sync_listing show_id mg t now r (f, m)")
    case (Inl err)
    then show ?thesis using Cons.prems by auto
  next
    case (Inr st)
    obtain g n where st: "st = (g, n)" by (cases st)
    have "\<forall>e i. g e = Some i \<longrightarrow> owns_listing t i n"
      by (rule sync_listing_owns [OF Inr [unfolded st] Cons.prems(2)])
    then show ?thesis using Cons.IH [of g n] Cons.prems(1) Inr st by simp
  qed
qed auto

lemma prims_sync_offer:
  assumes "\<forall>e i. f e = Some i \<longrightarrow> owns_listing t i m"
  shows "prims fine t m (sync_offer show_id t now rs f x m)
    \<and> (\<forall>e i. f e = Some i \<longrightarrow> owns_listing t i (sync_offer show_id t now rs f x m))"
proof
  have "prims fine t m (snd (insertOffer now i a w n m))
      \<and> prims fine t m (set_status t i st (snd (insertOffer now i a w n m)))"
    if "f e = Some i" for e i a w n st
    using assms that by (auto intro!: w1 w_offer w2 [OF w1 [OF w_offer] w_status])
  then show "prims fine t m (sync_offer show_id t now rs f x m)"
    by (auto simp: sync_offer_def Let_def split: option.split)
  show "\<forall>e i. f e = Some i \<longrightarrow> owns_listing t i (sync_offer show_id t now rs f x m)"
    using assms by (auto simp: sync_offer_def Let_def split: option.split)
qed

lemma prims_sync_offers:
  "\<forall>e i. f e = Some i \<longrightarrow> owns_listing t i m \<Longrightarrow> prims fine t m (fold (sync_offer show_id t now rs f) xs m)"
proof (induction xs arbitrary: m)
  case (Cons x xs)
  note s = prims_sync_offer [OF Cons.prems, of fine show_id now rs x]
  from Cons.IH [OF s [THEN conjunct2]] s show ?case by (auto intro: rtranclp_trans)
qed simp

lemma prims_sync: "prims (unblocked mg) t m (snd (syncAll show_id mg t now rs ros m))"
proof (cases "isAvailable (provider mg)")
  case True
  obtain e f n where s: "sync_listings show_id mg t now rs (Map.empty, m) = (e, f, n)"
    by (metis prod_cases3)
  have "prims (unblocked mg) t m n" by (rule prims_sync_listings [OF s])
  moreover have "prims (unblocked mg) t n (fold (sync_offer show_id t now rs f) ros n)"
    by (rule prims_sync_offers) (use sync_listings_owns [OF s] in simp)
  ultimately show ?thesis
    using True s by (cases e) (auto simp: syncAll_def intro: rtranclp_trans)
qed (simp add: syncAll_def)

lemma step_prims: "market_step mg t m m' \<Longrightarrow> prims (unblocked mg) t m m'"
  by (erule market_stepE)
    (simp_all add: prims_listDomain prims_updateListing prims_deleteListing prims_listOnMarketplace
      prims_recordOffer prims_public prims_respond prims_sell prims_sync)

section \<open>Invariants of the writes\<close>

definition wf_market :: "market \<Rightarrow> bool" where
  "wf_market m = (distinct (map l_id (listings m)) \<and> (\<forall>l \<in> set (listings m). l_id l < next_listing m)
     \<and> (\<forall>k \<in> set (offers m). o_listingId k \<in> l_id ` set (listings m)))"

text \<open>What the other tenants see.\<close>

definition foreign_listings :: "string \<Rightarrow> market \<Rightarrow> listing list" where
  "foreign_listings t m = filter (\<lambda>l. l_tenant l \<noteq> t) (listings m)"

definition foreign_offers :: "string \<Rightarrow> market \<Rightarrow> offer list" where
  "foreign_offers t m = filter (\<lambda>k. \<not> owns_listing t (o_listingId k) m) (offers m)"

definition foreign_outcomes :: "string \<Rightarrow> market \<Rightarrow> sale_outcome list" where
  "foreign_outcomes t m = filter (\<lambda>x. oc_tenant x \<noteq> t) (outcomes m)"

lemma wf_same_ids:
  assumes "map l_id (listings m') = map l_id (listings m)" "next_listing m' = next_listing m"
    "offers m' = offers m" "wf_market m"
  shows "wf_market m'"
proof -
  have s: "l_id ` set (listings m') = l_id ` set (listings m)"
    using arg_cong [OF assms(1), of set] by simp
  have "(\<forall>l \<in> set (listings x). l_id l < n) \<longleftrightarrow> (\<forall>i \<in> l_id ` set (listings x). i < n)" for x n by simp
  then show ?thesis using assms s unfolding wf_market_def by metis
qed

lemma wf_prim: "prim fine t m m' \<Longrightarrow> wf_market m \<Longrightarrow> wf_market m'"
proof (induction rule: prim.induct)
  case (w_insert n m now)
  then show ?case by (auto simp: wf_market_def repo_insert_def)
next
  case (w_update m i u)
  have "map l_id (listings (repo_update t i u m)) = map l_id (listings m)"
    by (simp add: repo_update_def comp_def if_distrib cong: if_cong)
  from wf_same_ids [OF this _ _ w_update] show ?case by (simp add: repo_update_def)
next
  case (w_delete m i)
  have "k \<in> l_id ` {l \<in> set (listings m). \<not> (l_id l = i \<and> l_tenant l = t)}"
    if "k \<in> l_id ` set (listings m)" "k \<noteq> i" for k
    using that by auto
  then show ?case using w_delete
    by (auto simp: wf_market_def repo_delete_def distinct_map_filter)
next
  case (w_offer i m now amount who ns)
  then show ?case by (auto simp: wf_market_def insertOffer_def owns_listing_def list_ex_iff)
next
  case (w_answer m now k st ns)
  then show ?case by (auto simp: wf_market_def updateOfferStatus_def)
qed (simp_all add: wf_market_def)

lemma wf_prims: "prims fine t m m' \<Longrightarrow> wf_market m \<Longrightarrow> wf_market m'"
  by (induction rule: rtranclp_induct) (auto intro: wf_prim)

lemma foreign_prim:
  assumes "prim fine t m m'" "wf_market m"
  shows "foreign_listings t m' = foreign_listings t m \<and> foreign_offers t m' = foreign_offers t m
    \<and> foreign_outcomes t m' = foreign_outcomes t m"
  using assms
proof (induction rule: prim.induct)
  case (w_insert n m now)
  have "owns_listing t (o_listingId k) (snd (repo_insert t now n m)) = owns_listing t (o_listingId k) m"
    if "k \<in> set (offers m)" for k
  proof -
    have "o_listingId k < next_listing m" using w_insert(2) that by (auto simp: wf_market_def)
    then show ?thesis by (simp add: owns_listing_def repo_insert_def)
  qed
  then show ?case
    by (simp add: foreign_listings_def foreign_offers_def foreign_outcomes_def repo_insert_def
        cong: filter_cong)
next
  case (w_update m i u)
  have "filter (\<lambda>l. l_tenant l \<noteq> t) (map (\<lambda>l. if l_id l = i \<and> l_tenant l = t then apply_update u l else l) ls)
    = filter (\<lambda>l. l_tenant l \<noteq> t) ls" for ls
    by (induction ls) auto
  then show ?case
    by (simp add: foreign_listings_def foreign_offers_def foreign_outcomes_def)
      (simp add: repo_update_def)
next
  case (w_delete m i)
  show ?case
  proof (cases "list_ex (\<lambda>l. l_id l = i \<and> l_tenant l = t) (listings m)")
    case True
    have own: "owns_listing t k (repo_delete t i m) = (owns_listing t k m \<and> k \<noteq> i)" for k
      using True by (auto simp: owns_listing_def repo_delete_def list_ex_iff)
    have "owns_listing t i m" using True by (simp add: owns_listing_def)
    then have "filter (\<lambda>k. \<not> owns_listing t (o_listingId k) (repo_delete t i m))
        (offers (repo_delete t i m)) = filter (\<lambda>k. \<not> owns_listing t (o_listingId k) m) (offers m)"
      unfolding own using True
      by (auto simp: repo_delete_def filter_filter intro!: filter_cong)
    moreover have "filter (\<lambda>l. l_tenant l \<noteq> t) (listings (repo_delete t i m))
        = filter (\<lambda>l. l_tenant l \<noteq> t) (listings m)"
      using True by (auto simp: repo_delete_def intro!: filter_cong)
    ultimately show ?thesis
      by (simp add: foreign_listings_def foreign_offers_def foreign_outcomes_def)
        (simp add: repo_delete_def)
  qed (simp add: repo_delete_def)
next
  case (w_offer i m now amount who ns)
  then show ?case
    by (simp add: foreign_listings_def foreign_offers_def foreign_outcomes_def)
      (simp add: insertOffer_def)
next
  case (w_answer m now k st ns)
  have "filter (\<lambda>x. \<not> owns_listing t (o_listingId x) m) (map (\<lambda>x. if o_id x = k
      \<and> owns_listing t (o_listingId x) m then x\<lparr>o_status := st, respondedAt := Some now,
        o_notes := (case ns of Some y \<Rightarrow> Some y | None \<Rightarrow> o_notes x)\<rparr> else x) xs)
    = filter (\<lambda>x. \<not> owns_listing t (o_listingId x) m) xs" for xs
    by (induction xs) auto
  then show ?case
    by (simp add: foreign_listings_def foreign_offers_def foreign_outcomes_def)
      (simp add: updateOfferStatus_def)
qed (simp_all add: foreign_listings_def foreign_offers_def foreign_outcomes_def owns_listing_def)

lemma foreign_prims:
  "prims fine t m m' \<Longrightarrow> wf_market m \<Longrightarrow>
     foreign_listings t m' = foreign_listings t m \<and> foreign_offers t m' = foreign_offers t m
     \<and> foreign_outcomes t m' = foreign_outcomes t m"
proof (induction rule: rtranclp_induct)
  case (step y z)
  have "wf_market y" by (rule wf_prims [OF step.hyps(1) step.prems])
  then show ?case using foreign_prim [OF step.hyps(2)] step.IH [OF step.prems] by simp
qed simp

text \<open>Domains only enter through an insert.\<close>

lemma domains_prim:
  "prim fine t m m' \<Longrightarrow> \<forall>l \<in> set (listings m). fine (l_domain l) \<Longrightarrow>
     \<forall>l \<in> set (listings m'). fine (l_domain l)"
  by (induction rule: prim.induct)
    (auto simp: repo_insert_def repo_update_def repo_delete_def insertOffer_def updateOfferStatus_def)

lemma domains_prims:
  "prims fine t m m' \<Longrightarrow> \<forall>l \<in> set (listings m). fine (l_domain l) \<Longrightarrow>
     \<forall>l \<in> set (listings m'). fine (l_domain l)"
  by (induction rule: rtranclp_induct) (auto dest: domains_prim)

lemma reachable_market_inv:
  "reachable_market mg m \<Longrightarrow> wf_market m \<and> (\<forall>l \<in> set (listings m). unblocked mg (l_domain l))"
proof (induction rule: reachable_market.induct)
  case initially
  show ?case by (simp add: wf_market_def empty_market_def)
next
  case (afterwards m t m')
  have p: "prims (unblocked mg) t m m'" by (rule step_prims [OF afterwards.hyps(2)])
  show ?case using wf_prims [OF p] domains_prims [OF p] afterwards.IH by blast
qed

lemma findById_update: "findById t i (repo_update t i u m) = map_option (apply_update u) (findById t i m)"
proof -
  have "find (\<lambda>l. l_id l = i \<and> l_tenant l = t) (map (\<lambda>l. if l_id l = i \<and> l_tenant l = t
      then apply_update u l else l) ls) = map_option (apply_update u)
        (find (\<lambda>l. l_id l = i \<and> l_tenant l = t) ls)" for ls
    by (induction ls) auto
  then show ?thesis by (simp add: findById_def repo_update_def)
qed

lemma findById_status: "findById t i m = Some l \<Longrightarrow>
    \<exists>l'. findById t i (set_status t i s m) = Some l' \<and> l_status l' = s \<and> l_domain l' = l_domain l"
  by (simp add: set_status_def findById_update no_update_def apply_update_def)

lemma findById_answer [simp]: "findById t i (updateOfferStatus t' now k st n m) = findById t i m"
  by (simp add: findById_def updateOfferStatus_def)

lemma findById_remote [simp]: "findById t i (m\<lparr>remote := c\<rparr>) = findById t i m"
  by (simp add: findById_def)

lemma findById_outcomes [simp]: "findById t i (m\<lparr>outcomes := c\<rparr>) = findById t i m"
  by (simp add: findById_def)

lemma outcomes_writes [simp]:
  "outcomes (updateOfferStatus t now k st n m) = outcomes m" "outcomes (set_status t i s m) = outcomes m"
  by (simp_all add: updateOfferStatus_def set_status_def repo_update_def)

lemma find_offer_in:
  "find_offer t i k m = Some x \<Longrightarrow> x \<in> set (offers m) \<and> o_id x = k \<and> o_listingId x = i \<and> owns_listing t i m"
  by (auto simp: find_offer_def findOffersByListingId_def dest!: find_SomeD split: if_splits)

section \<open>Properties\<close>

text \<open>
  C9. Tenants are isolated: whatever operation a tenant runs, with whatever arguments and
  whether or not it fails, the listings, the offers and the sale outcomes of all other
  tenants stay exactly as they were.
\<close>

theorem listing_tenant_isolation:
  assumes "reachable_market mg m" "market_step mg t m m'"
  shows "foreign_listings t m' = foreign_listings t m \<and> foreign_offers t m' = foreign_offers t m
    \<and> foreign_outcomes t m' = foreign_outcomes t m"
  using foreign_prims [OF step_prims [OF assms(2)]] reachable_market_inv [OF assms(1)] by blast

definition gate_answer :: "verdict \<Rightarrow> string \<Rightarrow> gate_error + gate_result" where
  "gate_answer v d = Inr \<lparr>g_domain = d, g_verdict = v, g_partial = None, verifiedSources = [],
     usptoFailed = None, matched = None\<rparr>"

text \<open>A manager without remote marketplace whose tenant declines offers below 100.\<close>

definition example_manager :: "verdict \<Rightarrow> manager" where
  "example_manager v = \<lparr>provider = \<lparr>p_name = ''manual'', isAvailable = False,
       createListing = (\<lambda>_ _. None)\<rparr>,
     gate = gate_answer v, suggest_price = (\<lambda>_. Some 500),
     listing_settings = Some \<lparr>pricePolicyFixed = False, basePriceEur = None,
       offerAutoDeclineBelowEur = Some 100, offerCounterEur = None\<rparr>,
     records_outcomes = True, portfolio_costs = None\<rparr>"

definition draft_market :: "verdict \<Rightarrow> market" where
  "draft_market v = snd (listDomain (example_manager v) ''a'' 0 ''x.com'' ''manual'' None None empty_market)"

lemma draft_reachable: "reachable_market (example_manager v) (draft_market v)"
  unfolding draft_market_def by (rule afterwards [OF initially listed])

lemma draft_listing:
  assumes "v \<noteq> Blocked"
  shows "\<exists>l. listings (draft_market v) = [l] \<and> l_id l = 1 \<and> l_tenant l = ''a'' \<and> l_status l = Draft
    \<and> l_domain l = ''x.com'' \<and> next_offer (draft_market v) = 1 \<and> offers (draft_market v) = []"
  using assms
  by (simp add: draft_market_def listDomain_def findByDomainAndMarketplace_def empty_market_def
      example_manager_def gate_answer_def repo_insert_def Let_def)

theorem listing_tenant_isolation_witness:
  "foreign_listings ''b'' (snd (deleteListing (\<lambda>_. []) (example_manager Clear) ''b'' 1 (draft_market Clear)))
     = foreign_listings ''b'' (draft_market Clear)"
  using listing_tenant_isolation [OF draft_reachable market_step.deleted] by blast

text \<open>
  C8. A blocked domain never enters the sell pipeline: in any run of any operations of any
  tenants, synchronisation with the marketplace included, no listing is ever recorded, not
  even as a draft, for a domain that the trademark gate blocks or fails to judge.
\<close>

theorem blocked_never_listed:
  assumes "reachable_market mg m"
  shows "\<forall>l \<in> set (listings m). \<exists>g. gate mg (l_domain l) = Inr g \<and> g_verdict g \<noteq> Blocked"
  using reachable_market_inv [OF assms] by (simp add: unblocked_def)

theorem blocked_never_listed_witness:
  "listings (draft_market Blocked) = []"
proof (rule ccontr)
  assume "listings (draft_market Blocked) \<noteq> []"
  then have l: "hd (listings (draft_market Blocked)) \<in> set (listings (draft_market Blocked))" by simp
  from blocked_never_listed [OF draft_reachable [of Blocked]] l show False
    by (auto simp: example_manager_def gate_answer_def)
qed

text \<open>
  Publishing is gated: a draft is published only when the gate gives Clear at that
  moment and the listing is meant for the active marketplace; it is then listed (or pending
  when the marketplace call fails); in every other case nothing is written.
\<close>

theorem publish_requires_clear:
  assumes "findById t i m = Some l" "l_status l = Draft"
    and "listOnMarketplace mg t i m = (r, m')"
  shows "if (\<exists>g. gate mg (l_domain l) = Inr g \<and> g_verdict g = Clear)
      \<and> (p_name (provider mg) = ''manual'' \<or> marketplace l = p_name (provider mg))
    then \<exists>l'. r = Inr l' \<and> findById t i m' = Some l' \<and> l_status l' \<in> {Listed, Pending}
      \<and> (l_status l' = Pending \<longrightarrow> createListing (provider mg) (l_domain l) (priceEur l) = None)
    else m' = m \<and> (\<exists>e. r = Inl e)"
proof -
  have f: "fetch t i (repo_update t i u n) = (Inr (apply_update u l), repo_update t i u n)"
    if "findById t i n = Some l" for u n
    using that by (simp add: fetch_def findById_update)
  show ?thesis
    using assms
    by (auto simp: listOnMarketplace_def set_status_def f findById_update no_update_def apply_update_def
        Let_def split: sum.splits if_splits option.splits)
qed

theorem publish_requires_clear_witness:
  "snd (listOnMarketplace (example_manager Unverified) ''a'' 1 (draft_market Unverified))
     = draft_market Unverified"
proof -
  obtain l where l: "listings (draft_market Unverified) = [l]" "l_id l = 1" "l_tenant l = ''a''"
    "l_status l = Draft" "l_domain l = ''x.com''" using draft_listing [of Unverified] by auto
  have f: "findById ''a'' 1 (draft_market Unverified) = Some l" using l by (simp add: findById_def)
  obtain r m' where p: "listOnMarketplace (example_manager Unverified) ''a'' 1 (draft_market Unverified) = (r, m')"
    by (cases "listOnMarketplace (example_manager Unverified) ''a'' 1 (draft_market Unverified)")
  show ?thesis
    using publish_requires_clear [OF f l(4) p] p by (simp add: example_manager_def gate_answer_def)
qed

text \<open>
  The gate can be bypassed through an offer: a domain that the gate never clears is a
  draft that cannot be published, but when a buyer makes a public offer below the tenant's
  auto-decline floor, declining it sets the draft to listed.
\<close>

theorem unverified_draft_listed_by_offer:
  "\<exists>mg m m'. (\<forall>d. \<exists>g. gate mg d = Inr g \<and> g_verdict g = Unverified)
    \<and> reachable_market mg m \<and> map l_status (listings m) = [Draft]
    \<and> m' = snd (recordPublicOffer mg ''a'' 0 ''x.com'' 1 ''buyer'' None m)
    \<and> map l_status (listings m') = [Listed]"
proof -
  obtain l where l: "listings (draft_market Unverified) = [l]" "l_id l = 1" "l_tenant l = ''a''"
    "l_status l = Draft" "l_domain l = ''x.com''" using draft_listing [of Unverified] by auto
  have "map l_status (listings (snd (recordPublicOffer (example_manager Unverified) ''a'' 0 ''x.com'' 1
      ''buyer'' None (draft_market Unverified)))) = [Listed]"
    using l
    by (simp add: recordPublicOffer_def findByDomain_def recordOffer_def findById_def insertOffer_def
        set_status_def repo_update_def applyOfferRules_def example_manager_def evaluateOfferRules_def
        updateOfferStatus_def owns_listing_def Let_def no_update_def apply_update_def)
  then show ?thesis
    using draft_reachable [of Unverified] l
    by (intro exI [of _ "example_manager Unverified"] exI [of _ "draft_market Unverified"] exI conjI)
      (auto simp: example_manager_def gate_answer_def)
qed

text \<open>
  A completed sale is recorded: it needs an unsold listing and a pending offer of it and
  a positive price; it marks both and appends exactly one outcome with that price. Every
  refusal leaves the state alone, except when the portfolio does not hold the domain: then
  the listing is already sold, no outcome is recorded and the sale cannot be repeated.
\<close>

theorem sale_recorded:
  assumes "sellDomain mg held t now i k s m = (r, m')" "records_outcomes mg"
  shows "case r of
      Inr (l, x) \<Rightarrow> (\<exists>y. outcomes m' = outcomes m @ [y] \<and> salePriceEur y = s_priceEur s
          \<and> oc_domain y = l_domain l \<and> oc_tenant y = t \<and> 1 \<le> daysListed y)
        \<and> 0 < s_priceEur s \<and> o_id x = k \<and> o_listingId x = i
        \<and> (\<exists>l'. findById t i m' = Some l' \<and> l_status l' = Sold)
        \<and> (\<exists>l'. findById t i m = Some l' \<and> l_status l' \<noteq> Sold)
    | Inl e \<Rightarrow> (if e = DomainNotFound
        then outcomes m' = outcomes m \<and> (\<exists>l'. findById t i m' = Some l' \<and> l_status l' = Sold)
          \<and> fst (sellDomain mg held t now i k s m') = Inl AlreadySold
        else m' = m)"
proof (cases "findById t i m")
  case None
  then show ?thesis using assms(1) by (auto simp: sellDomain_def)
next
  case l: (Some l)
  show ?thesis
  proof (cases "l_status l = Sold")
    case True
    then show ?thesis using assms(1) l by (auto simp: sellDomain_def)
  next
    case unsold: False
    show ?thesis
    proof (cases "find_offer t i k m")
      case None
      then show ?thesis using assms(1) l unsold by (auto simp: sellDomain_def)
    next
      case x: (Some x)
      note off = find_offer_in [OF x]
      show ?thesis
      proof (cases "o_status x \<noteq> OfferPending \<or> s_priceEur s \<le> 0")
        case True
        then have "m' = m \<and> (r = Inl OfferNotPending \<or> r = Inl InvalidAmount)"
          using assms(1) l unsold x by (cases "o_status x = OfferPending") (auto simp: sellDomain_def)
        then show ?thesis by auto
      next
        case False
        let ?m1 = "updateOfferStatus t now k Accepted (Some ''Accepted sale'') (set_status t i Sold m)"
        obtain l' where l': "findById t i ?m1 = Some l'" "l_status l' = Sold"
          using findById_status [OF l, of Sold] by auto
        show ?thesis
        proof (cases "held t (l_domain l)")
          case None
          then have "r = Inl DomainNotFound" "m' = ?m1"
            using assms l unsold x False by (simp_all add: sellDomain_def Let_def)
          then show ?thesis using l' by (simp add: sellDomain_def)
        next
          case (Some c)
          then show ?thesis
            using assms l unsold x False l' off
            by (auto simp: sellDomain_def Let_def)
        qed
      qed
    qed
  qed
qed

definition offered_market :: market where
  "offered_market = snd (recordOffer (example_manager Clear) ''a'' 0 1 500 ''buyer'' None (draft_market Clear))"

theorem sale_recorded_witness:
  "let m' = snd (sellDomain (example_manager Clear) (\<lambda>_ _. None) ''a'' 0 1 1
       \<lparr>s_priceEur = 500, s_commissionPct = None, s_venue = None, s_notes = None\<rparr> offered_market)
   in outcomes m' = outcomes offered_market
      \<and> fst (sellDomain (example_manager Clear) (\<lambda>_ _. None) ''a'' 0 1 1
       \<lparr>s_priceEur = 500, s_commissionPct = None, s_venue = None, s_notes = None\<rparr> m') = Inl AlreadySold"
proof -
  let ?s = "\<lparr>s_priceEur = 500, s_commissionPct = None, s_venue = None, s_notes = None\<rparr>"
  obtain l where l: "listings (draft_market Clear) = [l]" "l_id l = 1" "l_tenant l = ''a''"
    "l_status l = Draft" "next_offer (draft_market Clear) = 1" "offers (draft_market Clear) = []"
    using draft_listing [of Clear] by auto
  have r: "records_outcomes (example_manager Clear)" by (simp add: example_manager_def)
  have e: "fst (sellDomain (example_manager Clear) (\<lambda>_ _. None) ''a'' 0 1 1 ?s offered_market)
      = Inl DomainNotFound"
    using l
    by (simp add: offered_market_def recordOffer_def findById_def insertOffer_def set_status_def
        repo_update_def applyOfferRules_def example_manager_def evaluateOfferRules_def Let_def
        no_update_def apply_update_def sellDomain_def find_offer_def findOffersByListingId_def
        owns_listing_def)
  obtain m' where p: "sellDomain (example_manager Clear) (\<lambda>_ _. None) ''a'' 0 1 1 ?s offered_market
      = (Inl DomainNotFound, m')" using e by (metis prod.collapse)
  show ?thesis using sale_recorded [OF p r] p by simp
qed

text \<open>
  Sold is not final: in a run in which a listing has been sold and its sale recorded,
  recording another offer by listing id sets the listing back to having received an offer,
  and it can be sold, and the sale recorded, a second time.
\<close>

theorem sold_listing_sold_again:
  "\<exists>mg m m' m''. reachable_market mg m \<and> map l_status (listings m) = [Sold] \<and> length (outcomes m) = 1
    \<and> market_step mg ''a'' m m' \<and> map l_status (listings m') = [OfferReceived]
    \<and> market_step mg ''a'' m' m'' \<and> map l_status (listings m'') = [Sold] \<and> length (outcomes m'') = 2"
proof -
  let ?mg = "example_manager Clear"
  let ?s = "\<lparr>s_priceEur = 500, s_commissionPct = None, s_venue = None, s_notes = None\<rparr>"
  let ?held = "\<lambda>_ _. Some (0, 0)"
  define m1 where "m1 = offered_market"
  define m2 where "m2 = snd (sellDomain ?mg ?held ''a'' 0 1 1 ?s m1)"
  define m3 where "m3 = snd (recordOffer ?mg ''a'' 0 1 600 ''other'' None m2)"
  define m4 where "m4 = snd (sellDomain ?mg ?held ''a'' 0 1 2 ?s m3)"
  obtain l where l: "listings (draft_market Clear) = [l]" "l_id l = 1" "l_tenant l = ''a''"
    "l_status l = Draft" "next_offer (draft_market Clear) = 1" "offers (draft_market Clear) = []"
    using draft_listing [of Clear] by auto
  have o0: "outcomes (draft_market Clear) = []"
    by (simp add: draft_market_def listDomain_def findByDomainAndMarketplace_def empty_market_def
        example_manager_def gate_answer_def repo_insert_def Let_def)
  note ops = recordOffer_def findById_def insertOffer_def set_status_def repo_update_def
    applyOfferRules_def evaluateOfferRules_def no_update_def apply_update_def sellDomain_def
    find_offer_def findOffersByListingId_def owns_listing_def updateOfferStatus_def
  obtain l1 k1 where 1: "listings m1 = [l1]" "l_id l1 = 1" "l_tenant l1 = ''a''" "l_status l1 = OfferReceived"
    "offers m1 = [k1]" "o_id k1 = 1" "o_listingId k1 = 1" "o_status k1 = OfferPending"
    "next_offer m1 = 2" "outcomes m1 = []"
    using l o0 by (simp add: m1_def offered_market_def example_manager_def ops Let_def)
  obtain l2 k2 where 2: "listings m2 = [l2]" "l_id l2 = 1" "l_tenant l2 = ''a''" "l_status l2 = Sold"
    "offers m2 = [k2]" "o_id k2 = 1" "o_listingId k2 = 1" "next_offer m2 = 2" "length (outcomes m2) = 1"
    using 1 by (simp add: m2_def example_manager_def ops Let_def)
  obtain l3 k3 where 3: "listings m3 = [l3]" "l_id l3 = 1" "l_tenant l3 = ''a''" "l_status l3 = OfferReceived"
    "offers m3 = [k2, k3]" "o_id k3 = 2" "o_listingId k3 = 1" "o_status k3 = OfferPending"
    "length (outcomes m3) = 1"
    using 2 by (simp add: m3_def example_manager_def ops Let_def)
  have f3: "find_offer ''a'' 1 2 m3 = Some k3"
    using 3 2 by (simp add: find_offer_def findOffersByListingId_def owns_listing_def)
  have 4: "map l_status (listings m4) = [Sold]" "length (outcomes m4) = 2"
    using 3 f3
    by (simp_all add: m4_def sellDomain_def findById_def set_status_def repo_update_def no_update_def
        apply_update_def updateOfferStatus_def example_manager_def Let_def)
  have "reachable_market ?mg m1"
    unfolding m1_def offered_market_def by (rule afterwards [OF draft_reachable offered])
  then have "reachable_market ?mg m2" unfolding m2_def by (rule afterwards [OF _ sold])
  moreover have "market_step ?mg ''a'' m2 m3" unfolding m3_def by (rule offered)
  moreover have "market_step ?mg ''a'' m3 m4" unfolding m4_def by (rule sold)
  ultimately show ?thesis using 2 3 4 by (intro exI conjI) auto
qed

end
