(* ===== verification/Portfolio.thy ===== *)
theory Portfolio
  imports Prelude
begin

text \<open>
  The portfolio's decisions: net present value (\<open>src/portfolio/npv-calculator.ts\<close>), renewal
  clock, drop verdicts, carry-cost verdicts, renewal alerts and the executor of drops
  (\<open>drop-verdict-engine.ts\<close>, \<open>carry-cost-verdict.ts\<close>, \<open>renewal-alert-engine.ts\<close>,
  \<open>drop-executor.ts\<close>). Verdicts keep the numbers they are based on; their texts, which only
  print those numbers, are left out. The rows are those of one tenant.
\<close>

section \<open>Entries and the renewal clock\<close>

datatype portfolio_verdict = Keep | Drop | Reprice

text \<open>The timestamps of the row's own maintenance and its notes are left out.\<close>

record entry =
  domain :: string
  tld :: string
  registrar :: string
  acquiredAt :: "ms option"
  renewalDate :: ms
  acquisitionCost :: real
  renewalCost :: real
  currentScore :: "real option"
  suggestedListPrice :: "real option"
  verdict :: portfolio_verdict
  verdictReason :: "string option"

definition MS_PER_DAY :: int where
  "MS_PER_DAY = 1000 * 60 * 60 * 24"

text \<open>Whole UTC days between today and the renewal.\<close>

definition daysUntilRenewal :: "ms \<Rightarrow> entry \<Rightarrow> int" where
  "daysUntilRenewal now e = renewalDate e div MS_PER_DAY - now div MS_PER_DAY"

definition isRenewalImminent :: "ms \<Rightarrow> entry \<Rightarrow> int \<Rightarrow> bool" where
  "isRenewalImminent now e horizonDays = (daysUntilRenewal now e \<le> horizonDays)"

section \<open>Net present value\<close>

record npv_input =
  expectedValue :: real
  n_confidence :: real
  n_acquisitionCost :: real
  n_renewalCost :: real

record npv_result =
  npv :: real
  projectedAnnualReturn :: real
  breakEvenYears :: real
  annualRenewalCost :: real

text \<open>The years left, the year, and the two accumulators of the loop.\<close>

fun npv_loop :: "npv_input \<Rightarrow> real \<Rightarrow> nat \<Rightarrow> nat \<Rightarrow> real \<times> real \<Rightarrow> real \<times> real" where
  "npv_loop i r 0 t acc = acc"
| "npv_loop i r (Suc n) t (v, p) =
     (let discountFactor = 1 / (1 + r) ^ t;
          expectedGain = expectedValue i * n_confidence i * discountFactor;
          renewalCostDiscounted = n_renewalCost i * discountFactor
      in npv_loop i r n (t + 1) (v + (expectedGain - renewalCostDiscounted), p + expectedGain))"

definition computeNpv :: "npv_input \<Rightarrow> real \<Rightarrow> nat \<Rightarrow> npv_result" where
  "computeNpv i discountRate horizonYears =
     (let (v, p) = npv_loop i discountRate horizonYears 1 (- n_acquisitionCost i, 0);
          projected = p / real horizonYears - n_renewalCost i;
          netAnnualReturn = expectedValue i * n_confidence i - n_renewalCost i;
          breakEven =
            (if expectedValue i * n_confidence i > 0 \<and> n_renewalCost i > 0 \<and> netAnnualReturn > 0
             then n_acquisitionCost i / netAnnualReturn else real horizonYears + 1)
      in \<lparr>npv = round2 v, projectedAnnualReturn = round2 projected,
          breakEvenYears = round_to 1 breakEven, annualRenewalCost = n_renewalCost i\<rparr>)"

section \<open>Drop verdicts\<close>

datatype drop_method = Threshold | Npv

record drop_config =
  scoreThreshold :: real
  renewalHorizonDays :: int
  drop_method :: drop_method
  npvDiscountRate :: real
  npvHorizonYears :: nat

definition DEFAULT_DROP_VERDICT_CONFIG :: drop_config where
  "DEFAULT_DROP_VERDICT_CONFIG = \<lparr>scoreThreshold = 25, renewalHorizonDays = 60,
     drop_method = Threshold, npvDiscountRate = 5 / 100, npvHorizonYears = 5\<rparr>"

record drop_result =
  dr_domain :: string
  dr_verdict :: portfolio_verdict
  dr_npv :: "real option"

definition js_ceil :: "real \<Rightarrow> int" where
  "js_ceil x = \<lceil>x\<rceil>"

definition daysSinceAcquisition :: "ms \<Rightarrow> entry \<Rightarrow> int" where
  "daysSinceAcquisition now e =
     (if daysUntilRenewal now e < 365 then 365 - daysUntilRenewal now e
      else case acquiredAt e of
        Some a \<Rightarrow> \<lfloor>(of_int (now - a) :: real) / 86400000\<rfloor>
      | None \<Rightarrow> 0)"

definition sunkCostRecouped :: "ms \<Rightarrow> entry \<Rightarrow> bool" where
  "sunkCostRecouped now e =
     (let breakEvenRenewals =
            (if acquisitionCost e > 0
             then acquisitionCost e / (if renewalCost e = 0 then 1 else renewalCost e) else 0);
          renewalsPaid = max 1 (js_ceil (of_int (daysSinceAcquisition now e) / 365))
      in of_int renewalsPaid \<ge> breakEvenRenewals)"

definition computeThresholdBasedDropVerdict :: "ms \<Rightarrow> entry \<Rightarrow> drop_config \<Rightarrow> real \<Rightarrow> drop_result" where
  "computeThresholdBasedDropVerdict now e config s =
     (let days = daysUntilRenewal now e;
          answer = (\<lambda>v. \<lparr>dr_domain = domain e, dr_verdict = v, dr_npv = None\<rparr>)
      in if s < scoreThreshold config \<and> days \<le> renewalHorizonDays config
         then (if \<not> sunkCostRecouped now e \<and> acquisitionCost e > 0 then answer Reprice else answer Drop)
         else if suggestedListPrice e \<noteq> None \<and> currentScore e \<noteq> None
                 \<and> days \<le> renewalHorizonDays config * 3 \<and> s \<ge> scoreThreshold config
         then answer Reprice
         else answer Keep)"

definition computeNpvBasedDropVerdict :: "ms \<Rightarrow> entry \<Rightarrow> drop_config \<Rightarrow> real \<Rightarrow> drop_result" where
  "computeNpvBasedDropVerdict now e config s =
     (let result = computeNpv
            \<lparr>expectedValue = (case suggestedListPrice e of Some p \<Rightarrow> p | None \<Rightarrow> s * 5),
             n_confidence = clamp01 (s / 100), n_acquisitionCost = acquisitionCost e,
             n_renewalCost = renewalCost e\<rparr> (npvDiscountRate config) (npvHorizonYears config);
          approaching = (daysUntilRenewal now e \<le> renewalHorizonDays config);
          answer = (\<lambda>v. \<lparr>dr_domain = domain e, dr_verdict = v, dr_npv = Some (npv result)\<rparr>)
      in if npv result < 0 \<and> approaching
         then (if acquisitionCost e > 0 \<and> s \<ge> scoreThreshold config then answer Reprice else answer Drop)
         else if npv result < 0 \<and> \<not> approaching then answer Reprice
         else if npv result \<ge> 0 \<and> approaching \<and> s < scoreThreshold config then answer Reprice
         else answer Keep)"

definition computeDropVerdict :: "ms \<Rightarrow> entry \<Rightarrow> drop_config \<Rightarrow> drop_result" where
  "computeDropVerdict now e config =
     (case currentScore e of
        None \<Rightarrow> \<lparr>dr_domain = domain e, dr_verdict = Reprice, dr_npv = None\<rparr>
      | Some s \<Rightarrow>
          (if drop_method config = Npv then computeNpvBasedDropVerdict now e config s
           else computeThresholdBasedDropVerdict now e config s))"

section \<open>Carry cost\<close>

datatype carry_verdict = Sustainable | Marginal | Loss | InsufficientData

record carry_input =
  ci_domain :: string
  revenueEur :: real
  daysMonetized :: real
  renewalCostEur :: real

record carry_result =
  cr_domain :: string
  cr_verdict :: carry_verdict
  annualRevenueEur :: real
  annualCarryCostEur :: real
  netAnnualEur :: real

definition MIN_MONETIZED_DAYS :: real where
  "MIN_MONETIZED_DAYS = 30"

definition computeCarryCostVerdict :: "carry_input \<Rightarrow> carry_result" where
  "computeCarryCostVerdict i =
     (let annual = (if daysMonetized i > 0
                    then (revenueEur i * 365) / max 1 (daysMonetized i) else 0);
          net = annual - renewalCostEur i;
          answer = (\<lambda>v. \<lparr>cr_domain = ci_domain i, cr_verdict = v, annualRevenueEur = annual,
                       annualCarryCostEur = renewalCostEur i, netAnnualEur = net\<rparr>)
      in if daysMonetized i < MIN_MONETIZED_DAYS then answer InsufficientData
         else if renewalCostEur i \<le> 0 then answer InsufficientData
         else if net \<ge> 0 then answer Sustainable
         else if net \<ge> - renewalCostEur i * (5 / 10) then answer Marginal
         else answer Loss)"

section \<open>Renewal alerts\<close>

datatype alert_type =
    RenewalImminent | RenewalCritical | RenewalPastDue | ScoreDropped | DomainAvailable | SystemError

datatype severity = Info | Warning | Critical | Success

definition buildAlertInput :: "int \<Rightarrow> int \<Rightarrow> int \<Rightarrow> (alert_type \<times> severity) option" where
  "buildAlertInput criticalDays warningDays days =
     (if days \<le> 0 then Some (RenewalPastDue, Critical)
      else if days \<le> criticalDays then Some (RenewalCritical, Critical)
      else if days \<le> warningDays then Some (RenewalImminent, Warning)
      else None)"

section \<open>Executing drops\<close>

datatype outcome_type = OSold | ODropped | OExpired | ORenewed | OPurchased

record outcome =
  oc_id :: nat
  oc_domain :: string
  oc_type :: outcome_type
  occurredAt :: ms
  acquisitionCostEur :: "real option"
  totalRenewalCostEur :: "real option"

record executor_config =
  cooldownDays :: real
  dryRun :: bool
  hardDelete :: bool

definition DEFAULT_DROP_EXECUTOR_CONFIG :: executor_config where
  "DEFAULT_DROP_EXECUTOR_CONFIG = \<lparr>cooldownDays = 30, dryRun = False, hardDelete = False\<rparr>"

record book =
  entries :: "entry list"
  outcomes :: "outcome list"
  next_outcome :: nat

text \<open>The outcomes of a domain, most recent first.\<close>

definition findOutcomes :: "string \<Rightarrow> book \<Rightarrow> outcome list" where
  "findOutcomes d b =
     sort_key (\<lambda>x. - occurredAt x)
       (sort_key (\<lambda>x. - int (oc_id x)) (filter (\<lambda>x. oc_domain x = d) (outcomes b)))"

definition daysBetween :: "ms \<Rightarrow> ms \<Rightarrow> real" where
  "daysBetween a b = \<bar>of_int (b - a)\<bar> / of_int MS_PER_DAY"

datatype drop_outcome = Executed | InCooldown | DryRun | Failed

definition entryByDomain :: "string \<Rightarrow> book \<Rightarrow> entry option" where
  "entryByDomain d b = find (\<lambda>e. domain e = d) (entries b)"

text \<open>None is the DomainNotFoundError of the repositories.\<close>

definition insertOutcome :: "outcome \<Rightarrow> book \<Rightarrow> book option" where
  "insertOutcome x b =
     (if entryByDomain (oc_domain x) b = None then None
      else Some (b\<lparr>outcomes := outcomes b @ [x\<lparr>oc_id := next_outcome b\<rparr>],
                   next_outcome := next_outcome b + 1\<rparr>))"

definition updateVerdict :: "string \<Rightarrow> portfolio_verdict \<Rightarrow> string option \<Rightarrow> book \<Rightarrow> book option" where
  "updateVerdict d v reason b =
     (if entryByDomain d b = None then None
      else Some (b\<lparr>entries := map (\<lambda>e. if domain e = d then e\<lparr>verdict := v, verdictReason := reason\<rparr> else e) (entries b)\<rparr>))"

definition deleteEntry :: "string \<Rightarrow> book \<Rightarrow> book option" where
  "deleteEntry d b =
     (if entryByDomain d b = None then None
      else Some (b\<lparr>outcomes := filter (\<lambda>x. oc_domain x \<noteq> d) (outcomes b),
                   entries := filter (\<lambda>e. domain e \<noteq> d) (entries b)\<rparr>))"

definition cooling :: "executor_config \<Rightarrow> ms \<Rightarrow> string \<Rightarrow> book \<Rightarrow> bool" where
  "cooling config now d b =
     (case find (\<lambda>x. oc_type x = ODropped) (findOutcomes d b) of
        Some x \<Rightarrow> daysBetween (occurredAt x) now < cooldownDays config
      | None \<Rightarrow> False)"

text \<open>A failure after the first write leaves that write in place.\<close>

definition handleDrop :: "executor_config \<Rightarrow> ms \<Rightarrow> entry \<Rightarrow> book \<Rightarrow> drop_outcome \<times> book" where
  "handleDrop config now e b =
     (if cooling config now (domain e) b then (InCooldown, b)
      else if dryRun config then (DryRun, b)
      else case insertOutcome \<lparr>oc_id = 0, oc_domain = domain e, oc_type = ODropped,
                  occurredAt = now, acquisitionCostEur = Some (acquisitionCost e),
                  totalRenewalCostEur = Some (renewalCost e)\<rparr> b of
                None \<Rightarrow> (Failed, b)
              | Some b1 \<Rightarrow>
                  (case (if hardDelete config then deleteEntry (domain e) b1
                         else updateVerdict (domain e) Drop
                                (Some ''Executed - domain removed from portfolio'') b1) of
                     None \<Rightarrow> (Failed, b1)
                   | Some b2 \<Rightarrow> (Executed, b2)))"

fun execute_loop ::
  "executor_config \<Rightarrow> ms \<Rightarrow> entry list \<Rightarrow> book \<Rightarrow> (string \<times> drop_outcome) list \<times> book" where
  "execute_loop config now [] b = ([], b)"
| "execute_loop config now (e # es) b =
     (let (r, b1) = handleDrop config now e b;
          (rs, b2) = execute_loop config now es b1
      in ((domain e, r) # rs, b2))"

text \<open>All pending drops, in the order of the renewal dates.\<close>

definition executeAll :: "executor_config \<Rightarrow> ms \<Rightarrow> book \<Rightarrow> (string \<times> drop_outcome) list \<times> book" where
  "executeAll config now b =
     execute_loop config now (filter (\<lambda>e. verdict e = Drop) (sort_key renewalDate (entries b))) b"

section \<open>Lemmas\<close>

lemma npv_loop_sum:
  "npv_loop i r n t (v, p) =
     (v + (expectedValue i * n_confidence i - n_renewalCost i) * (\<Sum>k<n. 1 / (1 + r) ^ (t + k)),
      p + expectedValue i * n_confidence i * (\<Sum>k<n. 1 / (1 + r) ^ (t + k)))"
proof (induction n arbitrary: t v p)
  case (Suc n)
  have "(\<Sum>k<Suc n. 1 / (1 + r) ^ (t + k)) = 1 / (1 + r) ^ t + (\<Sum>k<n. 1 / (1 + r) ^ (Suc t + k))"
    by (simp add: sum.lessThan_Suc_shift del: sum.lessThan_Suc)
  then show ?case using Suc by (simp add: Let_def algebra_simps)
qed simp

lemma annuity_step:
  assumes "(r::real) > 0" "x > 0"
  shows "(1 - 1 / x) / r + 1 / (x * (1 + r)) = (1 - 1 / (x * (1 + r))) / r"
proof -
  let ?y = "x * (1 + r)"
  have x: "1 / x = 1 / ?y + r / ?y"
    using assms by (simp add: add_divide_distrib [symmetric])
  have "1 / ?y = (r / ?y) / r" using assms by simp
  then have "(1 - 1 / x) / r + 1 / ?y = (1 - 1 / x + r / ?y) / r"
    by (metis add_divide_distrib)
  then show ?thesis unfolding x by simp
qed

lemma annuity:
  assumes "(r::real) > 0"
  shows "(\<Sum>k<n. 1 / (1 + r) ^ (1 + k)) = (1 - 1 / (1 + r) ^ n) / r"
proof (induction n)
  case (Suc n)
  have "(\<Sum>k<Suc n. 1 / (1 + r) ^ (1 + k)) = (1 - 1 / (1 + r) ^ n) / r + 1 / ((1 + r) ^ n * (1 + r))"
    using Suc by (simp add: mult.commute)
  also have "\<dots> = (1 - 1 / (1 + r) ^ Suc n) / r"
    using annuity_step [of r "(1 + r) ^ n"] assms by (simp add: mult.commute)
  finally show ?case .
qed simp

lemma renewals_paid_one:
  assumes "0 \<le> daysUntilRenewal now e" "daysUntilRenewal now e < 365"
  shows "max 1 (js_ceil (of_int (daysSinceAcquisition now e) / 365)) = 1"
proof -
  have "(of_int (daysSinceAcquisition now e) :: real) / 365 \<le> 1"
    using assms by (simp add: daysSinceAcquisition_def)
  then have "js_ceil (of_int (daysSinceAcquisition now e) / 365) \<le> 1"
    by (simp add: js_ceil_def ceiling_le_one)
  then show ?thesis by simp
qed

lemma drop_needs_evidence:
  assumes "dr_verdict (computeDropVerdict now e config) = Drop"
  shows "\<exists>s. currentScore e = Some s \<and> daysUntilRenewal now e \<le> renewalHorizonDays config
    \<and> (if drop_method config = Npv
       then (\<exists>v. dr_npv (computeDropVerdict now e config) = Some v \<and> v < 0)
         \<and> (s < scoreThreshold config \<or> acquisitionCost e \<le> 0)
       else s < scoreThreshold config \<and> (sunkCostRecouped now e \<or> acquisitionCost e \<le> 0))"
proof (cases "currentScore e")
  case None
  then show ?thesis using assms by (simp add: computeDropVerdict_def)
next
  case (Some s)
  then show ?thesis
    using assms
    by (auto simp: computeDropVerdict_def computeNpvBasedDropVerdict_def
        computeThresholdBasedDropVerdict_def Let_def split: if_splits)
qed


subsection \<open>Drops and their cooldown\<close>

lemmas drop_ops = handleDrop_def insertOutcome_def updateVerdict_def deleteEntry_def Let_def

text \<open>A drop of the domain is recorded at or after a time; nothing is recorded in the future.\<close>

definition dropped_since :: "string \<Rightarrow> ms \<Rightarrow> book \<Rightarrow> bool" where
  "dropped_since d t b = (\<exists>x \<in> set (outcomes b). oc_domain x = d \<and> oc_type x = ODropped \<and> t \<le> occurredAt x)"

definition past_only :: "ms \<Rightarrow> book \<Rightarrow> bool" where
  "past_only t b = (\<forall>x \<in> set (outcomes b). occurredAt x \<le> t)"

lemma set_findOutcomes [simp]:
  "set (findOutcomes d b) = {x \<in> set (outcomes b). oc_domain x = d}"
  by (simp add: findOutcomes_def)

lemma sorted_findOutcomes: "sorted (map (\<lambda>x. - occurredAt x) (findOutcomes d b))"
  by (simp add: findOutcomes_def)

text \<open>The first element of a sorted list that satisfies a condition has the least key.\<close>

lemma find_least:
  assumes "sorted (map f xs)" "x \<in> set xs" "Q x"
  shows "\<exists>y. find Q xs = Some y \<and> y \<in> set xs \<and> Q y \<and> f y \<le> f x"
  using assms by (induction xs) auto

lemma cooling_when_dropped_since:
  assumes "dropped_since d t b" "past_only u b" "daysBetween t u < c"
  shows "\<exists>x. find (\<lambda>x. oc_type x = ODropped) (findOutcomes d b) = Some x
    \<and> daysBetween (occurredAt x) u < c"
proof -
  obtain x :: outcome where x: "x \<in> set (outcomes b)" "oc_domain x = d" "oc_type x = ODropped" "t \<le> occurredAt x"
    using assms(1) by (auto simp: dropped_since_def)
  obtain y where y: "find (\<lambda>x. oc_type x = ODropped) (findOutcomes d b) = Some y"
    "y \<in> set (findOutcomes d b)" "- occurredAt y \<le> - occurredAt x"
    using find_least [OF sorted_findOutcomes [of d b], of x "\<lambda>x. oc_type x = ODropped"] x by auto
  have "t \<le> occurredAt y" "occurredAt y \<le> u"
    using y x assms(2) by (auto simp: past_only_def)
  then have "daysBetween (occurredAt y) u \<le> daysBetween t u"
    by (simp add: daysBetween_def MS_PER_DAY_def divide_right_mono)
  then show ?thesis using y assms(3) by auto
qed

lemma handleDrop_cooling:
  assumes "dropped_since (domain e) t b" "past_only u b" "daysBetween t u < cooldownDays c"
  shows "handleDrop c u e b = (InCooldown, b)"
  using cooling_when_dropped_since [OF assms] by (auto simp: handleDrop_def cooling_def)

lemma handleDrop_past_only:
  "past_only u b \<Longrightarrow> past_only u (snd (handleDrop c u e b))"
  by (auto simp: past_only_def drop_ops split: option.splits if_splits)

lemma handleDrop_other:
  assumes "domain e \<noteq> d"
  shows "dropped_since d t (snd (handleDrop c u e b)) = dropped_since d t b"
    and "entryByDomain d b = None \<Longrightarrow> entryByDomain d (snd (handleDrop c u e b)) = None"
  using assms
  by (auto simp: dropped_since_def entryByDomain_def drop_ops find_None_iff split: option.splits if_splits)

lemma handleDrop_gone:
  "entryByDomain d b = None \<Longrightarrow> entryByDomain d (snd (handleDrop c u e b)) = None"
  by (auto simp: entryByDomain_def drop_ops find_None_iff split: option.splits if_splits)

lemma handleDrop_executed:
  assumes "fst (handleDrop c u e b) = Executed"
  shows "if hardDelete c then entryByDomain (domain e) (snd (handleDrop c u e b)) = None
         else dropped_since (domain e) u (snd (handleDrop c u e b))"
  using assms
  by (auto simp: dropped_since_def entryByDomain_def drop_ops find_None_iff split: option.splits if_splits)

text \<open>Settled: another run within the cooldown does not drop the domain.\<close>

definition settled :: "executor_config \<Rightarrow> string \<Rightarrow> ms \<Rightarrow> book \<Rightarrow> bool" where
  "settled c d t b = (if hardDelete c then entryByDomain d b = None else dropped_since d t b)"

lemma settled_handleDrop:
  assumes "settled c d t b" "past_only u b" "daysBetween t u < cooldownDays c"
  shows "settled c d t (snd (handleDrop c u e b)) \<and> (domain e = d \<longrightarrow> fst (handleDrop c u e b) \<noteq> Executed)"
proof (cases "hardDelete c")
  case True
  then show ?thesis
    using assms(1) handleDrop_gone [of d b c u e]
    by (auto simp: settled_def drop_ops split: option.splits if_splits)
next
  case False
  then show ?thesis
    using assms handleDrop_cooling [of e t b u c] handleDrop_other(1) [of e d t c u b]
    by (cases "domain e = d") (auto simp: settled_def)
qed

lemma settled_execute_loop:
  assumes "settled c d t b" "past_only u b" "daysBetween t u < cooldownDays c"
  shows "settled c d t (snd (execute_loop c u es b)) \<and> (d, Executed) \<notin> set (fst (execute_loop c u es b))"
  using assms
proof (induction es arbitrary: b)
  case (Cons e es)
  note step = settled_handleDrop [OF Cons.prems, of e]
  show ?case
    using Cons.IH [OF _ handleDrop_past_only [OF Cons.prems(2)] Cons.prems(3), of c e] step
    by (auto simp: Let_def case_prod_beta)
qed simp

lemma execute_loop_settles:
  assumes "past_only u b" "0 < cooldownDays c"
  shows "past_only u (snd (execute_loop c u es b))
    \<and> ((d, Executed) \<in> set (fst (execute_loop c u es b)) \<longrightarrow> settled c d u (snd (execute_loop c u es b)))"
  using assms
proof (induction es arbitrary: b)
  case (Cons e es)
  let ?b = "snd (handleDrop c u e b)"
  have p: "past_only u ?b" using Cons.prems(1) by (rule handleDrop_past_only)
  note ih = Cons.IH [OF p Cons.prems(2)]
  have "settled c d u (snd (execute_loop c u es ?b))"
    if "domain e = d" "fst (handleDrop c u e b) = Executed"
  proof -
    have "settled c d u ?b" using handleDrop_executed [OF that(2)] unfolding settled_def that(1) .
    then show ?thesis
      using settled_execute_loop [OF _ p] Cons.prems(2) by (auto simp: daysBetween_def)
  qed
  then show ?case using ih by (auto simp: Let_def case_prod_beta)
qed simp

section \<open>Properties\<close>

text \<open>
  The loop computes the annuity formula: for a positive discount rate the value before
  rounding is the yearly net gain times (1 - (1 + r)^-n) / r, less the acquisition cost; so a
  domain whose expected yearly gain does not exceed its renewal cost is worth at most minus
  its acquisition cost, and the value grows with the expected value.
\<close>

theorem npv_closed_form:
  fixes discountRate :: real and n :: nat and i :: npv_input and x :: real
  assumes "discountRate > 0"
  defines "annuity_factor \<equiv> (1 - 1 / (1 + discountRate) ^ n) / discountRate"
  shows "npv (computeNpv i discountRate n) = round2 ((expectedValue i * n_confidence i - n_renewalCost i)
      * annuity_factor - n_acquisitionCost i)
    \<and> 0 \<le> annuity_factor
    \<and> (expectedValue i * n_confidence i \<le> n_renewalCost i \<longrightarrow>
         npv (computeNpv i discountRate n) \<le> round2 (- n_acquisitionCost i))
    \<and> (0 \<le> n_confidence i \<and> expectedValue i \<le> x \<longrightarrow>
         npv (computeNpv i discountRate n) \<le> npv (computeNpv (i\<lparr>expectedValue := x\<rparr>) discountRate n))"
proof -
  let ?a = annuity_factor
  have eq: "npv (computeNpv j discountRate n)
      = round2 ((expectedValue j * n_confidence j - n_renewalCost j) * ?a - n_acquisitionCost j)" for j
    using npv_loop_sum [of j discountRate n 1] annuity [OF assms(1), of n]
    by (simp add: computeNpv_def Let_def annuity_factor_def)
  have "1 / (1 + discountRate) ^ n \<le> 1" using assms(1) by simp
  then have a: "0 \<le> ?a" using assms(1) by (simp add: annuity_factor_def)
  have "(expectedValue i * n_confidence i - n_renewalCost i) * ?a \<le> 0"
    if "expectedValue i * n_confidence i \<le> n_renewalCost i"
    using that a by (simp add: mult_nonpos_nonneg)
  moreover have "(expectedValue i * n_confidence i - n_renewalCost i) * ?a
      \<le> (x * n_confidence i - n_renewalCost i) * ?a"
    if "0 \<le> n_confidence i" "expectedValue i \<le> x"
    using that a by (intro mult_right_mono diff_mono) (auto intro: mult_right_mono)
  ultimately show ?thesis using a by (auto simp: eq intro!: round_to_mono)
qed

theorem npv_closed_form_witness:
  "npv (computeNpv \<lparr>expectedValue = 10, n_confidence = 1, n_acquisitionCost = 50, n_renewalCost = 12\<rparr>
     (1 / 2) 2) \<le> round2 (- 50)"
proof -
  let ?i = "\<lparr>expectedValue = 10, n_confidence = 1, n_acquisitionCost = 50, n_renewalCost = 12\<rparr>"
  have "expectedValue ?i * n_confidence ?i \<le> n_renewalCost ?i" by simp
  moreover have "(0::real) < 1 / 2" by simp
  ultimately have "npv (computeNpv ?i (1 / 2) 2) \<le> round2 (- n_acquisitionCost ?i)"
    using npv_closed_form [of "1 / 2" ?i 2] by blast
  then show ?thesis by simp
qed

text \<open>
  C39. A drop verdict needs evidence: a domain is dropped only when it has been scored, its
  renewal is within the horizon, and either (threshold method) its score is below the
  threshold and its acquisition cost is recouped or zero, or (value method) its net present
  value is negative and not both its score reaches the threshold and it cost something.
\<close>

theorem drop_verdict_sound:
  assumes "dr_verdict (computeDropVerdict now e config) = Drop"
  shows "\<exists>s. currentScore e = Some s \<and> daysUntilRenewal now e \<le> renewalHorizonDays config
    \<and> (if drop_method config = Npv
       then (\<exists>v. dr_npv (computeDropVerdict now e config) = Some v \<and> v < 0)
         \<and> (s < scoreThreshold config \<or> acquisitionCost e \<le> 0)
       else s < scoreThreshold config \<and> (sunkCostRecouped now e \<or> acquisitionCost e \<le> 0))"
  by (rule drop_needs_evidence [OF assms])

definition example_entry :: entry where
  "example_entry = \<lparr>domain = ''x.com'', tld = ''com'', registrar = ''r'', acquiredAt = Some 0, renewalDate = 86400000 * 30,
     acquisitionCost = 10, renewalCost = 10, currentScore = Some 5, suggestedListPrice = None,
     verdict = Keep, verdictReason = None\<rparr>"

lemma example_entry_drop:
  "dr_verdict (computeDropVerdict 0 example_entry DEFAULT_DROP_VERDICT_CONFIG) = Drop"
  by (simp add: computeDropVerdict_def example_entry_def DEFAULT_DROP_VERDICT_CONFIG_def
      computeThresholdBasedDropVerdict_def daysUntilRenewal_def MS_PER_DAY_def sunkCostRecouped_def
      Let_def)

theorem drop_verdict_sound_witness:
  "sunkCostRecouped 0 example_entry"
  using drop_verdict_sound [OF example_entry_drop]
  by (simp add: DEFAULT_DROP_VERDICT_CONFIG_def) (simp add: example_entry_def)

text \<open>
  With the threshold method the years a domain has been held never count: within a year
  of the renewal, one renewal is assumed paid whatever the acquisition date, so a domain that
  cost more than one renewal is never dropped before its renewal date.
\<close>

theorem costly_domain_never_dropped:
  assumes "drop_method config = Threshold" "0 < renewalCost e" "renewalCost e < acquisitionCost e"
    and "0 \<le> daysUntilRenewal now e" "renewalHorizonDays config < 365"
  shows "dr_verdict (computeDropVerdict now (e\<lparr>acquiredAt := a\<rparr>) config) \<noteq> Drop"
proof
  let ?e = "e\<lparr>acquiredAt := a\<rparr>"
  assume d: "dr_verdict (computeDropVerdict now ?e config) = Drop"
  have du: "daysUntilRenewal now ?e = daysUntilRenewal now e" by (simp add: daysUntilRenewal_def)
  have "daysUntilRenewal now ?e \<le> renewalHorizonDays config" "sunkCostRecouped now ?e"
    using drop_needs_evidence [OF d] assms(1-3) by auto
  moreover from this(1) have "max 1 (js_ceil (of_int (daysSinceAcquisition now ?e) / 365)) = 1"
    using assms(4,5) du by (intro renewals_paid_one) simp_all
  ultimately show False
    using assms(2,3) by (simp add: sunkCostRecouped_def Let_def)
qed

theorem costly_domain_never_dropped_witness:
  "dr_verdict (computeDropVerdict 0 (example_entry\<lparr>acquisitionCost := 11, acquiredAt := None\<rparr>)
     DEFAULT_DROP_VERDICT_CONFIG) \<noteq> Drop"
proof -
  have "dr_verdict (computeDropVerdict 0 ((example_entry\<lparr>acquisitionCost := 11\<rparr>)\<lparr>acquiredAt := None\<rparr>)
     DEFAULT_DROP_VERDICT_CONFIG) \<noteq> Drop"
    by (rule costly_domain_never_dropped)
      (simp_all add: DEFAULT_DROP_VERDICT_CONFIG_def example_entry_def daysUntilRenewal_def
        MS_PER_DAY_def)
  then show ?thesis by (simp add: example_entry_def)
qed

text \<open>
  The carry-cost verdict never judges on less than 30 days of revenue or without a
  renewal cost; otherwise it is sustainable, marginal or a loss exactly as the annualised
  revenue covers all, at least half, or less than half of the yearly renewal.
\<close>

theorem carry_cost_verdict:
  "cr_verdict (computeCarryCostVerdict i) =
     (if daysMonetized i < 30 \<or> renewalCostEur i \<le> 0 then InsufficientData
      else if revenueEur i * 365 \<ge> renewalCostEur i * daysMonetized i then Sustainable
      else if revenueEur i * 365 \<ge> renewalCostEur i * daysMonetized i / 2 then Marginal
      else Loss)"
proof (cases "daysMonetized i < 30 \<or> renewalCostEur i \<le> 0")
  case True
  then show ?thesis by (auto simp: computeCarryCostVerdict_def Let_def MIN_MONETIZED_DAYS_def)
next
  case False
  then have d: "daysMonetized i \<ge> 30" "max 1 (daysMonetized i) = daysMonetized i"
    "renewalCostEur i > 0" by auto
  have "(revenueEur i * 365 / daysMonetized i - renewalCostEur i \<ge> 0)
      = (revenueEur i * 365 \<ge> renewalCostEur i * daysMonetized i)"
    using d by (simp add: field_simps)
  moreover have "(revenueEur i * 365 / daysMonetized i - renewalCostEur i \<ge> - renewalCostEur i * (5 / 10))
      = (revenueEur i * 365 \<ge> renewalCostEur i * daysMonetized i / 2)"
    using d by (simp add: field_simps)
  ultimately show ?thesis
    using d by (simp add: computeCarryCostVerdict_def Let_def MIN_MONETIZED_DAYS_def)
qed

text \<open>
  Executing drops is idempotent within the cooldown: a domain that one run of the
  executor dropped is not dropped by a second run, whether drops are soft (the recorded
  drop holds it back) or hard (its entry is gone), until the cooldown has passed.
\<close>

theorem execute_all_idempotent:
  assumes "\<forall>x \<in> set (outcomes b). occurredAt x \<le> t" "t \<le> u" "daysBetween t u < cooldownDays c"
    and "(d, Executed) \<in> set (fst (executeAll c t b))"
  shows "(d, Executed) \<notin> set (fst (executeAll c u (snd (executeAll c t b))))"
proof -
  have c: "0 < cooldownDays c" using assms(3) by (simp add: daysBetween_def MS_PER_DAY_def)
  have "past_only t b" using assms(1) by (simp add: past_only_def)
  from execute_loop_settles [OF this c] assms(4)
  have "past_only t (snd (executeAll c t b))" "settled c d t (snd (executeAll c t b))"
    unfolding executeAll_def by blast+
  moreover from this(1) assms(2) have "past_only u (snd (executeAll c t b))"
    by (auto simp: past_only_def)
  ultimately show ?thesis
    using settled_execute_loop [OF _ _ assms(3)] unfolding executeAll_def by blast
qed

definition example_book :: book where
  "example_book = \<lparr>entries = [example_entry\<lparr>verdict := Drop\<rparr>], outcomes = [], next_outcome = 1\<rparr>"

theorem execute_all_idempotent_witness:
  "(''x.com'', Executed) \<notin> set (fst (executeAll DEFAULT_DROP_EXECUTOR_CONFIG 86400000
     (snd (executeAll DEFAULT_DROP_EXECUTOR_CONFIG 0 example_book))))"
  by (rule execute_all_idempotent)
    (simp_all add: example_book_def example_entry_def DEFAULT_DROP_EXECUTOR_CONFIG_def daysBetween_def
      MS_PER_DAY_def executeAll_def entryByDomain_def findOutcomes_def cooling_def drop_ops)

end
