(* ===== verification/Candidates.thy ===== *)
theory Candidates
  imports Domain
begin

text \<open>
  What flows through the pipeline (\<open>src/types/candidate.ts\<close>, \<open>src/types/domain-status.ts\<close>,
  \<open>src/pipeline/stage.ts\<close>) and the batching of the stages (\<open>src/utils/array.ts\<close>). Timestamps
  and durations are left out of the records. The lemmas show that the batching returns and
  loses nothing.
\<close>

section \<open>Candidates\<close>

datatype candidate_source = KeywordCombo | Brandable | CloseoutCsv | PortfolioRescore | Sector | Random

datatype candidate_status =
    Pending | DnsFiltered | RdapFiltered | Scored | TrademarkBlocked | Recommended | Unscored

datatype domain_status = Available | Registered | Premium | Unknown | Error

fun status_text :: "domain_status \<Rightarrow> string" where
  "status_text Available = ''available''"
| "status_text Registered = ''registered''"
| "status_text Premium = ''premium''"
| "status_text Unknown = ''unknown''"
| "status_text Error = ''error''"

record closeout_meta =
  m_domainAge :: "real option"
  m_backlinks :: "real option"
  m_waybackSnapshots :: "real option"

record whois_meta =
  w_domainAge :: "real option"
  w_registrar :: "string option"
  w_createdDate :: "string option"
  w_expiryDate :: "string option"

datatype dnssec_status = DnssecValid | DnssecBogus | DnssecInsecure | DnssecUnchecked

record dns_evidence =
  e_resolver :: string
  e_dnssec :: dnssec_status
  e_resolverLevel :: "bool option"
  e_fromCache :: bool

record consensus_evidence =
  secondServer :: string
  c_verified :: bool
  c_vetoed :: bool
  c_originOverlap :: bool
  c_whoisRescued :: bool

record rdap_evidence =
  primaryServer :: string
  e_consensus :: "consensus_evidence option"

record verdict_provenance =
  p_dns :: "dns_evidence option"
  p_rdap :: "rdap_evidence option"

definition no_provenance :: verdict_provenance where
  "no_provenance = \<lparr>p_dns = None, p_rdap = None\<rparr>"

record candidate =
  c_domain :: string
  c_tld :: string
  c_source :: candidate_source
  pipelineRunId :: string
  c_status :: candidate_status
  dnsStatus :: "string option"
  rdapStatus :: "string option"
  isPremium :: bool
  normalizedDomain :: "normalized_domain option"
  closeoutMeta :: "closeout_meta option"
  whoisMeta :: "whois_meta option"
  forceWhoisRecheck :: bool
  provenance :: "verdict_provenance option"

definition new_candidate :: "string \<Rightarrow> candidate_source \<Rightarrow> string \<Rightarrow> string \<Rightarrow> candidate" where
  "new_candidate run src d t = \<lparr>c_domain = d, c_tld = t, c_source = src, pipelineRunId = run,
     c_status = Pending, dnsStatus = None, rdapStatus = None, isPremium = False,
     normalizedDomain = None, closeoutMeta = None, whoisMeta = None, forceWhoisRecheck = False,
     provenance = None\<rparr>"

abbreviation of_closeout :: "'a candidate_scheme \<Rightarrow> bool" where
  "of_closeout c \<equiv> c_source c = CloseoutCsv"

abbreviation domains_of :: "'a candidate_scheme list \<Rightarrow> string list" where
  "domains_of \<equiv> map c_domain"

section \<open>What a stage returns\<close>

datatype degradation_reason =
    TimedOut | StageFailed | DnsUnvalidated | RdapConsensusUnverified | CommercialSignalUnavailable

record degradation =
  d_stage :: string
  d_reason :: degradation_reason
  d_processed :: nat
  d_expected :: nat

record ('a, 'b) stage_result =
  passed :: "'a list"
  filtered :: "'b list"
  stageName :: string
  degradations :: "degradation list"

section \<open>Batches\<close>

text \<open>
  The loop of \<open>toBatches\<close> from index \<open>i\<close>. It does not return on a batch size of zero.
\<close>

partial_function (option) toBatches_from :: "'a list \<Rightarrow> nat \<Rightarrow> nat \<Rightarrow> 'a list list option" where
  "toBatches_from items n i =
     (if i < length items
      then Option.bind (toBatches_from items n (i + n))
             (\<lambda>bs. Some (take n (drop i items) # bs))
      else Some [])"

definition toBatches :: "'a list \<Rightarrow> nat \<Rightarrow> 'a list list option" where
  "toBatches items n = toBatches_from items n 0"

text \<open>
  The stages use the total form below, which agrees with \<open>toBatches\<close> for every size that the
  configuration admits (at least one).
\<close>

fun chunks :: "nat \<Rightarrow> 'a list \<Rightarrow> 'a list list" where
  "chunks n [] = []"
| "chunks 0 (x # xs) = []"
| "chunks (Suc n) (x # xs) = (x # take n xs) # chunks (Suc n) (drop n xs)"

lemma concat_chunks: "0 < n \<Longrightarrow> concat (chunks n xs) = xs"
  by (induction n xs rule: chunks.induct) auto

lemma chunks_size: "b \<in> set (chunks n xs) \<Longrightarrow> b \<noteq> [] \<and> length b \<le> n"
  by (induction n xs rule: chunks.induct) auto

lemma chunks_step: "0 < n \<Longrightarrow> xs \<noteq> [] \<Longrightarrow> chunks n xs = take n xs # chunks n (drop n xs)"
  by (cases n; cases xs) auto

lemma toBatches_from_chunks:
  assumes "0 < n"
  shows "toBatches_from items n i = Some (chunks n (drop i items))"
proof (induction "length items - i" arbitrary: i rule: less_induct)
  case less
  show ?case
  proof (cases "i < length items")
    case True
    then have "toBatches_from items n (i + n) = Some (chunks n (drop (i + n) items))"
      using assms by (intro less) simp
    moreover have "chunks n (drop i items) = take n (drop i items) # chunks n (drop (i + n) items)"
      using assms True by (simp add: chunks_step add.commute)
    ultimately show ?thesis
      using True by (subst toBatches_from.simps) simp
  next
    case False
    then show ?thesis by (subst toBatches_from.simps) simp
  qed
qed

lemma toBatches_zero: "i < length items \<Longrightarrow> toBatches_from items 0 i = None"
proof (rule ccontr)
  assume i: "i < length items" and "toBatches_from items 0 i \<noteq> None"
  then obtain bs where bs: "toBatches_from items 0 i = Some bs" by blast
  from i have "toBatches_from items 0 i = Option.bind (toBatches_from items 0 i) (\<lambda>bs. Some ([] # bs))"
    by (subst toBatches_from.simps) simp
  with bs show False by simp
qed

section \<open>Properties\<close>

text \<open>
  C40. The batching of the stages returns exactly if the batch size is positive or there is
  nothing to batch; the batches it returns are not empty, no larger than asked for, and
  together they are the list, in order.
\<close>

theorem toBatches_returns:
  "case toBatches items n of
     None \<Rightarrow> n = 0 \<and> items \<noteq> []
   | Some bs \<Rightarrow> (0 < n \<or> items = []) \<and> concat bs = items \<and> list_all (\<lambda>b. b \<noteq> [] \<and> length b \<le> n) bs"
proof (cases "0 < n")
  case True
  then show ?thesis
    using chunks_size by (auto simp: toBatches_def toBatches_from_chunks concat_chunks list_all_iff)
next
  case False
  show ?thesis
  proof (cases items)
    case Nil
    then show ?thesis by (simp add: toBatches_def toBatches_from.simps)
  next
    case (Cons x xs)
    then show ?thesis using False toBatches_zero [of 0 items] by (simp add: toBatches_def)
  qed
qed

end
