(* ===== verification/Generation.thy ===== *)
theory Generation
  imports Candidates "HOL-Library.Monad_Syntax"
begin

text \<open>
  The first stage of the pipeline: \<open>src/pipeline/stages/candidate-generation-stage.ts\<close>.
  The sequence of random numbers (each in [0, 1)) and the fresh run id are parameters, as are
  the Public Suffix List and the IDNA conversions. \<open>None\<close> is the exception of the parser.
\<close>

section \<open>Random names\<close>

definition CONSONANTS :: string where
  "CONSONANTS = ''bcdfghjklmnpqrstvwxyz''"

definition VOWELS :: string where
  "VOWELS = ''aeiou''"

definition RANDOM_PREFIXES :: "string list" where
  "RANDOM_PREFIXES = [''e'', ''i'', ''my'', ''get'', ''try'', ''go'', ''best'', ''top'', ''my'', ''the'']"

definition RANDOM_SUFFIXES :: "string list" where
  "RANDOM_SUFFIXES =
     [''hub'', ''lab'', ''io'', ''ly'', ''ify'', ''base'', ''spot'', ''zone'', ''net'', ''pro'']"

definition pick :: "'a list \<Rightarrow> real \<Rightarrow> 'a" where
  "pick pool r = pool ! nat \<lfloor>r * real (length pool)\<rfloor>"

definition generateRandomSld :: "(nat \<Rightarrow> real) \<Rightarrow> nat \<Rightarrow> nat \<Rightarrow> string" where
  "generateRandomSld rnd k n =
     map (\<lambda>i. pick (if i mod 2 = 0 then CONSONANTS else VOWELS) (rnd (k + i))) [0..<n]"

text \<open>An optional part of a name: half of the time none, else one of the pool.\<close>

definition random_part :: "string list \<Rightarrow> (nat \<Rightarrow> real) \<Rightarrow> nat \<Rightarrow> string \<times> nat" where
  "random_part pool rnd k =
     (if rnd k < 1 / 2 then ([], k + 1) else (pick pool (rnd (k + 1)), k + 2))"

definition random_domain :: "string \<Rightarrow> (nat \<Rightarrow> real) \<Rightarrow> nat \<Rightarrow> string \<times> nat" where
  "random_domain default_tld rnd k =
     (let n = 5 + nat \<lfloor>rnd k * 6\<rfloor>;
          name = generateRandomSld rnd (k + 1) n;
          (prefix, k1) = random_part RANDOM_PREFIXES rnd (k + 1 + n);
          (suffix, k2) = random_part RANDOM_SUFFIXES rnd k1
      in (prefix @ name @ suffix @ default_tld, k2))"

fun random_domains :: "string \<Rightarrow> (nat \<Rightarrow> real) \<Rightarrow> nat \<Rightarrow> nat \<Rightarrow> string list \<times> nat" where
  "random_domains default_tld rnd 0 k = ([], k)"
| "random_domains default_tld rnd (Suc n) k =
     (let (d, k1) = random_domain default_tld rnd k;
          (ds, k2) = random_domains default_tld rnd n k1
      in (d # ds, k2))"

section \<open>The stage\<close>

record generation_input =
  g_keywords :: "string list"
  brandableNames :: "string list"
  closeoutDomains :: "string list"
  closeoutEntries :: "(string \<times> closeout_meta) list"
  domains :: "string list"
  sectorKeywords :: "string list"
  randomCount :: nat
  externalRunId :: "string option"

text \<open>\<open>keyword.replace(/\.[^.]+$/, '')\<close>.\<close>

definition drop_suffix :: "string \<Rightarrow> string" where
  "drop_suffix s =
     (let last_label = takeWhile (\<lambda>c. c \<noteq> CHR ''.'') (rev s)
      in if last_label \<noteq> [] \<and> CHR ''.'' \<in> set s
         then rev (drop (Suc (length last_label)) (rev s)) else s)"

type_synonym psl = "string \<Rightarrow> psl_result"

definition tagged :: "psl \<Rightarrow> string \<Rightarrow> candidate_source \<Rightarrow> string \<Rightarrow> candidate option" where
  "tagged psl run src d = map_option (new_candidate run src d) (extractTld psl d)"

definition sector_candidate :: "psl \<Rightarrow> string \<Rightarrow> string \<Rightarrow> string \<Rightarrow> candidate option" where
  "sector_candidate psl default_tld run w =
     (if CHR ''.'' \<in> set w
      then map_option (\<lambda>t. new_candidate run Sector (drop_suffix w @ t) t) (extractTld psl w)
      else Some (new_candidate run Sector (w @ default_tld) default_tld))"

text \<open>The candidates of one input, in the order of the code, and the random numbers used.\<close>

definition generated ::
  "psl \<Rightarrow> string \<Rightarrow> string \<Rightarrow> (nat \<Rightarrow> real) \<Rightarrow> nat \<Rightarrow> generation_input \<Rightarrow> (candidate list \<times> nat) option"
where
  "generated psl default_tld run rnd k input =
     do {
       brandable \<leftarrow> those (map (tagged psl run Brandable) (brandableNames input));
       closeouts \<leftarrow> those (map (tagged psl run CloseoutCsv) (closeoutDomains input));
       entries \<leftarrow> those (map (\<lambda>(d, meta). map_option (\<lambda>c. c\<lparr>closeoutMeta := Some meta\<rparr>)
                                  (tagged psl run CloseoutCsv d)) (closeoutEntries input));
       direct \<leftarrow> those (map (tagged psl run KeywordCombo) (domains input));
       sector \<leftarrow> those (map (sector_candidate psl default_tld run) (sectorKeywords input));
       let (names, k1) = random_domains default_tld rnd (randomCount input) k;
       Some (map (\<lambda>w. new_candidate run KeywordCombo (w @ default_tld) default_tld) (g_keywords input)
             @ brandable @ closeouts @ entries @ direct @ sector
             @ map (\<lambda>d. new_candidate run Random d default_tld) names, k1)
     }"

fun generated_all ::
  "psl \<Rightarrow> string \<Rightarrow> string \<Rightarrow> (nat \<Rightarrow> real) \<Rightarrow> nat \<Rightarrow> generation_input list \<Rightarrow> candidate list option"
where
  "generated_all psl default_tld run rnd k [] = Some []"
| "generated_all psl default_tld run rnd k (i # is) =
     do {
       (cs, k1) \<leftarrow> generated psl default_tld run rnd k i;
       more_cs \<leftarrow> generated_all psl default_tld run rnd k1 is;
       Some (cs @ more_cs)
     }"

text \<open>Duplicates are dropped by the text of the domain, before it is normalised.\<close>

fun dedup :: "string list \<Rightarrow> candidate list \<Rightarrow> candidate list" where
  "dedup seen [] = []"
| "dedup seen (c # cs) =
     (if c_domain c \<in> set seen then dedup seen cs else c # dedup (c_domain c # seen) cs)"

definition normalised :: "idna \<Rightarrow> psl \<Rightarrow> candidate \<Rightarrow> candidate + candidate" where
  "normalised env psl c =
     (let norm = normalizeDomain env psl (c_domain c)
      in if \<not> isValid norm then Inl (c\<lparr>c_status := Unscored\<rparr>)
         else Inr (c\<lparr>normalizedDomain := Some norm, c_tld := tld norm, c_domain := normalized norm\<rparr>))"

fun split_results :: "('a + 'b) list \<Rightarrow> 'a list \<times> 'b list" where
  "split_results [] = ([], [])"
| "split_results (x # xs) =
     (let (ls, rs) = split_results xs in case x of Inl l \<Rightarrow> (l # ls, rs) | Inr r \<Rightarrow> (ls, r # rs))"

definition run_id_of :: "string \<Rightarrow> string option \<Rightarrow> generation_input list \<Rightarrow> string" where
  "run_id_of fresh external inputs =
     (case external of Some r \<Rightarrow> r
      | None \<Rightarrow> (case inputs of [] \<Rightarrow> fresh
                | i # _ \<Rightarrow> (case externalRunId i of Some r \<Rightarrow> r | None \<Rightarrow> fresh)))"

definition generate ::
  "idna \<Rightarrow> psl \<Rightarrow> string \<Rightarrow> (nat \<Rightarrow> real) \<Rightarrow> string \<Rightarrow> string option \<Rightarrow> generation_input list \<Rightarrow>
   (candidate, candidate) stage_result option" where
  "generate env psl default_tld rnd fresh external inputs =
     do {
       cs \<leftarrow> generated_all psl default_tld (run_id_of fresh external inputs) rnd 0 inputs;
       let (bad, good) = split_results (map (normalised env psl) (dedup [] cs));
       Some \<lparr>passed = good, filtered = bad, stageName = ''CandidateGenerationStage'', degradations = []\<rparr>
     }"

section \<open>Lemmas\<close>

lemma split_results_eq:
  "fst (split_results xs) = [l. Inl l \<leftarrow> xs]" "snd (split_results xs) = [r. Inr r \<leftarrow> xs]"
  by (induction xs) (auto simp: split_beta split: sum.splits)

lemma set_split_results [simp]:
  "l \<in> set (fst (split_results xs)) \<longleftrightarrow> Inl l \<in> set xs"
  "r \<in> set (snd (split_results xs)) \<longleftrightarrow> Inr r \<in> set xs"
  by (induction xs) (auto simp: split_beta split: sum.splits)

lemma mset_split_results:
  "image_mset f (mset (fst (split_results xs))) + image_mset g (mset (snd (split_results xs)))
   = image_mset (case_sum f g) (mset xs)"
  by (induction xs) (auto simp: split_beta split: sum.splits)

lemma dedup_distinct: "distinct (domains_of (dedup seen cs)) \<and> set (domains_of (dedup seen cs)) \<inter> set seen = {}"
  by (induction seen cs rule: dedup.induct) auto

lemma dedup_covers: "set (domains_of cs) \<subseteq> set seen \<union> set (domains_of (dedup seen cs))"
  by (induction seen cs rule: dedup.induct) auto

lemma dedup_subset: "set (dedup seen cs) \<subseteq> set cs"
  by (induction seen cs rule: dedup.induct) auto

lemma dedup_length: "length (dedup [] cs) = card (set (domains_of cs))"
proof -
  have "set (domains_of (dedup [] cs)) = set (domains_of cs)"
    using dedup_covers [of cs "[]"] dedup_subset [of "[]" cs] by auto
  then show ?thesis using dedup_distinct [of "[]" cs] distinct_card by fastforce
qed

lemma split_results_length: "length (fst (split_results xs)) + length (snd (split_results xs)) = length xs"
  by (induction xs) (auto simp: split_beta split: sum.split)

lemma generateE:
  assumes "generate env psl default_tld rnd fresh external inputs = Some r"
  obtains cs where "generated_all psl default_tld (run_id_of fresh external inputs) rnd 0 inputs = Some cs"
    "passed r = snd (split_results (map (normalised env psl) (dedup [] cs)))"
    "filtered r = fst (split_results (map (normalised env psl) (dedup [] cs)))"
  using assms by (auto simp: generate_def case_prod_beta split: bind_splits)

definition renamed :: "idna \<Rightarrow> psl \<Rightarrow> candidate \<Rightarrow> candidate" where
  "renamed env psl k =
     k\<lparr>normalizedDomain := Some (normalizeDomain env psl (c_domain k)),
       c_tld := tld (normalizeDomain env psl (c_domain k)),
       c_domain := normalized (normalizeDomain env psl (c_domain k))\<rparr>"

lemma normalised_eq:
  "normalised env psl k =
     (if isValid (normalizeDomain env psl (c_domain k)) then Inr (renamed env psl k)
      else Inl (k\<lparr>c_status := Unscored\<rparr>))"
  by (simp add: normalised_def renamed_def Let_def)

lemma normalised_cases:
  "normalised env psl k = Inr c \<Longrightarrow> isValid (normalizeDomain env psl (c_domain k)) \<and> c = renamed env psl k"
  "normalised env psl k = Inl b \<Longrightarrow> \<not> isValid (normalizeDomain env psl (c_domain k))
     \<and> b = k\<lparr>c_status := Unscored\<rparr>"
  by (auto simp: normalised_eq split: if_splits)

section \<open>Properties\<close>

text \<open>
  The generation accounts for what was requested: every distinct requested name ends up
  exactly once, either filtered out as unscored under the name that was requested, or passed
  under its normalised name, which is valid, with its source and run kept and nothing
  concluded about it yet.
\<close>

theorem generation_accounts:
  assumes "generate env psl default_tld rnd fresh external inputs = Some r"
  shows "\<exists>cs. generated_all psl default_tld (run_id_of fresh external inputs) rnd 0 inputs = Some cs
    \<and> length (passed r) + length (filtered r) = card (set (domains_of cs))
    \<and> (\<forall>c \<in> set (passed r). \<exists>k \<in> set cs. isValid (normalizeDomain env psl (c_domain k))
         \<and> c = renamed env psl k)
    \<and> (\<forall>c \<in> set (filtered r). \<exists>k \<in> set cs. \<not> isValid (normalizeDomain env psl (c_domain k))
         \<and> c = k\<lparr>c_status := Unscored\<rparr>)"
proof -
  obtain cs where cs: "generated_all psl default_tld (run_id_of fresh external inputs) rnd 0 inputs = Some cs"
    "passed r = snd (split_results (map (normalised env psl) (dedup [] cs)))"
    "filtered r = fst (split_results (map (normalised env psl) (dedup [] cs)))"
    by (rule generateE [OF assms])
  have "length (passed r) + length (filtered r) = card (set (domains_of cs))"
    using split_results_length [of "map (normalised env psl) (dedup [] cs)"] cs(2,3) dedup_length [of cs]
    by simp
  moreover have "\<exists>k \<in> set cs. normalised env psl k = Inr c" if "c \<in> set (passed r)" for c
    using that dedup_subset [of "[]" cs] by (fastforce simp: cs(2))
  moreover have "\<exists>k \<in> set cs. normalised env psl k = Inl c" if "c \<in> set (filtered r)" for c
    using that dedup_subset [of "[]" cs] by (fastforce simp: cs(3))
  ultimately have "length (passed r) + length (filtered r) = card (set (domains_of cs))
    \<and> (\<forall>c \<in> set (passed r). \<exists>k \<in> set cs. isValid (normalizeDomain env psl (c_domain k)) \<and> c = renamed env psl k)
    \<and> (\<forall>c \<in> set (filtered r). \<exists>k \<in> set cs. \<not> isValid (normalizeDomain env psl (c_domain k))
         \<and> c = k\<lparr>c_status := Unscored\<rparr>)"
    by (blast dest: normalised_cases)
  with cs(1) show ?thesis by blast
qed

definition example_names :: generation_input where
  "example_names = \<lparr>g_keywords = [], brandableNames = [''nike.co.uk'', ''nike.co.uk'', ''Nike.co.uk'', ''-.x''],
     closeoutDomains = [], closeoutEntries = [], domains = [], sectorKeywords = [], randomCount = 0,
     externalRunId = None\<rparr>"

lemma example_generate:
  "map_option (\<lambda>r. (domains_of (passed r), domains_of (filtered r)))
     (generate example_idna example_psl ''.com'' (\<lambda>_. 0) ''r'' None [example_names])
   = Some ([''nike.co.uk'', ''nike.co.uk''], [''-.x''])"
  by code_simp

theorem generation_accounts_witness:
  "\<exists>r cs. generate example_idna example_psl ''.com'' (\<lambda>_. 0) ''r'' None [example_names] = Some r
    \<and> generated_all example_psl ''.com'' ''r'' (\<lambda>_. 0) 0 [example_names] = Some cs
    \<and> card (set (domains_of cs)) = 3"
proof -
  obtain r where r: "generate example_idna example_psl ''.com'' (\<lambda>_. 0) ''r'' None [example_names] = Some r"
    "domains_of (passed r) = [''nike.co.uk'', ''nike.co.uk'']" "domains_of (filtered r) = [''-.x'']"
    using example_generate by auto
  then have "length (domains_of (passed r)) + length (domains_of (filtered r)) = 3" by simp
  then have n: "length (passed r) + length (filtered r) = 3" by simp
  have "run_id_of ''r'' None [example_names] = ''r''" by (simp add: run_id_of_def example_names_def)
  with generation_accounts [OF r(1)] obtain cs where
    "generated_all example_psl ''.com'' ''r'' (\<lambda>_. 0) 0 [example_names] = Some cs"
    "length (passed r) + length (filtered r) = card (set (domains_of cs))"
    by auto
  with r(1) n show ?thesis by (intro exI [of _ r] exI [of _ cs]) simp
qed

text \<open>
  Duplicates that differ in case only survive: names are compared before they are normalised.
\<close>

lemma case_variants_stay_duplicated:
  "map_option (\<lambda>r. domains_of (passed r))
     (generate example_idna example_psl ''.com'' (\<lambda>_. 0) ''r'' None [example_names])
   = Some [''nike.co.uk'', ''nike.co.uk'']"
  using example_generate by auto

end
