(* ===== verification/DnsStage.thy ===== *)
theory DnsStage
  imports Generation
begin

text \<open>
  The DNS pre-filter: \<open>src/pipeline/stages/dns-prefilter-stage.ts\<close>. The provider and the
  abort signal, read where the code reads it, are parameters; so are the answers of the
  individual checks, which may differ between the retry and the fallback. The lemmas show
  that the stage accounts for every candidate and lets one through only on evidence.
\<close>

section \<open>The provider\<close>

record dns_result =
  dr_status :: domain_status
  isParked :: "bool option"
  parkingRegistrar :: "string option"
  dr_dnssec :: "dnssec_status option"
  dr_resolverLevel :: "bool option"
  dr_fromCache :: "bool option"

datatype dns_round = Retry | Fallback

text \<open>The places where the abort signal is read; the Boolean is the force-recheck group.\<close>

datatype dns_point = DnsStart | DnsGroup bool | DnsRetry bool nat | DnsFallback bool nat

datatype dnssec_mode = Strict | Permissive | Disabled

record dns_stage =
  provider_name :: string
  checkBulk :: "bool \<Rightarrow> string list \<Rightarrow> dns_result option list option"
  checkAvailability :: "dns_round \<Rightarrow> bool \<Rightarrow> string \<Rightarrow> dns_result option"
  aborted :: "dns_point \<Rightarrow> bool"
  fallbackConcurrency :: nat
  skipSources :: "candidate_source list"
  dnssecMode :: dnssec_mode
  valid_domain :: "string \<Rightarrow> bool"

section \<open>Resolving\<close>

text \<open>
  The fallback checks every domain again and overwrites what \<open>rs\<close> holds; a check that throws
  leaves no result.
\<close>

fun perDomainFallback ::
  "dns_stage \<Rightarrow> bool \<Rightarrow> nat \<Rightarrow> string list list \<Rightarrow> dns_result option list \<Rightarrow> dns_result option list"
where
  "perDomainFallback st force k [] rs = rs"
| "perDomainFallback st force k (b # bs) rs =
     (if aborted st (DnsFallback force k) then rs
      else map (checkAvailability st Fallback force) b
           @ perDomainFallback st force (Suc k) bs (drop (length b) rs))"

definition undefined_indices :: "dns_result option list \<Rightarrow> nat list" where
  "undefined_indices rs = filter (\<lambda>i. rs ! i = None) [0..<length rs]"

text \<open>The retries of one batch of missing results; an answer is written in place.\<close>

definition retry_batch ::
  "dns_stage \<Rightarrow> bool \<Rightarrow> string list \<Rightarrow> nat list \<Rightarrow> dns_result option list \<Rightarrow> dns_result option list" where
  "retry_batch st force ds b rs =
     fold (\<lambda>i rs. case checkAvailability st Retry force (ds ! i) of None \<Rightarrow> rs | Some r \<Rightarrow> rs[i := Some r])
       b rs"

text \<open>The flag says that the loop was left because of the abort signal.\<close>

fun retryUndefinedBatch ::
  "dns_stage \<Rightarrow> bool \<Rightarrow> string list \<Rightarrow> nat \<Rightarrow> nat list list \<Rightarrow> dns_result option list \<Rightarrow>
   bool \<times> dns_result option list" where
  "retryUndefinedBatch st force ds k [] rs = (False, rs)"
| "retryUndefinedBatch st force ds k (b # bs) rs =
     (if aborted st (DnsRetry force k) then (True, rs)
      else retryUndefinedBatch st force ds (Suc k) bs (retry_batch st force ds b rs))"

definition resolveBulkWithFallback ::
  "dns_stage \<Rightarrow> bool \<Rightarrow> string list \<Rightarrow> dns_result option list" where
  "resolveBulkWithFallback st force ds =
     (let fall = perDomainFallback st force 0 (chunks (fallbackConcurrency st) ds)
      in if ds = [] then []
         else if aborted st (DnsGroup force) then replicate (length ds) None
         else case checkBulk st force ds of
           None \<Rightarrow> fall (replicate (length ds) None)
         | Some rs \<Rightarrow>
             (if length rs \<noteq> length ds then fall rs
              else let missing = undefined_indices rs
                   in if missing = [] then rs
                      else if real (length missing) / real (length rs) \<ge> 1 / 10
                      then (let (stopped, rs1) =
                                  retryUndefinedBatch st force ds 0
                                    (chunks (fallbackConcurrency st) missing) rs
                            in if \<not> stopped \<and> undefined_indices rs1 = [] then rs1 else fall rs1)
                      else fall rs))"

section \<open>The stage\<close>

definition dnssecPasses :: "dnssec_mode \<Rightarrow> dnssec_status option \<Rightarrow> bool" where
  "dnssecPasses m s =
     (case m of
        Disabled \<Rightarrow> True
      | Permissive \<Rightarrow> s = Some DnssecValid \<or> s = Some DnssecInsecure
      | Strict \<Rightarrow> s = Some DnssecValid)"

definition with_default :: "'a \<Rightarrow> 'a option \<Rightarrow> 'a" where
  "with_default d x = (case x of None \<Rightarrow> d | Some y \<Rightarrow> y)"

definition dns_evidence_of :: "dns_stage \<Rightarrow> dns_result \<Rightarrow> bool option \<Rightarrow> dns_evidence" where
  "dns_evidence_of st r level = \<lparr>e_resolver = provider_name st,
     e_dnssec = with_default DnssecUnchecked (dr_dnssec r), e_resolverLevel = level,
     e_fromCache = with_default False (dr_fromCache r)\<rparr>"

definition record_dns :: "dns_evidence \<Rightarrow> candidate \<Rightarrow> candidate" where
  "record_dns ev c =
     c\<lparr>provenance := Some ((with_default no_provenance (provenance c))\<lparr>p_dns := Some ev\<rparr>)\<rparr>"

definition no_whois :: whois_meta where
  "no_whois = \<lparr>w_domainAge = None, w_registrar = None, w_createdDate = None, w_expiryDate = None\<rparr>"

definition pass_dns :: "string \<Rightarrow> candidate \<Rightarrow> candidate" where
  "pass_dns s c = c\<lparr>dnsStatus := Some s, c_status := Pending,
     forceWhoisRecheck := (if of_closeout c then True else forceWhoisRecheck c)\<rparr>"

text \<open>\<open>Inl\<close> filters the candidate out, \<open>Inr\<close> lets it pass.\<close>

definition judge_dns :: "dns_stage \<Rightarrow> candidate \<Rightarrow> dns_result option \<Rightarrow> candidate + candidate" where
  "judge_dns st c res =
     (case res of
        None \<Rightarrow> Inl (c\<lparr>dnsStatus := Some ''error'', c_status := DnsFiltered\<rparr>)
      | Some r \<Rightarrow>
          if isParked r = Some True
          then let c1 = record_dns (dns_evidence_of st r None) (pass_dns ''parked'' c)
               in Inr (case parkingRegistrar r of
                         None \<Rightarrow> c1
                       | Some p \<Rightarrow> c1\<lparr>whoisMeta := Some ((with_default no_whois (whoisMeta c))\<lparr>w_registrar := Some p\<rparr>)\<rparr>)
          else if dr_status r = Available
          then let ev = dns_evidence_of st r (Some (with_default False (dr_resolverLevel r)))
               in if dnssecPasses (dnssecMode st) (dr_dnssec r)
                  then Inr (record_dns ev (pass_dns ''available'' c))
                  else Inl (record_dns ev (c\<lparr>dnsStatus := Some ''available'', c_status := DnsFiltered\<rparr>))
          else Inl (c\<lparr>dnsStatus := Some (status_text (dr_status r)), c_status := DnsFiltered\<rparr>))"

text \<open>
  The two groups (closeouts are rechecked live) are resolved one after the other, and each
  candidate is given the result at its position in its own group.
\<close>

definition first_of :: "'a option list \<Rightarrow> 'a option" where
  "first_of rs = (case rs of [] \<Rightarrow> None | r # _ \<Rightarrow> r)"

fun distribute ::
  "candidate list \<Rightarrow> dns_result option list \<Rightarrow> dns_result option list \<Rightarrow>
   (candidate \<times> dns_result option) list" where
  "distribute [] rc ro = []"
| "distribute (c # cs) rc ro =
     (if of_closeout c then (c, first_of rc) # distribute cs (tl rc) ro
      else (c, first_of ro) # distribute cs rc (tl ro))"

definition is_skipped :: "dns_stage \<Rightarrow> candidate \<Rightarrow> bool" where
  "is_skipped st c = List.member (skipSources st) (c_source c)"

definition available_count :: "(candidate \<times> dns_result option) list \<Rightarrow> nat" where
  "available_count ps =
     length (filter (\<lambda>(c, res). case res of None \<Rightarrow> False
                                | Some r \<Rightarrow> isParked r \<noteq> Some True \<and> dr_status r = Available) ps)"

definition validated_count :: "dns_stage \<Rightarrow> (candidate \<times> dns_result option) list \<Rightarrow> nat" where
  "validated_count st ps =
     length (filter (\<lambda>(c, res). case res of None \<Rightarrow> False
                                | Some r \<Rightarrow> isParked r \<noteq> Some True \<and> dr_status r = Available
                                            \<and> dnssecPasses (dnssecMode st) (dr_dnssec r)) ps)"

definition dns_process :: "dns_stage \<Rightarrow> candidate list \<Rightarrow> (candidate, candidate) stage_result" where
  "dns_process st cs =
     (if aborted st DnsStart
      then \<lparr>passed = [], filtered = [], stageName = ''DnsPreFilterStage'', degradations = []\<rparr>
      else
        let skipped = map (\<lambda>c. c\<lparr>dnsStatus := Some ''skipped'', c_status := Pending\<rparr>) (filter (is_skipped st) cs);
            rest = filter (\<lambda>c. \<not> is_skipped st c) cs;
            bad = map (\<lambda>c. c\<lparr>dnsStatus := Some ''invalid'', c_status := DnsFiltered\<rparr>)
                    (filter (\<lambda>c. \<not> valid_domain st (c_domain c)) rest);
            toFilter = filter (\<lambda>c. valid_domain st (c_domain c)) rest;
            rc = resolveBulkWithFallback st True (domains_of (filter of_closeout toFilter));
            ro = resolveBulkWithFallback st False (domains_of (filter (\<lambda>c. \<not> of_closeout c) toFilter));
            ps = distribute toFilter rc ro;
            (out, pass) = split_results (map (\<lambda>(c, res). judge_dns st c res) ps);
            av = available_count ps;
            ok = validated_count st ps
        in \<lparr>passed = skipped @ pass, filtered = bad @ out, stageName = ''DnsPreFilterStage'',
            degradations = (if av - ok > 0
              then [\<lparr>d_stage = ''DnsPreFilterStage'', d_reason = DnsUnvalidated, d_processed = ok,
                     d_expected = av\<rparr>] else [])\<rparr>)"

section \<open>Where the results come from\<close>

text \<open>
  The provider gave the answer \<open>r\<close> for the domain at position \<open>i\<close>: in the bulk answer at
  that position, or to an individual check.
\<close>

definition backed_by :: "dns_stage \<Rightarrow> bool \<Rightarrow> string list \<Rightarrow> nat \<Rightarrow> dns_result \<Rightarrow> bool" where
  "backed_by st force ds i r =
     ((\<exists>rs. checkBulk st force ds = Some rs \<and> i < length rs \<and> rs ! i = Some r)
      \<or> (\<exists>round. checkAvailability st round force (ds ! i) = Some r))"

definition all_backed :: "dns_stage \<Rightarrow> bool \<Rightarrow> string list \<Rightarrow> dns_result option list \<Rightarrow> bool" where
  "all_backed st force ds rs =
     (\<forall>i r. i < length rs \<longrightarrow> i < length ds \<longrightarrow> rs ! i = Some r \<longrightarrow> backed_by st force ds i r)"

lemma all_backed_none: "all_backed st force ds (replicate n None)"
  by (simp add: all_backed_def)

lemma all_backed_Nil [simp]: "all_backed st force ds []"
  by (simp add: all_backed_def)

lemma all_backed_bulk: "checkBulk st force ds = Some rs \<Longrightarrow> all_backed st force ds rs"
  by (auto simp: all_backed_def backed_by_def)

lemma nth_concat_chunks:
  "i < length (concat (chunks n ds)) \<Longrightarrow> concat (chunks n ds) ! i = ds ! i"
  using concat_chunks [of n ds] by (cases n; cases ds) auto

lemma fallback_nth:
  assumes "i < length (perDomainFallback st force k bs rs)"
    and "perDomainFallback st force k bs rs ! i = Some r"
  shows "(i < length (concat bs) \<and> checkAvailability st Fallback force (concat bs ! i) = Some r)
    \<or> (i < length rs \<and> rs ! i = Some r)"
  using assms
proof (induction st force k bs rs arbitrary: i rule: perDomainFallback.induct)
  case (2 st force k b bs rs)
  show ?case
  proof (cases "aborted st (DnsFallback force k)")
    case True
    then show ?thesis using "2.prems" by simp
  next
    case False
    show ?thesis
    proof (cases "i < length b")
      case True
      then show ?thesis using "2.prems" False by (simp add: nth_append)
    next
      case ge: False
      then have "i - length b < length (perDomainFallback st force (Suc k) bs (drop (length b) rs))"
        "perDomainFallback st force (Suc k) bs (drop (length b) rs) ! (i - length b) = Some r"
        using "2.prems" False by (simp_all add: nth_append)
      from "2.IH" [OF False this] ge show ?thesis
        by (auto simp: nth_append less_diff_conv2)
    qed
  qed
qed simp

lemma all_backed_fallback:
  assumes "all_backed st force ds rs"
  shows "all_backed st force ds (perDomainFallback st force k (chunks n ds) rs)"
  using assms fallback_nth [of _ st force k "chunks n ds" rs] nth_concat_chunks
  unfolding all_backed_def backed_by_def by metis

lemma all_backed_retry_batch:
  "all_backed st force ds rs \<Longrightarrow> all_backed st force ds (retry_batch st force ds b rs)"
proof (induction b arbitrary: rs)
  case (Cons j b)
  have "all_backed st force ds (rs[j := Some r])"
    if "checkAvailability st Retry force (ds ! j) = Some r" for r
    using Cons.prems that
    by (cases "j < length rs") (auto simp: all_backed_def backed_by_def nth_list_update split: if_splits)
  then show ?case
    using Cons by (auto simp: retry_batch_def split: option.split)
qed (simp add: retry_batch_def)

lemma all_backed_retry:
  "all_backed st force ds rs \<Longrightarrow> all_backed st force ds (snd (retryUndefinedBatch st force ds k bs rs))"
  by (induction st force ds k bs rs rule: retryUndefinedBatch.induct) (auto intro: all_backed_retry_batch)

lemma resolve_backed: "all_backed st force ds (resolveBulkWithFallback st force ds)"
proof (cases "checkBulk st force ds")
  case None
  then show ?thesis
    by (auto simp: resolveBulkWithFallback_def Let_def all_backed_none intro!: all_backed_fallback)
next
  case (Some rs)
  note b = all_backed_bulk [OF this]
  show ?thesis
    using Some
    by (auto simp: resolveBulkWithFallback_def Let_def all_backed_none case_prod_beta b
        intro!: all_backed_fallback all_backed_retry)
qed

section \<open>The stage accounts for every candidate\<close>

lemma judge_dns_domain [simp]: "case_sum c_domain c_domain (judge_dns st c res) = c_domain c"
  by (auto simp: judge_dns_def Let_def record_dns_def pass_dns_def split: option.split)

lemma map_fst_distribute [simp]: "map fst (distribute cs rc ro) = cs"
  by (induction cs rc ro rule: distribute.induct) auto

lemma distribute_mem: "(c, res) \<in> set (distribute cs rc ro) \<Longrightarrow> c \<in> set cs"
  by (induction cs rc ro rule: distribute.induct) (auto split: if_splits)

lemma judged_domains:
  "image_mset (case_sum c_domain c_domain) (mset (map (\<lambda>(c, res). judge_dns st c res) ps))
   = mset (domains_of (map fst ps))"
  by (induction ps) auto

lemma mset_filter_split: "mset (map f (filter Q xs)) + mset (map f (filter (\<lambda>x. \<not> Q x) xs)) = mset (map f xs)"
  by (induction xs) auto

lemma split_results_domains:
  "mset (domains_of (fst (split_results xs))) + mset (domains_of (snd (split_results xs)))
   = image_mset (case_sum c_domain c_domain) (mset xs)"
  using mset_split_results [of c_domain xs c_domain] by simp

lemma mset_chain:
  fixes a b :: "'a multiset"
  assumes "a = s + p" "b = x + u" "u + p = t" "t + x = r" "s + r = c"
  shows "a + b = c"
  using assms by (metis add.assoc add.commute)

lemma dns_accounts:
  assumes "\<not> aborted st DnsStart"
  shows "mset (domains_of (passed (dns_process st cs))) + mset (domains_of (filtered (dns_process st cs)))
    = mset (domains_of cs)"
proof -
  let ?sk = "filter (is_skipped st) cs" and ?rest = "filter (\<lambda>c. \<not> is_skipped st c) cs"
  let ?ok = "filter (\<lambda>c. valid_domain st (c_domain c)) ?rest"
  let ?bad = "filter (\<lambda>c. \<not> valid_domain st (c_domain c)) ?rest"
  define ps where "ps = distribute ?ok
    (resolveBulkWithFallback st True (domains_of (filter of_closeout ?ok)))
    (resolveBulkWithFallback st False (domains_of (filter (\<lambda>c. \<not> of_closeout c) ?ok)))"
  let ?s = "split_results (map (\<lambda>(c, res). judge_dns st c res) ps)"
  have "mset (domains_of (passed (dns_process st cs))) = mset (domains_of ?sk) + mset (domains_of (snd ?s))"
    "mset (domains_of (filtered (dns_process st cs))) = mset (domains_of ?bad) + mset (domains_of (fst ?s))"
    using assms by (simp_all add: dns_process_def Let_def case_prod_beta ps_def comp_def)
  then show ?thesis
  proof (rule mset_chain)
    show "mset (domains_of (fst ?s)) + mset (domains_of (snd ?s)) = mset (domains_of ?ok)"
      by (simp only: split_results_domains judged_domains) (simp add: ps_def)
    show "mset (domains_of ?ok) + mset (domains_of ?bad) = mset (domains_of ?rest)"
      "mset (domains_of ?sk) + mset (domains_of ?rest) = mset (domains_of cs)"
      by (rule mset_filter_split)+
  qed
qed

section \<open>The stage passes on evidence only\<close>

text \<open>A result that lets a candidate pass.\<close>

definition dns_free :: "dnssec_mode \<Rightarrow> dns_result \<Rightarrow> bool" where
  "dns_free m r = (isParked r = Some True \<or> (dr_status r = Available \<and> dnssecPasses m (dr_dnssec r)))"

definition dns_cleared :: "dns_stage \<Rightarrow> candidate list \<Rightarrow> candidate \<Rightarrow> bool" where
  "dns_cleared st cs c =
     (is_skipped st c
      \<or> (valid_domain st (c_domain c)
         \<and> (\<exists>force ds i r. ds ! i = c_domain c \<and> i < length ds \<and> backed_by st force ds i r
              \<and> force = of_closeout c \<and> set ds \<subseteq> set (domains_of cs) \<and> dns_free (dnssecMode st) r)))"

lemma first_of_Some: "first_of rs = Some r \<longleftrightarrow> (\<exists>rs'. rs = Some r # rs')"
  by (cases rs) (auto simp: first_of_def)

lemma distribute_closeout:
  assumes "(c, Some r) \<in> set (distribute cs rc ro)" "of_closeout c"
  shows "\<exists>i. i < length rc \<and> rc ! i = Some r \<and> i < length (filter (\<lambda>k. of_closeout k) cs)
    \<and> filter (\<lambda>k. of_closeout k) cs ! i = c"
  using assms(1)
proof (induction cs rc ro rule: distribute.induct)
  case (2 k cs rc ro)
  show ?case
  proof (cases "of_closeout k")
    case True
    then consider "c = k" "first_of rc = Some r" | "(c, Some r) \<in> set (distribute cs (tl rc) ro)"
      using "2.prems" by auto
    then show ?thesis
    proof cases
      case 1
      then show ?thesis using True assms(2) by (auto simp: first_of_Some intro!: exI [of _ 0])
    next
      case 2
      from "2.IH"(1) [OF True this] obtain i where
        "i < length (tl rc) \<and> (tl rc) ! i = Some r \<and> i < length (filter (\<lambda>k. of_closeout k) cs) \<and> filter (\<lambda>k. of_closeout k) cs ! i = c" by blast
      then show ?thesis using True by (cases rc) (auto intro!: exI [of _ "Suc i"])
    qed
  next
    case False
    then consider "c = k" "first_of ro = Some r" | "(c, Some r) \<in> set (distribute cs rc (tl ro))"
      using "2.prems" by auto
    then show ?thesis
    proof cases
      case 1
      then show ?thesis using False assms(2) by (auto simp: first_of_Some intro!: exI [of _ 0])
    next
      case 2
      from "2.IH"(2) [OF False this] obtain i where
        "i < length rc \<and> rc ! i = Some r \<and> i < length (filter (\<lambda>k. of_closeout k) cs) \<and> filter (\<lambda>k. of_closeout k) cs ! i = c" by blast
      then show ?thesis using False by (intro exI [of _ i]) simp
    qed
  qed
qed simp

lemma distribute_other:
  assumes "(c, Some r) \<in> set (distribute cs rc ro)" "\<not> of_closeout c"
  shows "\<exists>i. i < length ro \<and> ro ! i = Some r \<and> i < length (filter (\<lambda>k. \<not> of_closeout k) cs)
    \<and> filter (\<lambda>k. \<not> of_closeout k) cs ! i = c"
  using assms(1)
proof (induction cs rc ro rule: distribute.induct)
  case (2 k cs rc ro)
  show ?case
  proof (cases "of_closeout k")
    case True
    then consider "c = k" "first_of rc = Some r" | "(c, Some r) \<in> set (distribute cs (tl rc) ro)"
      using "2.prems" by auto
    then show ?thesis
    proof cases
      case 1
      then show ?thesis using True assms(2) by (auto simp: first_of_Some intro!: exI [of _ 0])
    next
      case 2
      from "2.IH"(1) [OF True this] obtain i where
        "i < length ro \<and> ro ! i = Some r \<and> i < length (filter (\<lambda>k. \<not> of_closeout k) cs) \<and> filter (\<lambda>k. \<not> of_closeout k) cs ! i = c" by blast
      then show ?thesis using True by (intro exI [of _ i]) simp
    qed
  next
    case False
    then consider "c = k" "first_of ro = Some r" | "(c, Some r) \<in> set (distribute cs rc (tl ro))"
      using "2.prems" by auto
    then show ?thesis
    proof cases
      case 1
      then show ?thesis using False assms(2) by (auto simp: first_of_Some intro!: exI [of _ 0])
    next
      case 2
      from "2.IH"(2) [OF False this] obtain i where
        "i < length (tl ro) \<and> (tl ro) ! i = Some r \<and> i < length (filter (\<lambda>k. \<not> of_closeout k) cs) \<and> filter (\<lambda>k. \<not> of_closeout k) cs ! i = c" by blast
      then show ?thesis using False by (cases ro) (auto intro!: exI [of _ "Suc i"])
    qed
  qed
qed simp

lemma judge_dns_passes:
  assumes "judge_dns st c res = Inr c'"
  shows "\<exists>r. res = Some r \<and> dns_free (dnssecMode st) r \<and> c_domain c' = c_domain c
    \<and> c_source c' = c_source c \<and> c_status c' = Pending \<and> c_tld c' = c_tld c"
proof (cases res)
  case None
  then show ?thesis using assms by (simp add: judge_dns_def)
next
  case (Some r)
  then show ?thesis
    using assms
    by (auto simp: judge_dns_def Let_def record_dns_def pass_dns_def dns_free_def
        split: if_splits option.splits)
qed

lemma dns_sound:
  assumes "c' \<in> set (passed (dns_process st cs))"
  shows "\<exists>c \<in> set cs. c_domain c' = c_domain c \<and> c_source c' = c_source c \<and> c_tld c' = c_tld c
    \<and> c_status c' = Pending \<and> dns_cleared st cs c"
proof -
  let ?ok = "filter (\<lambda>c. valid_domain st (c_domain c)) (filter (\<lambda>c. \<not> is_skipped st c) cs)"
  let ?dc = "domains_of (filter of_closeout ?ok)" and ?do = "domains_of (filter (\<lambda>c. \<not> of_closeout c) ?ok)"
  let ?rc = "resolveBulkWithFallback st True ?dc" and ?ro = "resolveBulkWithFallback st False ?do"
  have "\<not> aborted st DnsStart" using assms by (auto simp: dns_process_def split: if_splits)
  then consider (skipped) c where "c \<in> set cs" "is_skipped st c"
      "c' = c\<lparr>dnsStatus := Some ''skipped'', c_status := Pending\<rparr>"
    | (judged) c res where "(c, res) \<in> set (distribute ?ok ?rc ?ro)" "judge_dns st c res = Inr c'"
    using assms by (auto simp: dns_process_def Let_def case_prod_beta)
  then show ?thesis
  proof cases
    case skipped
    then show ?thesis by (auto simp: dns_cleared_def)
  next
    case judged
    obtain r where r: "res = Some r" "dns_free (dnssecMode st) r" "c_domain c' = c_domain c"
      "c_source c' = c_source c" "c_status c' = Pending" "c_tld c' = c_tld c"
      using judge_dns_passes [OF judged(2)] by blast
    have "c \<in> set ?ok" using judged(1) by (rule distribute_mem)
    then have c: "c \<in> set cs" "valid_domain st (c_domain c)" by auto
    let ?ds = "domains_of (filter (\<lambda>k. of_closeout k = of_closeout c) ?ok)"
    let ?rs = "resolveBulkWithFallback st (of_closeout c) ?ds"
    obtain i where "i < length ?rs" "?rs ! i = Some r" "i < length ?ds" "?ds ! i = c_domain c"
    proof (cases "of_closeout c")
      case True
      with distribute_closeout [OF judged(1) [unfolded r(1)]] that show ?thesis by auto
    next
      case False
      with distribute_other [OF judged(1) [unfolded r(1)]] that show ?thesis by auto
    qed
    moreover have "all_backed st (of_closeout c) ?ds ?rs" by (rule resolve_backed)
    ultimately have "backed_by st (of_closeout c) ?ds i r" by (simp add: all_backed_def)
    then have "dns_cleared st cs c"
      using c r(2) \<open>i < length ?ds\<close> \<open>?ds ! i = c_domain c\<close>
      unfolding dns_cleared_def by (intro disjI2 conjI exI) auto
    then show ?thesis using c r by auto
  qed
qed

section \<open>Properties\<close>

text \<open>
  C31. The DNS pre-filter accounts for every candidate: unless it was aborted before it
  started, the domains that it passes and those that it filters out are together exactly its
  input, with multiplicity, and every candidate that it passes comes from the input and
  either has a source that skips the filter, or is a valid name for which the provider itself
  reported a parked page or an available domain whose DNSSEC status the mode accepts.
\<close>

theorem dns_stage_accounts_and_sound:
  assumes "\<not> aborted st DnsStart"
  shows "mset (domains_of (passed (dns_process st cs))) + mset (domains_of (filtered (dns_process st cs)))
      = mset (domains_of cs)
    \<and> (\<forall>c' \<in> set (passed (dns_process st cs)). \<exists>c \<in> set cs. c_domain c' = c_domain c \<and> dns_cleared st cs c)"
  using dns_accounts [OF assms] dns_sound by blast

definition example_dns :: dns_stage where
  "example_dns = \<lparr>provider_name = ''p'', checkBulk = (\<lambda>_ _. None),
     checkAvailability = (\<lambda>_ _ d. if d = ''a.com''
       then Some \<lparr>dr_status = Available, isParked = None, parkingRegistrar = None,
              dr_dnssec = Some DnssecValid, dr_resolverLevel = None, dr_fromCache = None\<rparr> else None),
     aborted = (\<lambda>_. False), fallbackConcurrency = 10, skipSources = [], dnssecMode = Strict,
     valid_domain = (\<lambda>_. True)\<rparr>"

definition example_candidates :: "candidate list" where
  "example_candidates = [new_candidate ''r'' KeywordCombo ''a.com'' ''.com'',
     new_candidate ''r'' KeywordCombo ''b.com'' ''.com'']"

theorem dns_stage_accounts_and_sound_witness:
  "size (mset (domains_of (passed (dns_process example_dns example_candidates)))
     + mset (domains_of (filtered (dns_process example_dns example_candidates)))) = 2"
  using dns_stage_accounts_and_sound [of example_dns example_candidates]
  by (simp add: example_dns_def example_candidates_def)

end
