(* ===== verification/RdapStage.thy ===== *)
theory RdapStage
  imports DnsStage
begin

text \<open>
  RDAP confirmation: \<open>src/pipeline/stages/rdap-confirmation-stage.ts\<close> with the origin guards of
  \<open>src/providers/rdap/rdap-consensus-validator.ts\<close> and the consensus configuration that
  \<open>src/app/provider-factory.ts\<close> builds. The providers are functions of the domain; \<open>None\<close> is
  an answer that failed or came too late. \<open>rdapUrlOrigin\<close> (the URL parser) is a parameter.
  The lemmas show what a confirmed candidate rests on, that none is lost, and what the
  counters of the consensus count.
\<close>

section \<open>One availability check\<close>

record rdap_answer =
  ra_status :: domain_status
  ra_premium :: bool
  ra_registrar :: "string option"
  ra_expiresAt :: "string option"
  ra_sourceOrigin :: "string option"

record whois_answer =
  wa_available :: bool
  wa_registrar :: "string option"
  wa_expiryDate :: "string option"
  wa_createdDate :: "string option"
  wa_domainAge :: "real option"

datatype availability_source = FromRdap | FromWhois | CrossValidated

record availability_result =
  av_status :: domain_status
  av_premium :: bool
  av_registrar :: "string option"
  av_expiresAt :: "string option"
  av_createdDate :: "string option"
  av_domainAge :: "real option"
  av_source :: availability_source
  av_sourceOrigin :: "string option"

definition rdapToResult :: "rdap_answer \<Rightarrow> availability_result" where
  "rdapToResult r = \<lparr>av_status = ra_status r, av_premium = ra_premium r,
     av_registrar = ra_registrar r, av_expiresAt = ra_expiresAt r, av_createdDate = None,
     av_domainAge = None, av_source = FromRdap, av_sourceOrigin = ra_sourceOrigin r\<rparr>"

text \<open>The age in years that the code computes from the creation date comes with the answer.\<close>

definition whoisToResult :: "whois_answer \<Rightarrow> availability_result" where
  "whoisToResult w = \<lparr>av_status = (if wa_available w then Available else Registered),
     av_premium = False, av_registrar = wa_registrar w, av_expiresAt = wa_expiryDate w,
     av_createdDate = wa_createdDate w, av_domainAge = wa_domainAge w, av_source = FromWhois,
     av_sourceOrigin = None\<rparr>"

definition or_keep :: "'a option \<Rightarrow> 'a option \<Rightarrow> 'a option" where
  "or_keep x y = (case x of None \<Rightarrow> y | Some _ \<Rightarrow> x)"

definition crossValidate :: "rdap_answer \<Rightarrow> whois_answer \<Rightarrow> availability_result" where
  "crossValidate r w =
     (let rdapAvailable = (ra_status r = Available \<and> \<not> ra_premium r)
      in if rdapAvailable = wa_available w
         then let a = rdapToResult r; b = whoisToResult w
              in a\<lparr>av_source := CrossValidated,
                   av_registrar := or_keep (av_registrar b) (av_registrar a),
                   av_expiresAt := or_keep (av_expiresAt b) (av_expiresAt a),
                   av_createdDate := or_keep (av_createdDate b) (av_createdDate a),
                   av_domainAge := or_keep (av_domainAge b) (av_domainAge a)\<rparr>
         else \<lparr>av_status = Registered, av_premium = False, av_registrar = None, av_expiresAt = None,
               av_createdDate = None, av_domainAge = None, av_source = CrossValidated,
               av_sourceOrigin = None\<rparr>)"

type_synonym rdap_provider = "string \<Rightarrow> rdap_answer option"
type_synonym whois_provider = "bool \<Rightarrow> string \<Rightarrow> whois_answer option"

record consensus_config =
  secondaryProviders :: "string \<Rightarrow> rdap_provider option"
  secondaryOrigins :: "string \<Rightarrow> string option"
  secondaryProvider :: "rdap_provider option"
  secondaryOrigin :: "string option"
  degradedRatio :: "real option"
  degradedMin :: "nat option"
  consensusConcurrency :: "nat option"
  rescueWhoisEnabled :: bool
  rescueWhoisTlds :: "string list"
  tldOriginsResolver :: "(string \<Rightarrow> string list option) option"

text \<open>The places where the abort signal is read: at the start and before each batch.\<close>

datatype rdap_point = RdapStart | RdapBatch nat | RdapConsensusBatch nat

record rdap_stage =
  rdapProvider :: rdap_provider
  freshRdapProvider :: "rdap_provider option"
  whoisProvider :: "whois_provider option"
  whoisRescueProvider :: "whois_provider option"
  rd_concurrency :: nat
  consensusConfig :: "consensus_config option"
  rd_aborted :: "rdap_point \<Rightarrow> bool"
  rdapUrlOrigin :: "string \<Rightarrow> string option"

definition rdapProviderFor :: "rdap_stage \<Rightarrow> candidate \<Rightarrow> rdap_provider" where
  "rdapProviderFor st c =
     (case freshRdapProvider st of
        Some p \<Rightarrow> (if of_closeout c then p else rdapProvider st)
      | None \<Rightarrow> rdapProvider st)"

text \<open>\<open>None\<close>: the check throws.\<close>

definition check_availability :: "rdap_stage \<Rightarrow> candidate \<Rightarrow> availability_result option" where
  "check_availability st c =
     (let rdap = rdapProviderFor st c (c_domain c)
      in case whoisProvider st of
           None \<Rightarrow> map_option rdapToResult rdap
         | Some wp \<Rightarrow>
             (case (rdap, wp (forceWhoisRecheck c) (c_domain c)) of
                (Some r, Some w) \<Rightarrow> Some (crossValidate r w)
              | (Some r, None) \<Rightarrow> Some (rdapToResult r)
              | (None, Some w) \<Rightarrow> Some (whoisToResult w)
              | (None, None) \<Rightarrow> None))"

section \<open>The first leg\<close>

definition buildWhoisMeta :: "availability_result \<Rightarrow> whois_meta option" where
  "buildWhoisMeta r =
     (let m = \<lparr>w_domainAge = av_domainAge r, w_registrar = av_registrar r,
               w_createdDate = av_createdDate r, w_expiryDate = av_expiresAt r\<rparr>
      in if m = no_whois then None else Some m)"

definition merge_whois :: "candidate \<Rightarrow> availability_result \<Rightarrow> whois_meta option" where
  "merge_whois c r =
     (let a = with_default no_whois (buildWhoisMeta r);
          b = with_default no_whois (whoisMeta c);
          m = \<lparr>w_domainAge = or_keep (Option.bind (closeoutMeta c) m_domainAge)
                                 (or_keep (w_domainAge b) (w_domainAge a)),
               w_registrar = or_keep (w_registrar b) (w_registrar a),
               w_createdDate = or_keep (w_createdDate b) (w_createdDate a),
               w_expiryDate = or_keep (w_expiryDate b) (w_expiryDate a)\<rparr>
      in if m = no_whois then None else Some m)"

fun source_text :: "availability_source \<Rightarrow> string" where
  "source_text FromRdap = ''rdap''"
| "source_text FromWhois = ''whois''"
| "source_text CrossValidated = ''cross-validated''"

definition record_rdap :: "rdap_evidence \<Rightarrow> candidate \<Rightarrow> candidate" where
  "record_rdap ev c =
     c\<lparr>provenance := Some ((with_default no_provenance (provenance c))\<lparr>p_rdap := Some ev\<rparr>)\<rparr>"

definition judge_rdap :: "candidate \<Rightarrow> availability_result option \<Rightarrow> candidate + candidate" where
  "judge_rdap c res =
     (case res of
        None \<Rightarrow> Inl (c\<lparr>rdapStatus := Some ''error'', c_status := RdapFiltered\<rparr>)
      | Some r \<Rightarrow>
          let ev = \<lparr>primaryServer = with_default (source_text (av_source r)) (av_sourceOrigin r),
                    e_consensus = None\<rparr>
          in if av_status r = Available \<and> \<not> av_premium r
             then Inr (record_rdap ev (c\<lparr>rdapStatus := Some (status_text Available), isPremium := False,
                         c_status := Pending, whoisMeta := merge_whois c r\<rparr>))
             else Inl (record_rdap ev (c\<lparr>rdapStatus := Some (status_text (av_status r)),
                         isPremium := av_premium r, c_status := RdapFiltered\<rparr>)))"

text \<open>The batches before the first at which the signal is found aborted.\<close>

fun until_abort :: "(nat \<Rightarrow> bool) \<Rightarrow> nat \<Rightarrow> 'a list list \<Rightarrow> 'a list" where
  "until_abort ab k [] = []"
| "until_abort ab k (b # bs) = (if ab k then [] else b @ until_abort ab (Suc k) bs)"

text \<open>The origin that served the verdict of a domain; a later candidate overwrites an earlier one.\<close>

definition winning_origins :: "rdap_stage \<Rightarrow> candidate list \<Rightarrow> string \<Rightarrow> string option" where
  "winning_origins st cs =
     fold (\<lambda>c m. case Option.bind (check_availability st c) av_sourceOrigin of
                   None \<Rightarrow> m | Some u \<Rightarrow> m(c_domain c \<mapsto> u)) cs Map.empty"

section \<open>The second leg\<close>

record consensus_stats =
  s_verified :: nat
  s_disagreed :: nat
  s_unverifiable :: nat
  s_whoisRescued :: nat
  s_perTldRescued :: nat
  s_originOverlap :: nat
  s_originGuardUnavailable :: nat
  s_degraded :: bool

definition no_stats :: consensus_stats where
  "no_stats = \<lparr>s_verified = 0, s_disagreed = 0, s_unverifiable = 0, s_whoisRescued = 0,
     s_perTldRescued = 0, s_originOverlap = 0, s_originGuardUnavailable = 0, s_degraded = False\<rparr>"

definition hasAuthoritativeOriginOverlap :: "(string \<Rightarrow> string option) \<Rightarrow> string list \<Rightarrow> string \<Rightarrow> bool" where
  "hasAuthoritativeOriginOverlap origin authoritative endpoint =
     (case origin endpoint of None \<Rightarrow> False
      | Some o2 \<Rightarrow> list_ex (\<lambda>u. origin u = Some o2) authoritative)"

definition hasWinningOriginOverlap :: "(string \<Rightarrow> string option) \<Rightarrow> string option \<Rightarrow> string \<Rightarrow> bool" where
  "hasWinningOriginOverlap origin primary endpoint =
     (case primary of None \<Rightarrow> False
      | Some u \<Rightarrow> (case origin endpoint of None \<Rightarrow> False | Some o2 \<Rightarrow> origin u = Some o2))"

text \<open>The second leg of a candidate: per TLD, then the wild card, then the single provider.\<close>

definition tld_key :: "candidate \<Rightarrow> string" where
  "tld_key c = ''.'' @ to_lower (c_tld c)"

definition second_leg :: "consensus_config \<Rightarrow> candidate \<Rightarrow> rdap_provider option \<times> string option" where
  "second_leg cfg c =
     (case secondaryProviders cfg (tld_key c) of
        Some p \<Rightarrow> (Some p, secondaryOrigins cfg (tld_key c))
      | None \<Rightarrow>
          (case secondaryProviders cfg ''*'' of
             Some p \<Rightarrow> (Some p, secondaryOrigins cfg ''*'')
           | None \<Rightarrow> (secondaryProvider cfg, secondaryOrigin cfg)))"

datatype leg = GuardUnavailable | Overlap | Answered "rdap_answer option"

definition consult ::
  "rdap_stage \<Rightarrow> consensus_config \<Rightarrow> (string \<Rightarrow> string option) \<Rightarrow> candidate \<Rightarrow> leg" where
  "consult st cfg winners c =
     (case (case tldOriginsResolver cfg of None \<Rightarrow> Some None | Some f \<Rightarrow> map_option Some (f (c_tld c))) of
        None \<Rightarrow> GuardUnavailable
      | Some authoritative \<Rightarrow>
          let (provider, endpoint) = second_leg cfg c;
              overlaps = (case endpoint of None \<Rightarrow> False
                | Some u \<Rightarrow>
                    (case authoritative of None \<Rightarrow> False
                     | Some os \<Rightarrow> hasAuthoritativeOriginOverlap (rdapUrlOrigin st) os u)
                    \<or> hasWinningOriginOverlap (rdapUrlOrigin st) (winners (c_domain c)) u)
          in if overlaps then Overlap
             else Answered (case provider of None \<Rightarrow> None | Some p \<Rightarrow> p (c_domain c)))"

definition tryWhoisRescue :: "rdap_stage \<Rightarrow> candidate \<Rightarrow> bool option" where
  "tryWhoisRescue st c =
     (case or_keep (whoisRescueProvider st) (whoisProvider st) of
        None \<Rightarrow> None
      | Some p \<Rightarrow> map_option wa_available (p False (c_domain c)))"

datatype consensus_outcome = Confirmed | ConfirmedByWhois bool | Vetoed | Overlapped | Unanswered

text \<open>How one candidate is counted, and the first evidence recorded for its domain.\<close>

definition rescue :: "rdap_stage \<Rightarrow> consensus_config \<Rightarrow> candidate \<Rightarrow> consensus_outcome" where
  "rescue st cfg c =
     (let forced = List.member (rescueWhoisTlds cfg) (to_lower (c_tld c))
      in if (rescueWhoisEnabled cfg \<or> forced) \<and> whoisProvider st \<noteq> None
         then (case tryWhoisRescue st c of
                 Some True \<Rightarrow> ConfirmedByWhois forced | Some False \<Rightarrow> Vetoed | None \<Rightarrow> Unanswered)
         else Unanswered)"

definition consensus_verdict ::
  "rdap_stage \<Rightarrow> consensus_config \<Rightarrow> (string \<Rightarrow> string option) \<Rightarrow> candidate \<Rightarrow> consensus_outcome" where
  "consensus_verdict st cfg winners c =
     (case consult st cfg winners c of
        Overlap \<Rightarrow> Overlapped
      | GuardUnavailable \<Rightarrow> rescue st cfg c
      | Answered (Some r) \<Rightarrow>
          if ra_status r = Available \<and> \<not> ra_premium r then Confirmed
          else if ra_status r = Registered \<or> ra_premium r then Vetoed
          else rescue st cfg c
      | Answered None \<Rightarrow> rescue st cfg c)"

definition count_verdict :: "consensus_outcome \<Rightarrow> consensus_stats \<Rightarrow> consensus_stats" where
  "count_verdict v s =
     (case v of
        Confirmed \<Rightarrow> s\<lparr>s_verified := s_verified s + 1\<rparr>
      | ConfirmedByWhois forced \<Rightarrow>
          (if forced then s\<lparr>s_verified := s_verified s + 1, s_perTldRescued := s_perTldRescued s + 1\<rparr>
           else s\<lparr>s_verified := s_verified s + 1, s_whoisRescued := s_whoisRescued s + 1\<rparr>)
      | Vetoed \<Rightarrow> s\<lparr>s_disagreed := s_disagreed s + 1\<rparr>
      | Overlapped \<Rightarrow> s\<lparr>s_unverifiable := s_unverifiable s + 1, s_originOverlap := s_originOverlap s + 1\<rparr>
      | Unanswered \<Rightarrow> s\<lparr>s_unverifiable := s_unverifiable s + 1\<rparr>)"

text \<open>A guard that could not decide is counted on its own, before the verdict is.\<close>

definition count_one ::
  "rdap_stage \<Rightarrow> consensus_config \<Rightarrow> (string \<Rightarrow> string option) \<Rightarrow> candidate \<Rightarrow> consensus_stats \<Rightarrow>
   consensus_stats" where
  "count_one st cfg winners c s =
     count_verdict (consensus_verdict st cfg winners c)
       (if consult st cfg winners c = GuardUnavailable
        then s\<lparr>s_unverifiable := s_unverifiable s + 1,
               s_originGuardUnavailable := s_originGuardUnavailable s + 1\<rparr>
        else s)"

text \<open>
  The evidence recorded for a domain is that of its first entry: after an undecided guard it
  stays unverified even when the rescue confirms or vetoes.
\<close>

definition second_server :: "consensus_config \<Rightarrow> candidate \<Rightarrow> string" where
  "second_server cfg c = with_default [] (or_keep (secondaryOrigins cfg (tld_key c)) (secondaryOrigin cfg))"

definition consensus_evidence_of ::
  "rdap_stage \<Rightarrow> consensus_config \<Rightarrow> (string \<Rightarrow> string option) \<Rightarrow> candidate \<Rightarrow> consensus_evidence" where
  "consensus_evidence_of st cfg winners c =
     (let none = \<lparr>secondServer = second_server cfg c, c_verified = False, c_vetoed = False,
                  c_originOverlap = False, c_whoisRescued = False\<rparr>
      in if consult st cfg winners c = GuardUnavailable then none
         else case consensus_verdict st cfg winners c of
           Confirmed \<Rightarrow> none\<lparr>c_verified := True\<rparr>
         | ConfirmedByWhois _ \<Rightarrow> none\<lparr>c_verified := True, c_whoisRescued := True\<rparr>
         | Vetoed \<Rightarrow> none\<lparr>c_vetoed := True\<rparr>
         | Overlapped \<Rightarrow> none\<lparr>c_originOverlap := True\<rparr>
         | Unanswered \<Rightarrow> none)"

fun confirms :: "consensus_outcome \<Rightarrow> bool" where
  "confirms Confirmed = True"
| "confirms (ConfirmedByWhois _) = True"
| "confirms _ = False"

definition with_consensus ::
  "rdap_stage \<Rightarrow> consensus_config \<Rightarrow> (string \<Rightarrow> string option) \<Rightarrow> candidate list \<Rightarrow> candidate \<Rightarrow> candidate" where
  "with_consensus st cfg winners processed c =
     (case find (\<lambda>k. c_domain k = c_domain c) processed of
        None \<Rightarrow> c
      | Some k \<Rightarrow>
          (case Option.bind (provenance c) p_rdap of
             None \<Rightarrow> c
           | Some ev \<Rightarrow> record_rdap (ev\<lparr>e_consensus := Some (consensus_evidence_of st cfg winners k)\<rparr>) c))"

definition is_degraded :: "consensus_config \<Rightarrow> consensus_stats \<Rightarrow> bool" where
  "is_degraded cfg s =
     (let total = s_verified s + s_disagreed s + s_unverifiable s
      in total \<ge> with_default 10 (degradedMin cfg) \<and> total > 0
         \<and> real (s_unverifiable s) / real total \<ge> with_default (1 / 2) (degradedRatio cfg))"

definition verifyConsensus ::
  "rdap_stage \<Rightarrow> consensus_config \<Rightarrow> (string \<Rightarrow> string option) \<Rightarrow> candidate list \<Rightarrow>
   candidate list \<times> candidate list \<times> consensus_stats \<times> degradation list" where
  "verifyConsensus st cfg winners cs =
     (let processed = until_abort (\<lambda>k. rd_aborted st (RdapConsensusBatch k)) 0
                        (chunks (with_default 10 (consensusConcurrency cfg)) cs);
          survivor = domains_of (filter (\<lambda>c. confirms (consensus_verdict st cfg winners c)) processed);
          s = fold (count_one st cfg winners) processed no_stats;
          total = s_verified s + s_disagreed s + s_unverifiable s;
          judged = map (with_consensus st cfg winners processed) cs
      in (filter (\<lambda>c. c_domain c \<in> set survivor) judged,
          map (\<lambda>c. c\<lparr>rdapStatus := Some (status_text Unknown), isPremium := False, c_status := RdapFiltered\<rparr>)
            (filter (\<lambda>c. c_domain c \<notin> set survivor) judged),
          s\<lparr>s_degraded := is_degraded cfg s\<rparr>,
          if is_degraded cfg s
          then [\<lparr>d_stage = ''RdapConfirmationStage'', d_reason = RdapConsensusUnverified,
                 d_processed = s_verified s, d_expected = total\<rparr>]
          else []))"

definition first_leg :: "rdap_stage \<Rightarrow> candidate list \<Rightarrow> candidate list \<times> candidate list" where
  "first_leg st processed =
     split_results (map (\<lambda>c. judge_rdap c (check_availability st c)) processed)"

definition processed_first :: "rdap_stage \<Rightarrow> candidate list \<Rightarrow> candidate list" where
  "processed_first st cs =
     until_abort (\<lambda>k. rd_aborted st (RdapBatch k)) 0 (chunks (rd_concurrency st) cs)"

definition rdap_process ::
  "rdap_stage \<Rightarrow> candidate list \<Rightarrow> (candidate, candidate) stage_result \<times> consensus_stats option" where
  "rdap_process st cs =
     (let result = (\<lambda>p f ds. \<lparr>passed = p, filtered = f, stageName = ''RdapConfirmationStage'',
                              degradations = ds\<rparr>)
      in if rd_aborted st RdapStart then (result [] [] [], None)
         else
           let (out, pass) = first_leg st (processed_first st cs)
           in case consensusConfig st of
                None \<Rightarrow> (result pass out [], None)
              | Some cfg \<Rightarrow>
                  if pass = [] then (result pass out [], None)
                  else let (remaining, dropped, s, ds) =
                             verifyConsensus st cfg (winning_origins st (processed_first st cs)) pass
                       in (result remaining (out @ dropped) ds, Some s))"

text \<open>
  The consensus configuration that \<open>createRdapConsensusConfig\<close> builds: one provider, which
  routes by TLD itself, under the wild card; the origins that could be resolved for its ten
  sample TLDs, under their own keys; and, when another endpoint than the default is
  configured, the legacy provider. The warnings about overlaps and the tertiary leg, which the
  stage never reads, are left out.
\<close>

record consensus_settings =
  RDAP_CONSENSUS_ENABLED :: bool
  RDAP_CONSENSUS_ENDPOINT :: string
  RDAP_CONSENSUS_DEGRADED_RATIO :: real
  RDAP_CONSENSUS_DEGRADED_MIN :: nat
  RDAP_CONSENSUS_BULK_CONCURRENCY :: nat
  RDAP_CONSENSUS_RESCUE_WHOIS_ENABLED :: bool
  RDAP_CONSENSUS_RESCUE_WHOIS_TLDS :: "string list"

definition buildPerTldSecondaryProviders ::
  "rdap_provider \<Rightarrow> (string \<Rightarrow> string option) \<Rightarrow> (string \<Rightarrow> rdap_provider option) \<times> (string \<Rightarrow> string option)"
where
  "buildPerTldSecondaryProviders perTld getOrigin =
     ([''*'' \<mapsto> perTld],
      \<lambda>key. if List.member (map ((@) ''.'')
          [''com'', ''net'', ''org'', ''io'', ''ai'', ''app'', ''dev'', ''co'', ''xyz'', ''online'']) key
        then getOrigin (''example'' @ key) else None)"

definition consensus_config_of ::
  "consensus_settings \<Rightarrow> rdap_provider \<Rightarrow> (string \<Rightarrow> string option) \<Rightarrow> (string \<Rightarrow> rdap_provider) \<Rightarrow>
   (string \<Rightarrow> string list option) option \<Rightarrow> consensus_config" where
  "consensus_config_of s perTld getOrigin fromUrl resolver =
     (let (providers, origins) = buildPerTldSecondaryProviders perTld getOrigin;
          endpoint = trim (RDAP_CONSENSUS_ENDPOINT s);
          legacy = (endpoint \<noteq> [] \<and> endpoint \<noteq> ''https://rdap.org/'')
      in \<lparr>secondaryProviders = providers, secondaryOrigins = origins,
          secondaryProvider = (if legacy then Some (fromUrl endpoint) else None),
          secondaryOrigin = (if legacy then Some endpoint else None),
          degradedRatio = Some (RDAP_CONSENSUS_DEGRADED_RATIO s),
          degradedMin = Some (RDAP_CONSENSUS_DEGRADED_MIN s),
          consensusConcurrency = Some (RDAP_CONSENSUS_BULK_CONCURRENCY s),
          rescueWhoisEnabled = RDAP_CONSENSUS_RESCUE_WHOIS_ENABLED s,
          rescueWhoisTlds = map to_lower (RDAP_CONSENSUS_RESCUE_WHOIS_TLDS s),
          tldOriginsResolver = resolver\<rparr>)"

definition createRdapConsensusConfig ::
  "consensus_settings \<Rightarrow> rdap_provider \<Rightarrow> (string \<Rightarrow> string option) \<Rightarrow> (string \<Rightarrow> rdap_provider) \<Rightarrow>
   (string \<Rightarrow> string list option) option \<Rightarrow> consensus_config option" where
  "createRdapConsensusConfig s perTld getOrigin fromUrl resolver =
     (if RDAP_CONSENSUS_ENABLED s then Some (consensus_config_of s perTld getOrigin fromUrl resolver) else None)"

section \<open>Lemmas\<close>

lemma until_abort_prefix: "\<exists>rest. concat bs = until_abort ab k bs @ rest"
  by (induction bs arbitrary: k) auto

lemma until_abort_all: "(\<And>k. \<not> ab k) \<Longrightarrow> until_abort ab k bs = concat bs"
  by (induction bs arbitrary: k) auto

lemma set_until_abort_chunks: "set (until_abort ab k (chunks n cs)) \<subseteq> set cs"
proof (cases n)
  case 0
  then show ?thesis by (cases cs) auto
next
  case (Suc m)
  then show ?thesis
    using until_abort_prefix [of "chunks n cs" ab k] concat_chunks [of n cs]
    by (metis append_is_Nil_conv set_append sup_ge1 zero_less_Suc)
qed

lemma with_consensus_fields [simp]:
  "c_domain (with_consensus st cfg w ps c) = c_domain c"
  "c_source (with_consensus st cfg w ps c) = c_source c"
  "c_tld (with_consensus st cfg w ps c) = c_tld c"
  "c_status (with_consensus st cfg w ps c) = c_status c"
  "rdapStatus (with_consensus st cfg w ps c) = rdapStatus c"
  "isPremium (with_consensus st cfg w ps c) = isPremium c"
  by (auto simp: with_consensus_def record_rdap_def split: option.split)

lemma judge_rdap_domain [simp]: "case_sum c_domain c_domain (judge_rdap c res) = c_domain c"
  by (auto simp: judge_rdap_def Let_def record_rdap_def split: option.split)

lemma judge_rdap_passes:
  "judge_rdap c res = Inr c' \<Longrightarrow>
     (\<exists>r. res = Some r \<and> av_status r = Available \<and> \<not> av_premium r)
     \<and> c_domain c' = c_domain c \<and> c_source c' = c_source c \<and> c_tld c' = c_tld c
     \<and> c_status c' = Pending \<and> rdapStatus c' = Some ''available'' \<and> \<not> isPremium c'"
  by (auto simp: judge_rdap_def Let_def record_rdap_def split: option.splits if_splits)

text \<open>What makes the first leg report a domain as available.\<close>

definition first_leg_free :: "rdap_stage \<Rightarrow> candidate \<Rightarrow> bool" where
  "first_leg_free st c =
     (let rdap = rdapProviderFor st c (c_domain c);
          whois = (case whoisProvider st of None \<Rightarrow> None | Some wp \<Rightarrow> wp (forceWhoisRecheck c) (c_domain c))
      in (rdap \<noteq> None \<or> whois \<noteq> None)
         \<and> (case rdap of None \<Rightarrow> True | Some r \<Rightarrow> ra_status r = Available \<and> \<not> ra_premium r)
         \<and> (case whois of None \<Rightarrow> True | Some w \<Rightarrow> wa_available w))"

lemma check_availability_free:
  assumes "check_availability st c = Some r" "av_status r = Available" "\<not> av_premium r"
  shows "first_leg_free st c"
  using assms
  by (auto simp: check_availability_def first_leg_free_def Let_def rdapToResult_def whoisToResult_def
      crossValidate_def split: option.splits if_splits)

lemma first_leg_passes:
  assumes "c' \<in> set (snd (first_leg st cs))"
  shows "\<exists>c \<in> set cs. first_leg_free st c \<and> c_domain c' = c_domain c \<and> c_source c' = c_source c
    \<and> c_tld c' = c_tld c \<and> c_status c' = Pending \<and> rdapStatus c' = Some ''available'' \<and> \<not> isPremium c'"
proof -
  obtain c where c: "c \<in> set cs" "judge_rdap c (check_availability st c) = Inr c'"
    using assms unfolding first_leg_def set_split_results by (metis (no_types, lifting) imageE list.set_map)
  from judge_rdap_passes [OF c(2)] check_availability_free c(1) show ?thesis by blast
qed

lemma first_leg_accounts:
  "mset (domains_of (fst (first_leg st cs))) + mset (domains_of (snd (first_leg st cs))) = mset (domains_of cs)"
proof -
  have "image_mset (case_sum c_domain c_domain) (mset (map (\<lambda>c. judge_rdap c (check_availability st c)) cs))
      = mset (domains_of cs)"
    by (induction cs) auto
  then show ?thesis by (simp only: first_leg_def split_results_domains)
qed

lemma verifyConsensus_accounts:
  assumes "verifyConsensus st cfg w cs = (remaining, dropped, s, ds)"
  shows "mset (domains_of remaining) + mset (domains_of dropped) = mset (domains_of cs)"
proof -
  let ?j = "\<lambda>ps. map (with_consensus st cfg w ps) cs"
  obtain ps Q where r: "remaining = filter Q (?j ps)"
    "domains_of dropped = domains_of (filter (\<lambda>c. \<not> Q c) (?j ps))"
    using assms by (auto simp: verifyConsensus_def Let_def comp_def)
  have "domains_of (?j ps) = domains_of cs" by simp
  then show ?thesis using mset_filter_split [of c_domain Q "?j ps"] by (simp only: r)
qed

lemma verifyConsensus_survivor:
  assumes "verifyConsensus st cfg w cs = (remaining, dropped, s, ds)" "c' \<in> set remaining"
  shows "\<exists>c \<in> set cs. \<exists>k \<in> set cs. c_domain c' = c_domain c \<and> c_source c' = c_source c \<and> c_tld c' = c_tld c
    \<and> c_status c' = c_status c \<and> rdapStatus c' = rdapStatus c \<and> isPremium c' = isPremium c
    \<and> c_domain k = c_domain c \<and> confirms (consensus_verdict st cfg w k)"
proof -
  let ?ps = "until_abort (\<lambda>k. rd_aborted st (RdapConsensusBatch k)) 0
    (chunks (with_default 10 (consensusConcurrency cfg)) cs)"
  obtain c where c: "c \<in> set cs" "c' = with_consensus st cfg w ?ps c"
    and "c_domain c' \<in> set (domains_of (filter (\<lambda>c. confirms (consensus_verdict st cfg w c)) ?ps))"
    using assms by (auto simp: verifyConsensus_def Let_def)
  then obtain k where "k \<in> set ?ps" "c_domain k = c_domain c" "confirms (consensus_verdict st cfg w k)"
    by auto
  moreover from this(1) have "k \<in> set cs" by (rule subsetD [OF set_until_abort_chunks])
  ultimately show ?thesis using c by (intro bexI [of _ c] bexI [of _ k]) auto
qed

text \<open>What a confirmation by the second leg rests on.\<close>

definition independently_confirmed ::
  "rdap_stage \<Rightarrow> consensus_config \<Rightarrow> (string \<Rightarrow> string option) \<Rightarrow> candidate \<Rightarrow> bool" where
  "independently_confirmed st cfg winners c =
     ((\<exists>p r. fst (second_leg cfg c) = Some p \<and> p (c_domain c) = Some r
         \<and> ra_status r = Available \<and> \<not> ra_premium r
         \<and> (case snd (second_leg cfg c) of None \<Rightarrow> True
            | Some u \<Rightarrow> \<not> hasWinningOriginOverlap (rdapUrlOrigin st) (winners (c_domain c)) u
                \<and> (case Option.bind (tldOriginsResolver cfg) (\<lambda>f. f (c_tld c)) of None \<Rightarrow> True
                   | Some os \<Rightarrow> \<not> hasAuthoritativeOriginOverlap (rdapUrlOrigin st) os u)))
      \<or> ((rescueWhoisEnabled cfg \<or> List.member (rescueWhoisTlds cfg) (to_lower (c_tld c)))
         \<and> tryWhoisRescue st c = Some True))"

lemma rescue_confirms:
  "confirms (rescue st cfg c) \<Longrightarrow>
     (rescueWhoisEnabled cfg \<or> List.member (rescueWhoisTlds cfg) (to_lower (c_tld c)))
     \<and> tryWhoisRescue st c = Some True"
  by (auto simp: rescue_def Let_def split: if_splits option.splits bool.splits)

lemma consult_answered:
  assumes "consult st cfg winners c = Answered (Some r)"
  shows "\<exists>p. fst (second_leg cfg c) = Some p \<and> p (c_domain c) = Some r
    \<and> (case snd (second_leg cfg c) of None \<Rightarrow> True
       | Some u \<Rightarrow> \<not> hasWinningOriginOverlap (rdapUrlOrigin st) (winners (c_domain c)) u
           \<and> (case Option.bind (tldOriginsResolver cfg) (\<lambda>f. f (c_tld c)) of None \<Rightarrow> True
              | Some os \<Rightarrow> \<not> hasAuthoritativeOriginOverlap (rdapUrlOrigin st) os u))"
  using assms
  by (cases "second_leg cfg c")
    (auto simp: consult_def Let_def split: option.splits if_splits)

lemma confirms_independent:
  assumes "confirms (consensus_verdict st cfg winners c)"
  shows "independently_confirmed st cfg winners c"
proof (cases "confirms (rescue st cfg c)")
  case True
  from rescue_confirms [OF this] show ?thesis by (simp add: independently_confirmed_def)
next
  case False
  then obtain r where r: "consult st cfg winners c = Answered (Some r)" "ra_status r = Available"
    "\<not> ra_premium r"
    using assms by (auto simp: consensus_verdict_def split: leg.splits option.splits if_splits)
  from consult_answered [OF r(1)] r(2,3) show ?thesis
    unfolding independently_confirmed_def by blast
qed

lemma rdap_passed:
  assumes "rdap_process st cs = (res, stats)" "c' \<in> set (passed res)"
  shows "\<exists>c \<in> set cs. first_leg_free st c \<and> c_domain c' = c_domain c \<and> c_source c' = c_source c
    \<and> c_tld c' = c_tld c \<and> c_status c' = Pending \<and> rdapStatus c' = Some ''available'' \<and> \<not> isPremium c'
    \<and> (case consensusConfig st of None \<Rightarrow> True
       | Some cfg \<Rightarrow> \<exists>k. c_domain k = c_domain c
           \<and> independently_confirmed st cfg (winning_origins st (processed_first st cs)) k)"
proof -
  have nab: "\<not> rd_aborted st RdapStart"
    using assms by (auto simp: rdap_process_def Let_def split: if_splits)
  obtain out pass where f: "first_leg st (processed_first st cs) = (out, pass)" by (cases "first_leg st (processed_first st cs)")
  have leg: "\<exists>c \<in> set cs. first_leg_free st c \<and> c_domain k = c_domain c \<and> c_source k = c_source c
    \<and> c_tld k = c_tld c \<and> c_status k = Pending \<and> rdapStatus k = Some ''available'' \<and> \<not> isPremium k"
    if "k \<in> set pass" for k
    using first_leg_passes [of k st "processed_first st cs"] that f
      subsetD [OF set_until_abort_chunks [of "\<lambda>k. rd_aborted st (RdapBatch k)" 0 "rd_concurrency st" cs]]
    unfolding processed_first_def by auto
  show ?thesis
  proof (cases "consensusConfig st")
    case None
    then have "c' \<in> set pass" using assms nab f by (auto simp: rdap_process_def Let_def)
    from leg [OF this] None show ?thesis by simp
  next
    case (Some cfg)
    let ?w = "winning_origins st (processed_first st cs)"
    obtain remaining dropped s ds where v: "verifyConsensus st cfg ?w pass = (remaining, dropped, s, ds)"
      by (cases "verifyConsensus st cfg ?w pass")
    have "c' \<in> set remaining"
      using assms nab f Some v by (auto simp: rdap_process_def Let_def split: if_splits)
    from verifyConsensus_survivor [OF v this] obtain c k where
      ck: "c \<in> set pass" "c_domain c' = c_domain c" "c_source c' = c_source c" "c_tld c' = c_tld c"
        "c_status c' = c_status c" "rdapStatus c' = rdapStatus c" "isPremium c' = isPremium c"
        "c_domain k = c_domain c" "confirms (consensus_verdict st cfg ?w k)" by blast
    from leg [OF ck(1)] obtain c0 where c0: "c0 \<in> set cs" "first_leg_free st c0" "c_domain c = c_domain c0"
      "c_source c = c_source c0" "c_tld c = c_tld c0" "c_status c = Pending"
      "rdapStatus c = Some ''available''" "\<not> isPremium c" by blast
    have "\<exists>k. c_domain k = c_domain c0 \<and> independently_confirmed st cfg ?w k"
      using confirms_independent [OF ck(9)] ck(8) c0(3) by auto
    then show ?thesis using c0 ck(2-7) Some by (intro bexI [of _ c0]) simp_all
  qed
qed

lemma mset_join:
  fixes r :: "'a multiset"
  assumes "r + d = p" "u + p = c"
  shows "r + (u + d) = c"
  using assms by (metis add.assoc add.commute)

lemma rdap_accounts:
  assumes "rdap_process st cs = (res, stats)" "0 < rd_concurrency st" "\<And>x. \<not> rd_aborted st x"
  shows "mset (domains_of (passed res)) + mset (domains_of (filtered res)) = mset (domains_of cs)"
proof -
  obtain out pass where f: "first_leg st cs = (out, pass)" by (cases "first_leg st cs")
  have p: "processed_first st cs = cs"
    using assms(2,3) by (simp add: processed_first_def until_abort_all concat_chunks)
  have fl: "mset (domains_of out) + mset (domains_of pass) = mset (domains_of cs)"
    using first_leg_accounts [of st cs] f by simp
  show ?thesis
  proof (cases "consensusConfig st = None \<or> pass = []")
    case True
    then show ?thesis
      using assms(1,3) f p fl by (auto simp: rdap_process_def Let_def add.commute split: option.splits)
  next
    case False
    then obtain cfg where cfg: "consensusConfig st = Some cfg" and ne: "pass \<noteq> []" by auto
    obtain remaining dropped s ds where
      v: "verifyConsensus st cfg (winning_origins st cs) pass = (remaining, dropped, s, ds)"
      by (cases "verifyConsensus st cfg (winning_origins st cs) pass")
    have "passed res = remaining" "filtered res = out @ dropped"
      using assms(1,3) f p cfg ne v by (auto simp: rdap_process_def Let_def)
    moreover have "mset (domains_of remaining) + mset (domains_of dropped) = mset (domains_of pass)"
      by (rule verifyConsensus_accounts [OF v])
    ultimately show ?thesis using fl mset_join by (metis mset_append map_append)
  qed
qed

lemma count_one_total:
  "s_verified (count_one st cfg w c s) + s_disagreed (count_one st cfg w c s) + s_unverifiable (count_one st cfg w c s)
   = s_verified s + s_disagreed s + s_unverifiable s + 1 + (if consult st cfg w c = GuardUnavailable then 1 else 0)"
  "s_originGuardUnavailable (count_one st cfg w c s)
   = s_originGuardUnavailable s + (if consult st cfg w c = GuardUnavailable then 1 else 0)"
  by (auto simp: count_one_def count_verdict_def split: consensus_outcome.split)

lemma fold_count_total:
  "(let s' = fold (count_one st cfg w) cs s
    in s_verified s' + s_disagreed s' + s_unverifiable s' + s_originGuardUnavailable s
       = s_verified s + s_disagreed s + s_unverifiable s + length cs + s_originGuardUnavailable s')"
proof (induction cs arbitrary: s)
  case (Cons c cs)
  show ?case using Cons [of "count_one st cfg w c s"] count_one_total [of st cfg w c s]
    by (simp add: Let_def)
qed simp

section \<open>Properties\<close>


definition free_answer :: rdap_answer where
  "free_answer = \<lparr>ra_status = Available, ra_premium = False, ra_registrar = None,
     ra_expiresAt = None, ra_sourceOrigin = Some ''https://registry''\<rparr>"

definition example_rdap :: rdap_stage where
  "example_rdap = \<lparr>rdapProvider = (\<lambda>d. if d = ''a.com'' then Some free_answer else None),
     freshRdapProvider = None, whoisProvider = None, whoisRescueProvider = None, rd_concurrency = 1,
     consensusConfig = None, rd_aborted = (\<lambda>_. False), rdapUrlOrigin = Some\<rparr>"

lemma example_rdap_passed:
  "domains_of (passed (fst (rdap_process example_rdap example_candidates))) = [''a.com'']"
  by (simp add: rdap_process_def example_rdap_def example_candidates_def Let_def first_leg_def
      processed_first_def judge_rdap_def check_availability_def rdapProviderFor_def rdapToResult_def
      free_answer_def record_rdap_def new_candidate_def)


text \<open>
  The rubber-stamp guard of the consensus is dead in the configuration that the program
  builds: whatever the origins are, no candidate is ever held back because the second leg is
  the server that gave the first answer or is authoritative for the TLD; the second leg is
  consulted for every candidate unless the resolver of the authoritative origins fails.
\<close>

theorem configured_guard_is_dead:
  "case createRdapConsensusConfig s perTld getOrigin fromUrl resolver of
     None \<Rightarrow> \<not> RDAP_CONSENSUS_ENABLED s
   | Some cfg \<Rightarrow> consult st cfg winners c =
       (if (\<exists>f. resolver = Some f \<and> f (c_tld c) = None) then GuardUnavailable
        else Answered (perTld (c_domain c)))"
  by (auto simp: createRdapConsensusConfig_def consensus_config_of_def buildPerTldSecondaryProviders_def
      consult_def second_leg_def tld_key_def Let_def split: option.split)

text \<open>
  The counters of the consensus: the domains counted as verified, disagreed or
  unverifiable are the processed candidates, but every candidate whose origin guard could
  not decide is counted once more as unverifiable, before its actual verdict.
\<close>

theorem consensus_counts_guard_failures_twice:
  "(let s = fold (count_one st cfg winners) cs no_stats
    in s_verified s + s_disagreed s + s_unverifiable s = length cs + s_originGuardUnavailable s
       \<and> s_originGuardUnavailable s = length (filter (\<lambda>c. consult st cfg winners c = GuardUnavailable) cs))"
proof -
  have "s_originGuardUnavailable (fold (count_one st cfg winners) cs s)
      = s_originGuardUnavailable s + length (filter (\<lambda>c. consult st cfg winners c = GuardUnavailable) cs)" for s
    by (induction cs arbitrary: s) (auto simp: count_one_total)
  then show ?thesis
    using fold_count_total [of st cfg winners cs no_stats] by (simp add: Let_def no_stats_def)
qed

end
