(* ===== verification/FinalStages.thy ===== *)
theory FinalStages
  imports RdapStage Engine TrademarkGate
begin

text \<open>
  The last two stages: scoring (\<open>src/pipeline/stages/scoring-stage.ts\<close>) and the trademark gate
  (\<open>trademark-gate-stage.ts\<close>). The scoring engine and the gate are parameters here; the root
  theory puts the engine and the gate of this development in their place. The candidates of
  a batch are worked on concurrently but settle in their own positions.
\<close>

section \<open>Scoring\<close>

record scored_candidate = candidate +
  scoreResult :: "score_result option"

text \<open>The places where the abort signal is read.\<close>

datatype score_point = ScoreStart | ScoreBatch nat | ScoreWayback string

text \<open>Wayback data: the age of the domain in years and the number of snapshots.\<close>

record scoring_stage =
  score_call :: "scoring_input \<Rightarrow> score_result option"
  sc_concurrency :: nat
  waybackProvider :: "(string \<Rightarrow> (real \<times> real) option) option"
  sc_aborted :: "score_point \<Rightarrow> bool"

definition no_closeout :: closeout_meta where
  "no_closeout = \<lparr>m_domainAge = None, m_backlinks = None, m_waybackSnapshots = None\<rparr>"

definition hasExpiryData :: "candidate \<Rightarrow> bool" where
  "hasExpiryData c =
     (let m = with_default no_closeout (closeoutMeta c)
      in m_domainAge m \<noteq> None \<or> m_backlinks m \<noteq> None \<or> m_waybackSnapshots m \<noteq> None
         \<or> Option.bind (whoisMeta c) w_domainAge \<noteq> None)"

definition enrich :: "scoring_stage \<Rightarrow> candidate \<Rightarrow> candidate" where
  "enrich st c =
     (case waybackProvider st of
        None \<Rightarrow> c
      | Some wp \<Rightarrow>
          if sc_aborted st (ScoreWayback (c_domain c)) \<or> hasExpiryData c then c
          else case wp (c_domain c) of
            None \<Rightarrow> c
          | Some (age, snapshots) \<Rightarrow>
              (if age > 0 \<or> snapshots > 0
               then c\<lparr>closeoutMeta := Some ((with_default no_closeout (closeoutMeta c))
                        \<lparr>m_domainAge := Some age, m_waybackSnapshots := Some snapshots\<rparr>)\<rparr>
               else c))"

definition input_of :: "candidate \<Rightarrow> scoring_input" where
  "input_of c = \<lparr>in_domain = c_domain c, in_tld = None, in_sld = None,
     isCloseout = of_closeout c,
     domainAge = or_keep (Option.bind (closeoutMeta c) m_domainAge) (Option.bind (whoisMeta c) w_domainAge),
     backlinks = Option.bind (closeoutMeta c) m_backlinks,
     waybackSnapshots = Option.bind (closeoutMeta c) m_waybackSnapshots,
     registrar = Option.bind (whoisMeta c) w_registrar, renewalCost = None\<rparr>"

definition with_score :: "candidate_status \<Rightarrow> score_result option \<Rightarrow> candidate \<Rightarrow> scored_candidate" where
  "with_score s r c = candidate.extend (c\<lparr>c_status := s\<rparr>) (scored_candidate.fields r)"

text \<open>A candidate whose scoring throws is filtered out unscored.\<close>

definition judge_score :: "scoring_stage \<Rightarrow> candidate \<Rightarrow> scored_candidate + scored_candidate" where
  "judge_score st c =
     (let k = enrich st c
      in case score_call st (input_of k) of
           None \<Rightarrow> Inl (with_score Unscored None k)
         | Some r \<Rightarrow>
             (if recommended r then Inr (with_score Recommended (Some r) k)
              else Inl (with_score Scored (Some r) k)))"

definition commercial_unavailable :: "score_result \<Rightarrow> bool" where
  "commercial_unavailable r =
     (case find (\<lambda>s. st_name s = ''commercial'') (signalStatus r) of
        None \<Rightarrow> False | Some s \<Rightarrow> \<not> st_available s)"

definition scoring_process ::
  "scoring_stage \<Rightarrow> candidate list \<Rightarrow> (scored_candidate, scored_candidate) stage_result" where
  "scoring_process st cs =
     (if sc_aborted st ScoreStart
      then \<lparr>passed = [], filtered = [], stageName = ''ScoringStage'', degradations = []\<rparr>
      else
        let todo = until_abort (\<lambda>k. sc_aborted st (ScoreBatch k)) 0 (chunks (sc_concurrency st) cs);
            (out, pass) = split_results (map (judge_score st) todo);
            results = List.map_filter (\<lambda>c. score_call st (input_of (enrich st c))) todo;
            scored = length results;
            missing = length (filter commercial_unavailable results)
        in \<lparr>passed = pass, filtered = out, stageName = ''ScoringStage'',
            degradations = (if scored > 0 \<and> real missing / real scored > 1 / 2
              then [\<lparr>d_stage = ''ScoringStage'', d_reason = CommercialSignalUnavailable,
                     d_processed = scored - missing, d_expected = scored\<rparr>] else [])\<rparr>)"

section \<open>The trademark gate\<close>

datatype tm_point = TmStart | TmBatch nat

record tm_stage =
  gate_check :: "string \<Rightarrow> gate_error + gate_result"
  tm_concurrency :: nat
  tm_aborted :: "tm_point \<Rightarrow> bool"

definition judge_tm :: "tm_stage \<Rightarrow> 'a candidate_scheme \<Rightarrow> 'a candidate_scheme + 'a candidate_scheme" where
  "judge_tm st c =
     (case gate_check st (c_domain c) of
        Inl _ \<Rightarrow> Inl (c\<lparr>c_status := Unscored\<rparr>)
      | Inr g \<Rightarrow>
          (case g_verdict g of
             Blocked \<Rightarrow> Inl (c\<lparr>c_status := TrademarkBlocked\<rparr>)
           | Unverified \<Rightarrow> Inl (c\<lparr>c_status := Unscored\<rparr>)
           | Clear \<Rightarrow> Inr c))"

definition tm_process ::
  "tm_stage \<Rightarrow> 'a candidate_scheme list \<Rightarrow> ('a candidate_scheme, 'a candidate_scheme) stage_result" where
  "tm_process st cs =
     (if tm_aborted st TmStart
      then \<lparr>passed = [], filtered = [], stageName = ''TrademarkGateStage'', degradations = []\<rparr>
      else
        let (out, pass) = split_results (map (judge_tm st)
              (until_abort (\<lambda>k. tm_aborted st (TmBatch k)) 0 (chunks (tm_concurrency st) cs)))
        in \<lparr>passed = pass, filtered = out, stageName = ''TrademarkGateStage'', degradations = []\<rparr>)"

section \<open>Lemmas\<close>

lemma enrich_fields [simp]:
  "c_domain (enrich st c) = c_domain c" "c_source (enrich st c) = c_source c"
  "c_tld (enrich st c) = c_tld c" "rdapStatus (enrich st c) = rdapStatus c"
  by (auto simp: enrich_def split: option.split)

lemma with_score_fields [simp]:
  "c_domain (with_score s r c) = c_domain c" "c_source (with_score s r c) = c_source c"
  "c_tld (with_score s r c) = c_tld c" "c_status (with_score s r c) = s"
  "rdapStatus (with_score s r c) = rdapStatus c" "scoreResult (with_score s r c) = r"
  by (simp_all add: with_score_def candidate.defs scored_candidate.defs)

lemma judge_score_domain [simp]: "case_sum c_domain c_domain (judge_score st c) = c_domain c"
  by (auto simp: judge_score_def Let_def split: option.split)

lemma judge_tm_domain [simp]: "case_sum c_domain c_domain (judge_tm st c) = c_domain c"
  by (auto simp: judge_tm_def split: sum.split verdict.split)

lemma judge_score_passes:
  "judge_score st c = Inr c' \<Longrightarrow>
     \<exists>r. score_call st (input_of (enrich st c)) = Some r \<and> recommended r
       \<and> c' = with_score Recommended (Some r) (enrich st c)"
  by (auto simp: judge_score_def Let_def split: option.splits if_splits)

lemma judge_tm_passes:
  "judge_tm st c = Inr c' \<Longrightarrow> c' = c \<and> (\<exists>g. gate_check st (c_domain c) = Inr g \<and> g_verdict g = Clear)"
  by (auto simp: judge_tm_def split: sum.splits verdict.splits)

lemma scoring_passed:
  assumes "c' \<in> set (passed (scoring_process st cs))"
  shows "\<exists>c \<in> set cs. \<exists>r. score_call st (input_of (enrich st c)) = Some r \<and> recommended r
    \<and> c' = with_score Recommended (Some r) (enrich st c)"
proof -
  let ?todo = "until_abort (\<lambda>k. sc_aborted st (ScoreBatch k)) 0 (chunks (sc_concurrency st) cs)"
  obtain c where c: "c \<in> set ?todo" "judge_score st c = Inr c'"
    using assms by (auto simp: scoring_process_def Let_def case_prod_beta split: if_splits)
  have "c \<in> set cs" using c(1) by (rule subsetD [OF set_until_abort_chunks])
  with judge_score_passes [OF c(2)] show ?thesis by blast
qed

lemma tm_passed:
  assumes "c' \<in> set (passed (tm_process st cs))"
  shows "c' \<in> set cs \<and> (\<exists>g. gate_check st (c_domain c') = Inr g \<and> g_verdict g = Clear)"
proof -
  let ?todo = "until_abort (\<lambda>k. tm_aborted st (TmBatch k)) 0 (chunks (tm_concurrency st) cs)"
  obtain c where c: "c \<in> set ?todo" "judge_tm st c = Inr c'"
    using assms by (auto simp: tm_process_def Let_def case_prod_beta split: if_splits)
  have "c \<in> set cs" using c(1) by (rule subsetD [OF set_until_abort_chunks])
  with judge_tm_passes [OF c(2)] show ?thesis by blast
qed

lemma judged_accounts:
  assumes "\<And>c. case_sum c_domain c_domain (f c) = c_domain c"
  shows "mset (domains_of (fst (split_results (map f cs)))) + mset (domains_of (snd (split_results (map f cs))))
    = mset (domains_of cs)"
proof -
  have "image_mset (case_sum c_domain c_domain) (mset (map f cs)) = mset (domains_of cs)"
    using assms by (induction cs) auto
  then show ?thesis by (simp only: split_results_domains)
qed

lemma scoring_accounts:
  assumes "0 < sc_concurrency st" "\<And>x. \<not> sc_aborted st x"
  shows "mset (domains_of (passed (scoring_process st cs))) + mset (domains_of (filtered (scoring_process st cs)))
    = mset (domains_of cs)"
  using judged_accounts [of "judge_score st" cs] assms
  by (simp add: scoring_process_def Let_def case_prod_beta until_abort_all concat_chunks add.commute)

lemma tm_accounts:
  assumes "0 < tm_concurrency st" "\<And>x. \<not> tm_aborted st x"
  shows "mset (domains_of (passed (tm_process st cs))) + mset (domains_of (filtered (tm_process st cs)))
    = mset (domains_of cs)"
  using judged_accounts [of "judge_tm st" cs] assms
  by (simp add: tm_process_def Let_def case_prod_beta until_abort_all concat_chunks add.commute)

end
