(* ===== verification/Checkpoints.thy ===== *)
theory Checkpoints
  imports Candidates
begin

text \<open>
  The checkpoints of a run: \<open>src/pipeline/checkpoint-store.ts\<close> and
  \<open>src/pipeline/db-checkpoint-store.ts\<close>. The table is the list of its rows in the order of
  their ids; the JSON encoding of the candidates is transparent, so the validation of what
  was decoded has nothing to drop. \<open>'a\<close> is the type of the stored candidates.
\<close>

section \<open>The table\<close>

definition CHECKPOINT_FORMAT_VERSION :: nat where
  "CHECKPOINT_FORMAT_VERSION = 1"

definition CHECKPOINT_MAX_AGE_MS :: int where
  "CHECKPOINT_MAX_AGE_MS = 24 * 60 * 60 * 1000"

record 'a checkpoint_row =
  cr_run :: string
  cr_stage :: string
  cr_passed :: "'a list"
  cr_filtered :: "'a list"
  cr_version :: nat
  cr_createdAt :: ms

type_synonym 'a checkpoints = "'a checkpoint_row list"

record 'a stage_checkpoint =
  sc_passed :: "'a list"
  sc_filtered :: "'a list"

record 'a checkpoint_data =
  lastCompletedStage :: string
  allStageResults :: "string \<Rightarrow> 'a stage_checkpoint option"

section \<open>Operations\<close>

definition is_row :: "string \<Rightarrow> string \<Rightarrow> 'a checkpoint_row \<Rightarrow> bool" where
  "is_row run stage r = (cr_run r = run \<and> cr_stage r = stage)"

text \<open>An upsert: a row that exists keeps its place.\<close>

definition save_checkpoint ::
  "ms \<Rightarrow> string \<Rightarrow> string \<Rightarrow> 'a list \<Rightarrow> 'a list \<Rightarrow> 'a checkpoints \<Rightarrow> 'a checkpoints" where
  "save_checkpoint now run stage p f t =
     (let new = \<lparr>cr_run = run, cr_stage = stage, cr_passed = p, cr_filtered = f,
                 cr_version = CHECKPOINT_FORMAT_VERSION, cr_createdAt = now\<rparr>
      in if list_ex (is_row run stage) t then map (\<lambda>r. if is_row run stage r then new else r) t
         else t @ [new])"

definition rows_of :: "string \<Rightarrow> 'a checkpoints \<Rightarrow> 'a checkpoint_row list" where
  "rows_of run t = filter (\<lambda>r. cr_run r = run) t"

definition hasCheckpoint :: "string \<Rightarrow> 'a checkpoints \<Rightarrow> bool" where
  "hasCheckpoint run t = (rows_of run t \<noteq> [])"

text \<open>A later row of a stage would overwrite an earlier one.\<close>

definition stage_results :: "'a checkpoint_row list \<Rightarrow> string \<Rightarrow> 'a stage_checkpoint option" where
  "stage_results rs =
     map_of (rev (map (\<lambda>r. (cr_stage r, \<lparr>sc_passed = cr_passed r, sc_filtered = cr_filtered r\<rparr>)) rs))"

definition load_checkpoint :: "ms \<Rightarrow> string \<Rightarrow> 'a checkpoints \<Rightarrow> 'a checkpoint_data option" where
  "load_checkpoint now run t =
     (let rs = rows_of run t
      in if rs = [] then None
         else if list_ex (\<lambda>r. cr_version r \<noteq> CHECKPOINT_FORMAT_VERSION) rs then None
         else if now - cr_createdAt (last rs) > CHECKPOINT_MAX_AGE_MS then None
         else Some \<lparr>lastCompletedStage = cr_stage (last rs), allStageResults = stage_results rs\<rparr>)"

definition getLastCompletedStage :: "string \<Rightarrow> 'a checkpoints \<Rightarrow> string option" where
  "getLastCompletedStage run t =
     (let rs = rows_of run t in if rs = [] then None else Some (cr_stage (last rs)))"

definition clear_checkpoints :: "string \<Rightarrow> 'a checkpoints \<Rightarrow> 'a checkpoints" where
  "clear_checkpoints run t = filter (\<lambda>r. cr_run r \<noteq> run) t"

definition STAGES :: "string list" where
  "STAGES = [''CandidateGenerationStage'', ''DnsPreFilterStage'', ''RdapConfirmationStage'',
     ''ScoringStage'', ''TrademarkGateStage'']"

text \<open>The first index of an element, as \<open>indexOf\<close>.\<close>

fun index_of :: "'a list \<Rightarrow> 'a \<Rightarrow> nat option" where
  "index_of [] y = None"
| "index_of (x # xs) y = (if x = y then Some 0 else map_option Suc (index_of xs y))"

definition getResumeIndex :: "string \<Rightarrow> nat" where
  "getResumeIndex stage = (case index_of STAGES stage of None \<Rightarrow> 0 | Some i \<Rightarrow> i + 1)"

section \<open>Lemmas\<close>

text \<open>The table has at most one row per run and stage, as its unique constraint says.\<close>

definition unique_rows :: "'a checkpoints \<Rightarrow> bool" where
  "unique_rows t = distinct (map (\<lambda>r. (cr_run r, cr_stage r)) t)"

lemma replaced_keys:
  assumes "cr_run n = run" "cr_stage n = stage"
  shows "map (\<lambda>r. (cr_run r, cr_stage r)) (map (\<lambda>r. if is_row run stage r then n else r) t)
    = map (\<lambda>r. (cr_run r, cr_stage r)) t"
  using assms by (induction t) (auto simp: is_row_def)

lemma unique_rows_save:
  assumes "unique_rows t"
  shows "unique_rows (save_checkpoint now run stage p f t)"
proof (cases "list_ex (is_row run stage) t")
  case True
  then show ?thesis
    using assms by (simp only: unique_rows_def save_checkpoint_def Let_def if_True replaced_keys
        checkpoint_row.simps)
next
  case False
  then show ?thesis
    using assms by (auto simp: unique_rows_def save_checkpoint_def Let_def list_ex_iff is_row_def)
qed

lemma unique_rows_clear: "unique_rows t \<Longrightarrow> unique_rows (clear_checkpoints run t)"
  by (induction t) (auto simp: unique_rows_def clear_checkpoints_def)

lemma stage_results_unique:
  assumes "distinct (map cr_stage rs)" "r \<in> set rs"
  shows "stage_results rs (cr_stage r) = Some \<lparr>sc_passed = cr_passed r, sc_filtered = cr_filtered r\<rparr>"
  unfolding stage_results_def
proof (rule map_of_is_SomeI)
  have "map fst (map (\<lambda>r. (cr_stage r, \<lparr>sc_passed = cr_passed r, sc_filtered = cr_filtered r\<rparr>)) rs) = map cr_stage rs"
    by simp
  then show "distinct (map fst (rev (map (\<lambda>r. (cr_stage r, \<lparr>sc_passed = cr_passed r, sc_filtered = cr_filtered r\<rparr>)) rs)))"
    using assms(1) by (simp only: rev_map [symmetric] distinct_rev)
qed (use assms(2) in auto)

lemma rows_unique: "unique_rows t \<Longrightarrow> distinct (map cr_stage (rows_of run t))"
  by (induction t) (auto simp: unique_rows_def rows_of_def image_iff)

lemma saved_row:
  "\<exists>r \<in> set (rows_of run (save_checkpoint now run stage p f t)).
     cr_stage r = stage \<and> cr_passed r = p \<and> cr_filtered r = f"
  by (auto simp: save_checkpoint_def rows_of_def is_row_def list_ex_iff Let_def)

lemma rows_of_other:
  "run' \<noteq> run \<Longrightarrow> rows_of run' (save_checkpoint now run stage p f t) = rows_of run' t"
  "run' \<noteq> run \<Longrightarrow> rows_of run' (clear_checkpoints run t) = rows_of run' t"
proof -
  assume n: "run' \<noteq> run"
  have "filter (\<lambda>r. cr_run r = run') (map (\<lambda>r. if is_row run stage r then k else r) t)
      = filter (\<lambda>r. cr_run r = run') t" if "cr_run k = run" for k :: "'a checkpoint_row"
    using that n by (induction t) (auto simp: is_row_def)
  then show "rows_of run' (save_checkpoint now run stage p f t) = rows_of run' t"
    using n by (simp add: rows_of_def save_checkpoint_def Let_def)
  show "rows_of run' (clear_checkpoints run t) = rows_of run' t"
    using n by (induction t) (auto simp: rows_of_def clear_checkpoints_def)
qed

definition usable :: "ms \<Rightarrow> 'a checkpoint_row \<Rightarrow> bool" where
  "usable u r = (cr_version r = CHECKPOINT_FORMAT_VERSION \<and> u - cr_createdAt r \<le> CHECKPOINT_MAX_AGE_MS)"

lemma saved_rows:
  assumes "r \<in> set (rows_of run (save_checkpoint now run stage p f t))"
  shows "r \<in> set (rows_of run t)
    \<or> cr_stage r = stage \<and> cr_createdAt r = now \<and> cr_version r = CHECKPOINT_FORMAT_VERSION"
proof -
  let ?n = "\<lparr>cr_run = run, cr_stage = stage, cr_passed = p, cr_filtered = f,
    cr_version = CHECKPOINT_FORMAT_VERSION, cr_createdAt = now\<rparr>"
  from assms have "r \<in> set (rows_of run t) \<or> r = ?n"
    by (auto simp: rows_of_def save_checkpoint_def Let_def split: if_splits)
  moreover have "cr_stage ?n = stage \<and> cr_createdAt ?n = now \<and> cr_version ?n = CHECKPOINT_FORMAT_VERSION"
    by simp
  ultimately show ?thesis by metis
qed

lemma usable_save:
  assumes "\<forall>r \<in> set (rows_of run t). usable u r" "u - now \<le> CHECKPOINT_MAX_AGE_MS"
  shows "\<forall>r \<in> set (rows_of run (save_checkpoint now run stage p f t)). usable u r"
  using assms saved_rows [of _ run now stage p f t] by (fastforce simp: usable_def)

section \<open>Properties\<close>

text \<open>
  C33. Checkpoints round-trip: after a stage of a run has been saved, loading the run while its
  rows are of the current format and not older than a day succeeds and gives back exactly
  what was saved for the stage; the other runs load as before; and after a run has been
  cleared nothing of it is left.
\<close>

theorem checkpoint_roundtrip:
  assumes "unique_rows t" "\<forall>r \<in> set (rows_of run t). usable u r" "u - now \<le> CHECKPOINT_MAX_AGE_MS"
  shows "(\<exists>d. load_checkpoint u run (save_checkpoint now run stage p f t) = Some d
        \<and> allStageResults d stage = Some \<lparr>sc_passed = p, sc_filtered = f\<rparr>)
    \<and> (run' \<noteq> run \<longrightarrow> load_checkpoint u run' (save_checkpoint now run stage p f t) = load_checkpoint u run' t)
    \<and> (run' \<noteq> run \<longrightarrow> load_checkpoint u run' (clear_checkpoints run t) = load_checkpoint u run' t)
    \<and> load_checkpoint u run (clear_checkpoints run t) = None"
proof -
  let ?t = "save_checkpoint now run stage p f t"
  obtain r where r: "r \<in> set (rows_of run ?t)" "cr_stage r = stage" "cr_passed r = p" "cr_filtered r = f"
    using saved_row [of run now stage p f t] by blast
  have "\<forall>k \<in> set (rows_of run ?t). usable u k" by (rule usable_save [OF assms(2,3)])
  moreover have "last (rows_of run ?t) \<in> set (rows_of run ?t)" using r(1) by (cases "rows_of run ?t") auto
  ultimately have "load_checkpoint u run ?t
      = Some \<lparr>lastCompletedStage = cr_stage (last (rows_of run ?t)), allStageResults = stage_results (rows_of run ?t)\<rparr>"
    using r(1) by (auto simp: load_checkpoint_def Let_def usable_def list_ex_iff)
  moreover have "stage_results (rows_of run ?t) stage = Some \<lparr>sc_passed = p, sc_filtered = f\<rparr>"
    using stage_results_unique [OF rows_unique [OF unique_rows_save [OF assms(1)]] r(1)] r by simp
  moreover have "rows_of run (clear_checkpoints run t) = []"
    by (simp add: rows_of_def clear_checkpoints_def)
  ultimately show ?thesis
    by (auto simp: load_checkpoint_def rows_of_other)
qed

theorem checkpoint_roundtrip_witness:
  "\<exists>d. load_checkpoint 5 ''r'' (save_checkpoint 0 ''r'' ''s'' [1::nat] [2] []) = Some d
     \<and> allStageResults d ''s'' = Some \<lparr>sc_passed = [1], sc_filtered = [2]\<rparr>"
  using checkpoint_roundtrip [of "[]" "''r''" 5 0 "''s''" "[1::nat]" "[2]"]
  by (simp add: unique_rows_def rows_of_def CHECKPOINT_MAX_AGE_MS_def)

end
