(* ===== verification/Orchestrator.thy ===== *)
theory Orchestrator
  imports FinalStages Checkpoints
begin

text \<open>
  The pipeline orchestrator: \<open>src/pipeline/orchestrator.ts\<close>. A run generates candidates and
  takes them through the DNS, RDAP, scoring and trademark stages, each under a budget with a
  grace period, with retries and with checkpoints. The stages are those of the development;
  what they observe and how long they take may differ from attempt to attempt and is a
  parameter, as is what the clock and the abort signal say where the orchestrator reads them.
  Metrics, progress callbacks, logs, durations and the SQLite busy timeouts are left out. The
  locks of the stages are the subject of the theory on stage locks; here a lock is
  available or not.
\<close>

section \<open>Budgets and retries of one stage\<close>

record budget_options =
  baseMs :: "int option"
  perCandidateMs :: "int option"
  capMs :: "int option"
  graceMs :: "int option"

definition STAGE_BUDGET_DEFAULT_GRACE_MS :: int where
  "STAGE_BUDGET_DEFAULT_GRACE_MS = 15000"

definition computeStageBudgetMs :: "nat \<Rightarrow> budget_options \<Rightarrow> int" where
  "computeStageBudgetMs n opts =
     (let base = with_default 30000 (baseMs opts);
          per = with_default 200 (perCandidateMs opts);
          cap = with_default 3600000 (capMs opts)
      in min (base + int n * per) cap)"

definition STAGE_RETRY_MAX :: nat where
  "STAGE_RETRY_MAX = 3"

definition TRANSIENT_ERROR_PATTERNS :: "string list" where
  "TRANSIENT_ERROR_PATTERNS = [''ECONNRESET'', ''ETIMEDOUT'', ''EAI_AGAIN'', ''ECONNREFUSED'',
     ''ENOTFOUND'', ''SQLITE_BUSY'', ''RATE_LIMITED'', ''TIMEOUT'', ''429'', ''503'']"

definition is_transient :: "string \<Rightarrow> bool" where
  "is_transient msg = list_ex (str_includes msg) TRANSIENT_ERROR_PATTERNS"

text \<open>A rejection of a stage; the provider is that of a \<open>ProviderError\<close>.\<close>

record stage_failure =
  f_message :: string
  f_isAbort :: bool
  f_provider :: "string option"

datatype stage_exception = BudgetExceeded nat | Failure stage_failure

text \<open>A promise: it settles after some time, or never.\<close>

datatype 'r promise = Settles ms "stage_failure + 'r" | Hangs

record orchestrator =
  timeoutMs :: int
  stageBudget :: budget_options
  show_number :: "int \<Rightarrow> string"

definition timeout_failure :: "orchestrator \<Rightarrow> ms \<Rightarrow> stage_failure" where
  "timeout_failure cfg elapsed = \<lparr>f_message = ''Pipeline aborted after '' @ show_number cfg elapsed
     @ ''ms (timeout: '' @ show_number cfg (timeoutMs cfg) @ ''ms)'', f_isAbort = False, f_provider = None\<rparr>"

definition deadline_passed :: "orchestrator \<Rightarrow> ms \<Rightarrow> bool" where
  "deadline_passed cfg elapsed = (timeoutMs cfg > 0 \<and> elapsed \<ge> timeoutMs cfg)"

text \<open>The time after which the stage's own signal is aborted; none without time limits.\<close>

definition effective_timeout :: "orchestrator \<Rightarrow> nat \<Rightarrow> ms \<Rightarrow> ms option" where
  "effective_timeout cfg n elapsed =
     (let budget = computeStageBudgetMs n (stageBudget cfg);
          limits = (if timeoutMs cfg > 0 then [timeoutMs cfg - elapsed] else [])
                   @ (if budget > 0 then [budget] else [])
      in case limits of [] \<Rightarrow> None
         | l # ls \<Rightarrow> (let t = fold min ls l in if t \<le> 0 then None else Some t))"

text \<open>
  A stage that is given the time of its abort. The result carries whether the budget had
  been hit. \<open>None\<close>: the call never returns, which needs a stage that hangs without limits.
\<close>

definition runStageTimed ::
  "orchestrator \<Rightarrow> nat \<Rightarrow> ms \<Rightarrow> (ms option \<Rightarrow> 'r promise) \<Rightarrow> (stage_exception + 'r \<times> bool) option" where
  "runStageTimed cfg n elapsed fn =
     (if deadline_passed cfg elapsed then Some (Inl (Failure (timeout_failure cfg elapsed)))
      else case effective_timeout cfg n elapsed of
        None \<Rightarrow>
          (case fn None of
             Hangs \<Rightarrow> None
           | Settles _ (Inl f) \<Rightarrow> Some (Inl (Failure f))
           | Settles _ (Inr r) \<Rightarrow> Some (Inr (r, False)))
      | Some t \<Rightarrow>
          let grace = with_default STAGE_BUDGET_DEFAULT_GRACE_MS (graceMs (stageBudget cfg))
          in case fn (Some t) of
               Hangs \<Rightarrow> Some (Inl (BudgetExceeded n))
             | Settles d res \<Rightarrow>
                 (if d \<ge> t + grace then Some (Inl (BudgetExceeded n))
                  else case res of
                    Inr r \<Rightarrow> Some (Inr (r, d \<ge> t))
                  | Inl f \<Rightarrow> (if d \<ge> t \<and> f_isAbort f then Some (Inl (BudgetExceeded n))
                             else Some (Inl (Failure f)))))"

record stage_error =
  se_stage :: string
  se_message :: string
  se_transient :: bool
  se_provider :: "string option"

text \<open>What a run accumulates.\<close>

record account =
  stageSummary :: "string \<Rightarrow> (nat \<times> nat) option"
  stageErrors :: "stage_error list"
  runDegradations :: "degradation list"

text \<open>What a stage does in its attempts, and what the orchestrator observes around them.\<close>

record 'r stage_env =
  attempt :: "nat \<Rightarrow> ms option \<Rightarrow> 'r promise"
  elapsed_at :: "nat \<Rightarrow> ms"
  signal_aborted :: "nat \<Rightarrow> bool"

datatype 'r safe_result = Unsettled | Null | Result 'r

definition empty_result :: "string \<Rightarrow> ('a, 'b) stage_result" where
  "empty_result label = \<lparr>passed = [], filtered = [], stageName = label, degradations = []\<rparr>"

definition note_result ::
  "string \<Rightarrow> nat \<Rightarrow> bool \<Rightarrow> ('a, 'b) stage_result \<Rightarrow> account \<Rightarrow> account" where
  "note_result label n timedOut r acc =
     acc\<lparr>stageSummary := (stageSummary acc)(stageName r \<mapsto> (length (passed r), length (filtered r))),
         runDegradations := runDegradations acc
           @ (if timedOut then [\<lparr>d_stage = label, d_reason = TimedOut,
                                 d_processed = length (passed r) + length (filtered r), d_expected = n\<rparr>]
              else [])
           @ degradations r\<rparr>"

definition note_empty :: "string \<Rightarrow> degradation_reason \<Rightarrow> nat \<Rightarrow> account \<Rightarrow> account" where
  "note_empty label why n acc =
     acc\<lparr>stageSummary := (stageSummary acc)(label \<mapsto> (0, 0)),
         runDegradations := runDegradations acc
           @ [\<lparr>d_stage = label, d_reason = why, d_processed = 0, d_expected = n\<rparr>]\<rparr>"

fun stage_attempts ::
  "orchestrator \<Rightarrow> string \<Rightarrow> nat \<Rightarrow> ('a, 'b) stage_result stage_env \<Rightarrow> nat \<Rightarrow> nat \<Rightarrow> account \<Rightarrow>
   ('a, 'b) stage_result safe_result \<times> account" where
  "stage_attempts cfg label n env 0 k acc = (Null, acc)"
| "stage_attempts cfg label n env (Suc fuel) k acc =
     (case runStageTimed cfg n (elapsed_at env k) (attempt env k) of
        None \<Rightarrow> (Unsettled, acc)
      | Some (Inr (r, timedOut)) \<Rightarrow> (Result r, note_result label n timedOut r acc)
      | Some (Inl (BudgetExceeded m)) \<Rightarrow> (Result (empty_result label), note_empty label TimedOut m acc)
      | Some (Inl (Failure f)) \<Rightarrow>
          (if \<not> is_transient (f_message f) \<or> k \<ge> STAGE_RETRY_MAX \<or> signal_aborted env k
              \<or> deadline_passed cfg (elapsed_at env k)
           then (Result (empty_result label),
                 (note_empty label StageFailed n acc)\<lparr>stageErrors := stageErrors acc
                   @ [\<lparr>se_stage = label, se_message = f_message f,
                       se_transient = is_transient (f_message f), se_provider = f_provider f\<rparr>]\<rparr>)
           else stage_attempts cfg label n env fuel (Suc k) acc))"

definition runStageSafe ::
  "orchestrator \<Rightarrow> string \<Rightarrow> nat \<Rightarrow> ('a, 'b) stage_result stage_env \<Rightarrow> account \<Rightarrow>
   ('a, 'b) stage_result safe_result \<times> account" where
  "runStageSafe cfg label n env acc = stage_attempts cfg label n env STAGE_RETRY_MAX 1 acc"

text \<open>A stage that a checkpoint covers is restored from it, else it is run.\<close>

definition runStageWithCheckpoint ::
  "orchestrator \<Rightarrow> nat \<Rightarrow> string \<Rightarrow> nat \<Rightarrow> ('a list \<times> 'b list) option \<Rightarrow> nat \<Rightarrow>
   ('a, 'b) stage_result stage_env \<Rightarrow> account \<Rightarrow> ('a, 'b) stage_result safe_result \<times> account" where
  "runStageWithCheckpoint cfg index label resumeIndex saved n env acc =
     (case (if resumeIndex > index then saved else None) of
        Some (p, f) \<Rightarrow>
          (Result \<lparr>passed = p, filtered = f, stageName = label, degradations = []\<rparr>,
           acc\<lparr>stageSummary := (stageSummary acc)(label \<mapsto> (length p, length f))\<rparr>)
      | None \<Rightarrow> runStageSafe cfg label n env acc)"

text \<open>The generation stage races with the time that is left of the whole run.\<close>

definition withTimeout :: "orchestrator \<Rightarrow> ms \<Rightarrow> 'r promise \<Rightarrow> (stage_failure + 'r) option" where
  "withTimeout cfg elapsed fn =
     (if timeoutMs cfg \<le> 0 then (case fn of Settles _ r \<Rightarrow> Some r | Hangs \<Rightarrow> None)
      else let remaining = timeoutMs cfg - elapsed
           in if remaining \<le> 0 then Some (Inl (timeout_failure cfg elapsed))
              else case fn of
                Settles d r \<Rightarrow> (if d < remaining then Some r else Some (Inl (timeout_failure cfg remaining)))
              | Hangs \<Rightarrow> Some (Inl (timeout_failure cfg remaining)))"

section \<open>A run\<close>

record pipeline_result =
  r_recommended :: "scored_candidate list"
  r_scored :: "scored_candidate list"
  allCandidates :: "candidate list"
  r_summary :: "string \<Rightarrow> (nat \<times> nat) option"
  r_stageErrors :: "stage_error list"
  degraded :: bool
  degradedReasons :: "degradation list"

text \<open>How a run ends: with a result, or by an exception; \<open>Stuck\<close> if it never ends.\<close>

datatype run_end = Finished pipeline_result | LockUnavailable string | DeadlineExceeded | Stuck

text \<open>The places where \<open>isAborted\<close> is evaluated.\<close>

datatype checkpoint_place = AtStart | AfterGeneration | AfterDns | AfterRdap | AfterScoring

record stage_timing =
  settles_at :: "nat \<Rightarrow> ms option \<Rightarrow> ms option"
  fails_with :: "nat \<Rightarrow> stage_failure option"
  begins_at :: "nat \<Rightarrow> ms"
  aborted_after :: "nat \<Rightarrow> bool"

record run_world =
  generation :: "generation_input \<Rightarrow> (candidate, candidate) stage_result option"
  generation_settles :: "ms option"
  generation_begins :: ms
  dns_at :: "nat \<Rightarrow> ms option \<Rightarrow> dns_stage"
  dns_timing :: stage_timing
  rdap_at :: "nat \<Rightarrow> ms option \<Rightarrow> rdap_stage"
  rdap_timing :: stage_timing
  scoring_at :: "nat \<Rightarrow> ms option \<Rightarrow> scoring_stage"
  scoring_timing :: stage_timing
  tm_at :: "nat \<Rightarrow> ms option \<Rightarrow> tm_stage"
  tm_timing :: stage_timing
  isAborted :: "checkpoint_place \<Rightarrow> bool"
  lock_available :: "string \<Rightarrow> bool"

definition env_of :: "stage_timing \<Rightarrow> (nat \<Rightarrow> ms option \<Rightarrow> 'r) \<Rightarrow> 'r stage_env" where
  "env_of tm f = \<lparr>attempt = (\<lambda>k t.
       case settles_at tm k t of None \<Rightarrow> Hangs
       | Some d \<Rightarrow> Settles d (case fails_with tm k of Some e \<Rightarrow> Inl e | None \<Rightarrow> Inr (f k t))),
     elapsed_at = begins_at tm, signal_aborted = aborted_after tm\<rparr>"

definition generation_promise :: "run_world \<Rightarrow> generation_input \<Rightarrow> (candidate, candidate) stage_result promise" where
  "generation_promise w input =
     (case generation_settles w of None \<Rightarrow> Hangs
      | Some d \<Rightarrow> Settles d (case generation w input of
          None \<Rightarrow> Inl \<lparr>f_message = ''PSL parse failed'', f_isAbort = False, f_provider = None\<rparr>
        | Some r \<Rightarrow> Inr r))"

definition as_scored :: "candidate \<Rightarrow> scored_candidate" where
  "as_scored c = candidate.extend c (scored_candidate.fields None)"

definition as_candidate :: "scored_candidate \<Rightarrow> candidate" where
  "as_candidate c = candidate.truncate c"

type_synonym stored = "scored_candidate stage_checkpoint"
type_synonym saves = "(string \<times> scored_candidate list \<times> scored_candidate list) list"

definition restored :: "(string \<Rightarrow> stored option) \<Rightarrow> string \<Rightarrow> (scored_candidate list \<times> scored_candidate list) option" where
  "restored cps label = map_option (\<lambda>s. (sc_passed s, sc_filtered s)) (cps label)"

definition restored_base :: "(string \<Rightarrow> stored option) \<Rightarrow> string \<Rightarrow> (candidate list \<times> candidate list) option" where
  "restored_base cps label =
     map_option (\<lambda>(p, f). (map as_candidate p, map as_candidate f)) (restored cps label)"

definition save_base :: "string \<Rightarrow> (candidate, candidate) stage_result \<Rightarrow> saves" where
  "save_base label r = [(label, map as_scored (passed r), map as_scored (filtered r))]"

definition save_scored :: "string \<Rightarrow> (scored_candidate, scored_candidate) stage_result \<Rightarrow> saves" where
  "save_scored label r = [(label, passed r, filtered r)]"

definition no_account :: account where
  "no_account = \<lparr>stageSummary = Map.empty, stageErrors = [], runDegradations = []\<rparr>"

definition failed_generation :: "stage_failure \<Rightarrow> pipeline_result" where
  "failed_generation f = \<lparr>r_recommended = [], r_scored = [], allCandidates = [],
     r_summary = [''CandidateGenerationStage'' \<mapsto> (0, 0)],
     r_stageErrors = [\<lparr>se_stage = ''CandidateGeneration'', se_message = f_message f,
       se_transient = False, se_provider = None\<rparr>],
     degraded = True, degradedReasons = []\<rparr>"

definition abortWithError :: "account \<Rightarrow> pipeline_result" where
  "abortWithError acc = \<lparr>r_recommended = [], r_scored = [], allCandidates = [],
     r_summary = stageSummary acc, r_stageErrors = stageErrors acc, degraded = True,
     degradedReasons = []\<rparr>"

definition assemble ::
  "candidate list \<Rightarrow> candidate list \<Rightarrow> candidate list \<Rightarrow> (scored_candidate, scored_candidate) stage_result \<Rightarrow>
   (scored_candidate, scored_candidate) stage_result \<Rightarrow> account \<Rightarrow> pipeline_result" where
  "assemble genF dnsF rdapF scoring tm acc =
     \<lparr>r_recommended = passed tm,
      r_scored = filtered scoring @ passed tm @ filtered tm,
      allCandidates = genF @ dnsF @ rdapF @ map as_candidate (filtered scoring @ filtered tm @ passed tm),
      r_summary = stageSummary acc, r_stageErrors = stageErrors acc,
      degraded = (stageErrors acc \<noteq> [] \<or> runDegradations acc \<noteq> []),
      degradedReasons = runDegradations acc\<rparr>"

text \<open>
  One locked stage and what follows it: \<open>stop\<close> is \<open>isAborted\<close> after the stage, and a stage
  that was not restored saves its checkpoint.
\<close>

definition proceed ::
  "bool \<Rightarrow> string \<Rightarrow> 'r safe_result \<times> account \<Rightarrow> ('r \<Rightarrow> saves) \<Rightarrow> bool \<Rightarrow> saves \<Rightarrow>
   ('r \<Rightarrow> account \<Rightarrow> saves \<Rightarrow> run_end \<times> saves) \<Rightarrow> run_end \<times> saves" where
  "proceed available label outcome saver stop sv continue =
     (if \<not> available then (LockUnavailable label, sv)
      else case outcome of
        (Unsettled, _) \<Rightarrow> (Stuck, sv)
      | (Null, acc) \<Rightarrow> (Finished (abortWithError acc), sv)
      | (Result r, acc) \<Rightarrow>
          if stop then (DeadlineExceeded, sv @ saver r) else continue r acc (sv @ saver r))"

definition unless_restored :: "nat \<Rightarrow> nat \<Rightarrow> 'a option \<Rightarrow> ('r \<Rightarrow> saves) \<Rightarrow> 'r \<Rightarrow> saves" where
  "unless_restored index resumeIndex cp saver r = (if resumeIndex > index \<and> cp \<noteq> None then [] else saver r)"

definition dns_outcome where
  "dns_outcome cfg w resume cps cs acc =
     runStageWithCheckpoint cfg 1 ''DnsPreFilter'' resume (restored_base cps ''DnsPreFilter'') (length cs)
       (env_of (dns_timing w) (\<lambda>k t. dns_process (dns_at w k t) cs)) acc"

definition rdap_outcome where
  "rdap_outcome cfg w resume cps cs acc =
     runStageWithCheckpoint cfg 2 ''RdapConfirmation'' resume (restored_base cps ''RdapConfirmation'') (length cs)
       (env_of (rdap_timing w) (\<lambda>k t. fst (rdap_process (rdap_at w k t) cs))) acc"

definition scoring_outcome where
  "scoring_outcome cfg w resume cps cs acc =
     runStageWithCheckpoint cfg 3 ''Scoring'' resume (restored cps ''Scoring'') (length cs)
       (env_of (scoring_timing w) (\<lambda>k t. scoring_process (scoring_at w k t) cs)) acc"

definition tm_outcome where
  "tm_outcome cfg w resume cps cs acc =
     runStageWithCheckpoint cfg 4 ''TrademarkGate'' resume (restored cps ''TrademarkGate'') (length cs)
       (env_of (tm_timing w) (\<lambda>k t. tm_process (tm_at w k t) cs)) acc"

definition known :: "candidate list \<Rightarrow> candidate list" where
  "known cs = filter (\<lambda>c. rdapStatus c \<noteq> Some ''unknown'') cs"

definition stages_from_dns ::
  "orchestrator \<Rightarrow> run_world \<Rightarrow> nat \<Rightarrow> (string \<Rightarrow> stored option) \<Rightarrow> candidate list \<Rightarrow> candidate list \<Rightarrow>
   account \<Rightarrow> saves \<Rightarrow> run_end \<times> saves" where
  "stages_from_dns cfg w resume cps genP genF acc0 sv0 =
     proceed (lock_available w ''DnsPreFilter'') ''DnsPreFilter''
       (dns_outcome cfg w resume cps genP acc0)
       (unless_restored 1 resume (cps ''DnsPreFilter'') (save_base ''DnsPreFilter''))
       (isAborted w AfterDns) sv0 (\<lambda>dns acc1 sv1.
     proceed (lock_available w ''RdapConfirmation'') ''RdapConfirmation''
       (rdap_outcome cfg w resume cps (passed dns) acc1)
       (unless_restored 2 resume (cps ''RdapConfirmation'') (save_base ''RdapConfirmation''))
       (isAborted w AfterRdap) sv1 (\<lambda>rdap acc2 sv2.
     proceed (lock_available w ''Scoring'') ''Scoring''
       (scoring_outcome cfg w resume cps (known (passed rdap)) acc2)
       (unless_restored 3 resume (cps ''Scoring'') (save_scored ''Scoring''))
       (isAborted w AfterScoring) sv2 (\<lambda>scoring acc3 sv3.
     proceed (lock_available w ''TrademarkGate'') ''TrademarkGate''
       (tm_outcome cfg w resume cps (passed scoring) acc3)
       (unless_restored 4 resume (cps ''TrademarkGate'') (save_scored ''TrademarkGate''))
       False sv3 (\<lambda>tm acc4 sv4.
     (Finished (assemble genF (filtered dns) (filtered rdap) scoring tm acc4), sv4)))))"

definition after_generation ::
  "orchestrator \<Rightarrow> run_world \<Rightarrow> nat \<Rightarrow> (string \<Rightarrow> stored option) \<Rightarrow> candidate list \<Rightarrow> candidate list \<Rightarrow>
   saves \<Rightarrow> run_end \<times> saves" where
  "after_generation cfg w resume cps genP genF sv =
     (if isAborted w AfterGeneration then (DeadlineExceeded, sv)
      else stages_from_dns cfg w resume cps genP genF
        (no_account\<lparr>stageSummary := [''CandidateGenerationStage'' \<mapsto> (length genP, length genF)]\<rparr>) sv)"

definition runInternal ::
  "orchestrator \<Rightarrow> run_world \<Rightarrow> generation_input \<Rightarrow> scored_candidate checkpoint_data option \<Rightarrow> run_end \<times> saves"
where
  "runInternal cfg w input cp =
     (if isAborted w AtStart then (DeadlineExceeded, [])
      else
        let resume = (case cp of None \<Rightarrow> 0 | Some d \<Rightarrow> getResumeIndex (lastCompletedStage d));
            cps = (case cp of None \<Rightarrow> Map.empty | Some d \<Rightarrow> allStageResults d)
        in case (if resume > 0 then restored_base cps ''CandidateGenerationStage'' else None) of
             Some (p, f) \<Rightarrow> after_generation cfg w resume cps p f []
           | None \<Rightarrow>
               if \<not> lock_available w ''CandidateGeneration'' then (LockUnavailable ''CandidateGeneration'', [])
               else case withTimeout cfg (generation_begins w) (generation_promise w input) of
                 None \<Rightarrow> (Stuck, [])
               | Some (Inl f) \<Rightarrow> (Finished (failed_generation f), [])
               | Some (Inr r) \<Rightarrow>
                   after_generation cfg w resume cps (passed r) (filtered r)
                     (save_base ''CandidateGenerationStage'' r))"

text \<open>
  A run against the table of checkpoints: it loads, saves while it works and clears at the
  end, however it ends. A process that dies leaves the table after some of the saves.
\<close>

definition apply_saves :: "ms \<Rightarrow> string \<Rightarrow> saves \<Rightarrow> scored_candidate checkpoints \<Rightarrow> scored_candidate checkpoints" where
  "apply_saves now run sv t = fold (\<lambda>(stage, p, f). save_checkpoint now run stage p f) sv t"

definition run_pipeline ::
  "orchestrator \<Rightarrow> run_world \<Rightarrow> ms \<Rightarrow> generation_input \<Rightarrow> string \<Rightarrow> scored_candidate checkpoints \<Rightarrow>
   run_end \<times> scored_candidate checkpoints" where
  "run_pipeline cfg w now input run t =
     (let (e, sv) = runInternal cfg w input (load_checkpoint now run t)
      in (e, clear_checkpoints run (apply_saves now run sv t)))"

definition crashed_run ::
  "orchestrator \<Rightarrow> run_world \<Rightarrow> ms \<Rightarrow> generation_input \<Rightarrow> string \<Rightarrow> nat \<Rightarrow> scored_candidate checkpoints \<Rightarrow>
   scored_candidate checkpoints" where
  "crashed_run cfg w now input run n t =
     apply_saves now run (take n (snd (runInternal cfg w input (load_checkpoint now run t)))) t"

section \<open>Lemmas on one stage\<close>

lemma attempts_not_null:
  assumes "k + fuel = Suc STAGE_RETRY_MAX" "0 < fuel"
  shows "fst (stage_attempts cfg label n env fuel k acc) \<noteq> Null"
  using assms
proof (induction fuel arbitrary: k acc)
  case (Suc fuel)
  have "fuel = 0 \<Longrightarrow> k \<ge> STAGE_RETRY_MAX" using Suc.prems by simp
  with Suc show ?case
    by (auto split: option.split sum.split prod.split stage_exception.split)
qed simp

lemma runStageSafe_not_null: "fst (runStageSafe cfg label n env acc) \<noteq> Null"
  unfolding runStageSafe_def by (rule attempts_not_null) (simp_all add: STAGE_RETRY_MAX_def)

lemma runStageTimed_settles:
  assumes "effective_timeout cfg n elapsed \<noteq> None"
  shows "runStageTimed cfg n elapsed fn \<noteq> None"
  using assms by (auto simp: runStageTimed_def Let_def split: option.split promise.split sum.split)

lemma attempts_settled:
  assumes "\<And>k. runStageTimed cfg n (elapsed_at env k) (attempt env k) \<noteq> None"
  shows "fst (stage_attempts cfg label n env fuel k acc) \<noteq> Unsettled"
proof (induction fuel arbitrary: k acc)
  case (Suc fuel)
  then show ?case
    using assms [of k] by (auto split: option.split sum.split prod.split stage_exception.split)
qed simp

lemma effective_timeout_some:
  assumes "\<not> deadline_passed cfg elapsed" "0 < timeoutMs cfg \<or> 0 < computeStageBudgetMs n (stageBudget cfg)"
  shows "effective_timeout cfg n elapsed \<noteq> None"
  using assms by (auto simp: effective_timeout_def deadline_passed_def Let_def)

lemma timed_not_none:
  assumes "0 < timeoutMs cfg \<or> 0 < computeStageBudgetMs n (stageBudget cfg)"
  shows "runStageTimed cfg n elapsed fn \<noteq> None"
proof (cases "deadline_passed cfg elapsed")
  case True
  then show ?thesis by (simp add: runStageTimed_def)
next
  case False
  from runStageTimed_settles [OF effective_timeout_some [OF this assms]] show ?thesis .
qed

lemma safe_result_cases:
  assumes "0 < timeoutMs cfg \<or> 0 < computeStageBudgetMs n (stageBudget cfg)"
  shows "\<exists>r acc'. runStageWithCheckpoint cfg index label resume saved n env acc = (Result r, acc')"
proof -
  have "fst (runStageSafe cfg label n env acc) \<noteq> Unsettled"
    unfolding runStageSafe_def by (rule attempts_settled) (rule timed_not_none [OF assms])
  then have "\<exists>r. fst (runStageSafe cfg label n env acc) = Result r"
    using runStageSafe_not_null [of cfg label n env acc]
    by (cases "fst (runStageSafe cfg label n env acc)") auto
  then show ?thesis
    unfolding runStageWithCheckpoint_def
    by (auto split: option.split prod.split) (metis prod.collapse)+
qed

text \<open>Where a result comes from: nowhere, the checkpoint, or a call of the stage.\<close>

definition comes_from :: "('a, 'b) stage_result stage_env \<Rightarrow> ('a, 'b) stage_result \<Rightarrow> bool" where
  "comes_from env r = (\<exists>k t d. attempt env k t = Settles d (Inr r))"

lemma runStageTimed_origin:
  "runStageTimed cfg n elapsed fn = Some (Inr (r, late)) \<Longrightarrow> \<exists>t d. fn t = Settles d (Inr r)"
  by (auto simp: runStageTimed_def Let_def split: option.splits promise.splits sum.splits if_splits)

lemma attempts_origin:
  assumes "stage_attempts cfg label n env fuel k acc = (Result r, acc')"
  shows "(passed r = [] \<and> filtered r = []) \<or> comes_from env r"
  using assms
proof (induction fuel arbitrary: k acc)
  case (Suc fuel)
  show ?case
  proof (cases "runStageTimed cfg n (elapsed_at env k) (attempt env k)")
    case None
    then show ?thesis using Suc.prems by simp
  next
    case (Some x)
    then show ?thesis
    proof (cases x)
      case (Inl e)
      then show ?thesis
        using Suc Some by (cases e) (auto simp: empty_result_def split: if_splits)
    next
      case (Inr y)
      then have "y = (r, snd y)" using Suc.prems Some by (cases y) auto
      with Some Inr have "runStageTimed cfg n (elapsed_at env k) (attempt env k) = Some (Inr (r, snd y))"
        by metis
      from runStageTimed_origin [OF this] show ?thesis by (auto simp: comes_from_def)
    qed
  qed
qed simp

lemma stage_origin:
  assumes "runStageWithCheckpoint cfg index label resume saved n env acc = (Result r, acc')"
    and "resume \<le> index"
  shows "(passed r = [] \<and> filtered r = []) \<or> comes_from env r"
proof -
  have "stage_attempts cfg label n env STAGE_RETRY_MAX 1 acc = (Result r, acc')"
    using assms by (simp add: runStageWithCheckpoint_def runStageSafe_def)
  from attempts_origin [OF this] show ?thesis .
qed

lemma comes_from_env_of:
  "comes_from (env_of tm f) r \<Longrightarrow> \<exists>k t. r = f k t"
  by (auto simp: comes_from_def env_of_def split: option.splits)

text \<open>A stage after which nothing has been noted as wrong is the result of a call.\<close>

definition clean :: "account \<Rightarrow> bool" where
  "clean acc = (stageErrors acc = [] \<and> runDegradations acc = [])"

lemma attempts_clean:
  assumes "stage_attempts cfg label n env fuel k acc = (Result r, acc')" "clean acc'"
  shows "clean acc \<and> comes_from env r"
  using assms
proof (induction fuel arbitrary: k acc)
  case (Suc fuel)
  show ?case
  proof (cases "runStageTimed cfg n (elapsed_at env k) (attempt env k)")
    case None
    then show ?thesis using Suc.prems by simp
  next
    case (Some x)
    show ?thesis
    proof (cases x)
      case (Inl e)
      show ?thesis
      proof (cases e)
        case (BudgetExceeded m)
        then have "acc' = note_empty label TimedOut m acc" using Suc.prems(1) Some Inl by simp
        then show ?thesis using Suc.prems(2) by (simp add: note_empty_def clean_def)
      next
        case (Failure f)
        let ?stop = "\<not> is_transient (f_message f) \<or> k \<ge> STAGE_RETRY_MAX \<or> signal_aborted env k
          \<or> deadline_passed cfg (elapsed_at env k)"
        show ?thesis
        proof (cases ?stop)
          case True
          then have "stageErrors acc' \<noteq> []"
            using Suc.prems(1) Some Inl Failure by (simp only: stage_attempts.simps) auto
          then show ?thesis using Suc.prems(2) by (simp add: clean_def)
        next
          case False
          then have "stage_attempts cfg label n env fuel (Suc k) acc = (Result r, acc')"
            using Suc.prems(1) Some Inl Failure by simp
          from Suc.IH [OF this Suc.prems(2)] show ?thesis .
        qed
      qed
    next
      case (Inr y)
      obtain late where y: "y = (r, late)" and acc: "acc' = note_result label n late r acc"
        using Suc.prems(1) Some Inr by (cases y) simp
      from Some Inr y have "runStageTimed cfg n (elapsed_at env k) (attempt env k) = Some (Inr (r, late))"
        by simp
      from runStageTimed_origin [OF this] have "comes_from env r" by (auto simp: comes_from_def)
      moreover have "clean acc" using Suc.prems(2) by (simp add: acc note_result_def clean_def)
      ultimately show ?thesis by simp
    qed
  qed
qed simp

lemma stage_clean:
  assumes "runStageWithCheckpoint cfg index label resume saved n env acc = (Result r, acc')"
    and "resume \<le> index" "clean acc'"
  shows "clean acc \<and> comes_from env r"
proof -
  have "stage_attempts cfg label n env STAGE_RETRY_MAX 1 acc = (Result r, acc')"
    using assms(1,2) by (simp add: runStageWithCheckpoint_def runStageSafe_def)
  from attempts_clean [OF this assms(3)] show ?thesis .
qed

section \<open>Lemmas on a run\<close>

lemma proceed_finished:
  assumes "proceed av label out saver stop sv continue = (Finished res, sv')" "fst out \<noteq> Null"
  shows "\<exists>r acc. out = (Result r, acc) \<and> \<not> stop \<and> continue r acc (sv @ saver r) = (Finished res, sv')"
  using assms by (auto simp: proceed_def split: if_splits prod.splits safe_result.splits)

lemma stage_not_null: "fst (runStageWithCheckpoint cfg index label resume saved n env acc) \<noteq> Null"
  using runStageSafe_not_null [of cfg label n env acc]
  by (auto simp: runStageWithCheckpoint_def split: option.split)

lemma outcomes_not_null:
  "fst (dns_outcome cfg w resume cps cs acc) \<noteq> Null" "fst (rdap_outcome cfg w resume cps cs acc) \<noteq> Null"
  "fst (scoring_outcome cfg w resume cps cs acc) \<noteq> Null" "fst (tm_outcome cfg w resume cps ks acc) \<noteq> Null"
  by (simp_all add: dns_outcome_def rdap_outcome_def scoring_outcome_def tm_outcome_def stage_not_null)

text \<open>The results of the four stages of a finished run.\<close>

record stage_run =
  t_dns :: "(candidate, candidate) stage_result"
  t_rdap :: "(candidate, candidate) stage_result"
  t_scoring :: "(scored_candidate, scored_candidate) stage_result"
  t_tm :: "(scored_candidate, scored_candidate) stage_result"
  t_acc :: "nat \<Rightarrow> account"

definition stages_ran ::
  "orchestrator \<Rightarrow> run_world \<Rightarrow> nat \<Rightarrow> (string \<Rightarrow> stored option) \<Rightarrow> candidate list \<Rightarrow> stage_run \<Rightarrow> bool" where
  "stages_ran cfg w resume cps genP x =
     (dns_outcome cfg w resume cps genP (t_acc x 0) = (Result (t_dns x), t_acc x 1)
      \<and> rdap_outcome cfg w resume cps (passed (t_dns x)) (t_acc x 1) = (Result (t_rdap x), t_acc x 2)
      \<and> scoring_outcome cfg w resume cps (known (passed (t_rdap x))) (t_acc x 2) = (Result (t_scoring x), t_acc x 3)
      \<and> tm_outcome cfg w resume cps (passed (t_scoring x)) (t_acc x 3) = (Result (t_tm x), t_acc x 4))"

lemma stages_finished:
  assumes "stages_from_dns cfg w resume cps genP genF acc0 sv0 = (Finished res, sv)"
  shows "\<exists>x. stages_ran cfg w resume cps genP x
    \<and> res = assemble genF (filtered (t_dns x)) (filtered (t_rdap x)) (t_scoring x) (t_tm x) (t_acc x 4)"
proof -
  from proceed_finished [OF assms [unfolded stages_from_dns_def] outcomes_not_null(1)]
  obtain dns acc1 sv1 where 1: "dns_outcome cfg w resume cps genP acc0 = (Result dns, acc1)"
    and k1: "proceed (lock_available w ''RdapConfirmation'') ''RdapConfirmation''
       (rdap_outcome cfg w resume cps (passed dns) acc1)
       (unless_restored 2 resume (cps ''RdapConfirmation'') (save_base ''RdapConfirmation''))
       (isAborted w AfterRdap) sv1 (\<lambda>rdap acc2 sv2.
     proceed (lock_available w ''Scoring'') ''Scoring''
       (scoring_outcome cfg w resume cps (known (passed rdap)) acc2)
       (unless_restored 3 resume (cps ''Scoring'') (save_scored ''Scoring''))
       (isAborted w AfterScoring) sv2 (\<lambda>scoring acc3 sv3.
     proceed (lock_available w ''TrademarkGate'') ''TrademarkGate''
       (tm_outcome cfg w resume cps (passed scoring) acc3)
       (unless_restored 4 resume (cps ''TrademarkGate'') (save_scored ''TrademarkGate''))
       False sv3 (\<lambda>tm acc4 sv4.
     (Finished (assemble genF (filtered dns) (filtered rdap) scoring tm acc4), sv4)))) = (Finished res, sv)"
    by blast
  from proceed_finished [OF k1 outcomes_not_null(2)]
  obtain rdap acc2 sv2 where 2: "rdap_outcome cfg w resume cps (passed dns) acc1 = (Result rdap, acc2)"
    and k2: "proceed (lock_available w ''Scoring'') ''Scoring''
       (scoring_outcome cfg w resume cps (known (passed rdap)) acc2)
       (unless_restored 3 resume (cps ''Scoring'') (save_scored ''Scoring''))
       (isAborted w AfterScoring) sv2 (\<lambda>scoring acc3 sv3.
     proceed (lock_available w ''TrademarkGate'') ''TrademarkGate''
       (tm_outcome cfg w resume cps (passed scoring) acc3)
       (unless_restored 4 resume (cps ''TrademarkGate'') (save_scored ''TrademarkGate''))
       False sv3 (\<lambda>tm acc4 sv4.
     (Finished (assemble genF (filtered dns) (filtered rdap) scoring tm acc4), sv4))) = (Finished res, sv)"
    by blast
  from proceed_finished [OF k2 outcomes_not_null(3)]
  obtain scoring acc3 sv3 where 3: "scoring_outcome cfg w resume cps (known (passed rdap)) acc2 = (Result scoring, acc3)"
    and k3: "proceed (lock_available w ''TrademarkGate'') ''TrademarkGate''
       (tm_outcome cfg w resume cps (passed scoring) acc3)
       (unless_restored 4 resume (cps ''TrademarkGate'') (save_scored ''TrademarkGate''))
       False sv3 (\<lambda>tm acc4 sv4.
     (Finished (assemble genF (filtered dns) (filtered rdap) scoring tm acc4), sv4)) = (Finished res, sv)"
    by blast
  from proceed_finished [OF k3 outcomes_not_null(4)]
  obtain tm acc4 where 4: "tm_outcome cfg w resume cps (passed scoring) acc3 = (Result tm, acc4)"
    "res = assemble genF (filtered dns) (filtered rdap) scoring tm acc4"
    by auto
  let ?acc = "\<lambda>i :: nat. if i = 0 then acc0 else if i = 1 then acc1 else if i = 2 then acc2
    else if i = 3 then acc3 else acc4"
  show ?thesis
    using 1 2 3 4
    by (intro exI [of _ "\<lparr>t_dns = dns, t_rdap = rdap, t_scoring = scoring, t_tm = tm, t_acc = ?acc\<rparr>"])
      (simp add: stages_ran_def)
qed

definition resume_of :: "'a checkpoint_data option \<Rightarrow> nat" where
  "resume_of cp = (case cp of None \<Rightarrow> 0 | Some d \<Rightarrow> getResumeIndex (lastCompletedStage d))"

definition results_of :: "'a checkpoint_data option \<Rightarrow> string \<Rightarrow> 'a stage_checkpoint option" where
  "results_of cp = (case cp of None \<Rightarrow> Map.empty | Some d \<Rightarrow> allStageResults d)"

text \<open>The candidates that a run starts from: generated, or restored from its checkpoint.\<close>

definition starts_from ::
  "run_world \<Rightarrow> generation_input \<Rightarrow> scored_candidate checkpoint_data option \<Rightarrow> candidate list \<Rightarrow> candidate list \<Rightarrow> bool"
where
  "starts_from w input cp genP genF =
     ((\<exists>r. generation w input = Some r \<and> passed r = genP \<and> filtered r = genF)
      \<or> (resume_of cp > 0 \<and> restored_base (results_of cp) ''CandidateGenerationStage'' = Some (genP, genF)))"

lemma generation_result:
  assumes "withTimeout cfg elapsed (generation_promise w input) = Some (Inr r)"
  shows "generation w input = Some r"
  using assms by (auto simp: withTimeout_def generation_promise_def Let_def split: if_splits option.splits)

lemma run_finished:
  assumes "runInternal cfg w input cp = (Finished res, sv)"
  shows "(\<exists>f. res = failed_generation f)
    \<or> (\<exists>genP genF x. starts_from w input cp genP genF
        \<and> stages_ran cfg w (resume_of cp) (results_of cp) genP x
        \<and> res = assemble genF (filtered (t_dns x)) (filtered (t_rdap x)) (t_scoring x) (t_tm x) (t_acc x 4))"
proof -
  note unf = runInternal_def resume_of_def [symmetric] results_of_def [symmetric] Let_def
  have after: "\<exists>x. stages_ran cfg w (resume_of cp) (results_of cp) genP x
      \<and> res = assemble genF (filtered (t_dns x)) (filtered (t_rdap x)) (t_scoring x) (t_tm x) (t_acc x 4)"
    if "after_generation cfg w (resume_of cp) (results_of cp) genP genF sv0 = (Finished res, sv)" for genP genF sv0
    using that stages_finished by (fastforce simp: after_generation_def split: if_splits)
  from assms have "\<not> isAborted w AtStart" by (auto simp: runInternal_def split: if_splits)
  show ?thesis
  proof (cases "if resume_of cp > 0 then restored_base (results_of cp) ''CandidateGenerationStage'' else None")
    case (Some pf)
    obtain p f where "pf = (p, f)" by (cases pf)
    with Some assms \<open>\<not> isAborted w AtStart\<close>
    have a: "after_generation cfg w (resume_of cp) (results_of cp) p f [] = (Finished res, sv)"
      by (simp add: unf)
    moreover have "starts_from w input cp p f"
      using Some \<open>pf = (p, f)\<close> by (auto simp: starts_from_def split: if_splits)
    ultimately show ?thesis using after by blast
  next
    case None
    then consider f where "res = failed_generation f"
      | r where "withTimeout cfg (generation_begins w) (generation_promise w input) = Some (Inr r)"
        "after_generation cfg w (resume_of cp) (results_of cp) (passed r) (filtered r)
           (save_base ''CandidateGenerationStage'' r) = (Finished res, sv)"
      using assms \<open>\<not> isAborted w AtStart\<close>
      by (auto simp: unf split: if_splits option.splits sum.splits)
    then show ?thesis
    proof cases
      case 2
      have "starts_from w input cp (passed r) (filtered r)"
        using generation_result [OF 2(1)] by (auto simp: starts_from_def)
      with after [OF 2(2)] show ?thesis by blast
    qed blast
  qed
qed

end
