(* ===== verification/PipelineRun.thy ===== *)
theory PipelineRun
  imports Orchestrator "HOL-Library.Sublist"
begin

text \<open>
  What a whole run of the pipeline guarantees. The contract of a stage is a locale: it
  accounts for its input unless it is disturbed, and what it passes has been cleared. The
  four stages after the generation are its interpretations; the orchestrator's retries,
  budgets and grace periods carry the contract from a call of the stage to its outcome in
  the run. The properties then chain the stages of a finished run.
\<close>

section \<open>The contract of a stage\<close>

locale pipeline_stage =
  fixes process :: "'e \<Rightarrow> 'a list \<Rightarrow> ('b, 'c) stage_result"
    and key_in :: "'a \<Rightarrow> string"
    and key_passed :: "'b \<Rightarrow> string"
    and key_filtered :: "'c \<Rightarrow> string"
    and undisturbed :: "'e \<Rightarrow> bool"
    and clears :: "'e \<Rightarrow> 'a list \<Rightarrow> 'a \<Rightarrow> 'b \<Rightarrow> bool"
  assumes accounts: "undisturbed e \<Longrightarrow>
      mset (map key_passed (passed (process e cs))) + mset (map key_filtered (filtered (process e cs)))
      = mset (map key_in cs)"
    and cleared: "b \<in> set (passed (process e cs)) \<Longrightarrow> \<exists>a \<in> set cs. key_passed b = key_in a \<and> clears e cs a b"
begin

lemma outcome_cleared:
  assumes "runStageWithCheckpoint cfg index label resume saved n (env_of tm (\<lambda>k t. process (st k t) cs)) acc
      = (Result r, acc')"
    and "resume \<le> index" "b \<in> set (passed r)"
  shows "\<exists>k t. \<exists>a \<in> set cs. key_passed b = key_in a \<and> clears (st k t) cs a b"
proof -
  have "comes_from (env_of tm (\<lambda>k t. process (st k t) cs)) r"
    using stage_origin [OF assms(1,2)] assms(3) by auto
  from comes_from_env_of [OF this] obtain k t where "r = process (st k t) cs" by blast
  with cleared [of b "st k t" cs] assms(3) show ?thesis by blast
qed

lemma outcome_accounts:
  assumes "runStageWithCheckpoint cfg index label resume saved n (env_of tm (\<lambda>k t. process (st k t) cs)) acc
      = (Result r, acc')"
    and "resume \<le> index" "clean acc'" "\<And>k t. undisturbed (st k t)"
  shows "clean acc"
    "mset (map key_passed (passed r)) + mset (map key_filtered (filtered r)) = mset (map key_in cs)"
proof -
  note c = stage_clean [OF assms(1-3)]
  then show "clean acc" by simp
  from comes_from_env_of [OF conjunct2 [OF c]] obtain k t where "r = process (st k t) cs" by blast
  with accounts [OF assms(4), of k t cs] show
    "mset (map key_passed (passed r)) + mset (map key_filtered (filtered r)) = mset (map key_in cs)"
    by simp
qed

end

text \<open>What the code of each stage checks before it lets a candidate through.\<close>

definition dns_clears :: "dns_stage \<Rightarrow> candidate list \<Rightarrow> candidate \<Rightarrow> candidate \<Rightarrow> bool" where
  "dns_clears st cs a b = (c_source b = c_source a \<and> c_tld b = c_tld a \<and> dns_cleared st cs a)"

definition rdap_clears :: "rdap_stage \<Rightarrow> candidate list \<Rightarrow> candidate \<Rightarrow> candidate \<Rightarrow> bool" where
  "rdap_clears st cs a b =
     (c_source b = c_source a \<and> c_tld b = c_tld a \<and> rdapStatus b = Some ''available'' \<and> \<not> isPremium b
      \<and> first_leg_free st a
      \<and> (case consensusConfig st of None \<Rightarrow> True
         | Some cfg \<Rightarrow> \<exists>k. c_domain k = c_domain a
             \<and> independently_confirmed st cfg (winning_origins st (processed_first st cs)) k))"

definition scoring_clears :: "scoring_stage \<Rightarrow> candidate list \<Rightarrow> candidate \<Rightarrow> scored_candidate \<Rightarrow> bool" where
  "scoring_clears st cs a b =
     (c_source b = c_source a \<and> c_tld b = c_tld a \<and> c_status b = Recommended
      \<and> (\<exists>r. score_call st (input_of (enrich st a)) = Some r \<and> recommended r \<and> scoreResult b = Some r))"

definition tm_clears :: "tm_stage \<Rightarrow> scored_candidate list \<Rightarrow> scored_candidate \<Rightarrow> scored_candidate \<Rightarrow> bool" where
  "tm_clears st cs a b = (b = a \<and> (\<exists>g. gate_check st (c_domain a) = Inr g \<and> g_verdict g = Clear))"

definition rdap_undisturbed :: "rdap_stage \<Rightarrow> bool" where
  "rdap_undisturbed st = (0 < rd_concurrency st \<and> (\<forall>x. \<not> rd_aborted st x))"

definition scoring_undisturbed :: "scoring_stage \<Rightarrow> bool" where
  "scoring_undisturbed st = (0 < sc_concurrency st \<and> (\<forall>x. \<not> sc_aborted st x))"

definition tm_undisturbed :: "tm_stage \<Rightarrow> bool" where
  "tm_undisturbed st = (0 < tm_concurrency st \<and> (\<forall>x. \<not> tm_aborted st x))"

interpretation dns: pipeline_stage dns_process c_domain c_domain c_domain
  "\<lambda>st. \<not> aborted st DnsStart" dns_clears
proof
  fix b e and cs :: "candidate list"
  assume "b \<in> set (passed (dns_process e cs))"
  from dns_sound [OF this] show "\<exists>a \<in> set cs. c_domain b = c_domain a \<and> dns_clears e cs a b"
    by (auto simp: dns_clears_def)
qed (rule dns_accounts)

interpretation rdap: pipeline_stage "\<lambda>st cs. fst (rdap_process st cs)" c_domain c_domain c_domain
  rdap_undisturbed rdap_clears
proof
  fix e and cs :: "candidate list"
  assume "rdap_undisturbed e"
  then show "mset (domains_of (passed (fst (rdap_process e cs))))
      + mset (domains_of (filtered (fst (rdap_process e cs)))) = mset (domains_of cs)"
    using rdap_accounts [of e cs "fst (rdap_process e cs)" "snd (rdap_process e cs)"]
    by (simp add: rdap_undisturbed_def)
next
  fix b e and cs :: "candidate list"
  assume b: "b \<in> set (passed (fst (rdap_process e cs)))"
  have "rdap_process e cs = (fst (rdap_process e cs), snd (rdap_process e cs))" by simp
  from rdap_passed [OF this b] show "\<exists>a \<in> set cs. c_domain b = c_domain a \<and> rdap_clears e cs a b"
    by (auto simp: rdap_clears_def)
qed

interpretation scoring: pipeline_stage scoring_process c_domain c_domain c_domain
  scoring_undisturbed scoring_clears
proof
  fix b e and cs :: "candidate list"
  assume "b \<in> set (passed (scoring_process e cs))"
  from scoring_passed [OF this] show "\<exists>a \<in> set cs. c_domain b = c_domain a \<and> scoring_clears e cs a b"
    by (auto simp: scoring_clears_def)
qed (rule scoring_accounts, simp_all add: scoring_undisturbed_def)

interpretation tm: pipeline_stage tm_process c_domain c_domain c_domain tm_undisturbed tm_clears
proof
  fix b e and cs :: "scored_candidate list"
  assume "b \<in> set (passed (tm_process e cs))"
  from tm_passed [OF this] show "\<exists>a \<in> set cs. c_domain b = c_domain a \<and> tm_clears e cs a b"
    by (auto simp: tm_clears_def)
qed (rule tm_accounts, simp_all add: tm_undisturbed_def)

section \<open>Chaining the stages\<close>

text \<open>What a recommendation rests on: every stage has cleared it, in this run.\<close>

definition vetted :: "run_world \<Rightarrow> candidate \<Rightarrow> scored_candidate \<Rightarrow> bool" where
  "vetted w g c =
     (\<exists>k1 t1 cs1 a1 k2 t2 cs2 a2 k3 t3 cs3 k4 t4 cs4.
        dns_clears (dns_at w k1 t1) cs1 g a1 \<and> c_domain a1 = c_domain g
        \<and> rdap_clears (rdap_at w k2 t2) cs2 a1 a2 \<and> c_domain a2 = c_domain g
        \<and> scoring_clears (scoring_at w k3 t3) cs3 a2 c \<and> c_domain c = c_domain g
        \<and> tm_clears (tm_at w k4 t4) cs4 c c)"

lemma stages_ran_vetted:
  assumes "stages_ran cfg w resume cps genP x" "resume \<le> 1" "c \<in> set (passed (t_tm x))"
  shows "\<exists>g \<in> set genP. vetted w g c"
proof -
  note ran = assms(1) [unfolded stages_ran_def dns_outcome_def rdap_outcome_def scoring_outcome_def tm_outcome_def]
  have le: "resume \<le> 2" "resume \<le> 3" "resume \<le> 4" using assms(2) by simp_all
  obtain k4 t4 b4 where 4: "b4 \<in> set (passed (t_scoring x))" "tm_clears (tm_at w k4 t4) (passed (t_scoring x)) b4 c"
    using tm.outcome_cleared [OF conjunct2 [OF conjunct2 [OF conjunct2 [OF ran]]] le(3) assms(3)] by blast
  then have "b4 = c" by (simp add: tm_clears_def)
  with 4 obtain k3 t3 b3 where 3: "b3 \<in> set (known (passed (t_rdap x)))" "c_domain c = c_domain b3"
    "scoring_clears (scoring_at w k3 t3) (known (passed (t_rdap x))) b3 c"
    using scoring.outcome_cleared [OF conjunct1 [OF conjunct2 [OF conjunct2 [OF ran]]] le(2)] by blast
  then have "b3 \<in> set (passed (t_rdap x))" by (simp add: known_def)
  then obtain k2 t2 b2 where 2: "b2 \<in> set (passed (t_dns x))" "c_domain b3 = c_domain b2"
    "rdap_clears (rdap_at w k2 t2) (passed (t_dns x)) b2 b3"
    using rdap.outcome_cleared [OF conjunct1 [OF conjunct2 [OF ran]] le(1)] by blast
  obtain k1 t1 g where 1: "g \<in> set genP" "c_domain b2 = c_domain g" "dns_clears (dns_at w k1 t1) genP g b2"
    using dns.outcome_cleared [OF conjunct1 [OF ran] assms(2) 2(1)] by blast
  have "vetted w g c"
    unfolding vetted_def using 1 2 3 4 \<open>b4 = c\<close> by metis
  with 1 show ?thesis by blast
qed

text \<open>No stage is disturbed, in any of its attempts.\<close>

definition undisturbed_run :: "run_world \<Rightarrow> bool" where
  "undisturbed_run w =
     (\<forall>k t. \<not> aborted (dns_at w k t) DnsStart \<and> rdap_undisturbed (rdap_at w k t)
        \<and> scoring_undisturbed (scoring_at w k t) \<and> tm_undisturbed (tm_at w k t))"

lemma rdap_outcome_known:
  assumes "rdap_outcome cfg w resume cps cs acc = (Result r, acc')" "resume \<le> 2"
  shows "known (passed r) = passed r"
proof -
  have "rdapStatus b \<noteq> Some ''unknown''" if b: "b \<in> set (passed r)" for b
  proof -
    from rdap.outcome_cleared [OF assms(1) [unfolded rdap_outcome_def] assms(2) b]
    have "rdapStatus b = Some ''available''" by (auto simp: rdap_clears_def)
    then show ?thesis by simp
  qed
  then show ?thesis unfolding known_def by (intro filter_True) blast
qed

lemma as_candidate_domain [simp]: "c_domain (as_candidate c) = c_domain c"
  by (simp add: as_candidate_def candidate.defs)

lemma mset_chain4:
  fixes P :: "'a multiset"
  assumes "p1 + f1 = P" "p2 + f2 = p1" "p3 + f3 = p2" "p4 + f4 = p3"
  shows "F + f1 + f2 + f3 + f4 + p4 = F + P"
  by (simp add: assms [symmetric] ac_simps)

lemma stages_ran_accounts:
  assumes "stages_ran cfg w resume cps genP x" "resume \<le> 1" "clean (t_acc x 4)" "undisturbed_run w"
  shows "mset (domains_of (allCandidates (assemble genF (filtered (t_dns x)) (filtered (t_rdap x))
      (t_scoring x) (t_tm x) (t_acc x 4)))) = mset (domains_of genF) + mset (domains_of genP)"
proof -
  note ran = assms(1) [unfolded stages_ran_def]
  have le: "resume \<le> 2" "resume \<le> 3" "resume \<le> 4" using assms(2) by simp_all
  have u: "\<not> aborted (dns_at w k t) DnsStart" "rdap_undisturbed (rdap_at w k t)"
    "scoring_undisturbed (scoring_at w k t)" "tm_undisturbed (tm_at w k t)" for k t
    using assms(4) by (simp_all add: undisturbed_run_def)
  note 4 = tm.outcome_accounts [OF conjunct2 [OF conjunct2 [OF conjunct2 [OF ran]], unfolded tm_outcome_def]
      le(3) assms(3) u(4)]
  note 3 = scoring.outcome_accounts [OF conjunct1 [OF conjunct2 [OF conjunct2 [OF ran]], unfolded scoring_outcome_def]
      le(2) 4(1) u(3)]
  note 2 = rdap.outcome_accounts [OF conjunct1 [OF conjunct2 [OF ran], unfolded rdap_outcome_def] le(1) 3(1) u(2)]
  note 1 = dns.outcome_accounts [OF conjunct1 [OF ran, unfolded dns_outcome_def] assms(2) 2(1) u(1)]
  have k: "known (passed (t_rdap x)) = passed (t_rdap x)"
    by (rule rdap_outcome_known [OF conjunct1 [OF conjunct2 [OF ran]] le(1)])
  from mset_chain4 [OF 1(2) 2(2) 3(2) [unfolded k] 4(2), of "mset (domains_of genF)"] show ?thesis
    by (simp add: assemble_def comp_def ac_simps)
qed

lemma proceed_not_stuck:
  assumes "\<exists>r acc'. f = (Result r, acc')" "\<And>r a s. fst (k r a s) \<noteq> Stuck"
  shows "fst (proceed av label f saver stop sv k) \<noteq> Stuck"
  using assms by (auto simp: proceed_def split: if_splits)

section \<open>What a crash leaves\<close>

text \<open>The labels under which a run saves its stages, in order.\<close>

definition run_labels :: "string list" where
  "run_labels = [''CandidateGenerationStage'', ''DnsPreFilter'', ''RdapConfirmation'', ''Scoring'',
     ''TrademarkGate'']"

lemma proceed_saves:
  assumes "map fst sv = before" "\<And>r. map fst (saver r) = [l]" "prefix (before @ [l]) ls"
    and "\<And>r acc sv'. map fst sv' = before @ [l] \<Longrightarrow> prefix (map fst (snd (k r acc sv'))) ls"
  shows "prefix (map fst (snd (proceed av label f saver stop sv k))) ls"
  using assms append_prefixD [OF assms(3)]
  by (auto simp: proceed_def split: safe_result.split prod.split)

lemma run_saves:
  "prefix (map fst (snd (runInternal cfg w input None))) run_labels"
proof -
  have saver: "map fst (unless_restored i 0 c (save_base l) r) = [l]"
    "map fst (unless_restored i 0 c (save_scored l) r') = [l]" for i and c :: "stored option" and l r r'
    by (simp_all add: unless_restored_def save_base_def save_scored_def)
  have "prefix (map fst (snd (stages_from_dns cfg w 0 Map.empty genP genF acc sv))) run_labels"
    if "map fst sv = [''CandidateGenerationStage'']" for genP genF acc sv
    unfolding stages_from_dns_def
    by (rule proceed_saves, rule that, rule saver, simp add: run_labels_def,
        rule proceed_saves, assumption, rule saver, simp add: run_labels_def,
        rule proceed_saves, assumption, rule saver, simp add: run_labels_def,
        rule proceed_saves, assumption, rule saver, simp add: run_labels_def,
        simp add: run_labels_def)
  then show ?thesis
    by (auto simp: runInternal_def after_generation_def Let_def save_base_def run_labels_def
        split: option.split sum.split)
qed

lemma apply_saves_rows:
  assumes "distinct (map cr_stage (rows_of run t) @ map fst sv)"
  shows "map cr_stage (rows_of run (apply_saves now run sv t)) = map cr_stage (rows_of run t) @ map fst sv"
  using assms
proof (induction sv arbitrary: t)
  case (Cons s sv)
  obtain l p f where s: "s = (l, p, f)" by (cases s)
  have "\<not> list_ex (is_row run l) t"
    using Cons.prems by (auto simp: s list_ex_iff is_row_def rows_of_def)
  then have "map cr_stage (rows_of run (save_checkpoint now run l p f t)) = map cr_stage (rows_of run t) @ [l]"
    by (simp add: save_checkpoint_def rows_of_def)
  with Cons.IH [of "save_checkpoint now run l p f t"] Cons.prems show ?case
    by (simp add: s apply_saves_def)
qed (simp add: apply_saves_def)

lemma apply_saves_fresh:
  assumes "\<forall>r \<in> set (rows_of run t). cr_createdAt r = now \<and> cr_version r = CHECKPOINT_FORMAT_VERSION"
  shows "\<forall>r \<in> set (rows_of run (apply_saves now run sv t)).
    cr_createdAt r = now \<and> cr_version r = CHECKPOINT_FORMAT_VERSION"
  using assms
proof (induction sv arbitrary: t)
  case (Cons s sv)
  obtain l p f where s: "s = (l, p, f)" by (cases s)
  have "\<forall>r \<in> set (rows_of run (save_checkpoint now run l p f t)).
      cr_createdAt r = now \<and> cr_version r = CHECKPOINT_FORMAT_VERSION"
    using Cons.prems saved_rows [of _ run now l p f t] by blast
  from Cons.IH [OF this] show ?case by (simp add: s apply_saves_def)
qed (simp add: apply_saves_def)

lemma resume_of_load:
  assumes "\<forall>r \<in> set (rows_of run t). cr_createdAt r = now \<and> cr_version r = CHECKPOINT_FORMAT_VERSION"
    "rows_of run t \<noteq> []"
  shows "resume_of (load_checkpoint u run t) =
    (if u - now \<le> CHECKPOINT_MAX_AGE_MS then getResumeIndex (last (map cr_stage (rows_of run t))) else 0)"
proof -
  have "last (rows_of run t) \<in> set (rows_of run t)" using assms(2) by simp
  with assms have "cr_createdAt (last (rows_of run t)) = now" by blast
  moreover have "\<not> list_ex (\<lambda>r. cr_version r \<noteq> CHECKPOINT_FORMAT_VERSION) (rows_of run t)"
    using assms(1) by (auto simp: list_ex_iff)
  ultimately show ?thesis
    using assms(2) by (simp add: load_checkpoint_def resume_of_def Let_def last_map)
qed

lemma label_resumes:
  assumes "0 < n" "n \<le> length run_labels"
  shows "getResumeIndex (last (take n run_labels)) = (if n = 1 then 1 else 0)"
proof -
  have "n \<in> {1, 2, 3, 4, 5}" using assms by (auto simp: run_labels_def)
  then show ?thesis by (auto simp: run_labels_def getResumeIndex_def STAGES_def numeral_eq_Suc)
qed

section \<open>An example run\<close>

definition example_score :: score_result where
  "example_score = (the (score_domain example_environment example_engine example_input))\<lparr>recommended := True, signalStatus := []\<rparr>"

definition clear_result :: gate_result where
  "clear_result = \<lparr>g_domain = ''a.com'', g_verdict = Clear, g_partial = Some False,
     verifiedSources = [''USPTO''], usptoFailed = None, matched = None\<rparr>"

definition prompt :: stage_timing where
  "prompt = \<lparr>settles_at = (\<lambda>_ _. Some 1), fails_with = (\<lambda>_. None), begins_at = (\<lambda>_. 0),
     aborted_after = (\<lambda>_. False)\<rparr>"

text \<open>The gate's signal is aborted or not.\<close>

definition gate_world :: "bool \<Rightarrow> run_world" where
  "gate_world ab = \<lparr>
     generation = (\<lambda>_. Some \<lparr>passed = example_candidates, filtered = [],
        stageName = ''CandidateGenerationStage'', degradations = []\<rparr>),
     generation_settles = Some 1, generation_begins = 0,
     dns_at = (\<lambda>_ _. example_dns), dns_timing = prompt,
     rdap_at = (\<lambda>_ _. example_rdap), rdap_timing = prompt,
     scoring_at = (\<lambda>_ _. \<lparr>score_call = (\<lambda>_. Some example_score), sc_concurrency = 1, waybackProvider = None,
        sc_aborted = (\<lambda>_. False)\<rparr>), scoring_timing = prompt,
     tm_at = (\<lambda>_ _. \<lparr>gate_check = (\<lambda>_. Inr clear_result), tm_concurrency = 1, tm_aborted = (\<lambda>_. ab)\<rparr>),
     tm_timing = prompt,
     isAborted = (\<lambda>_. False), lock_available = (\<lambda>_. True)\<rparr>"

abbreviation example_world :: run_world where
  "example_world \<equiv> gate_world False"

definition example_orchestrator :: orchestrator where
  "example_orchestrator = \<lparr>timeoutMs = 1000, stageBudget = \<lparr>baseMs = None, perCandidateMs = None,
     capMs = None, graceMs = None\<rparr>, show_number = (\<lambda>_. ''n'')\<rparr>"

lemma prompt_timed:
  "runStageTimed example_orchestrator n 0 (attempt (env_of prompt f) k)
   = Some (Inr (f k (Some (min 1000 (computeStageBudgetMs n (stageBudget example_orchestrator)))), False))"
  by (simp add: runStageTimed_def deadline_passed_def effective_timeout_def computeStageBudgetMs_def
      env_of_def prompt_def example_orchestrator_def with_default_def Let_def STAGE_BUDGET_DEFAULT_GRACE_MS_def)

lemma prompt_outcome:
  "runStageWithCheckpoint example_orchestrator i label 0 saved n (env_of prompt f) acc
   = (let r = f 1 (Some (min 1000 (computeStageBudgetMs n (stageBudget example_orchestrator))))
      in (Result r, note_result label n False r acc))"
proof -
  have "elapsed_at (env_of prompt f) 1 = 0" by (simp add: env_of_def prompt_def)
  then show ?thesis
    using prompt_timed [of n f 1]
    by (simp add: runStageWithCheckpoint_def runStageSafe_def STAGE_RETRY_MAX_def numeral_eq_Suc Let_def)
qed

lemma example_dns_stage:
  "\<exists>c. passed (dns_process example_dns example_candidates) = [c] \<and> c_domain c = ''a.com'' \<and> c_source c = KeywordCombo
     \<and> forceWhoisRecheck c = False
     \<and> degradations (dns_process example_dns example_candidates) = []"
  by (simp add: dns_process_def example_dns_def example_candidates_def new_candidate_def Let_def
      resolveBulkWithFallback_def is_skipped_def first_of_def judge_dns_def dnssecPasses_def numeral_eq_Suc
      pass_dns_def record_dns_def available_count_def validated_count_def)

lemma example_rdap_stage:
  assumes "c_domain c = ''a.com''"  "forceWhoisRecheck c = False"
  shows "\<exists>b. passed (fst (rdap_process example_rdap [c])) = [b] \<and> c_domain b = ''a.com''
    \<and> known [b] = [b] \<and> degradations (fst (rdap_process example_rdap [c])) = []"
  using assms
  by (simp add: rdap_process_def example_rdap_def Let_def first_leg_def known_def
      processed_first_def judge_rdap_def check_availability_def rdapProviderFor_def rdapToResult_def
      free_answer_def record_rdap_def)

lemma gate_world_simps:
  "generation_begins (gate_world ab) = 0" "dns_at (gate_world ab) k t = example_dns" "dns_timing (gate_world ab) = prompt"
  "rdap_at (gate_world ab) k t = example_rdap" "rdap_timing (gate_world ab) = prompt"
  "scoring_at (gate_world ab) k t = \<lparr>score_call = (\<lambda>_. Some example_score), sc_concurrency = 1, waybackProvider = None,
        sc_aborted = (\<lambda>_. False)\<rparr>" "scoring_timing (gate_world ab) = prompt"
  "tm_at (gate_world ab) k t = \<lparr>gate_check = (\<lambda>_. Inr clear_result), tm_concurrency = 1, tm_aborted = (\<lambda>_. ab)\<rparr>"
  "tm_timing (gate_world ab) = prompt" "isAborted (gate_world ab) pl = False" "lock_available (gate_world ab) l = True"
  by (simp_all add: gate_world_def)

text \<open>A finished run without degradations that recommends exactly some domains.\<close>

definition recommends_cleanly :: "run_end \<times> saves \<Rightarrow> string list \<Rightarrow> bool" where
  "recommends_cleanly x ds = (case fst x of
     Finished res \<Rightarrow> domains_of (r_recommended res) = ds \<and> \<not> degraded res | _ \<Rightarrow> False)"

lemma gate_run:
  "recommends_cleanly (runInternal example_orchestrator (gate_world ab) i None) (if ab then [] else [''a.com''])
   \<and> length (snd (runInternal example_orchestrator (gate_world ab) i None)) = 5"
proof -
  obtain c where c: "passed (dns_process example_dns example_candidates) = [c]" "c_domain c = ''a.com''"
    "forceWhoisRecheck c = False" "degradations (dns_process example_dns example_candidates) = []"
    using example_dns_stage by blast
  obtain b where b: "passed (fst (rdap_process example_rdap [c])) = [b]" "c_domain b = ''a.com''" "known [b] = [b]"
    "degradations (fst (rdap_process example_rdap [c])) = []"
    using example_rdap_stage [OF c(2,3)] by blast
  have w: "withTimeout example_orchestrator 0 (generation_promise (gate_world a) i)
      = Some (Inr \<lparr>passed = example_candidates, filtered = [], stageName = ''CandidateGenerationStage'', degradations = []\<rparr>)" for a
    by (simp add: withTimeout_def example_orchestrator_def generation_promise_def gate_world_def Let_def)
  show ?thesis
    by (cases ab) (simp_all add: runInternal_def w after_generation_def stages_from_dns_def proceed_def dns_outcome_def
      rdap_outcome_def scoring_outcome_def tm_outcome_def prompt_outcome Let_def
      unless_restored_def save_base_def save_scored_def assemble_def note_result_def no_account_def recommends_cleanly_def gate_world_simps
      c b  scoring_process_def tm_process_def judge_score_def judge_tm_def clear_result_def
      commercial_unavailable_def example_score_def enrich_def numeral_eq_Suc)
qed

lemmas example_run = gate_run [of False, simplified]

text \<open>
  A run whose signal is aborted while the gate works: the gate stops, nothing reads the signal
  after it, and the run reports a complete result that lacks the candidates not yet checked.
\<close>

lemma abort_in_gate_unreported:
  "recommends_cleanly (runInternal example_orchestrator (gate_world True) i None) []"
  "recommends_cleanly (runInternal example_orchestrator (gate_world False) i None) [''a.com'']"
  using gate_run [of True i] gate_run [of False i] by simp_all

lemma finished_run_vetted:
  assumes "runInternal cfg w input cp = (Finished res, sv)" "resume_of cp \<le> 1" "c \<in> set (r_recommended res)"
  shows "\<exists>genP genF. starts_from w input cp genP genF \<and> (\<exists>g \<in> set genP. vetted w g c)"
  using run_finished [OF assms(1)]
proof
  assume "\<exists>f. res = failed_generation f"
  then show ?thesis using assms(3) by (auto simp: failed_generation_def)
next
  assume "\<exists>genP genF x. starts_from w input cp genP genF
    \<and> stages_ran cfg w (resume_of cp) (results_of cp) genP x
    \<and> res = assemble genF (filtered (t_dns x)) (filtered (t_rdap x)) (t_scoring x) (t_tm x) (t_acc x 4)"
  then obtain genP genF x where x: "starts_from w input cp genP genF"
    "stages_ran cfg w (resume_of cp) (results_of cp) genP x"
    "res = assemble genF (filtered (t_dns x)) (filtered (t_rdap x)) (t_scoring x) (t_tm x) (t_acc x 4)"
    by blast
  have "c \<in> set (passed (t_tm x))" using assms(3) by (simp add: x(3) assemble_def)
  from stages_ran_vetted [OF x(2) assms(2) this] x(1) show ?thesis by blast
qed

section \<open>Properties\<close>


definition example_request :: generation_input where
  "example_request = \<lparr>g_keywords = [''a'', ''b''], brandableNames = [], closeoutDomains = [],
     closeoutEntries = [], domains = [], sectorKeywords = [], randomCount = 0, externalRunId = None\<rparr>"

lemma example_start:
  "starts_from example_world example_request None genP genF \<longleftrightarrow> genP = example_candidates \<and> genF = []"
  by (auto simp: starts_from_def resume_of_def gate_world_def)

lemma example_finished:
  obtains res sv where "runInternal example_orchestrator example_world example_request None = (Finished res, sv)"
    "domains_of (r_recommended res) = [''a.com'']" "\<not> degraded res" "length sv = 5"
  using example_run [of example_request] that
  by (cases "runInternal example_orchestrator example_world example_request None")
    (auto simp: recommends_cleanly_def split: run_end.splits)


text \<open>
  C3. A run that reports no degradation loses nothing: if no stage was disturbed, the domains
  of all candidates of the result are, with multiplicity, exactly those that the run started
  from, passed and filtered; in particular the filter of unknown RDAP states between the
  stages drops nothing.
\<close>

theorem clean_run_accounts:
  assumes "runInternal cfg w input cp = (Finished res, sv)" "resume_of cp \<le> 1" "\<not> degraded res"
    "undisturbed_run w"
  shows "\<exists>genP genF. starts_from w input cp genP genF
    \<and> mset (domains_of (allCandidates res)) = mset (domains_of genF) + mset (domains_of genP)"
  using run_finished [OF assms(1)]
proof
  assume "\<exists>f. res = failed_generation f"
  then show ?thesis using assms(3) by (auto simp: failed_generation_def)
next
  assume "\<exists>genP genF x. starts_from w input cp genP genF
    \<and> stages_ran cfg w (resume_of cp) (results_of cp) genP x
    \<and> res = assemble genF (filtered (t_dns x)) (filtered (t_rdap x)) (t_scoring x) (t_tm x) (t_acc x 4)"
  then obtain genP genF x where x: "starts_from w input cp genP genF"
    "stages_ran cfg w (resume_of cp) (results_of cp) genP x"
    "res = assemble genF (filtered (t_dns x)) (filtered (t_rdap x)) (t_scoring x) (t_tm x) (t_acc x 4)"
    by blast
  have "clean (t_acc x 4)" using assms(3) by (simp add: x(3) assemble_def clean_def)
  from stages_ran_accounts [OF x(2) assms(2) this assms(4), of genF] x(1,3) show ?thesis by blast
qed

theorem clean_run_accounts_witness:
  "\<exists>res sv. runInternal example_orchestrator example_world example_request None = (Finished res, sv)
     \<and> mset (domains_of (allCandidates res)) = {#''a.com'', ''b.com''#}"
proof -
  obtain res sv where r: "runInternal example_orchestrator example_world example_request None = (Finished res, sv)"
    "\<not> degraded res"
    by (rule example_finished)
  have "undisturbed_run example_world"
    by (simp add: undisturbed_run_def gate_world_simps rdap_undisturbed_def scoring_undisturbed_def
        tm_undisturbed_def example_dns_def example_rdap_def)
  from clean_run_accounts [OF r(1) _ r(2) this] r(1) show ?thesis
    by (auto simp: resume_of_def example_start example_candidates_def new_candidate_def)
qed

text \<open>
  C11. With a time limit for the run, a run ends: whichever stage hangs for ever, in whichever
  attempt, the run finishes, reports the deadline or a missing lock, but never gets stuck.
\<close>

theorem run_never_stuck:
  assumes "0 < timeoutMs cfg"
  shows "fst (runInternal cfg w input cp) \<noteq> Stuck"
proof -
  note settles = safe_result_cases [OF disjI1 [OF assms]]
  have stages: "fst (stages_from_dns cfg w resume cps genP genF acc sv) \<noteq> Stuck" for resume cps genP genF acc sv
    unfolding stages_from_dns_def
    by (intro proceed_not_stuck) (simp_all add: dns_outcome_def rdap_outcome_def scoring_outcome_def
        tm_outcome_def settles)
  have "withTimeout cfg (generation_begins w) (generation_promise w input) \<noteq> None"
    using assms by (auto simp: withTimeout_def Let_def split: promise.split)
  then show ?thesis
    by (auto simp: runInternal_def after_generation_def Let_def stages split: option.split sum.split)
qed

theorem run_never_stuck_witness:
  "fst (runInternal example_orchestrator (example_world\<lparr>generation_settles := None\<rparr>) example_request None) \<noteq> Stuck"
  by (rule run_never_stuck) (simp add: example_orchestrator_def)

text \<open>
  C29. What a crash leaves is resumed from the generation or not at all: if a run without
  checkpoints dies after its first \<open>n\<close> saves, the table holds exactly the stages that it had
  saved, and loading it within a day resumes behind the generation if that is all that was
  saved; once a later stage has been saved the run starts from scratch, because the labels
  that the orchestrator saves the later stages under are not the names of \<open>STAGES\<close>.
\<close>

theorem crash_resumes_generation_only:
  assumes "rows_of run t = []"
  shows "(let saved = length (take n (snd (runInternal cfg w input None)));
              t' = crashed_run cfg w now input run n t
          in map cr_stage (rows_of run t') = take saved run_labels
             \<and> resume_of (load_checkpoint u run t')
               = (if u - now \<le> CHECKPOINT_MAX_AGE_MS \<and> saved = 1 then 1 else 0))"
proof -
  define sv where "sv = take n (snd (runInternal cfg w input None))"
  define t' where "t' = crashed_run cfg w now input run n t"
  have l: "load_checkpoint now run t = None" using assms(1) by (simp add: load_checkpoint_def)
  have t': "t' = apply_saves now run sv t" by (simp add: t'_def sv_def crashed_run_def l)
  have "prefix (map fst sv) run_labels"
    using run_saves [of cfg w input] unfolding sv_def take_map [symmetric]
    by (metis take_is_prefix prefix_order.trans)
  then obtain rest where r: "run_labels = map fst sv @ rest" by (auto simp: prefix_def)
  have sv: "map fst sv = take (length sv) run_labels" unfolding r by simp
  have le: "length sv \<le> length run_labels" unfolding r by simp
  have "distinct run_labels" by (simp add: run_labels_def)
  then have "distinct (map cr_stage (rows_of run t) @ map fst sv)" by (simp add: assms(1) sv(1))
  from apply_saves_rows [OF this] have rows: "map cr_stage (rows_of run t') = map fst sv"
    by (simp add: t' assms(1))
  have fresh: "\<forall>r \<in> set (rows_of run t'). cr_createdAt r = now \<and> cr_version r = CHECKPOINT_FORMAT_VERSION"
    unfolding t' by (rule apply_saves_fresh) (simp add: assms(1))
  have "resume_of (load_checkpoint u run t')
      = (if u - now \<le> CHECKPOINT_MAX_AGE_MS \<and> length sv = 1 then 1 else 0)"
  proof (cases "sv = []")
    case True
    then have "rows_of run t' = []" using rows by simp
    then show ?thesis using True by (simp add: load_checkpoint_def resume_of_def)
  next
    case False
    then have "rows_of run t' \<noteq> []" using rows by auto
    from resume_of_load [OF fresh this] have "resume_of (load_checkpoint u run t')
        = (if u - now \<le> CHECKPOINT_MAX_AGE_MS then getResumeIndex (last (take (length sv) run_labels)) else 0)"
      by (simp only: rows sv)
    moreover have "getResumeIndex (last (take (length sv) run_labels)) = (if length sv = 1 then 1 else 0)"
      by (rule label_resumes) (use False le in auto)
    ultimately show ?thesis by (simp only: if_distrib) simp
  qed
  with rows sv show ?thesis unfolding Let_def t'_def [symmetric] sv_def [symmetric] by simp
qed

theorem crash_resumes_generation_only_witness:
  "resume_of (load_checkpoint 5 ''r'' (crashed_run example_orchestrator example_world 0 example_request ''r'' 1 [])) = 1
   \<and> resume_of (load_checkpoint 5 ''r'' (crashed_run example_orchestrator example_world 0 example_request ''r'' 2 [])) = 0"
proof -
  have l: "length (snd (runInternal example_orchestrator example_world example_request None)) = 5"
    using example_run [of example_request] by simp
  have e: "rows_of ''r'' ([] :: scored_candidate checkpoints) = []" by (simp add: rows_of_def)
  note t = crash_resumes_generation_only [OF e, of _ example_orchestrator example_world example_request 0 5]
  show ?thesis using t [of 1] t [of 2] by (simp add: Let_def l CHECKPOINT_MAX_AGE_MS_def)
qed

end
