(* ===== verification/Usage.thy ===== *)
theory Usage
  imports Generation
begin

text \<open>
  Plans, subscriptions and the metering of usage: \<open>services/effective-plan.ts\<close>,
  \<open>services/usage-meter-service.ts\<close>, \<open>services/pipeline-usage-enforcer.ts\<close> and the repositories
  \<open>db/repositories/usage-repository.ts\<close> and \<open>subscription-repository.ts\<close>.

  The table \<open>usage_records\<close> is unique in tenant, feature and period, hence a map to amounts;
  \<open>tenant_subscriptions\<close> is unique in the tenant. A period is a calendar month, as the number of
  months since year 0, whose text \<open>YYYY-MM-01\<close> orders in the same way. A \<open>null\<close> limit is \<open>None\<close>:
  no limit. The SQL statements are atomic, so an interleaving of requests is a sequence of them.
\<close>

section \<open>Plans and subscriptions\<close>

datatype subscription_plan = PlanFree | PlanPro | PlanTeam | PlanEnterprise

datatype subscription_status = SubActive | SubPastDue | SubCanceled | SubIncomplete | SubTrialing

record subscription =
  s_plan :: subscription_plan
  s_status :: subscription_status
  stripeCustomerId :: "string option"
  stripeSubscriptionId :: "string option"
  currentPeriodStart :: "ms option"
  currentPeriodEnd :: "ms option"
  trialEnd :: "ms option"
  canceledAt :: "ms option"

type_synonym subscriptions = "string \<rightharpoonup> subscription"

definition default_subscription :: subscription where
  "default_subscription = \<lparr>s_plan = PlanFree, s_status = SubActive, stripeCustomerId = None,
     stripeSubscriptionId = None, currentPeriodStart = None, currentPeriodEnd = None,
     trialEnd = None, canceledAt = None\<rparr>"

definition ensureDefault :: "string \<Rightarrow> subscriptions \<Rightarrow> subscription \<times> subscriptions" where
  "ensureDefault tenant sbs =
     (case sbs tenant of Some s \<Rightarrow> (s, sbs)
      | None \<Rightarrow> (default_subscription, sbs(tenant \<mapsto> default_subscription)))"

definition ACTIVE_PLAN_STATUSES :: "subscription_status list" where
  "ACTIVE_PLAN_STATUSES = [SubActive, SubTrialing]"

definition effectivePlanFor :: "subscription option \<Rightarrow> subscription_plan option \<Rightarrow> subscription_plan" where
  "effectivePlanFor sub planOverride =
     (case planOverride of Some p \<Rightarrow> p
      | None \<Rightarrow> (case sub of
            Some s \<Rightarrow> if s_status s \<in> set ACTIVE_PLAN_STATUSES then s_plan s else PlanFree
          | None \<Rightarrow> PlanFree))"

section \<open>The usage repository\<close>

datatype usage_feature = CandidatesScored | ApiCalls | DomainsTracked

definition USAGE_FEATURES :: "usage_feature list" where
  "USAGE_FEATURES = [CandidatesScored, ApiCalls, DomainsTracked]"

type_synonym usage_table = "string \<times> usage_feature \<times> int \<rightharpoonup> nat"

type_synonym plan_limits = "subscription_plan \<times> usage_feature \<rightharpoonup> nat option"

definition incrementUsage :: "string \<Rightarrow> usage_feature \<Rightarrow> nat \<Rightarrow> int \<Rightarrow> usage_table \<Rightarrow> usage_table" where
  "incrementUsage tenant f amount p t =
     t((tenant, f, p) \<mapsto> (case t (tenant, f, p) of Some a \<Rightarrow> a + amount | None \<Rightarrow> amount))"

text \<open>The guard of the \<open>INSERT\<close> applies whether or not a row exists, the one of \<open>ON CONFLICT\<close>
  to the new total.\<close>

definition incrementUsageIfWithinLimit ::
  "string \<Rightarrow> usage_feature \<Rightarrow> nat \<Rightarrow> int \<Rightarrow> nat option \<Rightarrow> usage_table \<Rightarrow> bool \<times> usage_table" where
  "incrementUsageIfWithinLimit tenant f amount p limit t =
     (case limit of
        None \<Rightarrow> (True, incrementUsage tenant f amount p t)
      | Some l \<Rightarrow>
          if \<not> amount \<le> l then (False, t)
          else (case t (tenant, f, p) of
              None \<Rightarrow> (True, t((tenant, f, p) \<mapsto> amount))
            | Some a \<Rightarrow> if a + amount \<le> l then (True, t((tenant, f, p) \<mapsto> a + amount)) else (False, t)))"

definition decrementUsage :: "string \<Rightarrow> usage_feature \<Rightarrow> nat \<Rightarrow> int \<Rightarrow> usage_table \<Rightarrow> usage_table" where
  "decrementUsage tenant f amount p t =
     (case t (tenant, f, p) of
        None \<Rightarrow> t
      | Some a \<Rightarrow> t((tenant, f, p) \<mapsto> (if int a - int amount < 0 then 0 else a - amount)))"

definition usageForPeriod :: "string \<Rightarrow> usage_feature \<Rightarrow> int \<Rightarrow> usage_table \<Rightarrow> nat" where
  "usageForPeriod tenant f p t = (case t (tenant, f, p) of Some a \<Rightarrow> a | None \<Rightarrow> 0)"

definition setPlanLimit :: "subscription_plan \<Rightarrow> usage_feature \<Rightarrow> nat option \<Rightarrow> plan_limits \<Rightarrow> plan_limits" where
  "setPlanLimit plan f l ls = ls((plan, f) \<mapsto> l)"

text \<open>\<open>limit?.limitValue ?? null\<close>: a plan without a row for the feature has no limit.\<close>

definition limitValueOf :: "plan_limits \<Rightarrow> subscription_plan \<Rightarrow> usage_feature \<Rightarrow> nat option" where
  "limitValueOf ls plan f = (case ls (plan, f) of Some l \<Rightarrow> l | None \<Rightarrow> None)"

section \<open>The meter\<close>

record usage_meter =
  autoProvisionTenants :: bool
  planOverride :: "string \<Rightarrow> subscription_plan option"

record usage_db =
  sub_rows :: subscriptions
  usage_rows :: usage_table
  limit_rows :: plan_limits

datatype usage_error =
    NoSubscription
  | UsageLimitExceeded usage_feature nat nat "nat option"
  | TenantSuspended

record usage_for_period =
  u_feature :: usage_feature
  currentUsage :: nat
  limitValue :: "nat option"
  u_remaining :: "nat option"
  isOverLimit :: bool
  u_plan :: subscription_plan
  u_period :: int

definition resolvePlan :: "usage_meter \<Rightarrow> string \<Rightarrow> subscription option \<Rightarrow> subscription_plan" where
  "resolvePlan m tenant sub = effectivePlanFor sub (planOverride m tenant)"

definition effectivePlan :: "usage_meter \<Rightarrow> string \<Rightarrow> usage_db \<Rightarrow> subscription_plan" where
  "effectivePlan m tenant db = resolvePlan m tenant (sub_rows db tenant)"

definition usage_report ::
  "usage_feature \<Rightarrow> nat \<Rightarrow> nat option \<Rightarrow> subscription_plan \<Rightarrow> int \<Rightarrow> usage_for_period" where
  "usage_report f current l plan p =
     \<lparr>u_feature = f, currentUsage = current, limitValue = l,
      u_remaining = map_option (\<lambda>v. v - current) l,
      isOverLimit = (case l of Some v \<Rightarrow> v \<le> current | None \<Rightarrow> False), u_plan = plan, u_period = p\<rparr>"

definition getUsageForPeriod ::
  "usage_meter \<Rightarrow> string \<Rightarrow> usage_feature \<Rightarrow> int \<Rightarrow> usage_db \<Rightarrow> usage_for_period" where
  "getUsageForPeriod m tenant f p db =
     (let plan = resolvePlan m tenant (sub_rows db tenant)
      in usage_report f (usageForPeriod tenant f p (usage_rows db)) (limitValueOf (limit_rows db) plan f) plan p)"

definition record_usage ::
  "usage_meter \<Rightarrow> string \<Rightarrow> usage_feature \<Rightarrow> nat \<Rightarrow> int \<Rightarrow> usage_db \<Rightarrow>
   (usage_error + usage_for_period) \<times> usage_db" where
  "record_usage m tenant f amount p db =
     (let db1 = (if sub_rows db tenant = None \<and> autoProvisionTenants m
                 then db\<lparr>sub_rows := snd (ensureDefault tenant (sub_rows db))\<rparr> else db) in
      case sub_rows db1 tenant of
        None \<Rightarrow> (Inl NoSubscription, db1)
      | Some s \<Rightarrow>
          let l = limitValueOf (limit_rows db1) (resolvePlan m tenant (Some s)) f;
              (applied, t) = incrementUsageIfWithinLimit tenant f amount p l (usage_rows db1)
          in if \<not> applied
             then (Inl (UsageLimitExceeded f (usageForPeriod tenant f p t) amount l), db1\<lparr>usage_rows := t\<rparr>)
             else (Inr (getUsageForPeriod m tenant f p (db1\<lparr>usage_rows := t\<rparr>)), db1\<lparr>usage_rows := t\<rparr>))"

definition refund :: "string \<Rightarrow> usage_feature \<Rightarrow> nat \<Rightarrow> int \<Rightarrow> usage_db \<Rightarrow> usage_db" where
  "refund tenant f amount p db = db\<lparr>usage_rows := decrementUsage tenant f amount p (usage_rows db)\<rparr>"

section \<open>The history\<close>

text \<open>The rows in a range of periods, the sums by period and feature, and one report for each month
  up to the current one, oldest first.\<close>

definition findUsageByPeriodRange ::
  "string \<Rightarrow> int \<Rightarrow> int \<Rightarrow> ((string \<times> usage_feature \<times> int) \<times> nat) list \<Rightarrow>
   (usage_feature \<times> int \<times> nat) list" where
  "findUsageByPeriodRange tenant from_p to_p rows =
     [(f, p, a). ((t, f, p), a) \<leftarrow> rows, t = tenant \<and> from_p \<le> p \<and> p \<le> to_p]"

definition period_sum :: "(usage_feature \<times> int \<times> nat) list \<Rightarrow> int \<Rightarrow> usage_feature \<Rightarrow> nat" where
  "period_sum rs p f = sum_list [a. (f', p', a) \<leftarrow> rs, f' = f \<and> p' = p]"

definition getUsageHistory ::
  "usage_meter \<Rightarrow> string \<Rightarrow> nat \<Rightarrow> int \<Rightarrow> ((string \<times> usage_feature \<times> int) \<times> nat) list \<Rightarrow>
   subscriptions \<Rightarrow> plan_limits \<Rightarrow> (int \<times> (usage_feature \<times> usage_for_period) list) list" where
  "getUsageHistory m tenant months now rows sbs ls =
     (let plan = resolvePlan m tenant (sbs tenant);
          rs = findUsageByPeriodRange tenant (now - (int months - 1)) now rows
      in map (\<lambda>k. let p = now - (int months - 1) + int k
                  in (p, map (\<lambda>f. (f, usage_report f (period_sum rs p f) (limitValueOf ls plan f) plan p))
                             USAGE_FEATURES))
             [0..<months])"

section \<open>The enforcer at the entry points\<close>

definition estimateCandidateCount :: "generation_input \<Rightarrow> nat" where
  "estimateCandidateCount input =
     max 1 (length (g_keywords input) + length (brandableNames input) + length (closeoutDomains input)
            + length (closeoutEntries input) + length (domains input))"

record usage_enforcer =
  e_meter :: usage_meter
  enforcing :: bool
  suspended :: "string \<Rightarrow> bool" \<comment> \<open>what the admin repository says, nobody without one\<close>

definition checkAndRecord ::
  "usage_enforcer \<Rightarrow> string \<Rightarrow> usage_feature \<Rightarrow> nat \<Rightarrow> int \<Rightarrow> usage_db \<Rightarrow> (usage_error + unit) \<times> usage_db" where
  "checkAndRecord e tenant f amount p db =
     (if \<not> enforcing e then (Inr (), db)
      else if suspended e tenant then (Inl TenantSuspended, db)
      else case record_usage (e_meter e) tenant f amount p db of
             (Inl err, db') \<Rightarrow> (Inl err, db') | (Inr _, db') \<Rightarrow> (Inr (), db'))"

definition checkAndRecordCandidates ::
  "usage_enforcer \<Rightarrow> string \<Rightarrow> generation_input \<Rightarrow> int \<Rightarrow> usage_db \<Rightarrow> (usage_error + unit) \<times> usage_db" where
  "checkAndRecordCandidates e tenant input p db =
     checkAndRecord e tenant CandidatesScored (estimateCandidateCount input) p db"

definition checkAndRecordTracked ::
  "usage_enforcer \<Rightarrow> string \<Rightarrow> nat \<Rightarrow> int \<Rightarrow> usage_db \<Rightarrow> (usage_error + unit) \<times> usage_db" where
  "checkAndRecordTracked e tenant amount p db = checkAndRecord e tenant DomainsTracked amount p db"

definition refundTracked :: "usage_enforcer \<Rightarrow> string \<Rightarrow> nat \<Rightarrow> int \<Rightarrow> usage_db \<Rightarrow> usage_db" where
  "refundTracked e tenant amount p db =
     (if \<not> enforcing e then db else refund tenant DomainsTracked amount p db)"

section \<open>Requests in any order\<close>

datatype usage_op =
    Meter string usage_feature nat int
  | Refund string usage_feature nat int

fun usage_step :: "usage_meter \<Rightarrow> usage_op \<Rightarrow> usage_db \<Rightarrow> bool \<times> usage_db" where
  "usage_step m (Meter tenant f amount p) db =
     (let (r, db') = record_usage m tenant f amount p db in (\<not> isl r, db'))"
| "usage_step m (Refund tenant f amount p) db = (False, refund tenant f amount p db)"

fun usage_run :: "usage_meter \<Rightarrow> usage_op list \<Rightarrow> usage_db \<Rightarrow> bool list \<times> usage_db" where
  "usage_run m [] db = ([], db)"
| "usage_run m (x # xs) db =
     (let (b, db1) = usage_step m x db; (bs, db2) = usage_run m xs db1 in (b # bs, db2))"

text \<open>The amounts a list of reports granted for one tenant, feature and period.\<close>

fun granted_amount :: "string \<Rightarrow> usage_feature \<Rightarrow> int \<Rightarrow> usage_op list \<Rightarrow> bool list \<Rightarrow> nat" where
  "granted_amount tenant f p (Meter t g a q # xs) (b # bs) =
     (if b \<and> t = tenant \<and> g = f \<and> q = p then a else 0) + granted_amount tenant f p xs bs"
| "granted_amount tenant f p (Refund t g a q # xs) (b # bs) = granted_amount tenant f p xs bs"
| "granted_amount tenant f p _ _ = 0"

text \<open>What a tenant may use of a feature, by plan and limits.\<close>

definition allowance :: "usage_meter \<Rightarrow> string \<Rightarrow> usage_feature \<Rightarrow> usage_db \<Rightarrow> nat option" where
  "allowance m tenant f db = limitValueOf (limit_rows db) (effectivePlan m tenant db) f"

lemma effectivePlan_default [simp]:
  "effectivePlanFor (Some default_subscription) ov = effectivePlanFor None ov"
  by (simp add: effectivePlanFor_def default_subscription_def ACTIVE_PLAN_STATUSES_def split: option.split)

text \<open>Auto-provisioning gives a tenant the plan that it has without a subscription.\<close>

lemma record_usage_eq:
  "record_usage m tenant f amount p db =
     (if sub_rows db tenant = None \<and> \<not> autoProvisionTenants m then (Inl NoSubscription, db)
      else let db1 = (if sub_rows db tenant = None
                      then db\<lparr>sub_rows := (sub_rows db)(tenant \<mapsto> default_subscription)\<rparr> else db);
               (applied, t) = incrementUsageIfWithinLimit tenant f amount p (allowance m tenant f db) (usage_rows db)
           in if applied then (Inr (getUsageForPeriod m tenant f p (db1\<lparr>usage_rows := t\<rparr>)), db1\<lparr>usage_rows := t\<rparr>)
              else (Inl (UsageLimitExceeded f (usageForPeriod tenant f p t) amount (allowance m tenant f db)),
                    db1\<lparr>usage_rows := t\<rparr>))"
  by (auto simp: record_usage_def allowance_def effectivePlan_def resolvePlan_def ensureDefault_def
      Let_def split: option.split prod.split)

lemma increment_refused: "incrementUsageIfWithinLimit tenant f amount p l t = (False, t') \<Longrightarrow> t' = t"
  by (auto simp: incrementUsageIfWithinLimit_def split: option.splits if_splits)

lemma increment_other:
  "incrementUsageIfWithinLimit tenant f amount p l t = (b, t') \<Longrightarrow> k \<noteq> (tenant, f, p) \<Longrightarrow> t' k = t k"
  by (auto simp: incrementUsageIfWithinLimit_def incrementUsage_def split: option.splits if_splits)

lemma increment_granted:
  "incrementUsageIfWithinLimit tenant f amount p l t = (True, t') \<Longrightarrow>
   usageForPeriod tenant f p t' = usageForPeriod tenant f p t + amount \<and>
   (\<forall>v. l = Some v \<longrightarrow> usageForPeriod tenant f p t' \<le> v)"
  by (auto simp: incrementUsageIfWithinLimit_def incrementUsage_def usageForPeriod_def
      split: option.splits if_splits)

lemma increment_refused_iff:
  "incrementUsageIfWithinLimit tenant f amount p l t = (False, t') \<longleftrightarrow>
   t' = t \<and> (\<exists>v. l = Some v \<and> v < usageForPeriod tenant f p t + amount)"
  by (auto simp: incrementUsageIfWithinLimit_def incrementUsage_def usageForPeriod_def
      split: option.splits if_splits)

lemma allowance_record [simp]:
  "allowance m t g (snd (record_usage m tenant f amount p db)) = allowance m t g db"
  by (auto simp: record_usage_eq allowance_def effectivePlan_def resolvePlan_def Let_def split: prod.split)

lemma allowance_step [simp]: "allowance m t g (snd (usage_step m x db)) = allowance m t g db"
  by (cases x) (auto simp: split_beta refund_def allowance_def [of _ _ _ "db\<lparr>usage_rows := _\<rparr>"]
      effectivePlan_def allowance_def [of _ _ _ db])

lemma usage_step_key:
  "usageForPeriod tenant f p (usage_rows (snd (usage_step m x db))) \<le>
     usageForPeriod tenant f p (usage_rows db) + granted_amount tenant f p [x] [fst (usage_step m x db)] \<and>
   (granted_amount tenant f p [x] [fst (usage_step m x db)] \<noteq> 0 \<longrightarrow>
     (\<forall>v. allowance m tenant f db = Some v \<longrightarrow>
        usageForPeriod tenant f p (usage_rows (snd (usage_step m x db))) \<le> v))"
proof (cases x)
  case (Meter t g a q)
  obtain b t' where i: "incrementUsageIfWithinLimit t g a q (allowance m t g db) (usage_rows db) = (b, t')"
    by fastforce
  have key: "usageForPeriod tenant f p t' =
      usageForPeriod tenant f p (usage_rows db) + (if b \<and> (t, g, q) = (tenant, f, p) then a else 0)"
  proof (cases "(t, g, q) = (tenant, f, p)")
    case True
    then show ?thesis using i increment_granted [of t g a q _ "usage_rows db" t'] increment_refused [of t g a q _ "usage_rows db" t']
      by (cases b) auto
  next
    case False
    then show ?thesis using increment_other [OF i, of "(tenant, f, p)"] by (auto simp: usageForPeriod_def)
  qed
  show ?thesis
  proof (cases "sub_rows db t = None \<and> \<not> autoProvisionTenants m")
    case True then show ?thesis by (simp add: Meter record_usage_eq)
  next
    case False
    then have s: "fst (usage_step m x db) = b" "usage_rows (snd (usage_step m x db)) = t'"
      by (auto simp: Meter record_usage_eq i Let_def split_beta)
    show ?thesis
      unfolding s using key increment_granted [of t g a q "allowance m t g db" "usage_rows db" t'] i
      by (auto simp: Meter)
  qed
next
  case (Refund t g a q)
  then show ?thesis
    by (auto simp: refund_def decrementUsage_def usageForPeriod_def split: option.split)
qed

section \<open>Properties\<close>

lemma usage_run_bounds:
  "(\<forall>v. allowance m tenant f db = Some v \<longrightarrow> usageForPeriod tenant f p (usage_rows db) \<le> v \<longrightarrow>
      usageForPeriod tenant f p (usage_rows (snd (usage_run m xs db))) \<le> v) \<and>
   usageForPeriod tenant f p (usage_rows (snd (usage_run m xs db))) \<le>
     usageForPeriod tenant f p (usage_rows db) + granted_amount tenant f p xs (fst (usage_run m xs db))"
proof (induction xs arbitrary: db)
  case Nil then show ?case by simp
next
  case (Cons x xs)
  obtain b db1 where st: "usage_step m x db = (b, db1)" by fastforce
  have al: "allowance m tenant f db1 = allowance m tenant f db"
    using allowance_step [of m tenant f x db] st by simp
  have k: "usageForPeriod tenant f p (usage_rows db1) \<le>
      usageForPeriod tenant f p (usage_rows db) + granted_amount tenant f p [x] [b]"
    "granted_amount tenant f p [x] [b] \<noteq> 0 \<Longrightarrow> allowance m tenant f db = Some v \<Longrightarrow>
      usageForPeriod tenant f p (usage_rows db1) \<le> v" for v
    using usage_step_key [of tenant f p m x db] st by auto
  have g: "granted_amount tenant f p (x # xs) (b # bs) =
      granted_amount tenant f p [x] [b] + granted_amount tenant f p xs bs" for bs
    by (cases x) (auto split: if_splits)
  have le: "usageForPeriod tenant f p (usage_rows db1) \<le> v"
    if "allowance m tenant f db = Some v" "usageForPeriod tenant f p (usage_rows db) \<le> v" for v
    using k(1) k(2) [OF _ that(1)] that(2) by (cases "granted_amount tenant f p [x] [b] = 0") auto
  show ?case using Cons.IH [of db1] k(1) le by (auto simp: st split_beta g al)
qed

text \<open>C23. The meter is sound under any interleaving: whatever sequence of metered requests and
  refunds of whatever tenants reaches the database, a tenant that is within its allowance stays
  within it, and what the table shows never exceeds what was there plus what was granted.\<close>

theorem usage_within_allowance:
  assumes "usage_run m xs db = (granted, db')" "allowance m tenant f db = Some v"
    and "usageForPeriod tenant f p (usage_rows db) \<le> v"
  shows "usageForPeriod tenant f p (usage_rows db') \<le> v \<and>
         usageForPeriod tenant f p (usage_rows db') \<le>
           usageForPeriod tenant f p (usage_rows db) + granted_amount tenant f p xs granted"
  using usage_run_bounds [where m = m and tenant = tenant and f = f and db = db and p = p and xs = xs] assms
  by auto

definition example_usage_db :: usage_db where
  "example_usage_db = \<lparr>sub_rows = Map.empty, usage_rows = Map.empty,
     limit_rows = [(PlanFree, CandidatesScored) \<mapsto> Some 50]\<rparr>"

abbreviation example_meter :: usage_meter where
  "example_meter \<equiv> \<lparr>autoProvisionTenants = True, planOverride = Map.empty\<rparr>"

theorem usage_within_allowance_witness:
  "usageForPeriod ''t'' CandidatesScored 24300 (usage_rows (snd (usage_run example_meter
     [Meter ''t'' CandidatesScored 30 24300, Meter ''t'' CandidatesScored 30 24300,
      Refund ''t'' CandidatesScored 5 24300, Meter ''t'' CandidatesScored 20 24300] example_usage_db))) \<le> 50"
proof -
  let ?xs = "[Meter ''t'' CandidatesScored 30 24300, Meter ''t'' CandidatesScored 30 24300,
      Refund ''t'' CandidatesScored 5 24300, Meter ''t'' CandidatesScored 20 24300]"
  have "allowance example_meter ''t'' CandidatesScored example_usage_db = Some 50"
    by (simp add: allowance_def effectivePlan_def resolvePlan_def effectivePlanFor_def limitValueOf_def
        example_usage_db_def)
  from usage_within_allowance [OF surjective_pairing this, of 24300 ?xs] show ?thesis
    by (simp add: example_usage_db_def usageForPeriod_def)
qed

text \<open>A refusal is exact and consumes nothing: without a subscription, or when the amount does not
  fit, and then the table is as it was.\<close>

lemma record_usage_refused:
  assumes "record_usage m tenant f amount p db = (Inl e, db')"
  shows "usage_rows db' = usage_rows db \<and>
    (e = NoSubscription \<and> sub_rows db tenant = None \<and> \<not> autoProvisionTenants m \<or>
     (\<exists>v. allowance m tenant f db = Some v \<and> v < usageForPeriod tenant f p (usage_rows db) + amount \<and>
          e = UsageLimitExceeded f (usageForPeriod tenant f p (usage_rows db)) amount (Some v)))"
proof (cases "sub_rows db tenant = None \<and> \<not> autoProvisionTenants m")
  case True then show ?thesis using assms by (simp add: record_usage_eq)
next
  case False
  obtain b t where i: "incrementUsageIfWithinLimit tenant f amount p (allowance m tenant f db) (usage_rows db) = (b, t)"
    by fastforce
  have b: "\<not> b" using assms False by (auto simp: record_usage_eq i Let_def split: if_splits)
  then have r: "t = usage_rows db" "\<exists>v. allowance m tenant f db = Some v \<and>
      v < usageForPeriod tenant f p (usage_rows db) + amount"
    using i increment_refused_iff [of tenant f amount p "allowance m tenant f db" "usage_rows db" t] by auto
  then show ?thesis using assms False b by (auto simp: record_usage_eq i Let_def split: if_splits)
qed

text \<open>A request that the enforcer turns away consumes nothing, and it is turned away for one of
  three reasons: the tenant is suspended, it has no subscription and none may be created, or its
  allowance has no room for the whole amount, which is then what the error reports. An enforcer
  that is switched off neither refuses nor records.\<close>

theorem enforcer_refusal:
  assumes "checkAndRecord e tenant f amount p db = (r, db')"
  shows "(\<not> enforcing e \<longrightarrow> r = Inr () \<and> db' = db) \<and>
    (\<forall>err. r = Inl err \<longrightarrow> usage_rows db' = usage_rows db \<and>
      (err = TenantSuspended \<and> suspended e tenant \<or>
       err = NoSubscription \<and> sub_rows db tenant = None \<or>
       (\<exists>v. allowance (e_meter e) tenant f db = Some v \<and>
            v < usageForPeriod tenant f p (usage_rows db) + amount \<and>
            err = UsageLimitExceeded f (usageForPeriod tenant f p (usage_rows db)) amount (Some v))))"
  using assms record_usage_refused [of "e_meter e" tenant f amount p db]
  by (auto simp: checkAndRecord_def split: if_splits sum.splits prod.splits)

theorem enforcer_refusal_witness:
  "let e = \<lparr>e_meter = example_meter, enforcing = True, suspended = (\<lambda>t. t = ''t'')\<rparr>
   in fst (checkAndRecord e ''t'' ApiCalls 1 24300 example_usage_db) = Inl TenantSuspended \<and>
      usage_rows (snd (checkAndRecord e ''t'' ApiCalls 1 24300 example_usage_db)) = usage_rows example_usage_db"
proof -
  let ?e = "\<lparr>e_meter = example_meter, enforcing = True, suspended = (\<lambda>t. t = ''t'')\<rparr>"
  have "fst (checkAndRecord ?e ''t'' ApiCalls 1 24300 example_usage_db) = Inl TenantSuspended"
    by (simp add: checkAndRecord_def)
  with enforcer_refusal [of ?e "''t''" ApiCalls 1 24300 example_usage_db, OF surjective_pairing]
  show ?thesis by (simp add: Let_def)
qed

text \<open>Plans fail closed: a paid plan rests on an operator's override or on a subscription that is
  active or in its trial.\<close>

lemma effective_plan_fail_closed:
  assumes "effectivePlanFor sub ov = plan" "plan \<noteq> PlanFree"
  shows "ov = Some plan \<or> (\<exists>s. sub = Some s \<and> s_plan s = plan \<and> (s_status s = SubActive \<or> s_status s = SubTrialing))"
  using assms by (auto simp: effectivePlanFor_def ACTIVE_PLAN_STATUSES_def split: option.splits if_splits)

text \<open>Limits do not: a plan whose row for the feature is missing is unlimited.\<close>

lemma missing_limit_is_unlimited:
  assumes "limit_rows db (effectivePlan m tenant db, f) = None" "sub_rows db tenant \<noteq> None"
  shows "\<exists>r. fst (record_usage m tenant f amount p db) = Inr r"
  using assms by (auto simp: record_usage_eq allowance_def limitValueOf_def incrementUsageIfWithinLimit_def)

lemma those_length: "those xs = Some ys \<Longrightarrow> length ys = length xs"
proof (induction xs arbitrary: ys)
  case Nil then show ?case by simp
next
  case (Cons x xs) then show ?case by (cases x) auto
qed

lemma random_domains_length: "length (fst (random_domains t rnd n k)) = n"
  by (induction n arbitrary: k) (auto simp: split_beta)

text \<open>What a run is metered for is what it generates, without the sector names and the random
  names: the estimate that must never undercount leaves those two inputs out.\<close>

theorem estimate_leaves_out_sector_and_random:
  assumes "generated psl default_tld run rnd k input = Some (cs, k')"
  shows "estimateCandidateCount input =
         max 1 (length cs - length (sectorKeywords input) - randomCount input)"
  using assms
  by (auto simp: generated_def estimateCandidateCount_def random_domains_length split_beta
      dest!: those_length split: bind_splits)

theorem estimate_leaves_out_sector_and_random_witness:
  "let input = \<lparr>g_keywords = [''a''], brandableNames = [], closeoutDomains = [], closeoutEntries = [],
       domains = [], sectorKeywords = [''b'', ''c''], randomCount = 500, externalRunId = None\<rparr>
   in estimateCandidateCount input = 1 \<and>
      map_option (length \<circ> fst) (generated example_psl ''.com'' ''r'' (\<lambda>_. 0) 0 input) = Some 503"
proof -
  let ?i = "\<lparr>g_keywords = [''a''], brandableNames = [], closeoutDomains = [], closeoutEntries = [],
       domains = [], sectorKeywords = [''b'', ''c''], randomCount = 500, externalRunId = None\<rparr>"
  obtain cs k where g: "generated example_psl ''.com'' ''r'' (\<lambda>_. 0) 0 ?i = Some (cs, k)" "length cs = 503"
    by (auto simp: generated_def sector_candidate_def random_domains_length split_beta)
  from estimate_leaves_out_sector_and_random [OF g(1)] g show ?thesis by (simp add: Let_def)
qed

lemma period_sum_absent:
  "(tenant, f, p) \<notin> fst ` set rows \<Longrightarrow> period_sum (findUsageByPeriodRange tenant lo hi rows) p f = 0"
  by (induction rows) (auto simp: period_sum_def findUsageByPeriodRange_def)

lemma period_sum_range:
  assumes "distinct (map fst rows)" "lo \<le> p" "p \<le> hi"
  shows "period_sum (findUsageByPeriodRange tenant lo hi rows) p f = usageForPeriod tenant f p (map_of rows)"
  using assms
proof (induction rows)
  case Nil then show ?case by (simp add: period_sum_def findUsageByPeriodRange_def usageForPeriod_def)
next
  case (Cons r rows)
  obtain t g q a where r: "r = ((t, g, q), a)" by (cases r) auto
  show ?case
  proof (cases "(t, g, q) = (tenant, f, p)")
    case True
    then have "period_sum (findUsageByPeriodRange tenant lo hi rows) p f = 0"
      using Cons.prems(1) r by (intro period_sum_absent) auto
    then show ?thesis using True Cons.prems(2,3)
      by (simp add: r period_sum_def findUsageByPeriodRange_def usageForPeriod_def)
  next
    case False
    have "period_sum (findUsageByPeriodRange tenant lo hi (r # rows)) p f =
        period_sum (findUsageByPeriodRange tenant lo hi rows) p f"
      using False by (auto simp: r period_sum_def findUsageByPeriodRange_def)
    with Cons False show ?thesis by (auto simp: r usageForPeriod_def)
  qed
qed

lemma map_int_upto: "map (\<lambda>k. a + int k) [0..<n] = [a..a + int n - 1]"
proof (induction n)
  case 0 then show ?case by simp
next
  case (Suc n)
  have "[a..a + int n] = [a..a + int n - 1] @ [a + int n]" by (rule upto_rec2) simp
  then show ?case using Suc by simp
qed

text \<open>The history agrees with the single reports: it has one entry for each of the last months,
  in order and without gaps, and each entry is what the report of that month says.\<close>

theorem usage_history_agrees:
  assumes "distinct (map fst rows)" "usage_rows db = map_of rows"
  shows "getUsageHistory m tenant months now rows (sub_rows db) (limit_rows db) =
    map (\<lambda>p. (p, map (\<lambda>f. (f, getUsageForPeriod m tenant f p db)) USAGE_FEATURES))
        [now - (int months - 1)..now]"
proof -
  have "[now - (int months - 1)..now] = map (\<lambda>k. now - (int months - 1) + int k) [0..<months]"
    using map_int_upto [of "now - (int months - 1)" months] by simp
  then show ?thesis
    by (auto simp: getUsageHistory_def getUsageForPeriod_def Let_def assms period_sum_range)
qed

theorem usage_history_agrees_witness:
  "let rows = [((''t'', CandidatesScored, 24299), 7), ((''t'', ApiCalls, 24300), 3)];
       db = example_usage_db\<lparr>usage_rows := map_of rows\<rparr>
   in map fst (getUsageHistory example_meter ''t'' 3 24300 rows (sub_rows db) (limit_rows db)) = [24298, 24299, 24300]"
proof -
  let ?rows = "[((''t'', CandidatesScored, 24299), 7), ((''t'', ApiCalls, 24300), 3)]"
  let ?db = "example_usage_db\<lparr>usage_rows := map_of ?rows\<rparr>"
  have "getUsageHistory example_meter ''t'' 3 24300 ?rows (sub_rows ?db) (limit_rows ?db) =
      map (\<lambda>p. (p, map (\<lambda>f. (f, getUsageForPeriod example_meter ''t'' f p ?db)) USAGE_FEATURES))
        [24300 - (int 3 - 1)..24300]"
    by (rule usage_history_agrees) simp_all
  then show ?thesis by (simp add: upto_rec1)
qed

end
