(* ===== verification/RunService.thy ===== *)
theory RunService
  imports Usage Orchestrator "HOL-Library.AList"
begin

text \<open>
  The application service that meters, executes and persists a run
  (\<open>app/pipeline-run-service.ts\<close>) on the tables \<open>candidates\<close>, \<open>scoring_runs\<close> and \<open>pipeline_runs\<close>
  (\<open>db/repositories/candidate-repository.ts\<close>, \<open>scoring-repository.ts\<close>,
  \<open>pipeline-runs-repository.ts\<close>).

  Results are written in batches whose size adapts to how long the previous batch took. The
  time that each batch takes, the instant at which the persistence deadline passes, and the
  write that fails, if one does, are parameters, as is whether the stage metrics can be written.
  Progress broadcasts and the completion hook, whose errors are swallowed, are left out, as are
  durations and texts.
\<close>

section \<open>The tables\<close>

record candidate_row =
  cr_id :: nat
  cr_tenant :: string
  cr_candidate :: candidate

record score_row =
  sr_candidate :: nat
  sr_run :: string
  sr_result :: score_result
  sr_tenant :: string

record results_summary =
  candidatesEvaluated :: nat
  sum_recommended :: nat
  sum_trademarkBlocked :: nat
  sum_unscored :: nat
  sum_errors :: nat
  sum_degraded :: "(bool \<times> degradation list) option"

record run_inputs =
  in_keywords :: nat
  in_brandableNames :: nat
  in_closeoutDomains :: nat
  in_closeoutEntries :: nat
  in_domains :: nat

datatype run_error =
    PipelineFailed run_end
  | PersistenceDeadline nat nat
  | PersistenceWrite
  | MetricsWrite

record run_row =
  rr_id :: string
  rr_tenant :: string
  rr_inputs :: run_inputs
  rr_finished :: bool
  rr_error :: "run_error option"
  rr_results :: results_summary

record run_db =
  cand_rows :: "candidate_row list"
  next_cand :: nat
  score_rows :: "score_row list"
  run_rows :: "run_row list"

definition emptyResults :: results_summary where
  "emptyResults = \<lparr>candidatesEvaluated = 0, sum_recommended = 0, sum_trademarkBlocked = 0,
     sum_unscored = 0, sum_errors = 0, sum_degraded = None\<rparr>"

definition snapshotInputs :: "generation_input \<Rightarrow> run_inputs" where
  "snapshotInputs input = \<lparr>in_keywords = length (g_keywords input),
     in_brandableNames = length (brandableNames input),
     in_closeoutDomains = length (closeoutDomains input),
     in_closeoutEntries = length (closeoutEntries input), in_domains = length (domains input)\<rparr>"

text \<open>A conflict on tenant and domain updates the mutable columns; top-level domain and source stay.\<close>

definition merge_candidate :: "candidate \<Rightarrow> candidate \<Rightarrow> candidate" where
  "merge_candidate new old =
     old\<lparr>c_status := c_status new, dnsStatus := dnsStatus new, rdapStatus := rdapStatus new,
         isPremium := isPremium new, pipelineRunId := pipelineRunId new, provenance := provenance new\<rparr>"

definition same_candidate :: "string \<Rightarrow> string \<Rightarrow> candidate_row \<Rightarrow> bool" where
  "same_candidate tenant d r \<longleftrightarrow> cr_tenant r = tenant \<and> c_domain (cr_candidate r) = d"

definition upsert_candidate :: "string \<Rightarrow> candidate \<Rightarrow> run_db \<Rightarrow> nat \<times> run_db" where
  "upsert_candidate tenant c db =
     (case find (same_candidate tenant (c_domain c)) (cand_rows db) of
        Some r \<Rightarrow> (cr_id r, db\<lparr>cand_rows := map (\<lambda>q. if same_candidate tenant (c_domain c) q
                       then q\<lparr>cr_candidate := merge_candidate c (cr_candidate q)\<rparr> else q) (cand_rows db)\<rparr>)
      | None \<Rightarrow> (next_cand db, db\<lparr>cand_rows := cand_rows db @
                     [\<lparr>cr_id = next_cand db, cr_tenant = tenant, cr_candidate = c\<rparr>],
                     next_cand := next_cand db + 1\<rparr>))"

definition insert_score :: "string \<Rightarrow> nat \<Rightarrow> string \<Rightarrow> score_result \<Rightarrow> run_db \<Rightarrow> run_db" where
  "insert_score tenant i run res db =
     db\<lparr>score_rows := score_rows db @ [\<lparr>sr_candidate = i, sr_run = run, sr_result = res, sr_tenant = tenant\<rparr>]\<rparr>"

definition insert_run :: "string \<Rightarrow> string \<Rightarrow> run_inputs \<Rightarrow> run_db \<Rightarrow> run_db" where
  "insert_run tenant run inp db =
     db\<lparr>run_rows := run_rows db @ [\<lparr>rr_id = run, rr_tenant = tenant, rr_inputs = inp, rr_finished = False,
        rr_error = None, rr_results = emptyResults\<rparr>]\<rparr>"

definition complete_run :: "string \<Rightarrow> string \<Rightarrow> run_error option \<Rightarrow> results_summary \<Rightarrow> run_db \<Rightarrow> run_db" where
  "complete_run tenant run err res db =
     db\<lparr>run_rows := map (\<lambda>r. if rr_id r = run \<and> rr_tenant r = tenant
        then r\<lparr>rr_finished := True, rr_error := err, rr_results := res\<rparr> else r) (run_rows db)\<rparr>"

definition find_run :: "string \<Rightarrow> string \<Rightarrow> run_db \<Rightarrow> run_row option" where
  "find_run tenant run db = find (\<lambda>r. rr_id r = run \<and> rr_tenant r = tenant) (run_rows db)"

section \<open>Batches of adaptive size\<close>

definition PERSISTENCE_BATCH_SIZE_INITIAL :: nat where "PERSISTENCE_BATCH_SIZE_INITIAL = 500"
definition PERSISTENCE_BATCH_SIZE_MIN :: nat where "PERSISTENCE_BATCH_SIZE_MIN = 100"
definition PERSISTENCE_BATCH_SIZE_MAX :: nat where "PERSISTENCE_BATCH_SIZE_MAX = 1000"
definition PERSISTENCE_BATCH_SLOW_THRESHOLD_MS :: ms where "PERSISTENCE_BATCH_SLOW_THRESHOLD_MS = 500"
definition PERSISTENCE_BATCH_FAST_THRESHOLD_MS :: ms where "PERSISTENCE_BATCH_FAST_THRESHOLD_MS = 100"

lemmas batch_size_defs = PERSISTENCE_BATCH_SIZE_INITIAL_def PERSISTENCE_BATCH_SIZE_MIN_def
  PERSISTENCE_BATCH_SIZE_MAX_def PERSISTENCE_BATCH_SLOW_THRESHOLD_MS_def
  PERSISTENCE_BATCH_FAST_THRESHOLD_MS_def

definition adapt_batch_size :: "ms \<Rightarrow> nat \<Rightarrow> nat" where
  "adapt_batch_size elapsed n =
     (if PERSISTENCE_BATCH_SLOW_THRESHOLD_MS < elapsed \<and> PERSISTENCE_BATCH_SIZE_MIN < n
      then max PERSISTENCE_BATCH_SIZE_MIN (n div 2)
      else if elapsed < PERSISTENCE_BATCH_FAST_THRESHOLD_MS \<and> n < PERSISTENCE_BATCH_SIZE_MAX
      then min PERSISTENCE_BATCH_SIZE_MAX (n * 2)
      else n)"

text \<open>What the clock and the database do at batch \<open>k\<close>: is the deadline still ahead, how long does
  the batch take, and which of its writes throws.\<close>

record batch_world =
  bw_inTime :: "nat \<Rightarrow> bool"
  bw_elapsed :: "nat \<Rightarrow> ms"
  bw_fault :: "nat \<Rightarrow> nat option"

datatype loop_exit = LoopDone | LoopDeadline | LoopFault

text \<open>The loop \<open>for (let i = 0; i < xs.length; i += batchSize)\<close>: the increment reads the size that
  the body has just adapted. \<open>wr\<close> writes one batch and reports whether it succeeded.\<close>

partial_function (option) batch_loop ::
  "batch_world \<Rightarrow> ('a list \<Rightarrow> nat option \<Rightarrow> 's \<Rightarrow> bool \<times> 's) \<Rightarrow> 'a list \<Rightarrow> nat \<Rightarrow> nat \<Rightarrow> nat \<Rightarrow> 's \<Rightarrow>
   (loop_exit \<times> 's) option" where
  "batch_loop w wr xs i k n s =
     (if length xs \<le> i then Some (LoopDone, s)
      else if \<not> bw_inTime w k then Some (LoopDeadline, s)
      else case wr (take n (drop i xs)) (bw_fault w k) s of
             (fine, s') \<Rightarrow>
               if \<not> fine then Some (LoopFault, s')
               else let n' = adapt_batch_size (bw_elapsed w k) n
                    in batch_loop w wr xs (i + n') (k + 1) n' s')"

section \<open>Persistence\<close>

text \<open>\<open>tx\<close> is whether the repositories write through the connection whose transaction surrounds the
  batch: only then does a failure roll back what the batch has written. In the composed
  program they do not.\<close>

record persist_state =
  ps_db :: run_db
  ps_ids :: "string \<rightharpoonup> nat"
  ps_count :: nat

definition upsert_one :: "string \<Rightarrow> candidate \<Rightarrow> persist_state \<Rightarrow> persist_state" where
  "upsert_one tenant c ps =
     (case upsert_candidate tenant c (ps_db ps) of
        (i, db') \<Rightarrow> ps\<lparr>ps_db := db', ps_ids := (ps_ids ps)(c_domain c \<mapsto> i)\<rparr>)"

definition upsertBatch ::
  "bool \<Rightarrow> string \<Rightarrow> candidate list \<Rightarrow> nat option \<Rightarrow> persist_state \<Rightarrow> bool \<times> persist_state" where
  "upsertBatch tx tenant batch fault ps =
     (let failing = (case fault of Some j \<Rightarrow> j < length batch | None \<Rightarrow> False);
          ps1 = fold (upsert_one tenant) (if failing then take (the fault) batch else batch) ps
      in if failing then (False, if tx then ps1\<lparr>ps_db := ps_db ps\<rparr> else ps1)
         else (True, ps1\<lparr>ps_count := ps_count ps + length batch\<rparr>))"

definition insert_one :: "string \<Rightarrow> string \<Rightarrow> scored_candidate \<Rightarrow> persist_state \<Rightarrow> persist_state" where
  "insert_one tenant run c ps =
     ps\<lparr>ps_db := insert_score tenant (the (ps_ids ps (c_domain c))) run (the (scoreResult c)) (ps_db ps),
        ps_count := ps_count ps + 1\<rparr>"

definition insertBatch ::
  "bool \<Rightarrow> string \<Rightarrow> string \<Rightarrow> scored_candidate list \<Rightarrow> nat option \<Rightarrow> persist_state \<Rightarrow> bool \<times> persist_state" where
  "insertBatch tx tenant run batch fault ps =
     (let failing = (case fault of Some j \<Rightarrow> j < length batch | None \<Rightarrow> False);
          ps1 = fold (insert_one tenant run) (if failing then take (the fault) batch else batch) ps
      in if failing then (False, if tx then ps1\<lparr>ps_db := ps_db ps\<rparr> else ps1) else (True, ps1))"

text \<open>The candidates first, then the scores of those that got an id; the result is the two counts,
  or the error.\<close>

definition persist ::
  "bool \<Rightarrow> string \<Rightarrow> string \<Rightarrow> batch_world \<Rightarrow> batch_world \<Rightarrow> pipeline_result \<Rightarrow> run_db \<Rightarrow>
   ((run_error + nat \<times> nat) \<times> run_db) option" where
  "persist tx tenant run w1 w2 res db =
     (case batch_loop w1 (upsertBatch tx tenant) (allCandidates res) 0 0 PERSISTENCE_BATCH_SIZE_INITIAL
             \<lparr>ps_db = db, ps_ids = Map.empty, ps_count = 0\<rparr> of
        None \<Rightarrow> None
      | Some (LoopDeadline, ps) \<Rightarrow>
          Some (Inl (PersistenceDeadline (ps_count ps) (length (allCandidates res))), ps_db ps)
      | Some (LoopFault, ps) \<Rightarrow> Some (Inl PersistenceWrite, ps_db ps)
      | Some (LoopDone, ps) \<Rightarrow>
          let scored = filter (\<lambda>c. scoreResult c \<noteq> None \<and> ps_ids ps (c_domain c) \<noteq> None) (r_scored res) in
          (case batch_loop w2 (insertBatch tx tenant run) scored 0 0 PERSISTENCE_BATCH_SIZE_INITIAL
                 (ps\<lparr>ps_count := 0\<rparr>) of
             None \<Rightarrow> None
           | Some (LoopDeadline, qs) \<Rightarrow> Some (Inl (PersistenceDeadline (ps_count qs) (length scored)), ps_db qs)
           | Some (LoopFault, qs) \<Rightarrow> Some (Inl PersistenceWrite, ps_db qs)
           | Some (LoopDone, qs) \<Rightarrow> Some (Inr (ps_count ps, ps_count qs), ps_db qs)))"

text \<open>\<open>statusByDomain\<close> keeps the last status of a domain.\<close>

definition statusByDomain :: "candidate list \<Rightarrow> (string \<times> candidate_status) list" where
  "statusByDomain cs = fold (\<lambda>c. AList.update (c_domain c) (c_status c)) cs []"

definition buildResultsSummary :: "pipeline_result \<Rightarrow> nat \<Rightarrow> results_summary" where
  "buildResultsSummary res n =
     (let sts = map snd (statusByDomain (allCandidates res)) in
      \<lparr>candidatesEvaluated = n, sum_recommended = length (r_recommended res),
       sum_trademarkBlocked = length (filter (\<lambda>s. s = TrademarkBlocked) sts),
       sum_unscored = length (filter (\<lambda>s. s \<in> {DnsFiltered, RdapFiltered, Unscored}) sts),
       sum_errors = length (r_stageErrors res),
       sum_degraded = Some (degraded res, degradedReasons res)\<rparr>)"

section \<open>The service\<close>

record run_options =
  opt_run :: "string option"
  usageMetered :: bool

datatype run_reply =
    RunRejected usage_error
  | RunFailed run_error
  | RunReply pipeline_result nat nat

text \<open>\<open>fresh\<close> is the UUID, \<open>outcome\<close> how the orchestrator ends for the run id it is given, and
  \<open>metrics\<close> whether the stage metrics of the result can be written: that write lies behind the last
  \<open>try\<close>, so its exception leaves the method before the row is completed.\<close>

definition runSync ::
  "usage_enforcer option \<Rightarrow> bool \<Rightarrow> string \<Rightarrow> int \<Rightarrow> string \<Rightarrow> (string \<Rightarrow> run_end) \<Rightarrow> batch_world \<Rightarrow> batch_world \<Rightarrow>
   (pipeline_result \<Rightarrow> bool) \<Rightarrow> generation_input \<Rightarrow> run_options \<Rightarrow> usage_db \<Rightarrow> run_db \<Rightarrow> (run_reply \<times> usage_db \<times> run_db) option" where
  "runSync enf tx tenant period fresh outcome w1 w2 metrics input opts udb db =
     (let (metered, udb1) = (case enf of
            Some e \<Rightarrow> if usageMetered opts then (Inr (), udb)
                      else checkAndRecordCandidates e tenant input period udb
          | None \<Rightarrow> (Inr (), udb))
      in case metered of
           Inl err \<Rightarrow> Some (RunRejected err, udb1, db)
         | Inr _ \<Rightarrow>
             (let run = (case opt_run opts of Some r \<Rightarrow> r | None \<Rightarrow> fresh);
                  db1 = (if opt_run opts \<noteq> None \<and> find_run tenant run db \<noteq> None then db
                         else insert_run tenant run (snapshotInputs input) db)
              in case outcome run of
                   Finished res \<Rightarrow>
                     (case persist tx tenant run w1 w2 res db1 of
                        None \<Rightarrow> None
                      | Some (Inl err, db2) \<Rightarrow>
                          Some (RunFailed err, udb1, complete_run tenant run (Some err) emptyResults db2)
                      | Some (Inr (n, m), db2) \<Rightarrow>
                          if \<not> metrics res then Some (RunFailed MetricsWrite, udb1, db2)
                          else Some (RunReply res n m, udb1,
                                complete_run tenant run None (buildResultsSummary res n) db2))
                 | e \<Rightarrow> Some (RunFailed (PipelineFailed e), udb1,
                               complete_run tenant run (Some (PipelineFailed e)) emptyResults db1)))"

text \<open>\<open>enqueue\<close> is the job queue, which may refuse (a full queue); the meter has run by then.\<close>

definition enqueueRun ::
  "usage_enforcer option \<Rightarrow> string \<Rightarrow> int \<Rightarrow> string \<Rightarrow> (string \<Rightarrow> 'q \<Rightarrow> 'j option \<times> 'q) \<Rightarrow> generation_input \<Rightarrow>
   usage_db \<Rightarrow> 'q \<Rightarrow> run_db \<Rightarrow> (usage_error option + 'j) \<times> usage_db \<times> 'q \<times> run_db" where
  "enqueueRun enf tenant period fresh enqueue input udb q db =
     (let (metered, udb1) = (case enf of
            Some e \<Rightarrow> checkAndRecordCandidates e tenant input period udb | None \<Rightarrow> (Inr (), udb))
      in case metered of
           Inl err \<Rightarrow> (Inl (Some err), udb1, q, db)
         | Inr _ \<Rightarrow> (case enqueue fresh q of
               (None, q1) \<Rightarrow> (Inl None, udb1, q1, db)
             | (Some j, q1) \<Rightarrow> (Inr j, udb1, q1, insert_run tenant fresh (snapshotInputs input) db)))"

text \<open>The time that persistence may take, from the settings of the stage locks; a setting that is
  absent or zero counts as invalid.\<close>

definition DEFAULT_PERSISTENCE_TOTAL_TIMEOUT_MS :: int where
  "DEFAULT_PERSISTENCE_TOTAL_TIMEOUT_MS = 90000"

definition computePersistenceTimeoutMs :: "int option \<Rightarrow> int option \<Rightarrow> int" where
  "computePersistenceTimeoutMs ttl beat =
     (case (ttl, beat) of
        (Some t, Some b) \<Rightarrow>
          if 0 < t \<and> 0 < b then max 30000 (min (t - 2 * b - 10000) DEFAULT_PERSISTENCE_TOTAL_TIMEOUT_MS)
          else DEFAULT_PERSISTENCE_TOTAL_TIMEOUT_MS
      | _ \<Rightarrow> DEFAULT_PERSISTENCE_TOTAL_TIMEOUT_MS)"

section \<open>The loop\<close>

lemma adapt_batch_size_pos: "0 < n \<Longrightarrow> 0 < adapt_batch_size e n"
  by (auto simp: adapt_batch_size_def batch_size_defs)

lemma adapt_batch_size_steady:
  "PERSISTENCE_BATCH_FAST_THRESHOLD_MS \<le> e \<Longrightarrow> e \<le> PERSISTENCE_BATCH_SLOW_THRESHOLD_MS \<Longrightarrow>
   adapt_batch_size e n = n"
  by (simp add: adapt_batch_size_def)

text \<open>The loop always ends, and what every batch preserves holds in the end.\<close>

lemma batch_loop_total:
  assumes "0 < n" "P s" "\<And>b f s. P s \<Longrightarrow> P (snd (wr b f s))"
  shows "\<exists>e s'. batch_loop w wr xs i k n s = Some (e, s') \<and> P s'"
  using assms(1,2)
proof (induction "length xs - i" arbitrary: i k n s rule: less_induct)
  case less
  obtain fine s1 where w: "wr (take n (drop i xs)) (bw_fault w k) s = (fine, s1)" by fastforce
  have p: "P s1" using assms(3) [OF less.prems(2), of "take n (drop i xs)" "bw_fault w k"] w by simp
  let ?n = "adapt_batch_size (bw_elapsed w k) n"
  have "0 < ?n" by (rule adapt_batch_size_pos [OF less.prems(1)])
  show ?case
  proof (cases "length xs \<le> i \<or> \<not> bw_inTime w k \<or> \<not> fine")
    case True
    then show ?thesis using less.prems(2) p w by (subst batch_loop.simps) auto
  next
    case False
    then have "length xs - (i + ?n) < length xs - i" using \<open>0 < ?n\<close> by linarith
    from less.hyps [OF this \<open>0 < ?n\<close> p] False w show ?thesis
      by (subst batch_loop.simps) (simp add: Let_def)
  qed
qed

definition steady :: "batch_world \<Rightarrow> bool" where
  "steady w \<longleftrightarrow> (\<forall>k. bw_inTime w k \<and> bw_fault w k = None \<and>
     PERSISTENCE_BATCH_FAST_THRESHOLD_MS \<le> bw_elapsed w k \<and> bw_elapsed w k \<le> PERSISTENCE_BATCH_SLOW_THRESHOLD_MS)"

text \<open>While the size does not change the loop writes exactly the list.\<close>

lemma batch_loop_steady:
  assumes "0 < n" "steady w" "\<And>b s. wr b None s = (True, F b s)"
    and "\<And>a b s. F (a @ b) s = F b (F a s)" "\<And>s. F [] s = s"
  shows "batch_loop w wr xs i k n s = Some (LoopDone, F (drop i xs) s)"
  using assms(1)
proof (induction "length xs - i" arbitrary: i k s rule: less_induct)
  case less
  have st: "bw_inTime w k" "bw_fault w k = None" "adapt_batch_size (bw_elapsed w k) n = n"
    using assms(2) adapt_batch_size_steady by (auto simp: steady_def)
  show ?case
  proof (cases "length xs \<le> i")
    case True
    then show ?thesis by (subst batch_loop.simps) (simp add: assms(5))
  next
    case False
    have split: "take n (drop i xs) @ drop (i + n) xs = drop i xs"
      by (metis add.commute append_take_drop_id drop_drop)
    have "length xs - (i + n) < length xs - i" using False less.prems by simp
    from less.hyps [OF this less.prems] False st assms(4) [of "take n (drop i xs)" "drop (i + n) xs" s] split
    show ?thesis by (subst batch_loop.simps) (simp add: assms(3) Let_def)
  qed
qed

section \<open>What one batch does\<close>

definition upsert_all :: "string \<Rightarrow> candidate list \<Rightarrow> persist_state \<Rightarrow> persist_state" where
  "upsert_all tenant batch ps = (fold (upsert_one tenant) batch ps)\<lparr>ps_count := ps_count ps + length batch\<rparr>"

lemma upsert_one_count:
  "upsert_one tenant c (ps\<lparr>ps_count := n\<rparr>) = (upsert_one tenant c ps)\<lparr>ps_count := n\<rparr>"
  "ps_count (upsert_one tenant c ps) = ps_count ps"
  by (simp_all add: upsert_one_def split: prod.split)

lemma fold_upsert_count:
  "fold (upsert_one tenant) cs (ps\<lparr>ps_count := n\<rparr>) = (fold (upsert_one tenant) cs ps)\<lparr>ps_count := n\<rparr>"
  "ps_count (fold (upsert_one tenant) cs ps) = ps_count ps"
  by (induction cs arbitrary: ps) (simp_all add: upsert_one_count)

lemma upsertBatch_fine: "upsertBatch tx tenant b None ps = (True, upsert_all tenant b ps)"
  by (simp add: upsertBatch_def upsert_all_def fold_upsert_count Let_def)

lemma upsert_all_append: "upsert_all tenant (a @ b) ps = upsert_all tenant b (upsert_all tenant a ps)"
  by (simp add: upsert_all_def fold_upsert_count add.assoc)

lemma upsert_all_Nil: "upsert_all tenant [] ps = ps"
  by (simp add: upsert_all_def)

lemma insertBatch_fine:
  "insertBatch tx tenant run b None ps = (True, fold (insert_one tenant run) b ps)"
  by (simp add: insertBatch_def Let_def)

lemma upsert_candidate_rows:
  assumes "upsert_candidate tenant c db = (i, db')"
  shows "score_rows db' = score_rows db" "run_rows db' = run_rows db"
    "(\<exists>r\<in>set (cand_rows db'). same_candidate t d r) \<longleftrightarrow>
       (\<exists>r\<in>set (cand_rows db). same_candidate t d r) \<or> t = tenant \<and> d = c_domain c"
proof -
  show "score_rows db' = score_rows db" "run_rows db' = run_rows db"
    using assms by (auto simp: upsert_candidate_def split: option.splits)
  show "(\<exists>r\<in>set (cand_rows db'). same_candidate t d r) \<longleftrightarrow>
       (\<exists>r\<in>set (cand_rows db). same_candidate t d r) \<or> t = tenant \<and> d = c_domain c"
  proof (cases "find (same_candidate tenant (c_domain c)) (cand_rows db)")
    case None
    then show ?thesis using assms
      by (auto simp: upsert_candidate_def same_candidate_def)
  next
    case (Some r)
    then have r: "r \<in> set (cand_rows db)" "same_candidate tenant (c_domain c) r" by (auto dest: find_SomeD)
    define f where "f q = (if same_candidate tenant (c_domain c) q
        then q\<lparr>cr_candidate := merge_candidate c (cr_candidate q)\<rparr> else q)" for q
    have same: "same_candidate t d (f q) = same_candidate t d q" for q
      by (simp add: f_def same_candidate_def merge_candidate_def)
    have "cand_rows db' = map f (cand_rows db)"
      using assms Some by (auto simp: upsert_candidate_def f_def)
    then have "(\<exists>r\<in>set (cand_rows db'). same_candidate t d r) \<longleftrightarrow>
        (\<exists>r\<in>set (cand_rows db). same_candidate t d r)"
      by (simp add: same)
    with r show ?thesis by blast
  qed
qed

definition stored :: "string \<Rightarrow> string \<Rightarrow> run_db \<Rightarrow> bool" where
  "stored tenant d db \<longleftrightarrow> (\<exists>r\<in>set (cand_rows db). same_candidate tenant d r)"

lemma upsert_all_effect:
  "score_rows (ps_db (upsert_all tenant cs ps)) = score_rows (ps_db ps)"
  "run_rows (ps_db (upsert_all tenant cs ps)) = run_rows (ps_db ps)"
  "stored tenant d (ps_db (upsert_all tenant cs ps)) \<longleftrightarrow> stored tenant d (ps_db ps) \<or> d \<in> c_domain ` set cs"
  "ps_ids (upsert_all tenant cs ps) d = None \<longleftrightarrow> ps_ids ps d = None \<and> d \<notin> c_domain ` set cs"
  "ps_count (upsert_all tenant cs ps) = ps_count ps + length cs"
proof -
  have one: "score_rows (ps_db (upsert_one tenant c ps)) = score_rows (ps_db ps)"
    "run_rows (ps_db (upsert_one tenant c ps)) = run_rows (ps_db ps)"
    "stored tenant d (ps_db (upsert_one tenant c ps)) \<longleftrightarrow> stored tenant d (ps_db ps) \<or> d = c_domain c"
    "ps_ids (upsert_one tenant c ps) d = None \<longleftrightarrow> ps_ids ps d = None \<and> d \<noteq> c_domain c" for c ps d
    using upsert_candidate_rows [of tenant c "ps_db ps"]
    by (cases "upsert_candidate tenant c (ps_db ps)"; auto simp: upsert_one_def stored_def)+
  show "score_rows (ps_db (upsert_all tenant cs ps)) = score_rows (ps_db ps)"
    unfolding upsert_all_def by (induction cs arbitrary: ps) (simp_all add: one)
  show "run_rows (ps_db (upsert_all tenant cs ps)) = run_rows (ps_db ps)"
    unfolding upsert_all_def by (induction cs arbitrary: ps) (simp_all add: one)
  show "stored tenant d (ps_db (upsert_all tenant cs ps)) \<longleftrightarrow> stored tenant d (ps_db ps) \<or> d \<in> c_domain ` set cs"
    unfolding upsert_all_def by (induction cs arbitrary: ps) (auto simp: one)
  show "ps_ids (upsert_all tenant cs ps) d = None \<longleftrightarrow> ps_ids ps d = None \<and> d \<notin> c_domain ` set cs"
    unfolding upsert_all_def by (induction cs arbitrary: ps) (auto simp: one)
  show "ps_count (upsert_all tenant cs ps) = ps_count ps + length cs" by (simp add: upsert_all_def)
qed

lemma insert_all_effect:
  "ps_count (fold (insert_one tenant run) cs ps) = ps_count ps + length cs"
  "cand_rows (ps_db (fold (insert_one tenant run) cs ps)) = cand_rows (ps_db ps)"
  "map sr_result (score_rows (ps_db (fold (insert_one tenant run) cs ps))) =
     map sr_result (score_rows (ps_db ps)) @ map (the \<circ> scoreResult) cs"
  by (induction cs arbitrary: ps) (simp_all add: insert_one_def insert_score_def)

section \<open>Properties\<close>

abbreviation (input) fresh_state :: "run_db \<Rightarrow> persist_state" where
  "fresh_state db \<equiv> \<lparr>ps_db = db, ps_ids = Map.empty, ps_count = 0\<rparr>"

text \<open>The second phase after a first one that wrote the candidates \<open>cs\<close>.\<close>

definition scored_among :: "candidate list \<Rightarrow> pipeline_result \<Rightarrow> scored_candidate list" where
  "scored_among cs res =
     filter (\<lambda>c. scoreResult c \<noteq> None \<and> c_domain c \<in> c_domain ` set cs) (r_scored res)"

lemma scored_filter:
  "filter (\<lambda>c. scoreResult c \<noteq> None \<and> ps_ids (upsert_all tenant cs (fresh_state db)) (c_domain c) \<noteq> None)
     (r_scored res) = scored_among cs res"
  using upsert_all_effect(4) [where tenant = tenant and cs = cs and ps = "fresh_state db"]
  unfolding scored_among_def by (intro filter_cong) auto

lemma persist_eq:
  assumes "batch_loop w1 (upsertBatch tx tenant) (allCandidates res) 0 0 PERSISTENCE_BATCH_SIZE_INITIAL (fresh_state db)
      = Some (LoopDone, upsert_all tenant cs (fresh_state db))"
    and "batch_loop w2 (insertBatch tx tenant run) (scored_among cs res) 0 0 PERSISTENCE_BATCH_SIZE_INITIAL
        ((upsert_all tenant cs (fresh_state db))\<lparr>ps_count := 0\<rparr>)
      = Some (LoopDone, fold (insert_one tenant run) sc ((upsert_all tenant cs (fresh_state db))\<lparr>ps_count := 0\<rparr>))"
  shows "\<exists>db'. persist tx tenant run w1 w2 res db = Some (Inr (length cs, length sc), db') \<and>
     (\<forall>d. stored tenant d db' \<longleftrightarrow> stored tenant d db \<or> d \<in> c_domain ` set cs) \<and>
     map sr_result (score_rows db') = map sr_result (score_rows db) @ map (the \<circ> scoreResult) sc"
  unfolding persist_def assms(1) Let_def option.case prod.case loop_exit.case scored_filter assms(2)
  by (simp add: stored_def insert_all_effect upsert_all_effect upsert_all_effect(3) [unfolded stored_def])

lemma upsert_loop_steady:
  assumes "steady w"
  shows "batch_loop w (upsertBatch tx tenant) cs 0 0 PERSISTENCE_BATCH_SIZE_INITIAL ps
    = Some (LoopDone, upsert_all tenant cs ps)"
  by (subst batch_loop_steady [where F = "upsert_all tenant" and w = w])
     (simp_all add: assms upsertBatch_fine upsert_all_append upsert_all_Nil batch_size_defs)

lemma insert_loop_steady:
  assumes "steady w"
  shows "batch_loop w (insertBatch tx tenant run) sc 0 0 PERSISTENCE_BATCH_SIZE_INITIAL ps
    = Some (LoopDone, fold (insert_one tenant run) sc ps)"
  by (subst batch_loop_steady [where F = "fold (insert_one tenant run)" and w = w])
     (simp_all add: assms insertBatch_fine batch_size_defs)

lemma persist_steady:
  assumes "steady w1" "steady w2"
  shows "\<exists>db'. persist tx tenant run w1 w2 res db =
       Some (Inr (length (allCandidates res), length (scored_among (allCandidates res) res)), db') \<and>
     (\<forall>d. stored tenant d db' \<longleftrightarrow> stored tenant d db \<or> d \<in> c_domain ` set (allCandidates res)) \<and>
     map sr_result (score_rows db') = map sr_result (score_rows db) @
       map (the \<circ> scoreResult) (scored_among (allCandidates res) res)"
  by (rule persist_eq [OF upsert_loop_steady insert_loop_steady, OF assms])


text \<open>Two steps of the loop: the first batch changes the size, the second ends the loop.\<close>

lemma batch_loop_two:
  assumes "bw_inTime w 0" "bw_fault w 0 = None" "0 < length xs" "adapt_batch_size (bw_elapsed w 0) n = m"
    and "\<And>b s. wr b None s = (True, F b s)"
    and "m < length xs \<Longrightarrow> bw_inTime w 1 \<and> bw_fault w 1 = None \<and>
           length xs \<le> m + adapt_batch_size (bw_elapsed w 1) m"
  shows "batch_loop w wr xs 0 0 n s =
     Some (LoopDone, if m < length xs then F (take m (drop m xs)) (F (take n xs) s) else F (take n xs) s)"
proof (cases "m < length xs")
  case False
  then show ?thesis using assms(1-5)
    by (subst batch_loop.simps, subst batch_loop.simps) (simp add: Let_def)
next
  case True
  then show ?thesis using assms
    by (subst batch_loop.simps, subst batch_loop.simps, subst batch_loop.simps) (simp add: Let_def)
qed

text \<open>The first batch of a larger run, when it is fast, costs the run the candidates behind it: the
  size doubles to 1000, the loop advances by the new size, and of up to 1000 candidates only the
  first 500 are stored, with their scores; the run is reported as complete.\<close>

theorem fast_batch_skips_candidates:
  assumes "500 < length (allCandidates res)" "length (allCandidates res) \<le> 1000"
    and "bw_inTime w1 0" "bw_fault w1 0 = None" "bw_elapsed w1 0 < 100" "steady w2"
  shows "\<exists>db' m. persist tx tenant run w1 w2 res db = Some (Inr (500, m), db') \<and>
     (\<forall>d. stored tenant d db' \<longleftrightarrow> stored tenant d db \<or> d \<in> c_domain ` set (take 500 (allCandidates res)))"
proof -
  let ?cs = "take 500 (allCandidates res)"
  have a: "adapt_batch_size (bw_elapsed w1 0) PERSISTENCE_BATCH_SIZE_INITIAL = 1000"
    using assms(5) by (simp add: adapt_batch_size_def batch_size_defs)
  have 1: "batch_loop w1 (upsertBatch tx tenant) (allCandidates res) 0 0 PERSISTENCE_BATCH_SIZE_INITIAL (fresh_state db)
      = Some (LoopDone, upsert_all tenant ?cs (fresh_state db))"
    by (subst batch_loop_two [where F = "upsert_all tenant" and m = 1000])
       (use assms(1-4) a in \<open>auto simp: upsertBatch_fine PERSISTENCE_BATCH_SIZE_INITIAL_def\<close>)
  note 2 = insert_loop_steady [OF assms(6)]
  have "length ?cs = 500" using assms(1) by simp
  with persist_eq [OF 1 2] show ?thesis by (metis (no_types, lifting))
qed

text \<open>A slow batch of scores writes scores twice: the size halves to 250, the loop advances by
  250 only, and of \<open>n\<close> scores, \<open>n - 250\<close> are inserted a second time.\<close>

theorem slow_batch_duplicates_scores:
  assumes "steady w1" "sc = scored_among (allCandidates res) res" "250 < length sc" "length sc \<le> 500"
    and "bw_inTime w2 0" "bw_fault w2 0 = None" "500 < bw_elapsed w2 0"
    and "bw_inTime w2 1" "bw_fault w2 1 = None" "100 \<le> bw_elapsed w2 1" "bw_elapsed w2 1 \<le> 500"
  shows "\<exists>db'. persist tx tenant run w1 w2 res db =
       Some (Inr (length (allCandidates res), length sc + (length sc - 250)), db') \<and>
     map sr_result (score_rows db') = map sr_result (score_rows db) @
       map (the \<circ> scoreResult) sc @ map (the \<circ> scoreResult) (drop 250 sc)"
proof -
  let ?cs = "allCandidates res"
  note 1 = upsert_loop_steady [OF assms(1)]
  have a: "adapt_batch_size (bw_elapsed w2 0) PERSISTENCE_BATCH_SIZE_INITIAL = 250"
    "adapt_batch_size (bw_elapsed w2 1) 250 = 250"
    using assms(7,10,11) by (simp_all add: adapt_batch_size_def batch_size_defs)
  have t: "take PERSISTENCE_BATCH_SIZE_INITIAL sc = sc" "take 250 (drop 250 sc) = drop 250 sc"
    using assms(4) by (simp_all add: batch_size_defs)
  have 2: "batch_loop w2 (insertBatch tx tenant run) (scored_among ?cs res) 0 0
      PERSISTENCE_BATCH_SIZE_INITIAL ((upsert_all tenant ?cs (fresh_state db))\<lparr>ps_count := 0\<rparr>)
    = Some (LoopDone, fold (insert_one tenant run) (sc @ drop 250 sc)
        ((upsert_all tenant ?cs (fresh_state db))\<lparr>ps_count := 0\<rparr>))"
    by (subst batch_loop_two [where F = "fold (insert_one tenant run)" and m = 250])
       (use assms(3-6,8,9) a t in \<open>auto simp: insertBatch_fine assms(2) [symmetric]\<close>)
  from persist_eq [OF 1 2] obtain db' where
    "persist tx tenant run w1 w2 res db = Some (Inr (length ?cs, length (sc @ drop 250 sc)), db')"
    "map sr_result (score_rows db') = map sr_result (score_rows db) @
       map (the \<circ> scoreResult) (sc @ drop 250 sc)" by blast
  then show ?thesis by (intro exI [of _ db']) simp
qed

text \<open>A write that fails in the first batch ends the persistence with an error; the rows the
  batch wrote before it stay, unless the repositories write through the connection that holds the
  transaction.\<close>

theorem failed_batch_rolled_back_iff_shared:
  assumes "bw_inTime w1 0" "bw_fault w1 0 = Some j" "j < length (allCandidates res)" "j < 500"
  shows "\<exists>db'. persist tx tenant run w1 w2 res db = Some (Inl PersistenceWrite, db') \<and>
     (\<forall>d. stored tenant d db' \<longleftrightarrow>
        stored tenant d db \<or> \<not> tx \<and> d \<in> c_domain ` set (take j (allCandidates res)))"
proof -
  let ?b = "take 500 (allCandidates res)"
  have j: "j < length ?b" "take j ?b = take j (allCandidates res)" using assms(3,4) by simp_all
  have f: "fold (upsert_one tenant) (take j (allCandidates res)) (fresh_state db) =
      (upsert_all tenant (take j (allCandidates res)) (fresh_state db))\<lparr>ps_count := 0\<rparr>"
    by (simp add: upsert_all_def fold_upsert_count flip: fold_upsert_count(1))
  have "\<exists>ps. batch_loop w1 (upsertBatch tx tenant) (allCandidates res) 0 0 PERSISTENCE_BATCH_SIZE_INITIAL (fresh_state db)
      = Some (LoopFault, ps) \<and> (\<forall>d. stored tenant d (ps_db ps) \<longleftrightarrow>
        stored tenant d db \<or> \<not> tx \<and> d \<in> c_domain ` set (take j (allCandidates res)))"
    using assms j upsert_all_effect(3) [where tenant = tenant and ps = "fresh_state db"]
    by (subst batch_loop.simps)
       (auto simp: upsertBatch_def Let_def PERSISTENCE_BATCH_SIZE_INITIAL_def f)
  then show ?thesis unfolding persist_def by auto
qed

section \<open>A run is always closed\<close>

lemma upsertBatch_run_rows: "run_rows (ps_db (snd (upsertBatch tx tenant b f ps))) = run_rows (ps_db ps)"
proof -
  have "run_rows (ps_db (fold (upsert_one tenant) cs ps)) = run_rows (ps_db ps)" for cs
    using upsert_all_effect(2) [where tenant = tenant and cs = cs and ps = ps] by (simp add: upsert_all_def)
  then show ?thesis by (simp add: upsertBatch_def Let_def)
qed

lemma insertBatch_run_rows:
  "run_rows (ps_db (snd (insertBatch tx tenant run b f ps))) = run_rows (ps_db ps)"
proof -
  have "run_rows (ps_db (fold (insert_one tenant run) cs ps)) = run_rows (ps_db ps)" for cs
    by (induction cs arbitrary: ps) (simp_all add: insert_one_def insert_score_def)
  then show ?thesis by (simp add: insertBatch_def Let_def)
qed

lemma persist_total:
  "\<exists>r db'. persist tx tenant run w1 w2 res db = Some (r, db') \<and> run_rows db' = run_rows db"
proof -
  have n: "0 < PERSISTENCE_BATCH_SIZE_INITIAL" by (simp add: batch_size_defs)
  obtain e ps where 1: "batch_loop w1 (upsertBatch tx tenant) (allCandidates res) 0 0
      PERSISTENCE_BATCH_SIZE_INITIAL (fresh_state db) = Some (e, ps)" "run_rows (ps_db ps) = run_rows db"
    using batch_loop_total [where P = "\<lambda>s. run_rows (ps_db s) = run_rows db" and wr = "upsertBatch tx tenant"
        and s = "fresh_state db" and w = w1 and xs = "allCandidates res" and i = 0 and k = 0, OF n]
    by (auto simp: upsertBatch_run_rows)
  have "\<exists>e' qs. batch_loop w2 (insertBatch tx tenant run) sc 0 0 PERSISTENCE_BATCH_SIZE_INITIAL
      (ps\<lparr>ps_count := 0\<rparr>) = Some (e', qs) \<and> run_rows (ps_db qs) = run_rows db" for sc
    by (rule batch_loop_total [where P = "\<lambda>s. run_rows (ps_db s) = run_rows db" , OF n])
       (simp_all add: 1 insertBatch_run_rows)
  then obtain e' qs where "batch_loop w2 (insertBatch tx tenant run)
      (filter (\<lambda>c. scoreResult c \<noteq> None \<and> ps_ids ps (c_domain c) \<noteq> None) (r_scored res)) 0 0
      PERSISTENCE_BATCH_SIZE_INITIAL (ps\<lparr>ps_count := 0\<rparr>) = Some (e', qs)" "run_rows (ps_db qs) = run_rows db"
    by blast
  note 2 = this
  show ?thesis
  proof (cases "e = LoopDone")
    case True
    show ?thesis unfolding persist_def 1(1) True option.case prod.case loop_exit.case Let_def 2(1)
      using 2(2) by (cases e') simp_all
  next
    case False
    then show ?thesis using 1 unfolding persist_def by (cases e) auto
  qed
qed

lemma find_map_same:
  assumes "find Q xs \<noteq> None" "\<And>x. Q (f x) = Q x"
  shows "\<exists>x. find Q (map f xs) = Some (f x) \<and> Q x"
  using assms by (induction xs) auto

lemma complete_run_found:
  assumes "find_run tenant run db \<noteq> None"
  shows "\<exists>r. find_run tenant run (complete_run tenant run err res db) = Some r \<and>
    rr_finished r \<and> rr_error r = err \<and> rr_results r = res"
proof -
  define f where "f r = (if rr_id r = run \<and> rr_tenant r = tenant
        then r\<lparr>rr_finished := True, rr_error := err, rr_results := res\<rparr> else r)" for r :: run_row
  have "\<exists>x. find (\<lambda>r. rr_id r = run \<and> rr_tenant r = tenant) (map f (run_rows db)) = Some (f x)
      \<and> rr_id x = run \<and> rr_tenant x = tenant"
    by (rule find_map_same) (use assms in \<open>auto simp: find_run_def f_def\<close>)
  then show ?thesis by (auto simp: find_run_def complete_run_def f_def [abs_def])
qed

lemma insert_run_found: "find_run tenant run (insert_run tenant run inp db) \<noteq> None"
  by (simp add: find_run_def insert_run_def find_None_iff) (metis run_row.select_convs(1,2))

lemma find_run_cong: "run_rows db' = run_rows db \<Longrightarrow> find_run tenant run db' = find_run tenant run db"
  by (simp add: find_run_def)


section \<open>Instances\<close>

definition steady_world :: batch_world where
  "steady_world = \<lparr>bw_inTime = \<lambda>_. True, bw_elapsed = \<lambda>_. 200, bw_fault = \<lambda>_. None\<rparr>"

definition timed_world :: "ms \<Rightarrow> nat option \<Rightarrow> batch_world" where
  "timed_world e f = \<lparr>bw_inTime = \<lambda>_. True, bw_elapsed = \<lambda>k. if k = 0 then e else 200,
     bw_fault = \<lambda>k. if k = 0 then f else None\<rparr>"

lemma steady_world: "steady steady_world"
  by (simp add: steady_def steady_world_def batch_size_defs)

definition bulk_candidate :: candidate where
  "bulk_candidate = new_candidate ''r'' KeywordCombo ''nike.com'' ''.com''"

definition bulk_scored :: "score_result \<Rightarrow> scored_candidate" where
  "bulk_scored sr = candidate.extend bulk_candidate \<lparr>scoreResult = Some sr\<rparr>"

definition bulk_result :: "nat \<Rightarrow> scored_candidate list \<Rightarrow> pipeline_result" where
  "bulk_result n sc = \<lparr>r_recommended = [], r_scored = sc, allCandidates = replicate n bulk_candidate,
     r_summary = (\<lambda>_. None), r_stageErrors = [], degraded = False, degradedReasons = []\<rparr>"

definition empty_db :: run_db where
  "empty_db = \<lparr>cand_rows = [], next_cand = 1, score_rows = [], run_rows = []\<rparr>"

lemma bulk_simps [simp]:
  "allCandidates (bulk_result n sc) = replicate n bulk_candidate"
  "r_scored (bulk_result n sc) = sc"
  "bw_inTime (timed_world e f) k" "bw_fault (timed_world e f) 0 = f" "bw_elapsed (timed_world e f) 0 = e"
  "bw_fault (timed_world e f) (Suc k) = None" "bw_elapsed (timed_world e f) (Suc k) = 200"
  "scoreResult (bulk_scored sr) = Some sr" "c_domain (bulk_scored sr) = c_domain bulk_candidate"
  by (simp_all add: bulk_result_def timed_world_def bulk_scored_def candidate.defs)


lemma fast_batch_skips_candidates_witness:
  "\<exists>db' m. persist False ''t'' ''r'' (timed_world 20 None) steady_world (bulk_result 900 []) empty_db =
      Some (Inr (500, m), db')"
  using fast_batch_skips_candidates [of "bulk_result 900 []" "timed_world 20 None" steady_world False
      "''t''" "''r''" empty_db] steady_world
  by (auto simp: scored_among_def)

lemma failed_batch_rolled_back_iff_shared_witness:
  "\<exists>db'. persist False ''t'' ''r'' (timed_world 20 (Some 2)) steady_world (bulk_result 3 []) empty_db =
      Some (Inl PersistenceWrite, db') \<and> stored ''t'' ''nike.com'' db'"
proof -
  have "c_domain bulk_candidate = ''nike.com''" by (simp add: bulk_candidate_def new_candidate_def)
  then show ?thesis
    using failed_batch_rolled_back_iff_shared [of "timed_world 20 (Some 2)" 2 "bulk_result 3 []" False
        "''t''" "''r''" steady_world empty_db]
    by (auto simp: numeral_eq_Suc)
qed

lemma slow_batch_duplicates_scores_witness:
  "\<forall>sr. \<exists>db'. persist False ''t'' ''r'' steady_world (timed_world 900 None)
      (bulk_result 1 (replicate 300 (bulk_scored sr))) empty_db = Some (Inr (1, 350), db')"
proof
  fix sr
  let ?res = "bulk_result 1 (replicate 300 (bulk_scored sr))"
  have "replicate 300 (bulk_scored sr) = scored_among (allCandidates ?res) ?res"
    by (simp add: scored_among_def filter_replicate)
  from slow_batch_duplicates_scores [OF steady_world this, where ?w2.0 = "timed_world 900 None"
      and tx = False and tenant = "''t''" and run = "''r''" and db = empty_db]
  show "\<exists>db'. persist False ''t'' ''r'' steady_world (timed_world 900 None) ?res empty_db = Some (Inr (1, 350), db')"
    by auto
qed

section \<open>The time for persistence\<close>

lemma persistence_timeout_bounds:
  "30000 \<le> computePersistenceTimeoutMs ttl beat" "computePersistenceTimeoutMs ttl beat \<le> 90000"
  by (auto simp: computePersistenceTimeoutMs_def DEFAULT_PERSISTENCE_TOTAL_TIMEOUT_MS_def split: option.split)

text \<open>It is below the time to live of a stage lock unless that is short.\<close>

lemma persistence_timeout_below_ttl_iff:
  assumes "0 < t" "0 < b"
  shows "computePersistenceTimeoutMs (Some t) (Some b) < t \<longleftrightarrow> 30000 < t"
  using assms by (auto simp: computePersistenceTimeoutMs_def DEFAULT_PERSISTENCE_TOTAL_TIMEOUT_MS_def)

end
