(* ===== verification/Billing.thy ===== *)
theory Billing
  imports Usage "HOL-Library.AList"
begin

text \<open>
  Billing: \<open>services/billing-service.ts\<close> with the repositories \<open>webhook-events-repository.ts\<close>,
  \<open>custom-price-repository.ts\<close> and \<open>subscription-repository.ts\<close> under \<open>db/repositories\<close>.

  The payment provider is a parameter: the events it delivers, their signature already checked,
  the sessions that it creates and what it answers when a session is fetched. The rows of
  \<open>tenant_subscriptions\<close> are a list in the order of their ids, because a lookup by customer
  takes the first row. An empty configuration value counts as absent, as it does in the code.
\<close>

section \<open>Prices\<close>

datatype billing_interval = Month | Year

record stripe_config =
  price_legacy_monthly :: "string option"
  price_legacy_yearly :: "string option"
  price_pro_monthly :: "string option"
  price_pro_yearly :: "string option"
  price_team_monthly :: "string option"
  price_team_yearly :: "string option"
  price_enterprise_monthly :: "string option"
  price_enterprise_yearly :: "string option"

record custom_price =
  cp_tenant :: string
  cp_plan :: subscription_plan
  expectedAmountEur :: int
  cp_seats :: nat

text \<open>\<open>price_id\<close> is the key of \<open>tenant_custom_prices\<close>.\<close>

type_synonym custom_prices = "string \<rightharpoonup> custom_price"

definition upsert_price :: "string \<Rightarrow> custom_price \<Rightarrow> custom_prices \<Rightarrow> custom_prices" where
  "upsert_price price cp ps = ps(price \<mapsto> cp)"

definition delete_price :: "string \<Rightarrow> custom_prices \<Rightarrow> bool \<times> custom_prices" where
  "delete_price price ps = (ps price \<noteq> None, ps(price := None))"

definition deleteByTenant :: "string \<Rightarrow> custom_prices \<Rightarrow> custom_prices" where
  "deleteByTenant tenant ps =
     (\<lambda>price. case ps price of Some cp \<Rightarrow> if cp_tenant cp = tenant then None else Some cp | None \<Rightarrow> None)"

fun resolvePriceId :: "stripe_config \<Rightarrow> subscription_plan \<Rightarrow> billing_interval \<Rightarrow> string option" where
  "resolvePriceId c PlanFree i = None"
| "resolvePriceId c PlanPro Month =
     (case price_pro_monthly c of Some p \<Rightarrow> Some p | None \<Rightarrow> price_legacy_monthly c)"
| "resolvePriceId c PlanPro Year =
     (case price_pro_yearly c of Some p \<Rightarrow> Some p | None \<Rightarrow> price_legacy_yearly c)"
| "resolvePriceId c PlanTeam Month = price_team_monthly c"
| "resolvePriceId c PlanTeam Year = price_team_yearly c"
| "resolvePriceId c PlanEnterprise Month = price_enterprise_monthly c"
| "resolvePriceId c PlanEnterprise Year = price_enterprise_yearly c"

definition configured_prices :: "stripe_config \<Rightarrow> (string option \<times> subscription_plan) list" where
  "configured_prices c =
     [(price_legacy_monthly c, PlanPro), (price_legacy_yearly c, PlanPro),
      (price_pro_monthly c, PlanPro), (price_pro_yearly c, PlanPro),
      (price_team_monthly c, PlanTeam), (price_team_yearly c, PlanTeam),
      (price_enterprise_monthly c, PlanEnterprise), (price_enterprise_yearly c, PlanEnterprise)]"

text \<open>The empty string is falsy, as a price and as a tenant.\<close>

definition resolvePlanForPriceIdSync ::
  "stripe_config \<Rightarrow> string option \<Rightarrow> subscription_plan option" where
  "resolvePlanForPriceIdSync c price =
     (case price of
        None \<Rightarrow> None
      | Some p \<Rightarrow> if p = [] then None
          else map_option snd (find (\<lambda>(q, _). q = Some p) (configured_prices c)))"

definition resolvePlanForPriceId ::
  "stripe_config \<Rightarrow> custom_prices option \<Rightarrow> string option \<Rightarrow> string option \<Rightarrow> subscription_plan option" where
  "resolvePlanForPriceId c prices price tenant =
     (case price of
        None \<Rightarrow> None
      | Some p \<Rightarrow> if p = [] then None
          else (case (prices, tenant) of
              (Some ps, Some t) \<Rightarrow>
                if t \<noteq> [] then (case ps p of Some cp \<Rightarrow> Some (cp_plan cp) | None \<Rightarrow> resolvePlanForPriceIdSync c price)
                else resolvePlanForPriceIdSync c price
            | _ \<Rightarrow> resolvePlanForPriceIdSync c price))"

section \<open>Subscriptions\<close>

type_synonym subscription_rows = "(string \<times> subscription) list"

definition findByStripeCustomerId :: "string \<Rightarrow> subscription_rows \<Rightarrow> string option" where
  "findByStripeCustomerId customer rows =
     map_option fst (find (\<lambda>(_, s). stripeCustomerId s = Some customer) rows)"

text \<open>The columns that the conflict clause does not name keep their value.\<close>

definition upsert_subscription ::
  "string \<Rightarrow> subscription_plan \<Rightarrow> subscription_status \<Rightarrow> string option \<Rightarrow> string option \<Rightarrow> ms option \<Rightarrow>
   subscription_rows \<Rightarrow> subscription_rows" where
  "upsert_subscription tenant plan status customer sid start rows =
     AList.update tenant
       \<lparr>s_plan = plan, s_status = status, stripeCustomerId = customer, stripeSubscriptionId = sid,
        currentPeriodStart = start, currentPeriodEnd = None, trialEnd = None,
        canceledAt = (case map_of rows tenant of Some s \<Rightarrow> canceledAt s | None \<Rightarrow> None)\<rparr> rows"

definition update_row :: "string \<Rightarrow> (subscription \<Rightarrow> subscription) \<Rightarrow> subscription_rows \<Rightarrow> subscription_rows" where
  "update_row tenant f rows = map (\<lambda>(t, s). (t, if t = tenant then f s else s)) rows"

definition updateStatus :: "string \<Rightarrow> subscription_status \<Rightarrow> subscription_rows \<Rightarrow> subscription_rows" where
  "updateStatus tenant status = update_row tenant (\<lambda>s. s\<lparr>s_status := status\<rparr>)"

definition updateStripeSubscription ::
  "string \<Rightarrow> string \<Rightarrow> subscription_status \<Rightarrow> ms \<Rightarrow> ms \<Rightarrow> subscription_plan option \<Rightarrow>
   subscription_rows \<Rightarrow> subscription_rows" where
  "updateStripeSubscription tenant sid status start finish plan =
     update_row tenant (\<lambda>s. s\<lparr>stripeSubscriptionId := Some sid, s_status := status,
        currentPeriodStart := Some start, currentPeriodEnd := Some finish,
        s_plan := (case plan of Some p \<Rightarrow> p | None \<Rightarrow> s_plan s)\<rparr>)"

definition cancel_subscription :: "string \<Rightarrow> ms \<Rightarrow> subscription_rows \<Rightarrow> subscription_rows" where
  "cancel_subscription tenant now =
     update_row tenant (\<lambda>s. s\<lparr>s_status := SubCanceled, canceledAt := Some now\<rparr>)"

section \<open>The checkout\<close>

definition STRIPE_IDEMPOTENCY_WINDOW_MS :: ms where
  "STRIPE_IDEMPOTENCY_WINDOW_MS = 24 * 60 * 60 * 1000"

text \<open>What the payment provider is asked for; the idempotency key is the text of these four parts.\<close>

record stripe_checkout =
  cr_customer :: "string option"
  cr_price :: string
  cr_metadata :: "string \<times> subscription_plan"
  cr_trial_days :: "nat option"
  cr_idempotency :: "string \<times> subscription_plan \<times> billing_interval \<times> int"

definition checkout_request ::
  "stripe_config \<Rightarrow> custom_prices option \<Rightarrow> subscription_rows \<Rightarrow> ms \<Rightarrow> string \<Rightarrow> subscription_plan \<Rightarrow>
   billing_interval \<Rightarrow> string option \<Rightarrow> stripe_checkout option" where
  "checkout_request c prices rows now tenant plan interval customPrice =
     (let customer = (case map_of rows tenant of Some s \<Rightarrow> stripeCustomerId s | None \<Rightarrow> None);
          request = (\<lambda>price p. \<lparr>cr_customer = customer, cr_price = price, cr_metadata = (tenant, p),
             cr_trial_days = (if customer = None then Some 14 else None),
             cr_idempotency = (tenant, p, interval, now div STRIPE_IDEMPOTENCY_WINDOW_MS)\<rparr>)
      in if customPrice \<noteq> None \<and> customPrice \<noteq> Some []
         then (case prices of
                 None \<Rightarrow> None
               | Some ps \<Rightarrow> (case ps (the customPrice) of
                     None \<Rightarrow> None
                   | Some cp \<Rightarrow> if cp_tenant cp \<noteq> tenant then None
                               else Some (request (the customPrice) (cp_plan cp))))
         else (case resolvePriceId c plan interval of
                 None \<Rightarrow> None
               | Some p \<Rightarrow> if p = [] then None else Some (request p plan)))"

text \<open>\<open>create\<close> is the provider's answer: the URL of the session, or none.\<close>

definition createCheckoutSession ::
  "stripe_config \<Rightarrow> custom_prices option \<Rightarrow> (stripe_checkout \<Rightarrow> string option) \<Rightarrow> subscription_rows \<Rightarrow> ms \<Rightarrow>
   string \<Rightarrow> subscription_plan \<Rightarrow> billing_interval \<Rightarrow> string option \<Rightarrow> (string \<times> subscription_plan) option" where
  "createCheckoutSession c prices create rows now tenant plan interval customPrice =
     (case checkout_request c prices rows now tenant plan interval customPrice of
        None \<Rightarrow> None
      | Some r \<Rightarrow> (case create r of
            Some url \<Rightarrow> if url = [] then None else Some (url, snd (cr_metadata r))
          | None \<Rightarrow> None))"

definition createPortalSession :: "subscription_rows \<Rightarrow> (string \<Rightarrow> string) \<Rightarrow> string \<Rightarrow> string option" where
  "createPortalSession rows portal tenant =
     (case map_of rows tenant of
        None \<Rightarrow> None
      | Some s \<Rightarrow> (case stripeCustomerId s of
            None \<Rightarrow> None | Some cu \<Rightarrow> if cu = [] then None else Some (portal cu)))"

section \<open>Webhooks\<close>

text \<open>Which events were claimed, and when: the table \<open>webhook_events\<close>, whose key is provider and
  event id.\<close>

type_synonym webhook_events = "string \<times> string \<rightharpoonup> ms"

definition markProcessed :: "ms \<Rightarrow> string \<times> string \<Rightarrow> webhook_events \<Rightarrow> bool \<times> webhook_events" where
  "markProcessed now k es = (case es k of Some _ \<Rightarrow> (False, es) | None \<Rightarrow> (True, es(k \<mapsto> now)))"

definition release_event :: "string \<times> string \<Rightarrow> webhook_events \<Rightarrow> webhook_events" where
  "release_event k es = es(k := None)"

definition isProcessed :: "webhook_events \<Rightarrow> string \<times> string \<Rightarrow> bool" where
  "isProcessed es k \<longleftrightarrow> es k \<noteq> None"

definition pruneOlderThan :: "ms \<Rightarrow> webhook_events \<Rightarrow> webhook_events" where
  "pruneOlderThan cutoff es =
     (\<lambda>k. case es k of Some t \<Rightarrow> if t < cutoff then None else Some t | None \<Rightarrow> None)"

definition EVENT_ID_CACHE_MAX :: nat where "EVENT_ID_CACHE_MAX = 10000"

text \<open>The memory of one process: a \<open>Map\<close> in the order of insertion. Storing the time of a claim may
  evict the oldest entry.\<close>

type_synonym event_cache = "(string \<times> ms) list"

definition remember_event :: "string \<Rightarrow> ms \<Rightarrow> event_cache \<Rightarrow> event_cache" where
  "remember_event e now cache =
     (let cache' = AList.update e now cache
      in if EVENT_ID_CACHE_MAX < length cache' then tl cache' else cache')"

text \<open>A claim, with or without the table; an error when the table cannot be reached.\<close>

definition claimEvent ::
  "bool \<Rightarrow> bool \<Rightarrow> ms \<Rightarrow> string \<Rightarrow> webhook_events \<Rightarrow> event_cache \<Rightarrow> (unit + bool) \<times> webhook_events \<times> event_cache" where
  "claimEvent has_repo reachable_db now e es cache =
     (let (hit, cache1) = (case map_of cache e of
            None \<Rightarrow> (False, cache)
          | Some t \<Rightarrow> if STRIPE_IDEMPOTENCY_WINDOW_MS < now - t then (False, AList.delete e cache) else (True, cache))
      in if hit then (Inr False, es, cache1)
         else if \<not> has_repo then (Inr True, es, remember_event e now cache1)
         else if \<not> reachable_db then (Inl (), es, cache1)
         else (case markProcessed now (''stripe'', e) es of
                 (False, es') \<Rightarrow> (Inr False, es', cache1)
               | (True, es') \<Rightarrow> (Inr True, es', remember_event e now cache1)))"

definition releaseEvent ::
  "bool \<Rightarrow> bool \<Rightarrow> string \<Rightarrow> webhook_events \<Rightarrow> event_cache \<Rightarrow> webhook_events \<times> event_cache" where
  "releaseEvent has_repo reachable_db e es cache =
     (if has_repo \<and> reachable_db then release_event (''stripe'', e) es else es, AList.delete e cache)"

section \<open>Events\<close>

record checkout_session =
  se_id :: "string option"
  se_tenant :: "string option"
  se_plan :: "subscription_plan option"
  se_customer :: "string option"
  se_subscription :: "string option"
  is_subscription :: bool
  amount_total :: "int option"
  se_price :: "string option"

record stripe_subscription =
  ss_id :: "string option"
  ss_customer :: "string option"
  ss_status :: "subscription_status option"
  ss_start :: "int option"
  ss_end :: "int option"
  ss_tenant :: "string option"
  ss_plan :: "subscription_plan option"
  ss_price :: "string option"

datatype stripe_event =
    CheckoutCompleted checkout_session
  | SubscriptionChanged stripe_subscription
  | PaymentFailed "string option"
  | SubscriptionDeleted "string option"
  | OtherEvent string

text \<open>\<open>retrieve\<close>: the price of the first line item when the session is fetched, if that succeeds.\<close>

definition resolveCheckoutPriceId :: "(string \<Rightarrow> string option) \<Rightarrow> checkout_session \<Rightarrow> string option" where
  "resolveCheckoutPriceId retrieve se =
     (if se_price se \<noteq> None \<and> se_price se \<noteq> Some [] then se_price se
      else (case se_id se of
          None \<Rightarrow> None | Some i \<Rightarrow> if i = [] then None else retrieve i))"

text \<open>Whether a custom price allows the grant: its tenant, and the amount in whole euros.\<close>

definition custom_price_allows :: "string \<Rightarrow> int option \<Rightarrow> custom_price option \<Rightarrow> bool" where
  "custom_price_allows tenant amount cp =
     (case cp of None \<Rightarrow> True
      | Some cp \<Rightarrow> cp_tenant cp = tenant \<and>
          js_round (of_int (case amount of Some a \<Rightarrow> a | None \<Rightarrow> 0) / 100) = expectedAmountEur cp)"

definition checkout_plan ::
  "stripe_config \<Rightarrow> custom_prices option \<Rightarrow> (string \<Rightarrow> string option) \<Rightarrow> checkout_session \<Rightarrow>
   subscription_plan option" where
  "checkout_plan c prices retrieve se =
     (case resolveCheckoutPriceId retrieve se of
        None \<Rightarrow> Some (case se_plan se of Some p \<Rightarrow> p | None \<Rightarrow> PlanPro)
      | Some price \<Rightarrow>
          if price = [] then Some (case se_plan se of Some p \<Rightarrow> p | None \<Rightarrow> PlanPro)
          else (case resolvePlanForPriceId c prices (Some price) (se_tenant se) of
              None \<Rightarrow> None
            | Some p \<Rightarrow> if custom_price_allows (the (se_tenant se)) (amount_total se)
                             (case prices of Some ps \<Rightarrow> ps price | None \<Rightarrow> None)
                        then Some p else None))"

text \<open>A period comes in seconds; zero and absence mean now.\<close>

definition period_of :: "ms \<Rightarrow> int option \<Rightarrow> ms" where
  "period_of now s = (case s of Some x \<Rightarrow> if x = 0 then now else x * 1000 | None \<Rightarrow> now)"

definition change_subscription ::
  "ms \<Rightarrow> string \<Rightarrow> stripe_subscription \<Rightarrow> subscription_plan option \<Rightarrow> subscription_rows \<Rightarrow> subscription_rows" where
  "change_subscription now tenant ss plan =
     updateStripeSubscription tenant (case ss_id ss of Some i \<Rightarrow> i | None \<Rightarrow> [])
       (case ss_status ss of Some st \<Rightarrow> st | None \<Rightarrow> SubActive)
       (period_of now (ss_start ss)) (period_of now (ss_end ss)) plan"

definition customer_of :: "string option \<Rightarrow> string" where
  "customer_of cu = (case cu of Some x \<Rightarrow> x | None \<Rightarrow> [])"

fun processEvent ::
  "stripe_config \<Rightarrow> custom_prices option \<Rightarrow> (string \<Rightarrow> string option) \<Rightarrow> ms \<Rightarrow> stripe_event \<Rightarrow>
   subscription_rows \<Rightarrow> subscription_rows" where
  "processEvent c prices retrieve now (CheckoutCompleted se) rows =
     (if \<not> is_subscription se then rows
      else if se_tenant se = None \<or> se_tenant se = Some [] then rows
      else (case checkout_plan c prices retrieve se of
          None \<Rightarrow> rows
        | Some p \<Rightarrow> upsert_subscription (the (se_tenant se)) p SubActive (se_customer se) (se_subscription se)
                     (Some now) rows))"
| "processEvent c prices retrieve now (SubscriptionChanged ss) rows =
     (let priced = resolvePlanForPriceId c prices (ss_price ss) (ss_tenant ss);
          plan = (case priced of Some p \<Rightarrow> Some p | None \<Rightarrow> ss_plan ss)
      in if ss_tenant ss \<noteq> None \<and> ss_tenant ss \<noteq> Some []
         then change_subscription now (the (ss_tenant ss)) ss plan rows
         else (case findByStripeCustomerId (customer_of (ss_customer ss)) rows of
             None \<Rightarrow> rows
           | Some t \<Rightarrow> change_subscription now t ss plan rows))"
| "processEvent c prices retrieve now (PaymentFailed cu) rows =
     (case findByStripeCustomerId (customer_of cu) rows of
        None \<Rightarrow> rows | Some t \<Rightarrow> if t = [] then rows else updateStatus t SubPastDue rows)"
| "processEvent c prices retrieve now (SubscriptionDeleted cu) rows =
     (case findByStripeCustomerId (customer_of cu) rows of
        None \<Rightarrow> rows | Some t \<Rightarrow> if t = [] then rows else cancel_subscription t now rows)"
| "processEvent c prices retrieve now (OtherEvent _) rows = rows"

text \<open>The handler for an event whose signature is verified. \<open>fails\<close> says that the handler's
  database access throws; its write is its last access, so the rows are then as before.\<close>

record billing_state =
  bs_rows :: subscription_rows
  bs_events :: webhook_events
  bs_cache :: event_cache

datatype webhook_outcome = HookRejected | HookDuplicate | HookProcessed | HookFailed

definition handleWebhookEvent ::
  "stripe_config \<Rightarrow> custom_prices option \<Rightarrow> (string \<Rightarrow> string option) \<Rightarrow> bool \<Rightarrow> bool \<Rightarrow> bool \<Rightarrow> bool \<Rightarrow>
   ms \<Rightarrow> string \<Rightarrow> stripe_event \<Rightarrow> billing_state \<Rightarrow> webhook_outcome \<times> billing_state" where
  "handleWebhookEvent c prices retrieve has_repo reachable_db fails release_ok now e ev st =
     (case claimEvent has_repo reachable_db now e (bs_events st) (bs_cache st) of
        (Inl _, es, cache) \<Rightarrow> (HookRejected, st\<lparr>bs_events := es, bs_cache := cache\<rparr>)
      | (Inr False, es, cache) \<Rightarrow> (HookDuplicate, st\<lparr>bs_events := es, bs_cache := cache\<rparr>)
      | (Inr True, es, cache) \<Rightarrow>
          if fails then
            (case releaseEvent has_repo release_ok e es cache of
               (es', cache') \<Rightarrow> (HookFailed, st\<lparr>bs_events := es', bs_cache := cache'\<rparr>))
          else (HookProcessed, \<lparr>bs_rows = processEvent c prices retrieve now ev (bs_rows st),
                  bs_events = es, bs_cache = cache\<rparr>))"

section \<open>The contract of the claims\<close>

text \<open>What a handler relies on: a claim is granted exactly when the key is not held, and then it is
  held; a release gives up its own key only. A list of keys is guarded when it has no repetition
  and all of it is held.\<close>

locale claim_once =
  fixes held :: "'s \<Rightarrow> 'k \<Rightarrow> bool" and claim :: "'k \<Rightarrow> 's \<Rightarrow> bool \<times> 's"
  assumes claim_granted: "fst (claim k s) \<longleftrightarrow> \<not> held s k"
    and claim_holds: "held (snd (claim k s)) k' \<longleftrightarrow> held s k' \<or> k' = k"
begin

definition guarded :: "'s \<Rightarrow> 'k list \<Rightarrow> bool" where
  "guarded s ks \<longleftrightarrow> distinct ks \<and> (\<forall>k\<in>set ks. held s k)"

lemma guarded_claim: "guarded s ks \<Longrightarrow> fst (claim k s) \<Longrightarrow> guarded (snd (claim k s)) (k # ks)"
  by (auto simp: guarded_def claim_granted claim_holds)

lemma guarded_refused: "guarded s ks \<Longrightarrow> guarded (snd (claim k s)) ks"
  by (auto simp: guarded_def claim_holds)

lemma guarded_drop: "guarded s ks \<Longrightarrow> guarded s (remove1 k ks)"
  by (auto simp: guarded_def dest: notin_set_remove1 intro: distinct_remove1)

lemma guarded_perm: "mset ks = mset ks' \<Longrightarrow> guarded s ks \<longleftrightarrow> guarded s ks'"
  by (metis guarded_def mset_eq_imp_distinct_iff set_mset_mset)

text \<open>The claims of a sequence that are granted.\<close>

primrec grants :: "'k list \<Rightarrow> 's \<Rightarrow> 'k list" where
  "grants [] s = []"
| "grants (k # ks) s =
     (if fst (claim k s) then k # grants ks (snd (claim k s)) else grants ks (snd (claim k s)))"

lemma grants_distinct: "distinct (grants ks s) \<and> (\<forall>k\<in>set (grants ks s). \<not> held s k)"
proof (induction ks arbitrary: s)
  case (Cons k ks)
  from Cons.IH [of "snd (claim k s)"] show ?case by (auto simp: claim_granted claim_holds)
qed simp

end

locale claim_store = claim_once held claim
  for held :: "'s \<Rightarrow> 'k \<Rightarrow> bool" and claim :: "'k \<Rightarrow> 's \<Rightarrow> bool \<times> 's" +
  fixes give_back :: "'k \<Rightarrow> 's \<Rightarrow> 's"
  assumes give_back_holds: "held (give_back k s) k' \<longleftrightarrow> held s k' \<and> k' \<noteq> k"
begin

lemma guarded_give_back:
  assumes "guarded s ks" "k \<in> set ks"
  shows "guarded (give_back k s) (remove1 k ks)"
  using assms by (auto simp: guarded_def give_back_holds distinct_remove1)

end

text \<open>The table keeps the contract, for the keys of one provider.\<close>

definition stripe_claim :: "ms \<Rightarrow> string \<Rightarrow> webhook_events \<Rightarrow> bool \<times> webhook_events" where
  "stripe_claim now e = markProcessed now (''stripe'', e)"

lemma markProcessed_laws:
  "fst (markProcessed now k es) \<longleftrightarrow> \<not> isProcessed es k"
  "isProcessed (snd (markProcessed now k es)) k' \<longleftrightarrow> isProcessed es k' \<or> k' = k"
  "isProcessed (release_event k es) k' \<longleftrightarrow> isProcessed es k' \<and> k' \<noteq> k"
  by (auto simp: markProcessed_def isProcessed_def release_event_def split: option.splits)

interpretation hooks: claim_store "\<lambda>es e. isProcessed es (''stripe'', e)" "stripe_claim now"
    "\<lambda>e. release_event (''stripe'', e)" for now
  by unfold_locales (simp_all add: stripe_claim_def markProcessed_laws)

section \<open>Several processes\<close>

text \<open>Processes share the table and have a cache each. Between its claim and its end a handler may
  be overtaken by others; it may succeed, fail and release its claim, or die with its process.\<close>

record hook_world =
  hw_events :: webhook_events
  hw_cache :: "nat \<Rightarrow> event_cache"
  hw_busy :: "(nat \<times> string) list"
  hw_done :: "string list"

inductive hook_step :: "hook_world \<Rightarrow> hook_world \<Rightarrow> bool" where
  Claim: "claimEvent True up now e (hw_events w) (hw_cache w p) = (r, es, cache) \<Longrightarrow>
    hook_step w (w\<lparr>hw_events := es, hw_cache := (hw_cache w)(p := cache),
      hw_busy := (if r = Inr True then (p, e) # hw_busy w else hw_busy w)\<rparr>)"
| Succeed: "(p, e) \<in> set (hw_busy w) \<Longrightarrow>
    hook_step w (w\<lparr>hw_busy := remove1 (p, e) (hw_busy w), hw_done := e # hw_done w\<rparr>)"
| Fail: "(p, e) \<in> set (hw_busy w) \<Longrightarrow> releaseEvent True up e (hw_events w) (hw_cache w p) = (es, cache) \<Longrightarrow>
    hook_step w (w\<lparr>hw_events := es, hw_cache := (hw_cache w)(p := cache),
      hw_busy := remove1 (p, e) (hw_busy w)\<rparr>)"
| Crash: "hook_step w (w\<lparr>hw_cache := (hw_cache w)(p := []),
      hw_busy := filter (\<lambda>(q, _). q \<noteq> p) (hw_busy w)\<rparr>)"

inductive hook_reachable :: "hook_world \<Rightarrow> hook_world \<Rightarrow> bool" for w0 :: hook_world where
  Start: "hook_reachable w0 w0"
| Step: "hook_reachable w0 w \<Longrightarrow> hook_step w w' \<Longrightarrow> hook_reachable w0 w'"


definition fresh_hooks :: hook_world where
  "fresh_hooks = \<lparr>hw_events = Map.empty, hw_cache = \<lambda>_. [], hw_busy = [], hw_done = []\<rparr>"

definition claims_guarded :: "hook_world \<Rightarrow> bool" where
  "claims_guarded w \<longleftrightarrow> hooks.guarded (hw_events w) (map snd (hw_busy w) @ hw_done w)"

text \<open>A claim that is not refused by the cache is the claim of the table.\<close>

lemma claimEvent_table:
  assumes "claimEvent True up now e es cache = (r, es', cache')"
  shows "es' = es \<and> r \<noteq> Inr True \<or> es' = snd (stripe_claim now e es) \<and> (r = Inr True \<longleftrightarrow> fst (stripe_claim now e es))"
  using assms unfolding claimEvent_def stripe_claim_def
  by (auto simp: Let_def split: option.splits if_splits prod.splits bool.splits)

lemma mset_remove1_busy:
  assumes "(p, e) \<in> set busy"
  shows "mset (e # map snd (remove1 (p, e) busy)) = mset (map snd busy)"
  using assms by (induction busy) auto

lemma claims_guarded_step:
  assumes "claims_guarded w" "hook_step w w'"
  shows "claims_guarded w'"
  using assms(2)
proof (cases rule: hook_step.cases)
  case (Claim up now e p r es cache)
  from claimEvent_table [OF Claim(2)] assms(1) show ?thesis
    unfolding Claim(1) claims_guarded_def
    by (auto dest: hooks.guarded_claim hooks.guarded_refused)
next
  case (Succeed p e)
  have "mset (map snd (remove1 (p, e) (hw_busy w)) @ e # hw_done w) = mset (map snd (hw_busy w) @ hw_done w)"
    using mset_remove1_busy [OF Succeed(2)] by simp
  from hooks.guarded_perm [OF this] assms(1) show ?thesis
    unfolding Succeed(1) claims_guarded_def by simp
next
  case (Fail p e up es cache)
  let ?ks = "map snd (hw_busy w) @ hw_done w"
  have e: "e \<in> set ?ks" using Fail(2) by force
  have "mset (map snd (remove1 (p, e) (hw_busy w)) @ hw_done w) = mset (remove1 e ?ks)"
    using mset_remove1_busy [OF Fail(2)] by (metis add_mset_remove_trivial append_Cons mset.simps(2) mset_append mset_remove1)
  note perm = hooks.guarded_perm [OF this]
  have "es = hw_events w \<or> es = release_event (''stripe'', e) (hw_events w)"
    using Fail(3) by (auto simp: releaseEvent_def split: if_splits)
  then show ?thesis using assms(1) hooks.guarded_drop hooks.guarded_give_back [OF _ e]
    unfolding Fail(1) claims_guarded_def by (auto simp: perm)
next
  case (Crash p)
  then show ?thesis using assms(1)
    by (auto simp: claims_guarded_def hooks.guarded_def inj_on_def distinct_map)
qed

lemma claims_guarded_reachable:
  assumes "hook_reachable w0 w" "claims_guarded w0"
  shows "claims_guarded w"
  using assms by (induction rule: hook_reachable.induct) (auto intro: claims_guarded_step)

lemma fresh_hooks_guarded: "claims_guarded fresh_hooks"
  by (simp add: claims_guarded_def fresh_hooks_def hooks.guarded_def)

section \<open>Properties of the claims\<close>

text \<open>C19. However the deliveries of events interleave over any number of processes that share the
  table, with handlers that fail, processes that die and a table that is unreachable at times, no
  event is processed successfully twice.\<close>

theorem webhook_processed_at_most_once:
  assumes "hook_reachable fresh_hooks w"
  shows "distinct (hw_done w)"
  using claims_guarded_reachable [OF assms fresh_hooks_guarded]
  by (simp add: claims_guarded_def hooks.guarded_def)

text \<open>An event is stranded when its claim is held, no handler works on it and none has finished it.\<close>

definition stranded :: "string \<Rightarrow> hook_world \<Rightarrow> bool" where
  "stranded e w \<longleftrightarrow> isProcessed (hw_events w) (''stripe'', e) \<and> e \<notin> snd ` set (hw_busy w) \<and> e \<notin> set (hw_done w)"

lemma stranded_step:
  assumes "stranded e w" "hook_step w w'"
  shows "stranded e w'"
  using assms(2)
proof (cases rule: hook_step.cases)
  case (Claim up now f p r es cache)
  from claimEvent_table [OF Claim(2)] assms(1) show ?thesis
    unfolding Claim(1) stranded_def by (auto simp: stripe_claim_def markProcessed_laws)
next
  case (Succeed p f)
  then show ?thesis using assms(1) notin_set_remove1
    by (auto simp: stranded_def image_iff dest: notin_set_remove1)
next
  case (Fail p f up es cache)
  have "f \<noteq> e" using Fail(2) assms(1) by (force simp: stranded_def)
  moreover have "es = hw_events w \<or> es = release_event (''stripe'', f) (hw_events w)"
    using Fail(3) by (auto simp: releaseEvent_def split: if_splits)
  ultimately show ?thesis using assms(1) set_remove1_subset [of "(p, f)" "hw_busy w"]
    unfolding Fail(1) stranded_def by (auto simp: markProcessed_laws)
next
  case (Crash p)
  then show ?thesis using assms(1) by (auto simp: stranded_def)
qed

lemma stranded_reachable:
  assumes "hook_reachable w0 w" "stranded e w0"
  shows "stranded e w"
  using assms by (induction rule: hook_reachable.induct) (auto intro: stranded_step)

lemma crash_strands:
  assumes "claims_guarded w" "(p, e) \<in> set (hw_busy w)"
  shows "stranded e (w\<lparr>hw_cache := (hw_cache w)(p := []), hw_busy := filter (\<lambda>(q, _). q \<noteq> p) (hw_busy w)\<rparr>)"
proof -
  have d: "distinct (map snd (hw_busy w))" "e \<notin> set (hw_done w)" "isProcessed (hw_events w) (''stripe'', e)"
    using assms by (auto simp: claims_guarded_def hooks.guarded_def) force+
  have "q = p" if "(q, e) \<in> set (hw_busy w)" for q
    using d(1) assms(2) that by (metis eq_key_imp_eq_value distinct_map inj_onD prod.inject snd_conv)
  with d(2,3) show ?thesis by (auto simp: stranded_def)
qed

text \<open>A process that dies while it handles an event loses the event: whatever happens later, no
  delivery of it is ever processed.\<close>

theorem crash_loses_event:
  assumes "hook_reachable fresh_hooks w" "(p, e) \<in> set (hw_busy w)"
    and "hook_reachable (w\<lparr>hw_cache := (hw_cache w)(p := []), hw_busy := filter (\<lambda>(q, _). q \<noteq> p) (hw_busy w)\<rparr>) w'"
  shows "e \<notin> set (hw_done w')"
  using stranded_reachable [OF assms(3) crash_strands [OF claims_guarded_reachable [OF assms(1) fresh_hooks_guarded] assms(2)]]
  by (simp add: stranded_def)

definition claimed_hooks :: hook_world where
  "claimed_hooks = \<lparr>hw_events = [(''stripe'', ''evt'') \<mapsto> 5], hw_cache = (\<lambda>_. [])(1 := [(''evt'', 5)]),
     hw_busy = [(1, ''evt'')], hw_done = []\<rparr>"

lemma claimed_hooks: "hook_reachable fresh_hooks claimed_hooks"
proof -
  have c: "claimEvent True True 5 ''evt'' (hw_events fresh_hooks) (hw_cache fresh_hooks 1)
    = (Inr True, [(''stripe'', ''evt'') \<mapsto> 5], [(''evt'', 5)])"
    by (simp add: claimEvent_def fresh_hooks_def markProcessed_def remember_event_def EVENT_ID_CACHE_MAX_def)
  have "hook_step fresh_hooks claimed_hooks"
    using hook_step.Claim [OF c] by (simp add: fresh_hooks_def claimed_hooks_def)
  then show ?thesis by (rule hook_reachable.Step [OF hook_reachable.Start])
qed

lemma webhook_processed_at_most_once_witness:
  "\<exists>w. hook_reachable fresh_hooks w \<and> hw_done w = [''evt''] \<and> distinct (hw_done w)"
proof -
  let ?w = "claimed_hooks\<lparr>hw_busy := [], hw_done := [''evt'']\<rparr>"
  have "hook_step claimed_hooks ?w"
    using hook_step.Succeed [of 1 "''evt''" claimed_hooks] by (simp add: claimed_hooks_def)
  then have r: "hook_reachable fresh_hooks ?w" by (rule hook_reachable.Step [OF claimed_hooks])
  from webhook_processed_at_most_once [OF r] r show ?thesis by (intro exI [of _ ?w]) simp
qed

lemma crash_loses_event_witness:
  "''evt'' \<notin> set (hw_done (claimed_hooks\<lparr>hw_cache := (hw_cache claimed_hooks)(1 := []),
      hw_busy := filter (\<lambda>(q, _). q \<noteq> 1) (hw_busy claimed_hooks)\<rparr>))"
  by (rule crash_loses_event [OF claimed_hooks _ hook_reachable.Start]) (simp add: claimed_hooks_def)

section \<open>Properties of the grants\<close>

lemma map_of_update_row:
  "map_of (update_row tenant f rows) t = (if t = tenant then map_option f (map_of rows t) else map_of rows t)"
  by (induction rows) (auto simp: update_row_def)

lemma upsert_subscription_other:
  "t \<noteq> tenant \<Longrightarrow> map_of (upsert_subscription tenant p st cu sid start rows) t = map_of rows t"
  by (simp add: upsert_subscription_def update_conv')

lemma upsert_subscription_same:
  "\<exists>s. map_of (upsert_subscription tenant p st cu sid start rows) tenant = Some s \<and> s_plan s = p \<and> s_status s = st
     \<and> stripeCustomerId s = cu \<and> stripeSubscriptionId s = sid"
  by (simp add: upsert_subscription_def update_conv')

lemma checkout_plan_cases:
  assumes "checkout_plan c prices retrieve se = Some p"
  shows "(resolveCheckoutPriceId retrieve se \<in> {None, Some []} \<and> p = (case se_plan se of Some q \<Rightarrow> q | None \<Rightarrow> PlanPro))
    \<or> (\<exists>price. resolveCheckoutPriceId retrieve se = Some price \<and> price \<noteq> [] \<and>
         resolvePlanForPriceId c prices (Some price) (se_tenant se) = Some p \<and>
         custom_price_allows (the (se_tenant se)) (amount_total se)
           (case prices of Some ps \<Rightarrow> ps price | None \<Rightarrow> None))"
  using assms unfolding checkout_plan_def by (auto split: option.splits if_splits)


definition price_ids :: "stripe_config \<Rightarrow> string list" where
  "price_ids c = List.map_filter fst (configured_prices c)"

lemma find_configured:
  assumes "distinct (List.map_filter fst xs)" "(Some p, plan) \<in> set xs"
  shows "find (\<lambda>(q, _). q = Some p) xs = Some (Some p, plan)"
  using assms
proof (induction xs)
  case (Cons x xs)
  have "p \<in> set (List.map_filter fst xs)" if "(Some p, plan) \<in> set xs"
    using that by (force simp: List.map_filter_def)
  with Cons show ?case by (cases x; cases "fst x") (auto simp: map_filter_simps)
qed simp

lemma resolvePriceId_configured:
  assumes "resolvePriceId c plan i = Some p"
  shows "(Some p, plan) \<in> set (configured_prices c)"
  using assms by (cases plan; cases i) (auto simp: configured_prices_def split: option.splits)

text \<open>A configured price stands for the plan that it was configured for: where the prices differ
  from each other and from the custom prices, looking up the price of a plan and interval and
  resolving it again gives the plan.\<close>

theorem price_plan_roundtrip:
  assumes "resolvePriceId c plan i = Some p" "p \<noteq> []" "distinct (price_ids c)"
    and "\<And>ps. prices = Some ps \<Longrightarrow> ps p = None"
  shows "resolvePlanForPriceId c prices (Some p) tenant = Some plan"
proof -
  have "resolvePlanForPriceIdSync c (Some p) = Some plan"
    using find_configured [OF assms(3) [unfolded price_ids_def] resolvePriceId_configured [OF assms(1)]] assms(2)
    by (simp add: resolvePlanForPriceIdSync_def)
  then show ?thesis using assms(2,4)
    by (auto simp: resolvePlanForPriceId_def split: option.splits)
qed

definition example_stripe :: stripe_config where
  "example_stripe = \<lparr>price_legacy_monthly = None, price_legacy_yearly = Some ''py'',
     price_pro_monthly = Some ''pm'', price_pro_yearly = None, price_team_monthly = Some ''tm'',
     price_team_yearly = None, price_enterprise_monthly = None, price_enterprise_yearly = Some ''ey''\<rparr>"

definition example_prices :: custom_prices where
  "example_prices = [''deal'' \<mapsto> \<lparr>cp_tenant = ''acme'', cp_plan = PlanEnterprise, expectedAmountEur = 90, cp_seats = 20\<rparr>]"

lemma price_plan_roundtrip_witness:
  "resolvePlanForPriceId example_stripe (Some example_prices) (Some ''py'') (Some ''acme'') = Some PlanPro"
  by (rule price_plan_roundtrip [where i = Year])
     (auto simp: example_stripe_def example_prices_def price_ids_def configured_prices_def map_filter_simps)

definition example_session :: checkout_session where
  "example_session = \<lparr>se_id = Some ''cs'', se_tenant = Some ''acme'', se_plan = Some PlanPro,
     se_customer = Some ''cus'', se_subscription = Some ''sub'', is_subscription = True,
     amount_total = Some 9049, se_price = Some ''deal''\<rparr>"

lemma js_round_example: "js_round (9049 / 100) = 90"
  unfolding js_round_def by (simp add: floor_eq_iff)


text \<open>A custom price is not checked against its tenant when the plan comes with a change of the
  subscription: whatever tenant the event names gets the plan of the price, whoever negotiated it
  and whatever was paid.\<close>

theorem subscription_change_takes_any_custom_price:
  assumes "ss_tenant ss = Some t" "t \<noteq> []" "map_of rows t = Some s"
    and "ss_price ss = Some price" "price \<noteq> []" "ps price = Some cp"
  shows "\<exists>s'. map_of (processEvent c (Some ps) retrieve now (SubscriptionChanged ss) rows) t = Some s' \<and>
    s_plan s' = cp_plan cp"
  using assms by (simp add: change_subscription_def updateStripeSubscription_def map_of_update_row
      resolvePlanForPriceId_def)

definition example_change :: stripe_subscription where
  "example_change = \<lparr>ss_id = None, ss_customer = None, ss_status = None, ss_start = None, ss_end = None,
     ss_tenant = Some ''other'', ss_plan = None, ss_price = Some ''deal''\<rparr>"

lemma subscription_change_takes_any_custom_price_witness:
  "\<exists>s'. map_of (processEvent example_stripe (Some example_prices) (\<lambda>_. None) 7
      (SubscriptionChanged example_change) [(''other'', default_subscription)]) ''other'' = Some s' \<and>
    s_plan s' = cp_plan \<lparr>cp_tenant = ''acme'', cp_plan = PlanEnterprise, expectedAmountEur = 90, cp_seats = 20\<rparr>"
  by (rule subscription_change_takes_any_custom_price)
     (simp_all add: example_change_def example_prices_def)

definition lapse_of :: "stripe_event \<Rightarrow> string option option" where
  "lapse_of ev = (case ev of PaymentFailed cu \<Rightarrow> Some cu | SubscriptionDeleted cu \<Rightarrow> Some cu | _ \<Rightarrow> None)"

lemma findByStripeCustomerId_row:
  "findByStripeCustomerId cu rows = Some t \<Longrightarrow> map_of rows t \<noteq> None"
  by (induction rows) (auto simp: findByStripeCustomerId_def split: if_splits)

text \<open>C32. A payment that fails and the end of a subscription take the plan away at once: the tenant
  that the customer belongs to is metered as a free one until its subscription is active again,
  unless an operator has granted it a plan, and no other tenant is touched. That holds for the end
  of any subscription of the customer, also of one that the tenant has replaced.\<close>

theorem lapse_fails_closed:
  assumes "lapse_of ev = Some cu" "findByStripeCustomerId (customer_of cu) rows = Some t" "t \<noteq> []"
    and "planOverride m t = None"
    and "rows' = processEvent c prices retrieve now ev rows"
  shows "effectivePlan m t (db\<lparr>sub_rows := map_of rows'\<rparr>) = PlanFree \<and> (\<forall>u. u = t \<or> map_of rows' u = map_of rows u)"
  using assms findByStripeCustomerId_row [OF assms(2)]
  by (cases ev) (auto simp: lapse_of_def effectivePlan_def resolvePlan_def effectivePlanFor_def ACTIVE_PLAN_STATUSES_def
      updateStatus_def cancel_subscription_def map_of_update_row)

lemma lapse_fails_closed_witness:
  "effectivePlan example_meter ''acme'' (example_usage_db\<lparr>sub_rows :=
      map_of (processEvent example_stripe None (\<lambda>_. None) 7 (SubscriptionDeleted (Some ''cus''))
        [(''acme'', default_subscription\<lparr>s_plan := PlanTeam, stripeCustomerId := Some ''cus''\<rparr>)])\<rparr>) = PlanFree"
  by (rule lapse_fails_closed [where cu = "Some ''cus''", THEN conjunct1, OF _ _ _ _ refl])
     (simp_all add: lapse_of_def findByStripeCustomerId_def customer_of_def)

end
