(* ===== verification/Team.thy ===== *)
theory Team
  imports Billing
begin

text \<open>
  Team seats and invitations: \<open>services/team-service.ts\<close>, \<open>tenant-provisioning-service.ts\<close>,
  \<open>identity-tenant-resolver.ts\<close> and the repositories \<open>team-seats-repository.ts\<close> and
  \<open>team-invitations-repository.ts\<close>.

  The table \<open>team_seats\<close> is an association list from tenant and user to the seat, in the order of
  the row ids. Timestamps of rows are in whole seconds, the clock is in milliseconds. The digest of
  a token, the fresh token and the delivery of mail are parameters. The database answers; what its
  failures leave behind is not modelled here.
\<close>

section \<open>Seats\<close>

datatype team_role = RoleOwner | RoleAdmin | RoleMember

datatype seat_status = SeatPending | SeatActive | SeatRemoved

record seat =
  st_role :: team_role
  st_invitedBy :: "string option"
  st_invitedAt :: int
  st_joinedAt :: "int option"
  st_status :: seat_status

type_synonym team_seats = "((string \<times> string) \<times> seat) list"

definition sqlTimestamp :: "ms \<Rightarrow> int" where
  "sqlTimestamp t = t div 1000"

definition seats_of :: "string \<Rightarrow> team_seats \<Rightarrow> seat list" where
  "seats_of tenant ts = map snd (filter (\<lambda>((t, _), _). t = tenant) ts)"

definition countActiveSeats :: "string \<Rightarrow> team_seats \<Rightarrow> nat" where
  "countActiveSeats tenant ts = length (filter (\<lambda>s. st_status s = SeatActive) (seats_of tenant ts))"

definition admin_role :: "team_role \<Rightarrow> bool" where
  "admin_role r \<longleftrightarrow> r = RoleAdmin \<or> r = RoleOwner"

definition countActiveAdmins :: "string \<Rightarrow> team_seats \<Rightarrow> nat" where
  "countActiveAdmins tenant ts =
     length (filter (\<lambda>s. st_status s = SeatActive \<and> admin_role (st_role s)) (seats_of tenant ts))"

definition countOccupiedSeats :: "string \<Rightarrow> team_seats \<Rightarrow> nat" where
  "countOccupiedSeats tenant ts =
     length (filter (\<lambda>s. st_status s = SeatActive \<or> st_status s = SeatPending) (seats_of tenant ts))"

definition findByTenantAndUser :: "string \<Rightarrow> string \<Rightarrow> team_seats \<Rightarrow> seat option" where
  "findByTenantAndUser tenant user ts = map_of ts (tenant, user)"

text \<open>The most recently joined active seat of a user, the later row among equals.\<close>

definition joined_after :: "int option \<Rightarrow> int option \<Rightarrow> bool" where
  "joined_after a b = (case b of None \<Rightarrow> True | Some y \<Rightarrow> (case a of None \<Rightarrow> False | Some x \<Rightarrow> y \<le> x))"

definition findActiveByUserId :: "string \<Rightarrow> team_seats \<Rightarrow> (string \<times> seat) option" where
  "findActiveByUserId user ts =
     fold (\<lambda>((t, u), s) best.
        if u = user \<and> st_status s = SeatActive
          \<and> (case best of None \<Rightarrow> True | Some (_, b) \<Rightarrow> joined_after (st_joinedAt s) (st_joinedAt b))
        then Some (t, s) else best) ts None"

definition invite :: "ms \<Rightarrow> string \<Rightarrow> string \<Rightarrow> team_role \<Rightarrow> string \<Rightarrow> team_seats \<Rightarrow> team_seats" where
  "invite now tenant user r by_user ts =
     AList.update (tenant, user)
       \<lparr>st_role = r, st_invitedBy = Some by_user, st_invitedAt = sqlTimestamp now,
        st_joinedAt = (case map_of ts (tenant, user) of Some s \<Rightarrow> st_joinedAt s | None \<Rightarrow> None),
        st_status = SeatPending\<rparr> ts"

definition update_seat :: "string \<Rightarrow> string \<Rightarrow> (seat \<Rightarrow> seat) \<Rightarrow> team_seats \<Rightarrow> team_seats" where
  "update_seat tenant user f ts = map (\<lambda>(k, s). (k, if k = (tenant, user) then f s else s)) ts"

definition activate :: "ms \<Rightarrow> string \<Rightarrow> string \<Rightarrow> team_seats \<Rightarrow> team_seats" where
  "activate now tenant user =
     update_seat tenant user (\<lambda>s. s\<lparr>st_status := SeatActive, st_joinedAt := Some (sqlTimestamp now)\<rparr>)"

definition updateRole :: "string \<Rightarrow> string \<Rightarrow> team_role \<Rightarrow> team_seats \<Rightarrow> team_seats" where
  "updateRole tenant user r = update_seat tenant user (\<lambda>s. s\<lparr>st_role := r\<rparr>)"

definition remove_seat :: "string \<Rightarrow> string \<Rightarrow> team_seats \<Rightarrow> team_seats" where
  "remove_seat tenant user = update_seat tenant user (\<lambda>s. s\<lparr>st_status := SeatRemoved\<rparr>)"

definition hardRemove :: "string \<Rightarrow> string \<Rightarrow> team_seats \<Rightarrow> team_seats" where
  "hardRemove tenant user = AList.delete (tenant, user)"

section \<open>Invitations\<close>

record invitation =
  iv_id :: nat
  iv_tenant :: string
  iv_email :: string
  iv_role :: team_role
  iv_hash :: string
  iv_invitedBy :: "string option"
  iv_expiresAt :: int
  iv_acceptedAt :: "int option"

record team_db =
  seat_rows :: team_seats
  invitation_rows :: "invitation list"
  next_invitation :: nat

definition outstanding :: "ms \<Rightarrow> invitation \<Rightarrow> bool" where
  "outstanding now i \<longleftrightarrow> iv_acceptedAt i = None \<and> sqlTimestamp now < iv_expiresAt i"

definition countPending :: "ms \<Rightarrow> string \<Rightarrow> invitation list \<Rightarrow> nat" where
  "countPending now tenant is = length (filter (\<lambda>i. iv_tenant i = tenant \<and> outstanding now i) is)"

definition findByTokenHash :: "string \<Rightarrow> invitation list \<Rightarrow> invitation option" where
  "findByTokenHash h is = find (\<lambda>i. iv_hash i = h) is"

text \<open>The token hash is unique: a second row with the same one is refused.\<close>

definition create_invitation ::
  "string \<Rightarrow> string \<Rightarrow> team_role \<Rightarrow> string \<Rightarrow> string option \<Rightarrow> ms \<Rightarrow> team_db \<Rightarrow> (invitation \<times> team_db) option" where
  "create_invitation tenant email r h by_user expires db =
     (if findByTokenHash h (invitation_rows db) \<noteq> None then None
      else let i = \<lparr>iv_id = next_invitation db, iv_tenant = tenant, iv_email = email, iv_role = r,
                    iv_hash = h, iv_invitedBy = by_user, iv_expiresAt = sqlTimestamp expires,
                    iv_acceptedAt = None\<rparr>
           in Some (i, db\<lparr>invitation_rows := invitation_rows db @ [i],
                          next_invitation := Suc (next_invitation db)\<rparr>))"

definition claim_invitation :: "ms \<Rightarrow> nat \<Rightarrow> invitation list \<Rightarrow> bool \<times> invitation list" where
  "claim_invitation now k is =
     (\<exists>i\<in>set is. iv_id i = k \<and> outstanding now i,
      map (\<lambda>i. if iv_id i = k \<and> outstanding now i then i\<lparr>iv_acceptedAt := Some (sqlTimestamp now)\<rparr> else i) is)"

definition unclaim_invitation :: "nat \<Rightarrow> invitation list \<Rightarrow> invitation list" where
  "unclaim_invitation k is = map (\<lambda>i. if iv_id i = k then i\<lparr>iv_acceptedAt := None\<rparr> else i) is"

definition revoke_invitation :: "string \<Rightarrow> nat \<Rightarrow> invitation list \<Rightarrow> bool \<times> invitation list" where
  "revoke_invitation tenant k is =
     (let hit = (\<lambda>i. iv_id i = k \<and> iv_tenant i = tenant \<and> iv_acceptedAt i = None)
      in (\<exists>i\<in>set is. hit i, filter (Not \<circ> hit) is))"

section \<open>The service\<close>

text \<open>\<open>None\<close> is infinity.\<close>

record team_plan_limits =
  tl_seats :: "nat option"
  tl_candidatesScored :: "nat option"
  tl_apiCalls :: "nat option"
  tl_domainsTracked :: "nat option"

fun TEAM_PLAN_LIMITS :: "subscription_plan \<Rightarrow> team_plan_limits" where
  "TEAM_PLAN_LIMITS PlanFree = \<lparr>tl_seats = Some 1, tl_candidatesScored = Some 50, tl_apiCalls = Some 1000,
     tl_domainsTracked = Some 25\<rparr>"
| "TEAM_PLAN_LIMITS PlanPro = \<lparr>tl_seats = Some 3, tl_candidatesScored = Some 500, tl_apiCalls = Some 10000,
     tl_domainsTracked = Some 250\<rparr>"
| "TEAM_PLAN_LIMITS PlanTeam = \<lparr>tl_seats = Some 10, tl_candidatesScored = Some 2500, tl_apiCalls = Some 50000,
     tl_domainsTracked = Some 1000\<rparr>"
| "TEAM_PLAN_LIMITS PlanEnterprise = \<lparr>tl_seats = None, tl_candidatesScored = None, tl_apiCalls = None,
     tl_domainsTracked = None\<rparr>"

definition at_limit :: "nat \<Rightarrow> nat option \<Rightarrow> bool" where
  "at_limit n l = (case l of None \<Rightarrow> False | Some k \<Rightarrow> k \<le> n)"

datatype team_error =
    CannotAssignOwner | NoTeamSeats | DuplicateSeat string | TeamSeatLimit nat "nat option"
  | SeatNotFound string | LastAdmin | InvitationsDisabled | InvitationInvalid
  | NoVerifiedEmail | DifferentEmail | InvitationWrite

record team_service =
  ts_subs :: subscriptions
  ts_meter :: usage_meter \<comment> \<open>the plan override, shared with the metering\<close>
  ts_invitations :: bool
  ttlHours :: "int option"
  hashToken :: "string \<Rightarrow> string"

definition seat_limit :: "team_service \<Rightarrow> string \<Rightarrow> nat option" where
  "seat_limit ts tenant = tl_seats (TEAM_PLAN_LIMITS (resolvePlan (ts_meter ts) tenant (ts_subs ts tenant)))"

definition occupiedSeats :: "team_service \<Rightarrow> ms \<Rightarrow> string \<Rightarrow> team_db \<Rightarrow> nat" where
  "occupiedSeats ts now tenant db =
     countOccupiedSeats tenant (seat_rows db)
     + (if ts_invitations ts then countPending now tenant (invitation_rows db) else 0)"

definition inviteMember ::
  "team_service \<Rightarrow> ms \<Rightarrow> string \<Rightarrow> string \<Rightarrow> team_role \<Rightarrow> string \<Rightarrow> team_db \<Rightarrow> (team_error + unit) \<times> team_db" where
  "inviteMember ts now tenant user r by_user db =
     (let existing = findByTenantAndUser tenant user (seat_rows db);
          occupied = occupiedSeats ts now tenant db
      in if r = RoleOwner then (Inl CannotAssignOwner, db)
         else if seat_limit ts tenant = Some 0 then (Inl NoTeamSeats, db)
         else if map_option st_status existing = Some SeatActive then (Inl (DuplicateSeat user), db)
         else if map_option st_status existing \<noteq> Some SeatPending \<and> at_limit occupied (seat_limit ts tenant)
              then (Inl (TeamSeatLimit occupied (seat_limit ts tenant)), db)
         else (Inr (), db\<lparr>seat_rows := invite now tenant user r by_user (seat_rows db)\<rparr>))"

definition acceptInvite ::
  "team_service \<Rightarrow> ms \<Rightarrow> string \<Rightarrow> string \<Rightarrow> team_db \<Rightarrow> (team_error + unit) \<times> team_db" where
  "acceptInvite ts now tenant user db =
     (case findByTenantAndUser tenant user (seat_rows db) of
        None \<Rightarrow> (Inl (SeatNotFound user), db)
      | Some s \<Rightarrow>
          let active = countActiveSeats tenant (seat_rows db)
          in if st_status s \<noteq> SeatActive \<and> at_limit active (seat_limit ts tenant)
             then (Inl (TeamSeatLimit active (seat_limit ts tenant)), db)
             else (Inr (), db\<lparr>seat_rows := activate now tenant user (seat_rows db)\<rparr>))"

text \<open>What must hold for a demotion or a removal, read before it is written.\<close>

definition demotion_allowed :: "string \<Rightarrow> string \<Rightarrow> team_role \<Rightarrow> team_seats \<Rightarrow> team_error option" where
  "demotion_allowed tenant user r ts =
     (case findByTenantAndUser tenant user ts of
        None \<Rightarrow> Some (SeatNotFound user)
      | Some s \<Rightarrow>
          if st_status s \<noteq> SeatActive then Some (SeatNotFound user)
          else if admin_role (st_role s) \<and> \<not> admin_role r \<and> countActiveAdmins tenant ts \<le> 1 then Some LastAdmin
          else None)"

definition updateMemberRole ::
  "string \<Rightarrow> string \<Rightarrow> team_role \<Rightarrow> team_db \<Rightarrow> (team_error + unit) \<times> team_db" where
  "updateMemberRole tenant user r db =
     (case demotion_allowed tenant user r (seat_rows db) of
        Some e \<Rightarrow> (Inl e, db)
      | None \<Rightarrow> (Inr (), db\<lparr>seat_rows := updateRole tenant user r (seat_rows db)\<rparr>))"

definition removal_allowed :: "string \<Rightarrow> string \<Rightarrow> team_seats \<Rightarrow> team_error option" where
  "removal_allowed tenant user ts =
     (case findByTenantAndUser tenant user ts of
        None \<Rightarrow> Some (SeatNotFound user)
      | Some s \<Rightarrow> if admin_role (st_role s) \<and> countActiveAdmins tenant ts \<le> 1 then Some LastAdmin else None)"

definition removeMember :: "string \<Rightarrow> string \<Rightarrow> team_db \<Rightarrow> (team_error + unit) \<times> team_db" where
  "removeMember tenant user db =
     (case removal_allowed tenant user (seat_rows db) of
        Some e \<Rightarrow> (Inl e, db)
      | None \<Rightarrow> (Inr (), db\<lparr>seat_rows := remove_seat tenant user (seat_rows db)\<rparr>))"

definition canAddSeat :: "team_service \<Rightarrow> ms \<Rightarrow> string \<Rightarrow> team_db \<Rightarrow> bool" where
  "canAddSeat ts now tenant db =
     (seat_limit ts tenant \<noteq> Some 0 \<and> \<not> at_limit (occupiedSeats ts now tenant db) (seat_limit ts tenant))"

text \<open>\<open>token\<close> is the random token; mail and link are left out.\<close>

definition createInvitation ::
  "team_service \<Rightarrow> ms \<Rightarrow> string \<Rightarrow> string \<Rightarrow> string \<Rightarrow> team_role \<Rightarrow> string \<Rightarrow> team_db \<Rightarrow> (team_error + invitation) \<times> team_db" where
  "createInvitation ts now token tenant email r by_user db =
     (let occupied = occupiedSeats ts now tenant db
      in if \<not> ts_invitations ts then (Inl InvitationsDisabled, db)
         else if r = RoleOwner then (Inl CannotAssignOwner, db)
         else if seat_limit ts tenant = Some 0 then (Inl NoTeamSeats, db)
         else if at_limit occupied (seat_limit ts tenant) then (Inl (TeamSeatLimit occupied (seat_limit ts tenant)), db)
         else (case create_invitation tenant (to_lower (trim email)) r (hashToken ts token) (Some by_user)
                    (now + (case ttlHours ts of Some h \<Rightarrow> h | None \<Rightarrow> 168) * 3600000) db of
                 None \<Rightarrow> (Inl InvitationWrite, db)
               | Some (i, db') \<Rightarrow> (Inr i, db')))"

definition revokeInvitation :: "team_service \<Rightarrow> string \<Rightarrow> nat \<Rightarrow> team_db \<Rightarrow> bool \<times> team_db" where
  "revokeInvitation ts tenant k db =
     (if \<not> ts_invitations ts then (False, db)
      else (case revoke_invitation tenant k (invitation_rows db) of
              (hit, is) \<Rightarrow> (hit, db\<lparr>invitation_rows := is\<rparr>)))"

text \<open>The seat behind a claimed invitation: an error, or the role and the new seats.\<close>

definition redeem_seat ::
  "team_service \<Rightarrow> ms \<Rightarrow> invitation \<Rightarrow> string \<Rightarrow> team_seats \<Rightarrow> team_error + team_role \<times> team_seats" where
  "redeem_seat ts now i user rows =
     (let tenant = iv_tenant i; active = countActiveSeats tenant rows;
          added = activate now tenant user
                    (invite now tenant user (iv_role i) (case iv_invitedBy i of Some b \<Rightarrow> b | None \<Rightarrow> user) rows)
      in case findByTenantAndUser tenant user rows of
           Some s \<Rightarrow>
             if st_status s = SeatActive then Inr (st_role s, rows)
             else if at_limit active (seat_limit ts tenant) then Inl (TeamSeatLimit active (seat_limit ts tenant))
             else Inr (iv_role i, added)
         | None \<Rightarrow>
             if at_limit active (seat_limit ts tenant) then Inl (TeamSeatLimit active (seat_limit ts tenant))
             else Inr (iv_role i, added))"

definition acceptInvitation ::
  "team_service \<Rightarrow> ms \<Rightarrow> string \<Rightarrow> string \<Rightarrow> string option \<Rightarrow> team_db \<Rightarrow>
   (team_error + string \<times> team_role) \<times> team_db" where
  "acceptInvitation ts now token user verifiedEmail db =
     (if \<not> ts_invitations ts then (Inl InvitationInvalid, db)
      else (case findByTokenHash (hashToken ts token) (invitation_rows db) of
          None \<Rightarrow> (Inl InvitationInvalid, db)
        | Some i \<Rightarrow>
            if iv_acceptedAt i \<noteq> None \<or> iv_expiresAt i * 1000 \<le> now then (Inl InvitationInvalid, db)
            else if verifiedEmail = None \<or> verifiedEmail = Some [] then (Inl NoVerifiedEmail, db)
            else if to_lower (trim (the verifiedEmail)) \<noteq> iv_email i then (Inl DifferentEmail, db)
            else (case claim_invitation now (iv_id i) (invitation_rows db) of
                (False, is) \<Rightarrow> (Inl InvitationInvalid, db\<lparr>invitation_rows := is\<rparr>)
              | (True, is) \<Rightarrow>
                  (case redeem_seat ts now i user (seat_rows db) of
                     Inl e \<Rightarrow> (Inl e, db\<lparr>invitation_rows := unclaim_invitation (iv_id i) is\<rparr>)
                   | Inr (r, rows) \<Rightarrow> (Inr (iv_tenant i, r), db\<lparr>seat_rows := rows, invitation_rows := is\<rparr>)))))"
section \<open>Provisioning and sign-in\<close>

text \<open>\<open>home\<close> derives the tenant of a user from a digest of the user id.\<close>

definition provisionTenantForUser ::
  "(string \<Rightarrow> string) \<Rightarrow> ms \<Rightarrow> string \<Rightarrow> subscriptions \<Rightarrow> team_seats \<Rightarrow> string \<times> subscriptions \<times> team_seats" where
  "provisionTenantForUser home now user sbs ts =
     (let tenant = home user
      in if map_option st_status (findByTenantAndUser tenant user ts) = Some SeatActive then (tenant, sbs, ts)
         else (tenant, snd (ensureDefault tenant sbs),
               activate now tenant user (invite now tenant user RoleAdmin user ts)))"

text \<open>\<open>tenant\<close> is fresh; without a key manager the call fails behind the rows.\<close>

definition provisionTenant ::
  "ms \<Rightarrow> string \<Rightarrow> string option \<Rightarrow> (string \<Rightarrow> 'key) option \<Rightarrow> subscriptions \<Rightarrow> team_seats \<Rightarrow>
   (unit + string \<times> 'key) \<times> subscriptions \<times> team_seats" where
  "provisionTenant now tenant email keys sbs ts =
     (let owner = (case email of Some e \<Rightarrow> e | None \<Rightarrow> tenant @ ''-owner'');
          sbs1 = snd (ensureDefault tenant sbs);
          ts1 = activate now tenant owner (invite now tenant owner RoleAdmin owner ts)
      in case keys of None \<Rightarrow> (Inl (), sbs1, ts1) | Some g \<Rightarrow> (Inr (tenant, g tenant), sbs1, ts1))"

datatype session_role = SessionAdmin | SessionMember | ClaimedRole "string option"

definition sessionRoleFor :: "team_role \<Rightarrow> session_role" where
  "sessionRoleFor r = (if r = RoleMember then SessionMember else SessionAdmin)"

text \<open>\<open>Some None\<close> trusts the claims of the session as they are, \<open>None\<close> rejects it.\<close>

definition validateSession :: "string \<Rightarrow> string option \<Rightarrow> team_seats \<Rightarrow> session_role option option" where
  "validateSession user tenant ts =
     (case tenant of
        None \<Rightarrow> Some None
      | Some t \<Rightarrow>
          if t = [] then Some None
          else (case findByTenantAndUser t user ts of
              None \<Rightarrow> Some None
            | Some s \<Rightarrow> if st_status s \<noteq> SeatActive then None else Some (Some (sessionRoleFor (st_role s)))))"

definition resolve_identity ::
  "(string \<Rightarrow> string) option \<Rightarrow> ms \<Rightarrow> string \<Rightarrow> string option \<Rightarrow> string option \<Rightarrow> subscriptions \<Rightarrow> team_seats \<Rightarrow>
   (string option \<times> session_role) \<times> subscriptions \<times> team_seats" where
  "resolve_identity provisioning now user org claimed sbs ts =
     (case findActiveByUserId user ts of
        Some (t, s) \<Rightarrow> ((Some t, sessionRoleFor (st_role s)), sbs, ts)
      | None \<Rightarrow>
          if org \<noteq> None \<and> org \<noteq> Some [] then ((org, ClaimedRole claimed), sbs, ts)
          else (case provisioning of
              Some home \<Rightarrow>
                (case provisionTenantForUser home now user sbs ts of
                   (t, sbs', ts') \<Rightarrow> ((Some t, SessionAdmin), sbs', ts'))
            | None \<Rightarrow> ((None, ClaimedRole claimed), sbs, ts)))"

section \<open>Counting seats\<close>

definition seat_count :: "(seat \<Rightarrow> bool) \<Rightarrow> string \<Rightarrow> team_seats \<Rightarrow> nat" where
  "seat_count P tenant ts = length (filter P (seats_of tenant ts))"

lemma seat_count_Nil [simp]: "seat_count P t [] = 0"
  by (simp add: seat_count_def seats_of_def)

lemma seat_count_Cons [simp]:
  "seat_count P t (((t', u), s) # ts) = of_bool (t' = t \<and> P s) + seat_count P t ts"
  by (simp add: seat_count_def seats_of_def)

lemma counts_are_seat_counts:
  "countActiveSeats = seat_count (\<lambda>s. st_status s = SeatActive)"
  "countActiveAdmins = seat_count (\<lambda>s. st_status s = SeatActive \<and> admin_role (st_role s))"
  "countOccupiedSeats = seat_count (\<lambda>s. st_status s = SeatActive \<or> st_status s = SeatPending)"
  by (simp_all add: fun_eq_iff countActiveSeats_def countActiveAdmins_def countOccupiedSeats_def seat_count_def)

definition holds_seat :: "(seat \<Rightarrow> bool) \<Rightarrow> seat option \<Rightarrow> nat" where
  "holds_seat P x = (case x of Some s \<Rightarrow> of_bool (P s) | None \<Rightarrow> 0)"

lemma seat_count_update:
  "seat_count P t (AList.update (t', u) s ts) + (if t' = t then holds_seat P (map_of ts (t', u)) else 0) =
   seat_count P t ts + of_bool (t' = t \<and> P s)"
  by (induction ts) (auto simp: holds_seat_def)

lemma update_seat_absent: "(t', u) \<notin> fst ` set ts \<Longrightarrow> update_seat t' u f ts = ts"
  by (induction ts) (auto simp: update_seat_def)

lemma update_seat_Cons:
  "update_seat t' u f ((k, s) # ts) = (k, if k = (t', u) then f s else s) # update_seat t' u f ts"
  by (simp add: update_seat_def)

lemma seat_count_update_seat:
  assumes "distinct (map fst ts)"
  shows "seat_count P t (update_seat t' u f ts) + (if t' = t then holds_seat P (map_of ts (t', u)) else 0) =
   seat_count P t ts + (if t' = t then holds_seat P (map_option f (map_of ts (t', u))) else 0)"
  using assms
proof (induction ts)
  case Nil
  then show ?case by (simp add: update_seat_def holds_seat_def)
next
  case (Cons x ts)
  obtain a b s where x: "x = ((a, b), s)" by (metis prod.collapse)
  show ?case
  proof (cases "(a, b) = (t', u)")
    case True
    then show ?thesis using Cons.prems update_seat_absent [of t' u ts f]
      by (simp add: x update_seat_Cons holds_seat_def)
  next
    case False
    then have "map_of (x # ts) (t', u) = map_of ts (t', u)"
      "update_seat t' u f (x # ts) = x # update_seat t' u f ts"
      by (auto simp: x update_seat_Cons)
    with Cons show ?thesis by (simp only: x seat_count_Cons) simp
  qed
qed

lemma map_of_update_seat:
  "map_of (update_seat t u f ts) k = (if k = (t, u) then map_option f (map_of ts k) else map_of ts k)"
  by (induction ts) (auto simp: update_seat_def)

lemma keys_update_seat [simp]: "map fst (update_seat t u f ts) = map fst ts"
  by (induction ts) (auto simp: update_seat_def)

lemma holds_le_count: "holds_seat P (map_of ts (t, u)) \<le> seat_count P t ts"
  by (induction ts) (auto simp: holds_seat_def)

section \<open>What the service does to the seats\<close>

text \<open>The abstract transitions of the seats, with the limit of each tenant: what an operation may
  change, and what it has checked before.\<close>

inductive seat_step :: "(string \<Rightarrow> nat option) \<Rightarrow> team_seats \<Rightarrow> team_seats \<Rightarrow> bool" for limit :: "string \<Rightarrow> nat option" where
  Same: "seat_step limit ts ts"
| Invited: "map_option st_status (map_of ts (t, u)) \<noteq> Some SeatActive \<Longrightarrow>
    seat_step limit ts (invite now t u r b ts)"
| Activated: "map_of ts (t, u) = Some s \<Longrightarrow> st_status s = SeatActive \<or> \<not> at_limit (countActiveSeats t ts) (limit t) \<Longrightarrow>
    seat_step limit ts (activate now t u ts)"
| Joined: "map_option st_status (map_of ts (t, u)) \<noteq> Some SeatActive \<Longrightarrow> \<not> at_limit (countActiveSeats t ts) (limit t) \<Longrightarrow>
    seat_step limit ts (activate now t u (invite now t u r b ts))"
| Ranked: "demotion_allowed t u r ts = None \<Longrightarrow> seat_step limit ts (updateRole t u r ts)"
| Removed: "removal_allowed t u ts = None \<Longrightarrow> seat_step limit ts (remove_seat t u ts)"

datatype team_op =
    TInvite ms string string team_role string
  | TAccept ms string string
  | TRole string string team_role
  | TRemove string string
  | TCreate ms string string string team_role string
  | TRevoke string nat
  | TRedeem ms string string "string option"

fun team_step :: "team_service \<Rightarrow> team_op \<Rightarrow> team_db \<Rightarrow> bool \<times> team_db" where
  "team_step ts (TInvite now t u r b) db = map_prod (\<lambda>x. x = Inr ()) id (inviteMember ts now t u r b db)"
| "team_step ts (TAccept now t u) db = map_prod (\<lambda>x. x = Inr ()) id (acceptInvite ts now t u db)"
| "team_step ts (TRole t u r) db = map_prod (\<lambda>x. x = Inr ()) id (updateMemberRole t u r db)"
| "team_step ts (TRemove t u) db = map_prod (\<lambda>x. x = Inr ()) id (removeMember t u db)"
| "team_step ts (TCreate now tok t e r b) db = map_prod (Not \<circ> isl) id (createInvitation ts now tok t e r b db)"
| "team_step ts (TRevoke t k) db = revokeInvitation ts t k db"
| "team_step ts (TRedeem now tok u e) db = map_prod (Not \<circ> isl) id (acceptInvitation ts now tok u e db)"

fun team_run :: "team_service \<Rightarrow> team_op list \<Rightarrow> team_db \<Rightarrow> team_db" where
  "team_run ts [] db = db"
| "team_run ts (x # xs) db = team_run ts xs (snd (team_step ts x db))"

lemma redeem_seat_step:
  assumes "redeem_seat ts now i user rows = Inr (r, rows')"
  shows "seat_step (seat_limit ts) rows rows'"
proof (cases "findByTenantAndUser (iv_tenant i) user rows")
  case None
  then show ?thesis using assms
    by (auto simp: redeem_seat_def Let_def findByTenantAndUser_def split: if_splits intro!: seat_step.Joined)
next
  case (Some s)
  then show ?thesis using assms
    by (auto simp: redeem_seat_def Let_def findByTenantAndUser_def split: if_splits intro!: seat_step.Joined seat_step.Same)
qed

lemma acceptInvitation_seats:
  "seat_rows (snd (acceptInvitation ts now token user email db)) = seat_rows db \<or>
   (\<exists>i r. redeem_seat ts now i user (seat_rows db) = Inr (r, seat_rows (snd (acceptInvitation ts now token user email db))))"
  by (auto simp: acceptInvitation_def split: option.splits prod.splits bool.splits sum.splits)

lemma team_step_refines:
  "seat_step (seat_limit ts) (seat_rows db) (seat_rows (snd (team_step ts x db)))"
proof (cases x)
  case (TInvite now t u r b)
  then show ?thesis
    by (auto simp: inviteMember_def Let_def findByTenantAndUser_def intro: seat_step.intros)
next
  case (TAccept now t u)
  then show ?thesis
    by (auto simp: acceptInvite_def Let_def findByTenantAndUser_def split: option.split
        intro: seat_step.intros)
next
  case (TRole t u r)
  then show ?thesis by (auto simp: updateMemberRole_def split: option.split intro: seat_step.intros)
next
  case (TRemove t u)
  then show ?thesis by (auto simp: removeMember_def split: option.split intro: seat_step.intros)
next
  case (TCreate now tok t e r b)
  have "seat_rows (snd (createInvitation ts now tok t e r b db)) = seat_rows db"
    by (auto simp: createInvitation_def create_invitation_def Let_def)
  then show ?thesis using TCreate by (simp add: seat_step.Same)
next
  case (TRevoke t k)
  have "seat_rows (snd (revokeInvitation ts t k db)) = seat_rows db"
    by (auto simp: revokeInvitation_def split: prod.split)
  then show ?thesis using TRevoke by (simp add: seat_step.Same)
next
  case (TRedeem now tok u e)
  then show ?thesis
    using acceptInvitation_seats [of ts now tok u e db] redeem_seat_step by (auto simp: seat_step.Same)
qed

section \<open>Invariants of the seats\<close>

definition distinct_seats :: "team_seats \<Rightarrow> bool" where
  "distinct_seats ts \<longleftrightarrow> distinct (map fst ts)"

lemma keys_seat_ops [simp]:
  "map fst (activate now t u ts) = map fst ts"
  "map fst (updateRole t u r ts) = map fst ts"
  "map fst (remove_seat t u ts) = map fst ts"
  by (simp_all add: activate_def updateRole_def remove_seat_def)

lemma distinct_invite: "distinct_seats ts \<Longrightarrow> distinct_seats (invite now t u r b ts)"
  by (simp add: distinct_seats_def invite_def distinct_update)

lemma distinct_seat_step: "seat_step limit ts ts' \<Longrightarrow> distinct_seats ts \<Longrightarrow> distinct_seats ts'"
  by (induction rule: seat_step.induct) (use distinct_invite in \<open>auto simp: distinct_seats_def\<close>)

lemma find_invited:
  "map_of (invite now t u r b ts) (t, u) = Some
     \<lparr>st_role = r, st_invitedBy = Some b, st_invitedAt = sqlTimestamp now,
      st_joinedAt = (case map_of ts (t, u) of Some s \<Rightarrow> st_joinedAt s | None \<Rightarrow> None), st_status = SeatPending\<rparr>"
  by (simp add: invite_def update_conv')

text \<open>How each change moves a count.\<close>

lemma count_invite:
  "seat_count P t (invite now t' u r b ts) + (if t' = t then holds_seat P (map_of ts (t', u)) else 0) =
   seat_count P t ts + (if t' = t then holds_seat P (map_of (invite now t' u r b ts) (t', u)) else 0)"
  unfolding find_invited by (simp add: invite_def seat_count_update holds_seat_def)

lemmas count_moves = seat_count_update_seat [unfolded distinct_seats_def [symmetric]]

lemma not_at_limit: "\<not> at_limit n l \<longleftrightarrow> (case l of None \<Rightarrow> True | Some k \<Rightarrow> n < k)"
  by (auto simp: at_limit_def split: option.split)

lemma active_invite:
  assumes "map_option st_status (map_of ts (t', u)) \<noteq> Some SeatActive"
  shows "countActiveSeats t (invite now t' u r b ts) = countActiveSeats t ts"
    "countActiveAdmins t (invite now t' u r b ts) = countActiveAdmins t ts"
proof -
  have "holds_seat (\<lambda>s. st_status s = SeatActive) (map_of ts (t', u)) = 0"
    "holds_seat (\<lambda>s. st_status s = SeatActive \<and> admin_role (st_role s)) (map_of ts (t', u)) = 0"
    using assms by (auto simp: holds_seat_def split: option.splits)
  then show "countActiveSeats t (invite now t' u r b ts) = countActiveSeats t ts"
    "countActiveAdmins t (invite now t' u r b ts) = countActiveAdmins t ts"
    using count_invite [of "\<lambda>s. st_status s = SeatActive" t now t' u r b ts]
      count_invite [of "\<lambda>s. st_status s = SeatActive \<and> admin_role (st_role s)" t now t' u r b ts]
    by (auto simp: counts_are_seat_counts find_invited holds_seat_def split: if_splits)
qed

lemma active_activate:
  assumes "distinct_seats ts" "map_of ts (t, u) = Some s"
  shows "countActiveSeats t (activate now t u ts) = countActiveSeats t ts + of_bool (st_status s \<noteq> SeatActive)"
    and "t' \<noteq> t \<Longrightarrow> countActiveSeats t' (activate now t u ts) = countActiveSeats t' ts"
    and "countActiveAdmins t' ts \<le> countActiveAdmins t' (activate now t u ts)"
proof -
  let ?f = "\<lambda>s. s\<lparr>st_status := SeatActive, st_joinedAt := Some (sqlTimestamp now)\<rparr>"
  note moves = count_moves [OF assms(1), where t' = t and u = u and f = ?f]
  show "countActiveSeats t (activate now t u ts) = countActiveSeats t ts + of_bool (st_status s \<noteq> SeatActive)"
    using moves [of "\<lambda>s. st_status s = SeatActive" t] assms(2)
    by (cases "st_status s = SeatActive") (simp_all add: counts_are_seat_counts activate_def holds_seat_def)
  show "t' \<noteq> t \<Longrightarrow> countActiveSeats t' (activate now t u ts) = countActiveSeats t' ts"
    using moves [of "\<lambda>s. st_status s = SeatActive" t'] by (simp add: counts_are_seat_counts activate_def)
  show "countActiveAdmins t' ts \<le> countActiveAdmins t' (activate now t u ts)"
    using moves [of "\<lambda>s. st_status s = SeatActive \<and> admin_role (st_role s)" t'] assms(2)
    by (cases "t = t'"; cases "st_status s = SeatActive"; cases "admin_role (st_role s)")
       (auto simp: counts_are_seat_counts activate_def holds_seat_def)
qed

lemma seat_limit_step:
  assumes "seat_step limit ts ts'" "distinct_seats ts" "limit t = Some n" "countActiveSeats t ts \<le> n"
  shows "countActiveSeats t ts' \<le> n"
  using assms(1)
proof (cases rule: seat_step.cases)
  case Same
  then show ?thesis using assms by simp
next
  case (Invited t' u now r b)
  then show ?thesis using assms active_invite(1) by simp
next
  case (Activated t' u s now)
  then show ?thesis using assms active_activate(1,2) [OF assms(2) Activated(2)]
    by (cases "t' = t") (auto simp: not_at_limit)
next
  case (Joined t' u now r b)
  note a = active_activate(1,2) [OF distinct_invite [OF assms(2)] find_invited [where t = t' and u = u and now = now and r = r and b = b]]
  show ?thesis using assms a active_invite(1) [OF Joined(2)] Joined
    by (cases "t' = t") (auto simp: not_at_limit)
next
  case (Ranked t' u r)
  have "countActiveSeats t (updateRole t' u r ts) = countActiveSeats t ts"
    using count_moves [OF assms(2), of "\<lambda>s. st_status s = SeatActive" t t' u "\<lambda>s. s\<lparr>st_role := r\<rparr>"]
    by (cases "map_of ts (t', u)") (auto simp: counts_are_seat_counts updateRole_def holds_seat_def split: if_splits)
  then show ?thesis using assms Ranked by simp
next
  case (Removed t' u)
  have "countActiveSeats t (remove_seat t' u ts) \<le> countActiveSeats t ts"
    using count_moves [OF assms(2), of "\<lambda>s. st_status s = SeatActive" t t' u "\<lambda>s. s\<lparr>st_status := SeatRemoved\<rparr>"]
    by (cases "map_of ts (t', u)") (auto simp: counts_are_seat_counts remove_seat_def holds_seat_def split: if_splits)
  then show ?thesis using assms Removed by simp
qed

lemma last_admin_step:
  assumes "seat_step limit ts ts'" "distinct_seats ts" "1 \<le> countActiveAdmins t ts"
  shows "1 \<le> countActiveAdmins t ts'"
  using assms(1)
proof (cases rule: seat_step.cases)
  case Same
  then show ?thesis using assms by simp
next
  case (Invited t' u now r b)
  then show ?thesis using assms active_invite(2) by simp
next
  case (Activated t' u s now)
  then show ?thesis using assms active_activate(3) [OF assms(2) Activated(2), of t now] by simp
next
  case (Joined t' u now r b)
  show ?thesis using assms active_invite(2) [OF Joined(2), where t = t and now = now and r = r and b = b]
      active_activate(3) [OF distinct_invite [OF assms(2)] find_invited [where t = t' and u = u and now = now
        and r = r and b = b and ts = ts], where t' = t and now = now] Joined(1)
    by simp
next
  case (Ranked t' u r)
  let ?P = "\<lambda>s. st_status s = SeatActive \<and> admin_role (st_role s)"
  obtain s where s: "map_of ts (t', u) = Some s" "st_status s = SeatActive"
      "\<not> (admin_role (st_role s) \<and> \<not> admin_role r \<and> countActiveAdmins t' ts \<le> 1)"
    using Ranked(2) by (auto simp: demotion_allowed_def findByTenantAndUser_def split: option.splits if_splits)
  have "seat_count ?P t (update_seat t' u (\<lambda>s. s\<lparr>st_role := r\<rparr>) ts) + (if t' = t then of_bool (?P s) else 0) =
      seat_count ?P t ts + (if t' = t then of_bool (admin_role r) else 0)"
    using count_moves [OF assms(2), of ?P t t' u "\<lambda>s. s\<lparr>st_role := r\<rparr>"] s(1,2)
    by (cases "t' = t") (simp_all add: holds_seat_def)
  then show ?thesis using s assms(3) Ranked(1)
    by (cases "t' = t"; cases "admin_role (st_role s)"; cases "admin_role r")
       (auto simp: counts_are_seat_counts updateRole_def)
next
  case (Removed t' u)
  let ?P = "\<lambda>s. st_status s = SeatActive \<and> admin_role (st_role s)"
  obtain s where s: "map_of ts (t', u) = Some s" "\<not> (admin_role (st_role s) \<and> countActiveAdmins t' ts \<le> 1)"
    using Removed(2) by (auto simp: removal_allowed_def findByTenantAndUser_def split: option.splits if_splits)
  have "seat_count ?P t (update_seat t' u (\<lambda>s. s\<lparr>st_status := SeatRemoved\<rparr>) ts) + (if t' = t then of_bool (?P s) else 0) =
      seat_count ?P t ts"
    using count_moves [OF assms(2), of ?P t t' u "\<lambda>s. s\<lparr>st_status := SeatRemoved\<rparr>"] s(1)
    by (cases "t' = t"; cases "?P s") (auto simp: holds_seat_def)
  then show ?thesis using s assms(3) Removed(1)
    by (cases "t' = t"; cases "admin_role (st_role s)"; cases "st_status s = SeatActive")
       (auto simp: counts_are_seat_counts remove_seat_def)
qed

lemma team_run_seats:
  assumes "distinct_seats (seat_rows db)"
  shows "seat_limit ts t = Some n \<Longrightarrow> countActiveSeats t (seat_rows db) \<le> n \<Longrightarrow>
      countActiveSeats t (seat_rows (team_run ts xs db)) \<le> n"
    and "1 \<le> countActiveAdmins t (seat_rows db) \<Longrightarrow> 1 \<le> countActiveAdmins t (seat_rows (team_run ts xs db))"
  using assms
proof (induction xs arbitrary: db)
  case (Cons x xs)
  {
    case (1 db)
    note step = team_step_refines [of ts db x]
    from 1 have "countActiveSeats t (seat_rows (snd (team_step ts x db))) \<le> n"
      using seat_limit_step [OF step] by blast
    then show ?case using Cons.IH(1) 1 distinct_seat_step [OF step] by simp
  next
    case (2 db)
    note step = team_step_refines [of ts db x]
    from 2 have "1 \<le> countActiveAdmins t (seat_rows (snd (team_step ts x db)))"
      using last_admin_step [OF step] by blast
    then show ?case using Cons.IH(2) 2 distinct_seat_step [OF step] by simp
  }
qed simp_all


text \<open>C21. A team that has an active admin keeps one: invitations, acceptances, changes of role and
  removals, one after the other in any order, never take the last.\<close>

theorem last_admin_stays:
  assumes "distinct_seats (seat_rows db)" "1 \<le> countActiveAdmins t (seat_rows db)"
  shows "1 \<le> countActiveAdmins t (seat_rows (team_run ts xs db))"
  using team_run_seats(2) assms by blast


section \<open>Invitations\<close>

text \<open>The claim of an invitation keeps the contract of a claim without a way back: at one instant,
  what is not outstanding counts as held.\<close>

definition invitation_held :: "ms \<Rightarrow> invitation list \<Rightarrow> nat \<Rightarrow> bool" where
  "invitation_held now is k \<longleftrightarrow> \<not> (\<exists>i\<in>set is. iv_id i = k \<and> outstanding now i)"

interpretation invitations: claim_once "invitation_held now" "claim_invitation now" for now
  by unfold_locales (auto simp: invitation_held_def claim_invitation_def outstanding_def)

text \<open>Of any number of clicks on links at one instant, at most one claims each invitation.\<close>

lemma invitation_claims_exclusive:
  "distinct (invitations.grants now ks is) \<and> (\<forall>k\<in>set (invitations.grants now ks is). \<not> invitation_held now is k)"
  by (rule invitations.grants_distinct)

text \<open>An invitation is used up when the row of its token is accepted.\<close>

definition used_up :: "string \<Rightarrow> invitation list \<Rightarrow> bool" where
  "used_up h is \<longleftrightarrow> (\<exists>i\<in>set is. iv_hash i = h \<and> iv_acceptedAt i \<noteq> None)"

definition invitations_ok :: "team_db \<Rightarrow> bool" where
  "invitations_ok db \<longleftrightarrow> distinct (map iv_id (invitation_rows db)) \<and> distinct (map iv_hash (invitation_rows db))
     \<and> (\<forall>k\<in>set (map iv_id (invitation_rows db)). k < next_invitation db)"

lemma map_claim [simp]:
  "map iv_id (snd (claim_invitation now k is)) = map iv_id is"
  "map iv_hash (snd (claim_invitation now k is)) = map iv_hash is"
  "map iv_id (unclaim_invitation k is) = map iv_id is"
  "map iv_hash (unclaim_invitation k is) = map iv_hash is"
  by (simp_all add: claim_invitation_def unclaim_invitation_def)

lemma claim_row:
  assumes "claim_invitation now k is = (True, is')" "distinct (map iv_id is)" "i \<in> set is" "iv_id i = k"
  shows "iv_acceptedAt i = None" "unclaim_invitation k is' = is"
proof -
  obtain j where j: "j \<in> set is" "iv_id j = k" "outstanding now j"
    using assms(1) by (auto simp: claim_invitation_def)
  have same: "m = j" if "m \<in> set is" "iv_id m = k" for m
    using that j assms(2) by (simp add: distinct_map inj_on_def)
  show n: "iv_acceptedAt i = None" using same [OF assms(3,4)] j(3) by (simp add: outstanding_def)
  have "unclaim_invitation k is' = map (\<lambda>m. if iv_id m = k then m\<lparr>iv_acceptedAt := None\<rparr> else m) is"
    using assms(1) by (auto simp: claim_invitation_def unclaim_invitation_def)
  also have "\<dots> = is"
    by (rule map_idI) (use same j(3) in \<open>auto simp: outstanding_def\<close>)
  finally show "unclaim_invitation k is' = is" .
qed

lemma findByTokenHash_Some: "findByTokenHash h is = Some i \<Longrightarrow> i \<in> set is \<and> iv_hash i = h"
  by (auto simp: findByTokenHash_def dest: find_SomeD)

lemma claim_refused: "claim_invitation now k is = (False, is') \<Longrightarrow> db\<lparr>invitation_rows := is\<rparr> = db' \<Longrightarrow>
    db\<lparr>invitation_rows := is'\<rparr> = db'"
  by (auto simp: claim_invitation_def intro!: arg_cong [of _ _ "\<lambda>xs. invitation_rows_update (\<lambda>_. xs) db"] map_idI)

lemma claim_undone:
  assumes "findByTokenHash h (invitation_rows db) = Some i" "invitations_ok db"
    and "claim_invitation now (iv_id i) (invitation_rows db) = (True, is')"
  shows "db\<lparr>invitation_rows := unclaim_invitation (iv_id i) is'\<rparr> = db"
proof -
  have "unclaim_invitation (iv_id i) is' = invitation_rows db"
    using claim_row(2) [OF assms(3)] assms(2) findByTokenHash_Some [OF assms(1)]
    by (auto simp: invitations_ok_def)
  then show ?thesis by simp
qed

text \<open>Every outcome of a redemption: an error changes nothing, a success uses up the invitation.\<close>

lemma acceptInvitation_cases:
  assumes "acceptInvitation ts now token user email db = (r, db')" "invitations_ok db"
  obtains (Refused) e where "r = Inl e" "db' = db"
  | (Redeemed) i rl rows where "r = Inr (iv_tenant i, rl)"
      "findByTokenHash (hashToken ts token) (invitation_rows db) = Some i"
      "iv_acceptedAt i = None" "now < iv_expiresAt i * 1000"
      "\<exists>e. email = Some e \<and> to_lower (trim e) = iv_email i"
      "claim_invitation now (iv_id i) (invitation_rows db) = (True, invitation_rows db')"
      "redeem_seat ts now i user (seat_rows db) = Inr (rl, rows)" "seat_rows db' = rows"
      "next_invitation db' = next_invitation db"
proof (cases "\<exists>e. r = Inl e")
  case True
  then have "db' = db" using assms
    by (auto simp: acceptInvitation_def claim_undone split: option.splits if_splits prod.splits bool.splits sum.splits
        intro: claim_refused)
  then show ?thesis using True Refused by blast
next
  case False
  then show ?thesis using assms(1)
    by (auto simp: acceptInvitation_def not_le split: option.splits if_splits prod.splits bool.splits sum.splits
        intro!: Redeemed)
qed

lemma used_up_claim:
  "used_up h is \<Longrightarrow> used_up h (snd (claim_invitation now k is))"
proof -
  let ?f = "\<lambda>i. if iv_id i = k \<and> outstanding now i then i\<lparr>iv_acceptedAt := Some (sqlTimestamp now)\<rparr> else i"
  assume "used_up h is"
  then obtain i where i: "i \<in> set is" "iv_hash i = h" "iv_acceptedAt i \<noteq> None" by (auto simp: used_up_def)
  have "?f i \<in> set (map ?f is)" unfolding set_map by (rule imageI [OF i(1)])
  moreover have "?f i = i" using i(3) by (simp add: outstanding_def)
  ultimately have "i \<in> set (snd (claim_invitation now k is))" by (simp only: claim_invitation_def snd_conv)
  with i show ?thesis by (auto simp: used_up_def)
qed

lemma used_up_revoke: "used_up h is \<Longrightarrow> used_up h (snd (revoke_invitation t k is))"
  by (auto simp: used_up_def revoke_invitation_def Let_def)

lemma findByTokenHash_None: "findByTokenHash h is = None \<longleftrightarrow> h \<notin> iv_hash ` set is"
  by (auto simp: findByTokenHash_def find_None_iff)

lemma invitations_create:
  assumes "create_invitation t e r h b x db = Some (i, db')" "invitations_ok db"
  shows "invitations_ok db'" "used_up g (invitation_rows db) \<Longrightarrow> used_up g (invitation_rows db')"
  using assms
  by (auto simp: create_invitation_def invitations_ok_def used_up_def findByTokenHash_None Let_def
      split: if_splits) (metis less_irrefl, metis less_SucI)

lemma invitations_step:
  assumes "invitations_ok db"
  shows "invitations_ok (snd (team_step ts x db)) \<and>
    (used_up h (invitation_rows db) \<longrightarrow> used_up h (invitation_rows (snd (team_step ts x db))))"
proof (cases x)
  case (TInvite now t u r b)
  have "invitation_rows (snd (inviteMember ts now t u r b db)) = invitation_rows db"
    "next_invitation (snd (inviteMember ts now t u r b db)) = next_invitation db"
    by (simp_all add: inviteMember_def Let_def)
  then show ?thesis using assms TInvite by (simp add: invitations_ok_def)
next
  case (TAccept now t u)
  have "invitation_rows (snd (acceptInvite ts now t u db)) = invitation_rows db"
    "next_invitation (snd (acceptInvite ts now t u db)) = next_invitation db"
    by (simp_all add: acceptInvite_def Let_def split: option.split)
  then show ?thesis using assms TAccept by (simp add: invitations_ok_def)
next
  case (TRole t u r)
  then show ?thesis using assms by (simp add: updateMemberRole_def invitations_ok_def split: option.split)
next
  case (TRemove t u)
  then show ?thesis using assms by (simp add: removeMember_def invitations_ok_def split: option.split)
next
  case (TCreate now tok t e r b)
  then show ?thesis using assms invitations_create
    by (auto simp: createInvitation_def Let_def split: option.split)
next
  case (TRevoke t k)
  have "invitations_ok (snd (revokeInvitation ts t k db))"
    using assms by (auto simp: revokeInvitation_def revoke_invitation_def invitations_ok_def Let_def distinct_map_filter)
  then show ?thesis using TRevoke used_up_revoke [of h "invitation_rows db" t k]
    by (auto simp: revokeInvitation_def split: prod.split)
next
  case (TRedeem now tok u e)
  obtain r db' where a: "acceptInvitation ts now tok u e db = (r, db')" by fastforce
  from a assms show ?thesis
  proof (cases rule: acceptInvitation_cases)
    case (Refused e)
    then show ?thesis using TRedeem a assms by simp
  next
    case (Redeemed i rl rows)
    then have rows: "invitation_rows db' = snd (claim_invitation now (iv_id i) (invitation_rows db))" by simp
    have "invitations_ok db'" using assms unfolding invitations_ok_def rows map_claim Redeemed(9) .
    then show ?thesis using TRedeem a used_up_claim rows by simp
  qed
qed

lemma invitations_run:
  "invitations_ok db \<Longrightarrow> used_up h (invitation_rows db) \<Longrightarrow>
   invitations_ok (team_run ts xs db) \<and> used_up h (invitation_rows (team_run ts xs db))"
  by (induction xs arbitrary: db) (use invitations_step in auto)

lemma redeem_again:
  assumes "invitations_ok db" "used_up (hashToken ts token) (invitation_rows db)"
  shows "acceptInvitation ts now token user email db = (Inl InvitationInvalid, db)"
proof -
  obtain i where i: "i \<in> set (invitation_rows db)" "iv_hash i = hashToken ts token" "iv_acceptedAt i \<noteq> None"
    using assms(2) by (auto simp: used_up_def)
  obtain j where j: "findByTokenHash (hashToken ts token) (invitation_rows db) = Some j"
    using i(1,2) findByTokenHash_None [of "hashToken ts token" "invitation_rows db"]
    by (metis imageI option.exhaust)
  have "j = i"
    using findByTokenHash_Some [OF j] i(1,2) assms(1) by (auto simp: invitations_ok_def distinct_map inj_on_def)
  then show ?thesis using i(3) j by (simp add: acceptInvitation_def)
qed

lemma redeemed_used_up:
  assumes "acceptInvitation ts now token user email db = (Inr x, db1)" "invitations_ok db"
  shows "used_up (hashToken ts token) (invitation_rows db1) \<and> invitations_ok db1"
proof -
  have "invitations_ok db1"
    using invitations_step [OF assms(2), of ts "TRedeem now token user email"] assms(1) by simp
  from assms show ?thesis
  proof (cases rule: acceptInvitation_cases)
    case (Redeemed i rl rows)
    have i: "i \<in> set (invitation_rows db)" "iv_hash i = hashToken ts token"
      using findByTokenHash_Some [OF Redeemed(2)] by simp_all
    obtain m where m: "m \<in> set (invitation_rows db)" "iv_id m = iv_id i" "outstanding now m"
      using Redeemed(6) by (auto simp: claim_invitation_def)
    have "m = i" using m(1,2) i(1) assms(2) by (simp add: invitations_ok_def distinct_map inj_on_def)
    let ?f = "\<lambda>j. if iv_id j = iv_id i \<and> outstanding now j then j\<lparr>iv_acceptedAt := Some (sqlTimestamp now)\<rparr> else j"
    have "invitation_rows db1 = map ?f (invitation_rows db)"
      using Redeemed(6) by (simp add: claim_invitation_def)
    then have "?f i \<in> set (invitation_rows db1)" using i(1) by simp
    then have "i\<lparr>iv_acceptedAt := Some (sqlTimestamp now)\<rparr> \<in> set (invitation_rows db1)"
      using m(3) \<open>m = i\<close> by simp
    then show ?thesis using i(2) \<open>invitations_ok db1\<close>
      by (auto simp: used_up_def intro!: bexI [of _ "i\<lparr>iv_acceptedAt := Some (sqlTimestamp now)\<rparr>"])
  qed simp
qed

text \<open>C22. An invitation is redeemed once: after a redemption no later one with the same token
  succeeds or changes anything, whatever was done to the team and to its invitations in between.\<close>

theorem invitation_redeemed_once:
  assumes "invitations_ok db" "acceptInvitation ts now token user email db = (Inr x, db1)"
  shows "acceptInvitation ts now' token user' email' (team_run ts xs db1) = (Inl InvitationInvalid, team_run ts xs db1)"
proof -
  from redeemed_used_up [OF assms(2,1)] have
    "invitations_ok (team_run ts xs db1)" "used_up (hashToken ts token) (invitation_rows (team_run ts xs db1))"
    using invitations_run by blast+
  then show ?thesis by (rule redeem_again)
qed

lemma redeem_seat_active:
  assumes "redeem_seat ts now i user rows = Inr (r, rows')"
  shows "\<exists>s. findByTenantAndUser (iv_tenant i) user rows' = Some s \<and> st_status s = SeatActive \<and> st_role s = r"
proof -
  have "\<exists>s. findByTenantAndUser t user (activate now t user (invite now t user r b rows)) = Some s \<and>
      st_status s = SeatActive \<and> st_role s = r" for t r b
    by (simp add: findByTenantAndUser_def activate_def map_of_update_seat find_invited)
  then show ?thesis using assms
    by (auto simp: redeem_seat_def Let_def split: option.splits if_splits)
qed

text \<open>The outcome of a redemption: an error leaves the seats and the invitations as they were; a
  success means that the token is that of an invitation which was neither accepted nor expired and
  was sent to the verified email of the user, who then holds an active seat of the tenant with the
  role that is returned.\<close>

theorem redemption_outcome:
  assumes "invitations_ok db"
  shows "case acceptInvitation ts now token user email db of
      (Inl e, db') \<Rightarrow> db' = db
    | (Inr (t, r), db') \<Rightarrow>
        (\<exists>i. findByTokenHash (hashToken ts token) (invitation_rows db) = Some i \<and> iv_tenant i = t \<and>
           iv_acceptedAt i = None \<and> now < iv_expiresAt i * 1000 \<and>
           (\<exists>e. email = Some e \<and> to_lower (trim e) = iv_email i)) \<and>
        (\<exists>s. findByTenantAndUser t user (seat_rows db') = Some s \<and> st_status s = SeatActive \<and> st_role s = r)"
proof -
  obtain x db' where a: "acceptInvitation ts now token user email db = (x, db')" by fastforce
  from a assms show ?thesis
  proof (cases rule: acceptInvitation_cases)
    case (Refused e)
    then show ?thesis by (simp add: a)
  next
    case (Redeemed i rl rows)
    then show ?thesis using redeem_seat_active [OF Redeemed(7)] by (simp add: a)
  qed
qed

section \<open>What the checks do not cover\<close>

text \<open>A removed member takes the seat back, with the role it had, without an invitation: accepting
  asks only that the member has a row and that an active seat is free.\<close>

theorem removed_member_rejoins:
  assumes "findByTenantAndUser t u (seat_rows db) = Some s" "st_status s = SeatRemoved"
    and "\<not> at_limit (countActiveSeats t (seat_rows db)) (seat_limit ts t)"
  shows "\<exists>db'. acceptInvite ts now t u db = (Inr (), db') \<and>
    validateSession u (Some t) (seat_rows db') = (if t = [] then Some None else Some (Some (sessionRoleFor (st_role s))))"
  using assms
  by (simp add: acceptInvite_def Let_def validateSession_def findByTenantAndUser_def activate_def map_of_update_seat)

lemma removed_count:
  assumes "distinct_seats ts" "map_of ts (t, u) = Some s" "st_status s = SeatActive" "admin_role (st_role s)"
  shows "Suc (countActiveAdmins t (remove_seat t u ts)) = countActiveAdmins t ts"
  using count_moves [OF assms(1), of "\<lambda>s. st_status s = SeatActive \<and> admin_role (st_role s)" t t u
      "\<lambda>s. s\<lparr>st_status := SeatRemoved\<rparr>"] assms(2-4)
  by (simp add: counts_are_seat_counts remove_seat_def holds_seat_def)

text \<open>The last admins can remove each other: when the two of them read before either writes, both
  checks pass, and the team is left without an admin.\<close>

theorem concurrent_removals_lock_out:
  assumes "distinct_seats ts" "countActiveAdmins t ts = 2" "u \<noteq> v"
    and "map_of ts (t, u) = Some s" "st_status s = SeatActive" "admin_role (st_role s)"
    and "map_of ts (t, v) = Some r" "st_status r = SeatActive" "admin_role (st_role r)"
  shows "removal_allowed t u ts = None \<and> removal_allowed t v ts = None \<and>
    countActiveAdmins t (remove_seat t v (remove_seat t u ts)) = 0"
proof -
  have d: "distinct_seats (remove_seat t u ts)" using assms(1) by (simp add: distinct_seats_def)
  have v: "map_of (remove_seat t u ts) (t, v) = Some r"
    using assms(3,7) by (simp add: remove_seat_def map_of_update_seat)
  show ?thesis
    using removed_count [OF assms(1,4-6)] removed_count [OF d v assms(8,9)] assms
    by (simp add: removal_allowed_def findByTenantAndUser_def)
qed

text \<open>A session is bound to the seat: as soon as a member is removed, every session of the member
  in the tenant is rejected, and a change of role applies to sessions that exist.\<close>

theorem session_follows_seat:
  assumes "findByTenantAndUser t u ts = Some s" "t \<noteq> []" "st_status s = SeatActive"
  shows "validateSession u (Some t) (remove_seat t u ts) = None \<and>
    validateSession u (Some t) (updateRole t u r ts) = Some (Some (sessionRoleFor r))"
  using assms
  by (simp add: validateSession_def findByTenantAndUser_def remove_seat_def updateRole_def map_of_update_seat)

section \<open>Instances\<close>

definition example_seat :: "team_role \<Rightarrow> seat_status \<Rightarrow> seat" where
  "example_seat r st = \<lparr>st_role = r, st_invitedBy = None, st_invitedAt = 0, st_joinedAt = Some 0, st_status = st\<rparr>"

definition example_team :: team_db where
  "example_team = \<lparr>seat_rows = [((''acme'', ''ann''), example_seat RoleAdmin SeatActive),
       ((''acme'', ''bob''), example_seat RoleMember SeatRemoved)],
     invitation_rows = [\<lparr>iv_id = 1, iv_tenant = ''acme'', iv_email = ''cy@x'', iv_role = RoleMember, iv_hash = ''h'',
       iv_invitedBy = Some ''ann'', iv_expiresAt = 100, iv_acceptedAt = None\<rparr>],
     next_invitation = 2\<rparr>"

definition example_team_service :: team_service where
  "example_team_service = \<lparr>ts_subs = Map.empty,
     ts_meter = \<lparr>autoProvisionTenants = False, planOverride = [''acme'' \<mapsto> PlanPro]\<rparr>,
     ts_invitations = True, ttlHours = None, hashToken = (\<lambda>_. ''h'')\<rparr>"

lemma example_team_simps [simp]:
  "distinct_seats (seat_rows example_team)"
  "seat_limit example_team_service ''acme'' = Some 3"
  "countActiveSeats ''acme'' (seat_rows example_team) = 1"
  "countActiveAdmins ''acme'' (seat_rows example_team) = 1"
  "invitations_ok example_team"
  by (simp_all add: example_team_def example_team_service_def example_seat_def distinct_seats_def seat_limit_def
      resolvePlan_def effectivePlanFor_def counts_are_seat_counts admin_role_def invitations_ok_def)


lemma last_admin_stays_witness:
  "1 \<le> countActiveAdmins ''acme'' (seat_rows (team_run example_team_service
      [TRole ''acme'' ''ann'' RoleMember, TRemove ''acme'' ''ann''] example_team))"
  by (rule last_admin_stays) simp_all

lemma example_redemption:
  "\<exists>db1. acceptInvitation example_team_service 5000 ''tok'' ''cy'' (Some ''CY@x'') example_team
     = (Inr (''acme'', RoleMember), db1)"
proof -
  have "to_lower (trim ''CY@x'') = ''cy@x''" by code_simp
  moreover have "seat_limit \<lparr>ts_subs = Map.empty, ts_meter = \<lparr>autoProvisionTenants = False,
      planOverride = [''acme'' \<mapsto> PlanPro]\<rparr>, ts_invitations = True, ttlHours = None, hashToken = (\<lambda>_. ''h'')\<rparr> ''acme'' = Some 3"
    using example_team_simps(2) by (simp add: example_team_service_def)
  ultimately show ?thesis
    by (simp add: acceptInvitation_def example_team_def example_team_service_def findByTokenHash_def
        claim_invitation_def outstanding_def sqlTimestamp_def redeem_seat_def Let_def findByTenantAndUser_def
        at_limit_def counts_are_seat_counts example_seat_def)
qed

lemma invitation_redeemed_once_witness:
  "\<exists>db1. acceptInvitation example_team_service 5000 ''tok'' ''cy'' (Some ''CY@x'') example_team
      = (Inr (''acme'', RoleMember), db1) \<and>
    fst (acceptInvitation example_team_service 6000 ''tok'' ''dan'' (Some ''cy@x'')
      (team_run example_team_service [TRemove ''acme'' ''cy''] db1)) = Inl InvitationInvalid"
proof -
  obtain db1 where "acceptInvitation example_team_service 5000 ''tok'' ''cy'' (Some ''CY@x'') example_team
      = (Inr (''acme'', RoleMember), db1)" using example_redemption by blast
  from this invitation_redeemed_once [OF example_team_simps(5) this, THEN arg_cong [where f = fst]] show ?thesis
    unfolding fst_conv by blast
qed

lemma redemption_outcome_witness:
  "\<exists>db1 s. acceptInvitation example_team_service 5000 ''tok'' ''cy'' (Some ''CY@x'') example_team
      = (Inr (''acme'', RoleMember), db1) \<and> findByTenantAndUser ''acme'' ''cy'' (seat_rows db1) = Some s \<and>
      st_status s = SeatActive"
proof -
  obtain db1 where "acceptInvitation example_team_service 5000 ''tok'' ''cy'' (Some ''CY@x'') example_team
      = (Inr (''acme'', RoleMember), db1)" using example_redemption by blast
  with redemption_outcome [of example_team, where ts = example_team_service and now = 5000 and token = "''tok''"
      and user = "''cy''" and email = "Some ''CY@x''"]
  show ?thesis by auto
qed

lemma removed_member_rejoins_witness:
  "\<exists>db'. acceptInvite example_team_service 5000 ''acme'' ''bob'' example_team = (Inr (), db') \<and>
    validateSession ''bob'' (Some ''acme'') (seat_rows db') = Some (Some SessionMember)"
  using removed_member_rejoins [of "''acme''" "''bob''" example_team "example_seat RoleMember SeatRemoved"
      example_team_service 5000]
  by (simp add: findByTenantAndUser_def at_limit_def) (simp add: example_team_def example_seat_def sessionRoleFor_def)

definition two_admins :: team_seats where
  "two_admins = [((''acme'', ''ann''), example_seat RoleAdmin SeatActive), ((''acme'', ''eve''), example_seat RoleOwner SeatActive)]"

lemma concurrent_removals_lock_out_witness:
  "removal_allowed ''acme'' ''ann'' two_admins = None \<and> removal_allowed ''acme'' ''eve'' two_admins = None \<and>
    countActiveAdmins ''acme'' (remove_seat ''acme'' ''eve'' (remove_seat ''acme'' ''ann'' two_admins)) = 0"
  by (rule concurrent_removals_lock_out [where s = "example_seat RoleAdmin SeatActive" and r = "example_seat RoleOwner SeatActive"])
     (simp_all add: two_admins_def example_seat_def distinct_seats_def counts_are_seat_counts admin_role_def)

lemma session_follows_seat_witness:
  "validateSession ''ann'' (Some ''acme'') (remove_seat ''acme'' ''ann'' two_admins) = None"
  by (rule session_follows_seat [where s = "example_seat RoleAdmin SeatActive", THEN conjunct1])
     (simp_all add: findByTenantAndUser_def two_admins_def example_seat_def)

end
