(* ===== verification/Automation.thy ===== *)
theory Automation
  imports Domain
begin

text \<open>
  The automation that follows an acquisition (\<open>src/services/post-acquisition-service.ts\<close>),
  its journal, settings and audit trail (\<open>src/db/repositories/\<close>), and the \<open>dns\<close> step with
  its write gate (\<open>post-acquisition-dns-executor.ts\<close>, \<open>dns-write-gate.ts\<close>).

  The external world that the executors act on is a parameter, the type \<open>'e\<close>; an executor is
  a function of it. The database is modelled with its failures: the statements that the
  service issues are numbered, and a parameter says which of them throw. The journal's JSON
  details and the timestamps of the rows are left out. \<open>t\<close> is \<open>resolveTenantId()\<close>.
\<close>

section \<open>Steps, settings and the journal\<close>

datatype step_name = PortfolioStep | SiteStep | IndexingStep | DnsStep | ParkingStep | ListingStep

definition POST_ACQUISITION_STEPS :: "step_name list" where
  "POST_ACQUISITION_STEPS =
     [PortfolioStep, SiteStep, IndexingStep, DnsStep, ParkingStep, ListingStep]"

datatype step_status = StepPending | StepDone | StepSkipped | StepFailed

datatype trigger_source = FromPurchase | FromAcquisition | FromManual | FromPipelineRun

record step_row =
  sr_id :: nat
  sr_tenant :: string
  sr_domain :: string
  sr_step :: step_name
  sr_status :: step_status
  attempts :: nat
  sr_source :: trigger_source
  sr_run :: "string option"
  lastError :: "string option"

record journal =
  step_rows :: "step_row list"
  next_row :: nat

definition step_key :: "string \<Rightarrow> string \<Rightarrow> step_name \<Rightarrow> step_row \<Rightarrow> bool" where
  "step_key t d s r = (sr_tenant r = t \<and> sr_domain r = d \<and> sr_step r = s)"

definition findByDomainAndStep :: "string \<Rightarrow> string \<Rightarrow> step_name \<Rightarrow> journal \<Rightarrow> step_row option" where
  "findByDomainAndStep t d s j = find (step_key t d s) (step_rows j)"

text \<open>\<open>INSERT \<dots> ON CONFLICT (domain, step, tenant_id) DO NOTHING\<close>.\<close>

definition insert_step ::
    "string \<Rightarrow> string \<Rightarrow> step_name \<Rightarrow> trigger_source \<Rightarrow> string option \<Rightarrow> journal \<Rightarrow> journal" where
  "insert_step t d s src run j =
     (if findByDomainAndStep t d s j \<noteq> None then j
      else j\<lparr>step_rows := step_rows j @ [\<lparr>sr_id = next_row j, sr_tenant = t, sr_domain = d,
               sr_step = s, sr_status = StepPending, attempts = 0, sr_source = src,
               sr_run = run, lastError = None\<rparr>],
             next_row := Suc (next_row j)\<rparr>)"

definition update_step :: "string \<Rightarrow> nat \<Rightarrow> (step_row \<Rightarrow> step_row) \<Rightarrow> journal \<Rightarrow> journal" where
  "update_step t i f j =
     j\<lparr>step_rows := map (\<lambda>r. if sr_id r = i \<and> sr_tenant r = t then f r else r) (step_rows j)\<rparr>"

definition incrementAttempts :: "string \<Rightarrow> nat \<Rightarrow> journal \<Rightarrow> journal" where
  "incrementAttempts t i = update_step t i (\<lambda>r. r\<lparr>attempts := attempts r + 1\<rparr>)"

definition markDone :: "string \<Rightarrow> nat \<Rightarrow> journal \<Rightarrow> journal" where
  "markDone t i = update_step t i (\<lambda>r. r\<lparr>sr_status := StepDone, lastError := None\<rparr>)"

definition markSkipped :: "string \<Rightarrow> nat \<Rightarrow> string \<Rightarrow> journal \<Rightarrow> journal" where
  "markSkipped t i reason =
     update_step t i (\<lambda>r. r\<lparr>sr_status := StepSkipped, lastError := Some reason\<rparr>)"

definition markFailed :: "string \<Rightarrow> nat \<Rightarrow> string \<Rightarrow> journal \<Rightarrow> journal" where
  "markFailed t i err =
     update_step t i (\<lambda>r. r\<lparr>sr_status := StepFailed, lastError := Some err\<rparr>)"

definition resetStep :: "string \<Rightarrow> string \<Rightarrow> step_name \<Rightarrow> journal \<Rightarrow> journal" where
  "resetStep t d s j =
     j\<lparr>step_rows := map (\<lambda>r. if step_key t d s r
        then r\<lparr>sr_status := StepPending, lastError := None\<rparr> else r) (step_rows j)\<rparr>"

definition resetDomain :: "string \<Rightarrow> string \<Rightarrow> journal \<Rightarrow> journal" where
  "resetDomain t d j =
     j\<lparr>step_rows := map (\<lambda>r. if sr_domain r = d \<and> sr_tenant r = t
        then r\<lparr>sr_status := StepPending, lastError := None\<rparr> else r) (step_rows j)\<rparr>"

definition steps_of_domain :: "string \<Rightarrow> string \<Rightarrow> journal \<Rightarrow> step_row list" where
  "steps_of_domain t d j = filter (\<lambda>r. sr_domain r = d \<and> sr_tenant r = t) (step_rows j)"

text \<open>The rows are kept in the order of their ids, so \<open>ORDER BY id DESC\<close> reverses them.\<close>

definition listRecent :: "string \<Rightarrow> step_status option \<Rightarrow> nat \<Rightarrow> journal \<Rightarrow> step_row list" where
  "listRecent t status n j =
     take n (rev (filter (\<lambda>r. sr_tenant r = t \<and> (status = None \<or> status = Some (sr_status r)))
       (step_rows j)))"

section \<open>The two switches\<close>

record automation_settings =
  as_enabled :: bool
  as_dryRun :: bool

definition DEFAULT_TENANT_AUTOMATION_SETTINGS :: automation_settings where
  "DEFAULT_TENANT_AUTOMATION_SETTINGS = \<lparr>as_enabled = False, as_dryRun = True\<rparr>"

type_synonym settings_table = "string \<rightharpoonup> automation_settings"

definition get_settings :: "string \<Rightarrow> settings_table \<Rightarrow> automation_settings" where
  "get_settings t st = (case st t of Some a \<Rightarrow> a | None \<Rightarrow> DEFAULT_TENANT_AUTOMATION_SETTINGS)"

definition set_settings ::
    "string \<Rightarrow> bool option \<Rightarrow> bool option \<Rightarrow> settings_table \<Rightarrow> automation_settings \<times> settings_table" where
  "set_settings t enabled dry st =
     (let current = get_settings t st;
          new = \<lparr>as_enabled = (case enabled of Some b \<Rightarrow> b | None \<Rightarrow> as_enabled current),
                 as_dryRun = (case dry of Some b \<Rightarrow> b | None \<Rightarrow> as_dryRun current)\<rparr>
      in (new, st(t \<mapsto> new)))"

datatype refusal = GlobalKillSwitch | TenantSwitch

record effective_settings =
  ef_enabled :: bool
  ef_dryRun :: bool
  ef_refusedBy :: "refusal option"

text \<open>\<open>env\<close> holds the operator's flags, \<open>ten\<close> the tenant's own switch.\<close>

definition effective :: "automation_settings \<Rightarrow> automation_settings \<Rightarrow> effective_settings" where
  "effective env ten =
     (if \<not> as_enabled env then
        \<lparr>ef_enabled = False, ef_dryRun = True, ef_refusedBy = Some GlobalKillSwitch\<rparr>
      else if \<not> as_enabled ten then
        \<lparr>ef_enabled = False, ef_dryRun = as_dryRun env \<or> as_dryRun ten,
         ef_refusedBy = Some TenantSwitch\<rparr>
      else \<lparr>ef_enabled = True, ef_dryRun = as_dryRun env \<or> as_dryRun ten, ef_refusedBy = None\<rparr>)"

section \<open>The service\<close>

datatype audit_action =
  AutomationDisabled | TenantAutomationDisabled | RunStarted | RunFinished
| StepAudited step_name step_status

record audit_row =
  au_tenant :: string
  au_domain :: string
  au_action :: audit_action
  au_actor :: trigger_source

definition audit_of_domain :: "string \<Rightarrow> string \<Rightarrow> nat \<Rightarrow> audit_row list \<Rightarrow> audit_row list" where
  "audit_of_domain t d n rs = take n (rev (filter (\<lambda>r. au_domain r = d \<and> au_tenant r = t) rs))"

record 'e automation_world =
  ext :: 'e
  journal :: journal
  tenant_settings :: settings_table
  audit_rows :: "audit_row list"
  stmt :: nat

record step_context =
  cx_domain :: string
  cx_source :: trigger_source
  cx_run :: "string option"
  cx_dryRun :: bool

datatype step_outcome =
  OutDone "string option" | OutSkipped string | OutFailed string

text \<open>
  A call to the outside acts on \<open>'e\<close> and returns a value or throws (\<open>Inl\<close> is the message of
  the error). An executor is such a call, for a context.
\<close>

type_synonym ('e, 'a) call = "'e \<Rightarrow> (string + 'a) \<times> 'e"

type_synonym 'e executor = "step_context \<Rightarrow> ('e, step_outcome) call"

text \<open>
  \<open>has_settingsRepo\<close>: whether a settings store is wired. \<open>faults n\<close>: whether the \<open>n\<close>-th
  statement throws, with the message \<open>db_error\<close>. \<open>aborted\<close> reads the abort signal of a run.
\<close>

record 'e automation =
  au_settings :: automation_settings
  has_settingsRepo :: bool
  executors :: "step_name \<Rightarrow> 'e executor option"
  aborted :: "'e \<Rightarrow> bool"
  faults :: "nat \<Rightarrow> bool"
  db_error :: string

record step_result =
  rs_step :: step_name
  rs_status :: step_status
  rs_message :: "string option"

record run_result =
  rr_enabled :: bool
  rr_dryRun :: bool
  rr_steps :: "step_result list"
  rr_refusedBy :: "refusal option"

text \<open>One statement: it throws (\<open>None\<close>) and changes nothing, or it runs.\<close>

definition db_call ::
    "'e automation \<Rightarrow> ('e automation_world \<Rightarrow> 'a \<times> 'e automation_world) \<Rightarrow>
     'e automation_world \<Rightarrow> 'a option \<times> 'e automation_world" where
  "db_call a f w =
     (if faults a (stmt w) then (None, w\<lparr>stmt := Suc (stmt w)\<rparr>)
      else case f w of (x, w') \<Rightarrow> (Some x, w'\<lparr>stmt := Suc (stmt w)\<rparr>))"

definition on_journal :: "(journal \<Rightarrow> journal) \<Rightarrow> 'e automation_world \<Rightarrow> unit \<times> 'e automation_world" where
  "on_journal f w = ((), w\<lparr>journal := f (journal w)\<rparr>)"

text \<open>\<open>#audit\<close> swallows the failure of its insert.\<close>

definition audit ::
    "'e automation \<Rightarrow> string \<Rightarrow> string \<Rightarrow> audit_action \<Rightarrow> trigger_source \<Rightarrow>
     'e automation_world \<Rightarrow> 'e automation_world" where
  "audit a t d act src w =
     snd (db_call a (\<lambda>w. ((), w\<lparr>audit_rows := audit_rows w @
       [\<lparr>au_tenant = t, au_domain = d, au_action = act, au_actor = src\<rparr>]\<rparr>)) w)"

definition upsert ::
    "'e automation \<Rightarrow> string \<Rightarrow> step_context \<Rightarrow> step_name \<Rightarrow> 'e automation_world \<Rightarrow>
     step_row option \<times> 'e automation_world" where
  "upsert a t cx s w =
     (case db_call a (on_journal (insert_step t (cx_domain cx) s (cx_source cx) (cx_run cx))) w of
        (None, w1) \<Rightarrow> (None, w1)
      | (Some _, w1) \<Rightarrow>
          (case db_call a (\<lambda>w. (findByDomainAndStep t (cx_domain cx) s (journal w), w)) w1 of
             (None, w2) \<Rightarrow> (None, w2)
           | (Some r, w2) \<Rightarrow> (r, w2)))"

text \<open>What the body of the loop does next: the next step, or leave the loop.\<close>

datatype flow = Proceed step_result | Halt step_result

definition step_failed ::
    "'e automation \<Rightarrow> string \<Rightarrow> step_context \<Rightarrow> step_name \<Rightarrow> nat \<Rightarrow> string \<Rightarrow>
     'e automation_world \<Rightarrow> flow option \<times> 'e automation_world" where
  "step_failed a t cx s i msg w =
     (case db_call a (on_journal (markFailed t i msg)) w of
        (None, w1) \<Rightarrow> (None, w1)
      | (Some _, w1) \<Rightarrow>
          (Some (Halt \<lparr>rs_step = s, rs_status = StepFailed, rs_message = Some msg\<rparr>),
           audit a t (cx_domain cx) (StepAudited s StepFailed) (cx_source cx) w1))"

text \<open>
  Recording an outcome is inside the \<open>try\<close>: when the statement that records it throws, the
  \<open>catch\<close> records a failure instead.
\<close>

definition record_outcome ::
    "'e automation \<Rightarrow> string \<Rightarrow> step_context \<Rightarrow> step_name \<Rightarrow> nat \<Rightarrow> string + step_outcome \<Rightarrow>
     'e automation_world \<Rightarrow> flow option \<times> 'e automation_world" where
  "record_outcome a t cx s i out w =
     (case out of
        Inl msg \<Rightarrow> step_failed a t cx s i msg w
      | Inr (OutDone m) \<Rightarrow>
          (case db_call a (on_journal (markDone t i)) w of
             (None, w1) \<Rightarrow> step_failed a t cx s i (db_error a) w1
           | (Some _, w1) \<Rightarrow>
               (Some (Proceed \<lparr>rs_step = s, rs_status = StepDone, rs_message = m\<rparr>),
                audit a t (cx_domain cx) (StepAudited s StepDone) (cx_source cx) w1))
      | Inr (OutSkipped reason) \<Rightarrow>
          (case db_call a (on_journal (markSkipped t i reason)) w of
             (None, w1) \<Rightarrow> step_failed a t cx s i (db_error a) w1
           | (Some _, w1) \<Rightarrow>
               (Some (Proceed \<lparr>rs_step = s, rs_status = StepSkipped, rs_message = Some reason\<rparr>),
                audit a t (cx_domain cx) (StepAudited s StepSkipped) (cx_source cx) w1))
      | Inr (OutFailed err) \<Rightarrow>
          (case db_call a (on_journal (markFailed t i err)) w of
             (None, w1) \<Rightarrow> step_failed a t cx s i (db_error a) w1
           | (Some _, w1) \<Rightarrow>
               (Some (Halt \<lparr>rs_step = s, rs_status = StepFailed, rs_message = Some err\<rparr>),
                audit a t (cx_domain cx) (StepAudited s StepFailed) (cx_source cx) w1)))"

definition execute_row ::
    "'e automation \<Rightarrow> string \<Rightarrow> step_context \<Rightarrow> step_name \<Rightarrow> 'e executor \<Rightarrow> step_row \<Rightarrow>
     'e automation_world \<Rightarrow> flow option \<times> 'e automation_world" where
  "execute_row a t cx s ex row w =
     (case db_call a (on_journal (incrementAttempts t (sr_id row))) w of
        (None, w1) \<Rightarrow> (None, w1)
      | (Some _, w1) \<Rightarrow>
          (case ex cx (ext w1) of (out, e) \<Rightarrow>
             record_outcome a t cx s (sr_id row) out (w1\<lparr>ext := e\<rparr>)))"

definition run_step ::
    "'e automation \<Rightarrow> string \<Rightarrow> step_context \<Rightarrow> step_name \<Rightarrow> 'e automation_world \<Rightarrow>
     flow option \<times> 'e automation_world" where
  "run_step a t cx s w =
     (case executors a s of
        None \<Rightarrow> (Some (Proceed \<lparr>rs_step = s, rs_status = StepSkipped,
                   rs_message = Some ''no executor registered''\<rparr>), w)
      | Some ex \<Rightarrow>
          (case db_call a (\<lambda>w. (findByDomainAndStep t (cx_domain cx) s (journal w), w)) w of
             (None, w1) \<Rightarrow> (None, w1)
           | (Some existing, w1) \<Rightarrow>
               if map_option sr_status existing = Some StepDone then
                 (Some (Proceed \<lparr>rs_step = s, rs_status = StepDone,
                    rs_message = Some ''already completed''\<rparr>), w1)
               else if aborted a (ext w1) then
                 (Some (Halt \<lparr>rs_step = s, rs_status = StepSkipped,
                    rs_message = Some ''aborted before execution''\<rparr>), w1)
               else
                 (case (case existing of Some r \<Rightarrow> (Some r, w1) | None \<Rightarrow> upsert a t cx s w1) of
                    (None, w2) \<Rightarrow> (None, w2)
                  | (Some row, w2) \<Rightarrow> execute_row a t cx s ex row w2)))"

fun run_steps ::
    "'e automation \<Rightarrow> string \<Rightarrow> step_context \<Rightarrow> step_name list \<Rightarrow> step_result list \<Rightarrow>
     'e automation_world \<Rightarrow> step_result list option \<times> 'e automation_world" where
  "run_steps a t cx [] acc w = (Some acc, w)"
| "run_steps a t cx (s # ss) acc w =
     (case run_step a t cx s w of
        (None, w1) \<Rightarrow> (None, w1)
      | (Some (Halt r), w1) \<Rightarrow> (Some (acc @ [r]), w1)
      | (Some (Proceed r), w1) \<Rightarrow> run_steps a t cx ss (acc @ [r]) w1)"

text \<open>The tenant's switch; without a settings store the operator's flags stand for it.\<close>

definition read_tenant ::
    "'e automation \<Rightarrow> string \<Rightarrow> 'e automation_world \<Rightarrow>
     automation_settings option \<times> 'e automation_world" where
  "read_tenant a t w =
     (if has_settingsRepo a then db_call a (\<lambda>w. (get_settings t (tenant_settings w), w)) w
      else (Some (au_settings a), w))"

definition getSettingsView ::
    "'e automation \<Rightarrow> string \<Rightarrow> 'e automation_world \<Rightarrow>
     (automation_settings \<times> automation_settings \<times> effective_settings) option \<times> 'e automation_world" where
  "getSettingsView a t w =
     (case read_tenant a t w of
        (None, w1) \<Rightarrow> (None, w1)
      | (Some ten, w1) \<Rightarrow> (Some (au_settings a, ten, effective (au_settings a) ten), w1))"

text \<open>\<open>None\<close>: no store is wired (\<open>SettingsStoreUnavailableError\<close>) or a statement throws.\<close>

definition updateTenantSettings ::
    "'e automation \<Rightarrow> string \<Rightarrow> bool option \<Rightarrow> bool option \<Rightarrow> 'e automation_world \<Rightarrow>
     automation_settings option \<times> 'e automation_world" where
  "updateTenantSettings a t enabled dry w =
     (if \<not> has_settingsRepo a then (None, w)
      else case read_tenant a t w of
        (None, w1) \<Rightarrow> (None, w1)
      | (Some _, w1) \<Rightarrow>
          db_call a (\<lambda>w. case set_settings t enabled dry (tenant_settings w) of
            (new, st) \<Rightarrow> (new, w\<lparr>tenant_settings := st\<rparr>)) w1)"

definition run_automation ::
    "'e automation \<Rightarrow> string \<Rightarrow> string \<Rightarrow> trigger_source \<Rightarrow> string option \<Rightarrow> 'e automation_world \<Rightarrow>
     run_result option \<times> 'e automation_world" where
  "run_automation a t d src run w =
     (if \<not> as_enabled (au_settings a) then
        (Some \<lparr>rr_enabled = False, rr_dryRun = True, rr_steps = [],
           rr_refusedBy = Some GlobalKillSwitch\<rparr>,
         audit a t d AutomationDisabled src w)
      else case read_tenant a t w of
        (None, w1) \<Rightarrow> (None, w1)
      | (Some ten, w1) \<Rightarrow>
          let ef = effective (au_settings a) ten in
          if \<not> ef_enabled ef then
            (Some \<lparr>rr_enabled = False, rr_dryRun = ef_dryRun ef, rr_steps = [],
               rr_refusedBy = Some TenantSwitch\<rparr>,
             audit a t d TenantAutomationDisabled src w1)
          else
            case run_steps a t
                   \<lparr>cx_domain = d, cx_source = src, cx_run = run, cx_dryRun = ef_dryRun ef\<rparr>
                   POST_ACQUISITION_STEPS [] (audit a t d RunStarted src w1) of
              (None, w2) \<Rightarrow> (None, w2)
            | (Some rs, w2) \<Rightarrow>
                (Some \<lparr>rr_enabled = True, rr_dryRun = ef_dryRun ef, rr_steps = rs,
                   rr_refusedBy = None\<rparr>,
                 audit a t d RunFinished src w2))"

text \<open>
  The requests that change the journal. \<open>#running\<close> makes the runs of a domain wait for each
  other, so a sequence of requests describes what one process does for it.
\<close>

datatype automation_request =
  Run string trigger_source "string option"
| ResetAndRun string trigger_source
| ResetStep string step_name

definition automation_op ::
    "'e automation \<Rightarrow> string \<Rightarrow> automation_request \<Rightarrow> 'e automation_world \<Rightarrow> 'e automation_world" where
  "automation_op a t oper w =
     (case oper of
        Run d src run \<Rightarrow> snd (run_automation a t d src run w)
      | ResetAndRun d src \<Rightarrow>
          (case db_call a (on_journal (resetDomain t d)) w of
             (None, w1) \<Rightarrow> w1
           | (Some _, w1) \<Rightarrow> snd (run_automation a t d src None w1))
      | ResetStep d s \<Rightarrow> snd (db_call a (on_journal (resetStep t d s)) w))"

definition automation_ops ::
    "'e automation \<Rightarrow> string \<Rightarrow> automation_request list \<Rightarrow> 'e automation_world \<Rightarrow> 'e automation_world" where
  "automation_ops a t ops w = fold (automation_op a t) ops w"

section \<open>The journal keeps one row for a step\<close>

named_theorems journal_simps \<comment> \<open>what the statements on the journal do to a lookup\<close>

definition journal_ok :: "journal \<Rightarrow> bool" where
  "journal_ok j = (distinct (map sr_id (step_rows j))
     \<and> (\<forall>r \<in> set (step_rows j). sr_id r < next_row j)
     \<and> distinct (map (\<lambda>r. (sr_tenant r, sr_domain r, sr_step r)) (step_rows j)))"

definition step_status_of :: "string \<Rightarrow> string \<Rightarrow> step_name \<Rightarrow> journal \<Rightarrow> step_status option" where
  "step_status_of t d s j = map_option sr_status (findByDomainAndStep t d s j)"

definition keeps_key :: "(step_row \<Rightarrow> step_row) \<Rightarrow> bool" where
  "keeps_key f = (\<forall>r. sr_id (f r) = sr_id r \<and> sr_tenant (f r) = sr_tenant r
     \<and> sr_domain (f r) = sr_domain r \<and> sr_step (f r) = sr_step r)"

lemma find_map_key:
  assumes "keeps_key f"
  shows "find (step_key t d s) (map (\<lambda>r. if P r then f r else r) rs) =
         map_option (\<lambda>r. if P r then f r else r) (find (step_key t d s) rs)"
  using assms by (induction rs) (auto simp: keeps_key_def step_key_def)

lemma map_key:
  assumes "keeps_key f"
  shows "map sr_id (map (\<lambda>r. if P r then f r else r) rs) = map sr_id rs"
    and "map (\<lambda>r. (sr_tenant r, sr_domain r, sr_step r)) (map (\<lambda>r. if P r then f r else r) rs) =
         map (\<lambda>r. (sr_tenant r, sr_domain r, sr_step r)) rs"
  using assms by (auto simp: keeps_key_def)

lemma journal_ok_map:
  assumes "keeps_key f" "journal_ok j"
  shows "journal_ok (j\<lparr>step_rows := map (\<lambda>r. if P r then f r else r) (step_rows j)\<rparr>)"
  using assms map_key [OF assms(1), of P "step_rows j"]
  unfolding journal_ok_def by (auto simp: keeps_key_def simp del: map_map)

lemma update_step_ok: "keeps_key f \<Longrightarrow> journal_ok j \<Longrightarrow> journal_ok (update_step t i f j)"
  unfolding update_step_def by (rule journal_ok_map)

lemma journal_ok_reset:
  assumes "journal_ok j"
  shows "journal_ok (resetStep t d s j)" and "journal_ok (resetDomain t d j)"
  unfolding resetStep_def resetDomain_def
  by (rule journal_ok_map [OF _ assms], simp add: keeps_key_def)+

lemma keeps_key_marks [simp]:
  "keeps_key (\<lambda>r. r\<lparr>attempts := Suc (attempts r)\<rparr>)"
  "keeps_key (\<lambda>r. r\<lparr>sr_status := st, lastError := e\<rparr>)"
  by (simp_all add: keeps_key_def)

lemma marks_ok [journal_simps]:
  assumes "journal_ok j"
  shows "journal_ok (incrementAttempts t i j)" "journal_ok (markDone t i j)"
        "journal_ok (markSkipped t i m j)" "journal_ok (markFailed t i m j)"
  using assms by (simp_all add: incrementAttempts_def markDone_def markSkipped_def
      markFailed_def update_step_ok)

lemma find_Some_key:
  "findByDomainAndStep t d s j = Some r \<Longrightarrow> step_key t d s r \<and> r \<in> set (step_rows j)"
  unfolding findByDomainAndStep_def by (rule find_SomeD)

lemma find_app: "find P (xs @ ys) = (case find P xs of None \<Rightarrow> find P ys | Some x \<Rightarrow> Some x)"
  by (induction xs) auto

lemma insert_step_ok [journal_simps]:
  assumes "journal_ok j"
  shows "journal_ok (insert_step t d s src run j)"
proof (cases "findByDomainAndStep t d s j")
  case None
  then have "\<forall>r \<in> set (step_rows j). \<not> step_key t d s r"
    by (simp add: findByDomainAndStep_def find_None_iff)
  with None assms show ?thesis
    by (auto simp: insert_step_def journal_ok_def step_key_def image_iff)
next
  case (Some r)
  with assms show ?thesis by (simp add: insert_step_def)
qed

lemma find_insert_step [journal_simps]:
  "findByDomainAndStep t d s (insert_step t d s src run j) =
     (case findByDomainAndStep t d s j of Some r \<Rightarrow> Some r
      | None \<Rightarrow> Some \<lparr>sr_id = next_row j, sr_tenant = t, sr_domain = d, sr_step = s,
               sr_status = StepPending, attempts = 0, sr_source = src, sr_run = run,
               lastError = None\<rparr>)"
  by (auto simp: insert_step_def findByDomainAndStep_def find_app step_key_def split: option.splits)

lemma find_insert_step_other [journal_simps]:
  assumes "(t', d', s') \<noteq> (t, d, s)"
  shows "findByDomainAndStep t' d' s' (insert_step t d s src run j) = findByDomainAndStep t' d' s' j"
  using assms
  by (auto simp: insert_step_def findByDomainAndStep_def find_app step_key_def split: option.splits)

text \<open>An update of the row of a step changes the lookup of that step and of no other.\<close>

lemma find_update_step:
  assumes "journal_ok j" "keeps_key f" "findByDomainAndStep t d s j = Some r"
  shows "findByDomainAndStep t' d' s' (update_step t (sr_id r) f j) =
     (if (t', d', s') = (t, d, s) then Some (f r) else findByDomainAndStep t' d' s' j)"
proof -
  note r = find_Some_key [OF assms(3)]
  have eq: "findByDomainAndStep t' d' s' (update_step t (sr_id r) f j) =
      map_option (\<lambda>q. if sr_id q = sr_id r \<and> sr_tenant q = t then f q else q)
        (findByDomainAndStep t' d' s' j)"
    unfolding findByDomainAndStep_def update_step_def using find_map_key [OF assms(2)] by simp
  show ?thesis
  proof (cases "(t', d', s') = (t, d, s)")
    case True
    then show ?thesis using eq assms(3) r by (simp add: step_key_def)
  next
    case False
    have "q \<noteq> r" if "findByDomainAndStep t' d' s' j = Some q" for q
      using find_Some_key [OF that] r False by (auto simp: step_key_def)
    then have "sr_id q \<noteq> sr_id r" if "findByDomainAndStep t' d' s' j = Some q" for q
      using find_Some_key [OF that] r assms(1) that
      by (auto simp: journal_ok_def distinct_map inj_on_def)
    then have "map_option (\<lambda>q. if sr_id q = sr_id r \<and> sr_tenant q = t then f q else q)
        (findByDomainAndStep t' d' s' j) = findByDomainAndStep t' d' s' j"
      by (cases "findByDomainAndStep t' d' s' j") auto
    with eq False show ?thesis by auto
  qed
qed

lemma status_after_mark [journal_simps]:
  assumes "journal_ok j" "findByDomainAndStep t d s j = Some r"
  shows "step_status_of t' d' s' (incrementAttempts t (sr_id r) j) = step_status_of t' d' s' j"
    and "step_status_of t' d' s' (markDone t (sr_id r) j) =
      (if (t', d', s') = (t, d, s) then Some StepDone else step_status_of t' d' s' j)"
    and "step_status_of t' d' s' (markSkipped t (sr_id r) m j) =
      (if (t', d', s') = (t, d, s) then Some StepSkipped else step_status_of t' d' s' j)"
    and "step_status_of t' d' s' (markFailed t (sr_id r) m j) =
      (if (t', d', s') = (t, d, s) then Some StepFailed else step_status_of t' d' s' j)"
  using assms(2)
  by (auto simp: step_status_of_def incrementAttempts_def markDone_def markSkipped_def
      markFailed_def find_update_step [OF assms(1) _ assms(2)])

section \<open>A run keeps the journal\<close>

lemma db_journal:
  assumes "db_call a (on_journal f) w = (x, w')"
  shows "ext w' = ext w" "tenant_settings w' = tenant_settings w"
    "x = None \<and> journal w' = journal w \<or> x = Some () \<and> journal w' = f (journal w)"
  using assms by (auto simp: db_call_def on_journal_def split: if_splits)

lemma db_read:
  assumes "db_call a (\<lambda>w. (g w, w)) w = (x, w')"
  shows "ext w' = ext w" "tenant_settings w' = tenant_settings w" "journal w' = journal w"
    "x = None \<or> x = Some (g w)"
  using assms by (auto simp: db_call_def split: if_splits)

lemma audit_frame [simp]:
  "ext (audit a t d act src w) = ext w"
  "journal (audit a t d act src w) = journal w"
  "tenant_settings (audit a t d act src w) = tenant_settings w"
  by (simp_all add: audit_def db_call_def)

definition same_elsewhere :: "string \<Rightarrow> string \<Rightarrow> step_name set \<Rightarrow> journal \<Rightarrow> journal \<Rightarrow> bool" where
  "same_elsewhere t d S j j' = (\<forall>t' d' s'. (t', d') \<noteq> (t, d) \<or> s' \<notin> S \<longrightarrow>
     findByDomainAndStep t' d' s' j' = findByDomainAndStep t' d' s' j)"

lemma same_elsewhere_refl [simp]: "same_elsewhere t d S j j"
  by (simp add: same_elsewhere_def)

lemma same_elsewhere_trans:
  "same_elsewhere t d S j j' \<Longrightarrow> same_elsewhere t d S' j' j'' \<Longrightarrow> S \<subseteq> S'' \<Longrightarrow> S' \<subseteq> S'' \<Longrightarrow>
   same_elsewhere t d S'' j j''"
  unfolding same_elsewhere_def by (metis subsetD)

lemma mark_elsewhere:
  assumes "journal_ok j" "findByDomainAndStep t d s j = Some r"
  shows "same_elsewhere t d {s} j (incrementAttempts t (sr_id r) j)"
    "same_elsewhere t d {s} j (markDone t (sr_id r) j)"
    "same_elsewhere t d {s} j (markSkipped t (sr_id r) m j)"
    "same_elsewhere t d {s} j (markFailed t (sr_id r) m j)"
  by (auto simp: same_elsewhere_def incrementAttempts_def markDone_def markSkipped_def
      markFailed_def find_update_step [OF assms(1) _ assms(2)])

text \<open>What one step of a run leaves behind.\<close>

definition reported :: "string \<Rightarrow> string \<Rightarrow> journal \<Rightarrow> step_result \<Rightarrow> bool" where
  "reported t d j y = (case rs_status y of
     StepDone \<Rightarrow> step_status_of t d (rs_step y) j = Some StepDone
   | StepFailed \<Rightarrow> step_status_of t d (rs_step y) j = Some StepFailed
   | StepSkipped \<Rightarrow> True
   | StepPending \<Rightarrow> False)"

definition flow_ok :: "string \<Rightarrow> string \<Rightarrow> step_name \<Rightarrow> journal \<Rightarrow> flow option \<Rightarrow> bool" where
  "flow_ok t d s j fl = (case fl of
     None \<Rightarrow> True
   | Some (Proceed y) \<Rightarrow> rs_step y = s \<and> rs_status y \<noteq> StepFailed \<and> reported t d j y
   | Some (Halt y) \<Rightarrow> rs_step y = s \<and> rs_status y \<noteq> StepDone \<and> reported t d j y)"

definition step_effect ::
    "string \<Rightarrow> string \<Rightarrow> step_name \<Rightarrow> 'e automation_world \<Rightarrow> flow option \<Rightarrow>
     'e automation_world \<Rightarrow> bool" where
  "step_effect t d s w fl w' = (journal_ok (journal w') \<and> tenant_settings w' = tenant_settings w
     \<and> same_elsewhere t d {s} (journal w) (journal w') \<and> flow_ok t d s (journal w') fl)"

lemma step_failed_effect:
  assumes "step_failed a t cx s (sr_id r) msg w = (fl, w')" "journal_ok (journal w)"
    and "findByDomainAndStep t (cx_domain cx) s (journal w) = Some r"
  shows "step_effect t (cx_domain cx) s w fl w'" and "ext w' = ext w"
proof -
  obtain x w1 where c: "db_call a (on_journal (markFailed t (sr_id r) msg)) w = (x, w1)"
    by (cases "db_call a (on_journal (markFailed t (sr_id r) msg)) w")
  note j = db_journal [OF c]
  show "step_effect t (cx_domain cx) s w fl w'" "ext w' = ext w"
    using assms(1) j mark_elsewhere(4) [OF assms(2,3)] marks_ok(4) [OF assms(2)]
      status_after_mark(4) [OF assms(2,3)] assms(2)
    by (auto simp: step_failed_def c step_effect_def flow_ok_def reported_def)
qed

lemma same_elsewhere_eq: "journal w1 = journal w \<Longrightarrow> same_elsewhere t d S (journal w1) j \<longleftrightarrow> same_elsewhere t d S (journal w) j"
  by simp

lemma step_effect_from:
  assumes "step_effect t d s w1 fl w'" "same_elsewhere t d {s} (journal w) (journal w1)"
    and "tenant_settings w1 = tenant_settings w"
  shows "step_effect t d s w fl w'"
  using assms same_elsewhere_trans [of t d "{s}" "journal w" "journal w1" "{s}" "journal w'" "{s}"]
  unfolding step_effect_def by simp

lemma record_outcome_effect:
  assumes run: "record_outcome a t cx s (sr_id r) out w = (fl, w')" and j: "journal_ok (journal w)"
    and r: "findByDomainAndStep t (cx_domain cx) s (journal w) = Some r"
  shows "step_effect t (cx_domain cx) s w fl w'" (is ?eff) and "ext w' = ext w" (is ?ext)
proof -
  have key: "?eff \<and> ?ext"
    if c: "db_call a (on_journal f) w = (x, w1)"
      and f: "journal_ok (f (journal w))" "same_elsewhere t (cx_domain cx) {s} (journal w) (f (journal w))"
      and none: "x = None \<Longrightarrow> step_failed a t cx s (sr_id r) (db_error a) w1 = (fl, w')"
      and some: "x = Some () \<Longrightarrow> fl = Some g \<and> w' = audit a t (cx_domain cx) act src w1"
      and g: "flow_ok t (cx_domain cx) s (f (journal w)) (Some g)" for f x w1 g act src
  proof (cases x)
    case None
    with db_journal [OF c] have w1: "journal w1 = journal w" "ext w1 = ext w"
      "tenant_settings w1 = tenant_settings w" by auto
    with step_failed_effect [OF none [OF None]] j r
    show ?thesis by (auto intro: step_effect_from)
  next
    case (Some u)
    with db_journal [OF c] some f g show ?thesis by (simp add: step_effect_def)
  qed
  note marks = marks_ok [OF j] mark_elsewhere [OF j r] status_after_mark [OF j r]
  have "?eff \<and> ?ext"
  proof (cases out)
    case (Inl msg)
    with run step_failed_effect [OF _ j r] show ?thesis by (auto simp: record_outcome_def)
  next
    case (Inr oc)
    show ?thesis
    proof (cases oc)
      case (OutDone m)
      obtain x w1 where c: "db_call a (on_journal (markDone t (sr_id r))) w = (x, w1)"
        by (cases "db_call a (on_journal (markDone t (sr_id r))) w")
      show ?thesis
        by (rule key [OF c, where g = "Proceed \<lparr>rs_step = s, rs_status = StepDone, rs_message = m\<rparr>"
              and act = "StepAudited s StepDone" and src = "cx_source cx"])
          (use run Inr OutDone c marks in \<open>simp_all add: record_outcome_def flow_ok_def reported_def\<close>)
    next
      case (OutSkipped m)
      obtain x w1 where c: "db_call a (on_journal (markSkipped t (sr_id r) m)) w = (x, w1)"
        by (cases "db_call a (on_journal (markSkipped t (sr_id r) m)) w")
      show ?thesis
        by (rule key [OF c, where g = "Proceed \<lparr>rs_step = s, rs_status = StepSkipped, rs_message = Some m\<rparr>"
              and act = "StepAudited s StepSkipped" and src = "cx_source cx"])
          (use run Inr OutSkipped c marks in \<open>simp_all add: record_outcome_def flow_ok_def reported_def\<close>)
    next
      case (OutFailed m)
      obtain x w1 where c: "db_call a (on_journal (markFailed t (sr_id r) m)) w = (x, w1)"
        by (cases "db_call a (on_journal (markFailed t (sr_id r) m)) w")
      show ?thesis
        by (rule key [OF c, where g = "Halt \<lparr>rs_step = s, rs_status = StepFailed, rs_message = Some m\<rparr>"
              and act = "StepAudited s StepFailed" and src = "cx_source cx"])
          (use run Inr OutFailed c marks in \<open>simp_all add: record_outcome_def flow_ok_def reported_def\<close>)
    qed
  qed
  then show ?eff ?ext by auto
qed

lemma execute_row_effect:
  assumes run: "execute_row a t cx s ex r w = (fl, w')" and j: "journal_ok (journal w)"
    and r: "findByDomainAndStep t (cx_domain cx) s (journal w) = Some r"
  shows "step_effect t (cx_domain cx) s w fl w'"
proof -
  obtain x w1 where c: "db_call a (on_journal (incrementAttempts t (sr_id r))) w = (x, w1)"
    by (cases "db_call a (on_journal (incrementAttempts t (sr_id r))) w")
  note d = db_journal [OF c]
  show ?thesis
  proof (cases x)
    case None
    with run c d j show ?thesis by (auto simp: execute_row_def step_effect_def flow_ok_def)
  next
    case (Some u)
    obtain out e where e: "ex cx (ext w1) = (out, e)" by (cases "ex cx (ext w1)")
    have rec: "record_outcome a t cx s (sr_id r) out (w1\<lparr>ext := e\<rparr>) = (fl, w')"
      using run c Some e by (simp add: execute_row_def)
    have j1: "journal w1 = incrementAttempts t (sr_id r) (journal w)" using d Some by simp
    let ?r = "r\<lparr>attempts := Suc (attempts r)\<rparr>"
    have r1: "findByDomainAndStep t (cx_domain cx) s (journal w1) = Some ?r"
      by (simp add: j1 incrementAttempts_def find_update_step [OF j _ r])
    have "step_effect t (cx_domain cx) s (w1\<lparr>ext := e\<rparr>) fl w'"
      using record_outcome_effect(1) [of a t cx s ?r out "w1\<lparr>ext := e\<rparr>" fl w'] rec r1
      by (simp add: j1 marks_ok [OF j])
    then show ?thesis
      by (rule step_effect_from) (simp_all add: j1 mark_elsewhere [OF j r] d)
  qed
qed

lemma upsert_effect:
  assumes "upsert a t cx s w = (x, w')" "journal_ok (journal w)"
  shows "journal_ok (journal w')" "tenant_settings w' = tenant_settings w" "ext w' = ext w"
    "same_elsewhere t (cx_domain cx) {s} (journal w) (journal w')"
    "\<And>r. x = Some r \<Longrightarrow> findByDomainAndStep t (cx_domain cx) s (journal w') = Some r"
proof -
  let ?ins = "insert_step t (cx_domain cx) s (cx_source cx) (cx_run cx)"
  let ?get = "\<lambda>w :: 'a automation_world. findByDomainAndStep t (cx_domain cx) s (journal w)"
  obtain y w1 where c1: "db_call a (on_journal ?ins) w = (y, w1)"
    by (cases "db_call a (on_journal ?ins) w")
  obtain z w2 where c2: "db_call a (\<lambda>w. (?get w, w)) w1 = (z, w2)"
    by (cases "db_call a (\<lambda>w. (?get w, w)) w1")
  have other: "same_elsewhere t (cx_domain cx) {s} (journal w) (?ins (journal w))"
    by (auto simp: same_elsewhere_def find_insert_step_other)
  note facts = db_journal [OF c1] db_read [OF c2] insert_step_ok [OF assms(2)] other assms
  show "journal_ok (journal w')" "tenant_settings w' = tenant_settings w" "ext w' = ext w"
    "same_elsewhere t (cx_domain cx) {s} (journal w) (journal w')"
    "\<And>r. x = Some r \<Longrightarrow> findByDomainAndStep t (cx_domain cx) s (journal w') = Some r"
    using facts by (auto simp: upsert_def c1 c2 split: option.splits)
qed

lemma run_step_effect:
  assumes run: "run_step a t cx s w = (fl, w')" and j: "journal_ok (journal w)"
  shows "step_effect t (cx_domain cx) s w fl w'"
proof (cases "executors a s")
  case None
  with run j show ?thesis
    by (auto simp: run_step_def step_effect_def flow_ok_def reported_def)
next
  case (Some ex)
  let ?get = "\<lambda>w :: 'a automation_world. findByDomainAndStep t (cx_domain cx) s (journal w)"
  obtain x w1 where c: "db_call a (\<lambda>w. (?get w, w)) w = (x, w1)"
    by (cases "db_call a (\<lambda>w. (?get w, w)) w")
  note d = db_read [OF c]
  have start: "step_effect t (cx_domain cx) s w fl w'"
    if "step_effect t (cx_domain cx) s w1 fl w'"
    by (rule step_effect_from [OF that]) (simp_all add: d)
  show ?thesis
  proof (cases x)
    case None
    with run Some c d j show ?thesis
      by (auto simp: run_step_def step_effect_def flow_ok_def)
  next
    case (Some existing)
    with d have e: "existing = ?get w1" by auto
    consider (finished) "map_option sr_status existing = Some StepDone"
      | (stop) "map_option sr_status existing \<noteq> Some StepDone" "aborted a (ext w1)"
      | (go) "map_option sr_status existing \<noteq> Some StepDone" "\<not> aborted a (ext w1)" by blast
    then show ?thesis
    proof cases
      case finished
      with run Some c \<open>executors a s = Some ex\<close>
      have "fl = Some (Proceed \<lparr>rs_step = s, rs_status = StepDone,
          rs_message = Some ''already completed''\<rparr>) \<and> w' = w1"
        by (simp add: run_step_def)
      with finished d j e show ?thesis
        by (simp add: step_effect_def flow_ok_def reported_def step_status_of_def)
    next
      case stop
      have "run_step a t cx s w = (Some (Halt \<lparr>rs_step = s, rs_status = StepSkipped,
          rs_message = Some ''aborted before execution''\<rparr>), w1)"
        unfolding run_step_def \<open>executors a s = Some ex\<close> c Some option.case prod.case
        using stop by (simp only: if_False if_True)
      with run have "fl = Some (Halt \<lparr>rs_step = s, rs_status = StepSkipped,
          rs_message = Some ''aborted before execution''\<rparr>) \<and> w' = w1" by simp
      with d j show ?thesis by (simp add: step_effect_def flow_ok_def reported_def)
    next
      case go
      let ?row = "case existing of Some r \<Rightarrow> (Some r, w1) | None \<Rightarrow> upsert a t cx s w1"
      obtain y w2 where row: "?row = (y, w2)" by (cases ?row)
      have "journal_ok (journal w2) \<and> tenant_settings w2 = tenant_settings w1
        \<and> same_elsewhere t (cx_domain cx) {s} (journal w1) (journal w2)
        \<and> (\<forall>r. y = Some r \<longrightarrow> ?get w2 = Some r)"
      proof (cases existing)
        case None
        with row have up: "upsert a t cx s w1 = (y, w2)" by simp
        have "journal_ok (journal w1)" using j by (simp add: d(3))
        from upsert_effect [OF up this] show ?thesis by blast
      next
        case (Some r)
        with row have "y = Some r" "w2 = w1" by simp_all
        with Some e j d(3) show ?thesis by simp
      qed
      then have eff: "journal_ok (journal w2)" "tenant_settings w2 = tenant_settings w1"
        "same_elsewhere t (cx_domain cx) {s} (journal w1) (journal w2)"
        "\<And>r. y = Some r \<Longrightarrow> ?get w2 = Some r" by blast+
      have exec: "(case y of None \<Rightarrow> (None, w2) | Some r \<Rightarrow> execute_row a t cx s ex r w2) = (fl, w')"
        using run go row
        unfolding run_step_def \<open>executors a s = Some ex\<close> c Some option.case prod.case
        by (simp only: if_False option.case prod.case split: option.splits)
      show ?thesis
      proof (cases y)
        case None
        with exec eff have "step_effect t (cx_domain cx) s w1 fl w'"
          by (simp add: step_effect_def flow_ok_def)
        then show ?thesis by (rule start)
      next
        case (Some r)
        with exec execute_row_effect [OF _ eff(1) eff(4)]
        have "step_effect t (cx_domain cx) s w2 fl w'" by simp
        then show ?thesis by (rule start [OF step_effect_from [OF _ eff(3,2)]])
      qed
    qed
  qed
qed

lemma reported_elsewhere:
  assumes "reported t d j y" "same_elsewhere t d S j j'" "rs_step y \<notin> S"
  shows "reported t d j' y"
  using assms by (auto simp: reported_def same_elsewhere_def step_status_of_def split: step_status.splits)

text \<open>The results are those of a first part of the steps, and only the last can be a failure.\<close>

lemma run_steps_effect:
  assumes "run_steps a t cx ss acc w = (res, w')" "journal_ok (journal w)" "distinct ss"
  shows "journal_ok (journal w') \<and> tenant_settings w' = tenant_settings w
    \<and> same_elsewhere t (cx_domain cx) (set ss) (journal w) (journal w')
    \<and> (\<forall>rs. res = Some rs \<longrightarrow> (\<exists>ys. rs = acc @ ys
         \<and> map rs_step ys = take (length ys) ss
         \<and> (\<forall>y \<in> set ys. reported t (cx_domain cx) (journal w') y)
         \<and> (\<forall>y \<in> set (butlast ys). rs_status y \<noteq> StepFailed)))"
  using assms
proof (induction ss arbitrary: acc w)
  case Nil
  then show ?case by auto
next
  case (Cons s ss)
  obtain fl w1 where st: "run_step a t cx s w = (fl, w1)" by (cases "run_step a t cx s w")
  note eff = run_step_effect [OF st Cons.prems(2), unfolded step_effect_def]
  have grow: "same_elsewhere t (cx_domain cx) (set (s # ss)) (journal w) (journal w1)"
    using eff same_elsewhere_trans [of t "cx_domain cx" "{s}" "journal w" "journal w1" "{}" "journal w1" "set (s # ss)"]
    by simp
  consider (none) "fl = None" | (halt) y where "fl = Some (Halt y)"
    | (go) y where "fl = Some (Proceed y)"
    by (cases fl) (auto, metis flow.exhaust)
  then show ?case
  proof cases
    case none
    with Cons.prems st eff grow show ?thesis by auto
  next
    case halt
    with Cons.prems st have res: "res = Some (acc @ [y])" "w' = w1" by auto
    with eff grow halt show ?thesis
      by (auto simp: flow_ok_def intro!: exI [of _ "[y]"])
  next
    case go
    with Cons.prems st have "run_steps a t cx ss (acc @ [y]) w1 = (res, w')" by simp
    note IH = Cons.IH [OF this] 
    have ih: "journal_ok (journal w')" "tenant_settings w' = tenant_settings w1"
      "same_elsewhere t (cx_domain cx) (set ss) (journal w1) (journal w')"
      "\<And>rs. res = Some rs \<Longrightarrow> \<exists>ys. rs = (acc @ [y]) @ ys
         \<and> map rs_step ys = take (length ys) ss
         \<and> (\<forall>y \<in> set ys. reported t (cx_domain cx) (journal w') y)
         \<and> (\<forall>y \<in> set (butlast ys). rs_status y \<noteq> StepFailed)"
      using IH eff Cons.prems by auto
    have y: "rs_step y = s" "rs_status y \<noteq> StepFailed" "reported t (cx_domain cx) (journal w1) y"
      using eff go by (auto simp: flow_ok_def)
    have y': "reported t (cx_domain cx) (journal w') y"
      using reported_elsewhere [OF y(3) ih(3)] y(1) Cons.prems(3) by simp
    have "\<exists>ys. rs = acc @ ys \<and> map rs_step ys = take (length ys) (s # ss)
         \<and> (\<forall>y \<in> set ys. reported t (cx_domain cx) (journal w') y)
         \<and> (\<forall>y \<in> set (butlast ys). rs_status y \<noteq> StepFailed)" if rs: "res = Some rs" for rs
    proof -
      obtain ys where "rs = (acc @ [y]) @ ys" "map rs_step ys = take (length ys) ss"
        "\<forall>y \<in> set ys. reported t (cx_domain cx) (journal w') y"
        "\<forall>y \<in> set (butlast ys). rs_status y \<noteq> StepFailed" using ih(4) [OF rs] by blast
      with y y' show ?thesis by (intro exI [of _ "y # ys"]) auto
    qed
    moreover have "same_elsewhere t (cx_domain cx) (set (s # ss)) (journal w) (journal w')"
      by (rule same_elsewhere_trans [OF grow ih(3)]) auto
    ultimately show ?thesis using ih(1,2) eff by simp
  qed
qed

section \<open>A completed step waits for a reset\<close>

text \<open>
  To count what the executors did, the external world is extended by a log to which every
  executor adds the domain and its step when it returns \<open>done\<close>.
\<close>

type_synonym 'e logged = "(string \<times> step_name) list \<times> 'e"

definition logging :: "step_name \<Rightarrow> 'e executor \<Rightarrow> 'e logged executor" where
  "logging s ex cx le =
     (case ex cx (snd le) of (out, e) \<Rightarrow>
        (out, (case out of Inr (OutDone _) \<Rightarrow> fst le @ [(cx_domain cx, s)] | _ \<Rightarrow> fst le), e))"

definition resets :: "string \<Rightarrow> step_name \<Rightarrow> automation_request \<Rightarrow> bool" where
  "resets d s oper = (case oper of
     Run _ _ _ \<Rightarrow> False | ResetAndRun d' _ \<Rightarrow> d' = d | ResetStep d' s' \<Rightarrow> d' = d \<and> s' = s)"

definition within_resets :: "string \<Rightarrow> string \<Rightarrow> step_name \<Rightarrow> nat \<Rightarrow> 'e logged automation_world \<Rightarrow> bool" where
  "within_resets t d s k w = (journal_ok (journal w) \<and> count_list (fst (ext w)) (d, s) \<le>
     k + (if step_status_of t d s (journal w) = Some StepDone then 1 else 0))"

lemma within_resets_cong:
  assumes "within_resets t d s k w" "journal_ok (journal w')" "ext w' = ext w"
    and "step_status_of t d s (journal w') = step_status_of t d s (journal w)"
  shows "within_resets t d s k w'"
  using assms by (simp add: within_resets_def)

lemma same_elsewhere_status:
  "same_elsewhere t d S j j' \<Longrightarrow> d' \<noteq> d \<or> s' \<notin> S \<Longrightarrow> step_status_of t d' s' j' = step_status_of t d' s' j"
  by (auto simp: same_elsewhere_def step_status_of_def)

lemma count_list_snoc: "count_list (xs @ [x]) y = count_list xs y + (if x = y then 1 else 0)"
  by simp

lemma execute_row_within:
  fixes ex0 :: "'e executor"
  assumes run: "execute_row a t cx s (logging s ex0) r w = (fl, w')"
    and nofault: "\<And>n. \<not> faults a n"
    and r: "findByDomainAndStep t (cx_domain cx) s (journal w) = Some r" "sr_status r \<noteq> StepDone"
    and inv: "within_resets t d' s' k w"
  shows "within_resets t d' s' k w'"
proof -
  have j: "journal_ok (journal w)" using inv by (simp add: within_resets_def)
  note eff = execute_row_effect [OF run j r(1), unfolded step_effect_def]
  let ?w1 = "w\<lparr>journal := incrementAttempts t (sr_id r) (journal w), stmt := Suc (stmt w)\<rparr>"
  obtain out e where e: "ex0 cx (snd (ext w)) = (out, e)" by (cases "ex0 cx (snd (ext w))")
  let ?log = "case out of Inr (OutDone _) \<Rightarrow> fst (ext w) @ [(cx_domain cx, s)] | _ \<Rightarrow> fst (ext w)"
  have rec: "record_outcome a t cx s (sr_id r) out (?w1\<lparr>ext := (?log, e)\<rparr>) = (fl, w')"
    using run nofault e by (simp add: execute_row_def db_call_def on_journal_def logging_def
        cong: sum.case_cong step_outcome.case_cong)
  let ?r = "r\<lparr>attempts := Suc (attempts r)\<rparr>"
  have r1: "findByDomainAndStep t (cx_domain cx) s (incrementAttempts t (sr_id r) (journal w)) = Some ?r"
    by (simp add: incrementAttempts_def find_update_step [OF j _ r(1)])
  have ext': "ext w' = (?log, e)"
    using record_outcome_effect(2) [of a t cx s ?r out "?w1\<lparr>ext := (?log, e)\<rparr>" fl w'] rec r1
    by (simp add: marks_ok [OF j])
  show ?thesis
  proof (cases "(d', s') = (cx_domain cx, s)")
    case False
    then have "step_status_of t d' s' (journal w') = step_status_of t d' s' (journal w)"
      using eff same_elsewhere_status by blast
    moreover have "count_list ?log (d', s') = count_list (fst (ext w)) (d', s')"
      using False by (auto split: sum.splits step_outcome.splits)
    ultimately show ?thesis using inv eff ext' by (simp add: within_resets_def)
  next
    case True
    have before: "count_list (fst (ext w)) (d', s') \<le> k"
      using inv True r by (simp add: within_resets_def step_status_of_def)
    show ?thesis
    proof (cases "\<exists>m. out = Inr (OutDone m)")
      case False
      then have "?log = fst (ext w)" by (auto split: sum.splits step_outcome.splits)
      with before eff ext' show ?thesis by (simp add: within_resets_def)
    next
      case True': True
      then obtain m where m: "out = Inr (OutDone m)" by blast
      with rec nofault have "fl = Some (Proceed \<lparr>rs_step = s, rs_status = StepDone, rs_message = m\<rparr>)"
        by (auto simp: record_outcome_def db_call_def on_journal_def)
      with eff have "step_status_of t (cx_domain cx) s (journal w') = Some StepDone"
        by (simp add: flow_ok_def reported_def)
      with before eff ext' True m show ?thesis by (simp add: within_resets_def)
    qed
  qed
qed

lemma run_step_within:
  fixes exs :: "step_name \<Rightarrow> 'e executor option"
  assumes run: "run_step a t cx s w = (fl, w')" and nofault: "\<And>n. \<not> faults a n"
    and exs: "executors a = (\<lambda>s. map_option (logging s) (exs s))"
    and inv: "within_resets t d' s' k w"
  shows "within_resets t d' s' k w'"
proof (cases "exs s")
  case None
  with run exs inv show ?thesis by (auto simp: run_step_def)
next
  case (Some ex)
  have j: "journal_ok (journal w)" using inv by (simp add: within_resets_def)
  let ?e = "findByDomainAndStep t (cx_domain cx) s (journal w)"
  let ?w1 = "w\<lparr>stmt := Suc (stmt w)\<rparr>"
  have read: "db_call a (\<lambda>w. (findByDomainAndStep t (cx_domain cx) s (journal w), w)) w = (Some ?e, ?w1)"
    using nofault by (simp add: db_call_def)
  have inv1: "within_resets t d' s' k ?w1" using inv by (simp add: within_resets_def)
  have ex: "executors a s = Some (logging s ex)" using Some exs by simp
  show ?thesis
  proof (cases "map_option sr_status ?e = Some StepDone \<or> aborted a (ext ?w1)")
    case True
    then have "w' = ?w1"
      using run unfolding run_step_def ex read option.case prod.case by (auto split: if_splits)
    with inv1 show ?thesis by simp
  next
    case False
    then have cond: "map_option sr_status ?e \<noteq> Some StepDone" "\<not> aborted a (ext ?w1)" by blast+
    have go: "(case (case ?e of Some r \<Rightarrow> (Some r, ?w1) | None \<Rightarrow> upsert a t cx s ?w1) of
        (None, w2) \<Rightarrow> (None, w2) | (Some row, w2) \<Rightarrow> execute_row a t cx s (logging s ex) row w2) = (fl, w')"
      using run cond unfolding run_step_def ex read option.case prod.case by (simp only: if_False)
    show ?thesis
    proof (cases ?e)
      case (Some r)
      have "sr_status r \<noteq> StepDone" using False Some by simp
      with go Some inv1 show ?thesis by (auto intro: execute_row_within [OF _ nofault])
    next
      case None
      obtain y w2 where up: "upsert a t cx s ?w1 = (y, w2)" by (cases "upsert a t cx s ?w1")
      have j1: "journal_ok (journal ?w1)" using j by simp
      note u = upsert_effect [OF up j1]
      have y: "y = findByDomainAndStep t (cx_domain cx) s (journal w2)"
        using up nofault by (auto simp: upsert_def db_call_def on_journal_def)
      have new: "journal w2 = insert_step t (cx_domain cx) s (cx_source cx) (cx_run cx) (journal w)"
        using up nofault by (auto simp: upsert_def db_call_def on_journal_def)
      have pend: "\<forall>r. y = Some r \<longrightarrow> sr_status r \<noteq> StepDone"
        using None by (simp add: y new find_insert_step)
      have "step_status_of t d' s' (journal w2) = Some StepDone \<longleftrightarrow>
          step_status_of t d' s' (journal w) = Some StepDone"
      proof (cases "(d', s') = (cx_domain cx, s)")
        case True
        with None show ?thesis by (simp add: step_status_of_def new find_insert_step)
      next
        case False
        then show ?thesis using same_elsewhere_status [OF u(4)] by auto
      qed
      with inv u(1,3) have inv2: "within_resets t d' s' k w2" by (simp add: within_resets_def)
      show ?thesis
      proof (cases y)
        case None': None
        with go None up inv2 show ?thesis by simp
      next
        case (Some r)
        with go None up have "execute_row a t cx s (logging s ex) r w2 = (fl, w')" by simp
        then show ?thesis
          using execute_row_within [OF _ nofault _ _ inv2] y Some pend by auto
      qed
    qed
  qed
qed

lemma run_steps_within:
  fixes exs :: "step_name \<Rightarrow> 'e executor option"
  assumes "run_steps a t cx ss acc w = (res, w')" "\<And>n. \<not> faults a n"
    and "executors a = (\<lambda>s. map_option (logging s) (exs s))" "within_resets t d' s' k w"
  shows "within_resets t d' s' k w'"
  using assms
proof (induction ss arbitrary: acc w)
  case Nil
  then show ?case by simp
next
  case (Cons s ss)
  obtain fl w1 where st: "run_step a t cx s w = (fl, w1)" by (cases "run_step a t cx s w")
  have w1: "within_resets t d' s' k w1" by (rule run_step_within [OF st Cons.prems(2-4)])
  with Cons st show ?case by (auto split: option.splits flow.splits)
qed

lemma within_resets_audit [simp]:
  "within_resets t' d' s' k (audit a t d act src w) = within_resets t' d' s' k w"
  by (simp add: within_resets_def)

lemma read_tenant_frame:
  assumes "read_tenant a t w = (x, w1)"
  shows "ext w1 = ext w" "journal w1 = journal w" "tenant_settings w1 = tenant_settings w"
    "x = None \<or> x = Some (if has_settingsRepo a then get_settings t (tenant_settings w) else au_settings a)"
  using assms by (auto simp: read_tenant_def db_call_def split: if_splits)

lemma run_within:
  fixes exs :: "step_name \<Rightarrow> 'e executor option"
  assumes nofault: "\<And>n. \<not> faults a n"
    and exs: "executors a = (\<lambda>s. map_option (logging s) (exs s))"
    and inv: "within_resets t d' s' k w"
  shows "within_resets t d' s' k (snd (run_automation a t d src run w))"
proof -
  obtain x w1 where c: "read_tenant a t w = (x, w1)" by (cases "read_tenant a t w")
  note f = read_tenant_frame [OF c]
  have w1: "within_resets t d' s' k w1" using inv f by (simp add: within_resets_def)
  show ?thesis
  proof (cases "as_enabled (au_settings a)")
    case False
    with inv show ?thesis by (simp add: run_automation_def)
  next
    case on: True
    show ?thesis
    proof (cases x)
      case None
      with on c w1 show ?thesis by (simp add: run_automation_def)
    next
      case (Some ten)
      let ?ef = "effective (au_settings a) ten"
      let ?cx = "\<lparr>cx_domain = d, cx_source = src, cx_run = run, cx_dryRun = ef_dryRun ?ef\<rparr>"
      obtain res w2 where st: "run_steps a t ?cx POST_ACQUISITION_STEPS [] (audit a t d RunStarted src w1) = (res, w2)"
        by (cases "run_steps a t ?cx POST_ACQUISITION_STEPS [] (audit a t d RunStarted src w1)")
      have "within_resets t d' s' k w2"
        using run_steps_within [OF st nofault exs] w1 by simp
      with on c Some st w1 show ?thesis
        by (auto simp: run_automation_def Let_def split: option.splits)
    qed
  qed
qed

lemma status_after_reset:
  "step_status_of t' d' s' (resetStep t d s j) =
     (if (t', d', s') = (t, d, s) then map_option (\<lambda>_. StepPending) (step_status_of t d s j)
      else step_status_of t' d' s' j)"
  "step_status_of t' d' s' (resetDomain t d j) =
     (if t' = t \<and> d' = d then map_option (\<lambda>_. StepPending) (step_status_of t d s' j)
      else step_status_of t' d' s' j)"
proof -
  let ?f = "\<lambda>r. r\<lparr>sr_status := StepPending, lastError := None\<rparr>"
  have eq: "findByDomainAndStep t' d' s' (j\<lparr>step_rows := map (\<lambda>r. if P r then ?f r else r) (step_rows j)\<rparr>) =
      map_option (\<lambda>r. if P r then ?f r else r) (findByDomainAndStep t' d' s' j)" for P
    using find_map_key [of ?f t' d' s' P "step_rows j"] by (simp add: findByDomainAndStep_def)
  show "step_status_of t' d' s' (resetStep t d s j) =
     (if (t', d', s') = (t, d, s) then map_option (\<lambda>_. StepPending) (step_status_of t d s j)
      else step_status_of t' d' s' j)"
    using find_Some_key [of t' d' s' j]
    by (cases "findByDomainAndStep t' d' s' j") (auto simp: step_status_of_def resetStep_def eq step_key_def)
  show "step_status_of t' d' s' (resetDomain t d j) =
     (if t' = t \<and> d' = d then map_option (\<lambda>_. StepPending) (step_status_of t d s' j)
      else step_status_of t' d' s' j)"
    using find_Some_key [of t' d' s' j]
    by (cases "findByDomainAndStep t' d' s' j") (auto simp: step_status_of_def resetDomain_def eq step_key_def)
qed

lemma reset_within:
  assumes "within_resets t d s k w" "journal_ok j'"
    and "step_status_of t d s j' \<noteq> Some StepDone"
  shows "within_resets t d s (Suc k) (w\<lparr>journal := j', stmt := n\<rparr>)"
  using assms by (auto simp: within_resets_def split: if_splits)

lemma automation_op_within:
  fixes exs :: "step_name \<Rightarrow> 'e executor option"
  assumes nofault: "\<And>n. \<not> faults a n"
    and exs: "executors a = (\<lambda>s. map_option (logging s) (exs s))"
    and inv: "within_resets t d s k w"
  shows "within_resets t d s (k + (if resets d s oper then 1 else 0)) (automation_op a t oper w)"
proof (cases oper)
  case (Run d' src run)
  then show ?thesis using run_within [OF nofault exs inv] by (simp add: automation_op_def resets_def)
next
  case (ResetStep d' s')
  let ?j = "resetStep t d' s' (journal w)"
  have j: "journal_ok ?j" using inv by (simp add: within_resets_def journal_ok_reset)
  show ?thesis
  proof (cases "d' = d \<and> s' = s")
    case True
    then show ?thesis
      using reset_within [OF inv j] nofault ResetStep
      by (simp add: status_after_reset automation_op_def resets_def db_call_def on_journal_def)
  next
    case False
    then have "step_status_of t d s ?j = step_status_of t d s (journal w)"
      by (auto simp: status_after_reset)
    with inv j False nofault ResetStep show ?thesis
      by (auto simp: within_resets_def automation_op_def resets_def db_call_def on_journal_def)
  qed
next
  case (ResetAndRun d' src)
  let ?j = "resetDomain t d' (journal w)"
  let ?w1 = "w\<lparr>journal := ?j, stmt := Suc (stmt w)\<rparr>"
  have j: "journal_ok ?j" using inv by (simp add: within_resets_def journal_ok_reset)
  have "within_resets t d s (k + (if d' = d then 1 else 0)) ?w1"
  proof (cases "d' = d")
    case True
    then show ?thesis using reset_within [OF inv j] by (simp add: status_after_reset)
  next
    case False
    then have "step_status_of t d s ?j = step_status_of t d s (journal w)"
      by (auto simp: status_after_reset)
    with inv j False show ?thesis by (simp add: within_resets_def)
  qed
  from run_within [OF nofault exs this] show ?thesis
    using nofault ResetAndRun by (simp add: automation_op_def resets_def db_call_def on_journal_def)
qed

lemma automation_ops_within:
  fixes exs :: "step_name \<Rightarrow> 'e executor option"
  assumes "\<And>n. \<not> faults a n" "executors a = (\<lambda>s. map_option (logging s) (exs s))"
    and "within_resets t d s k w"
  shows "within_resets t d s (k + length (filter (resets d s) ops)) (automation_ops a t ops w)"
  using assms(3)
proof (induction ops arbitrary: k w)
  case Nil
  then show ?case by (simp add: automation_ops_def)
next
  case (Cons oper ops)
  from Cons.IH [OF automation_op_within [OF assms(1,2) Cons.prems, of oper]]
  show ?case by (auto simp: automation_ops_def split: if_splits)
qed

section \<open>A run refines a pass over the statuses\<close>

text \<open>
  The contract of a run without its rows, ids and statements: a map from the steps of a domain to
  their statuses, and the outside world. \<open>spec_steps\<close> lists the statuses that are reported.
\<close>

definition outcome_status :: "string + step_outcome \<Rightarrow> step_status" where
  "outcome_status out = (case out of
     Inr (OutDone _) \<Rightarrow> StepDone | Inr (OutSkipped _) \<Rightarrow> StepSkipped | _ \<Rightarrow> StepFailed)"

fun spec_steps ::
    "'e automation \<Rightarrow> step_context \<Rightarrow> step_name list \<Rightarrow> (step_name \<rightharpoonup> step_status) \<times> 'e \<Rightarrow>
     (step_name \<times> step_status) list \<times> (step_name \<rightharpoonup> step_status) \<times> 'e" where
  "spec_steps a cx [] (m, e) = ([], m, e)"
| "spec_steps a cx (s # ss) (m, e) =
     (case executors a s of
        None \<Rightarrow> (case spec_steps a cx ss (m, e) of (rs, me) \<Rightarrow> ((s, StepSkipped) # rs, me))
      | Some ex \<Rightarrow>
          if m s = Some StepDone then
            (case spec_steps a cx ss (m, e) of (rs, me) \<Rightarrow> ((s, StepDone) # rs, me))
          else if aborted a e then ([(s, StepSkipped)], m, e)
          else (case ex cx e of (out, e1) \<Rightarrow>
            if outcome_status out = StepFailed then ([(s, StepFailed)], m(s \<mapsto> StepFailed), e1)
            else (case spec_steps a cx ss (m(s \<mapsto> outcome_status out), e1) of
              (rs, me) \<Rightarrow> ((s, outcome_status out) # rs, me))))"

definition statuses :: "string \<Rightarrow> string \<Rightarrow> journal \<Rightarrow> step_name \<rightharpoonup> step_status" where
  "statuses t d j = (\<lambda>s. step_status_of t d s j)"

lemma statuses_update:
  assumes "same_elsewhere t d {s} j j'"
  shows "statuses t d j' = (statuses t d j)(s := step_status_of t d s j')"
  using same_elsewhere_status [OF assms] by (auto simp: statuses_def)

lemma record_outcome_status:
  assumes "\<And>n. \<not> faults a n" "record_outcome a t cx s i out w = (fl, w')"
  shows "\<exists>r. rs_step r = s \<and> rs_status r = outcome_status out
    \<and> fl = Some (if outcome_status out = StepFailed then Halt r else Proceed r)"
  using assms
  by (auto simp: record_outcome_def step_failed_def outcome_status_def db_call_def on_journal_def
      split: sum.splits step_outcome.splits)

lemma execute_row_spec:
  assumes nf: "\<And>n. \<not> faults a n" and run: "execute_row a t cx s ex r w = (fl, w')"
    and j: "journal_ok (journal w)" and r: "findByDomainAndStep t (cx_domain cx) s (journal w) = Some r"
    and e: "ex cx (ext w) = (out, e1)"
  shows "ext w' = e1 \<and> statuses t (cx_domain cx) (journal w') =
      (statuses t (cx_domain cx) (journal w))(s \<mapsto> outcome_status out)
    \<and> (\<exists>y. rs_step y = s \<and> rs_status y = outcome_status out
      \<and> fl = Some (if outcome_status out = StepFailed then Halt y else Proceed y))"
proof -
  let ?w1 = "w\<lparr>journal := incrementAttempts t (sr_id r) (journal w), stmt := Suc (stmt w), ext := e1\<rparr>"
  let ?r = "r\<lparr>attempts := Suc (attempts r)\<rparr>"
  have rec: "record_outcome a t cx s (sr_id r) out ?w1 = (fl, w')"
    using run nf e by (simp add: execute_row_def db_call_def on_journal_def)
  have r1: "findByDomainAndStep t (cx_domain cx) s (incrementAttempts t (sr_id r) (journal w)) = Some ?r"
    by (simp add: incrementAttempts_def find_update_step [OF j _ r])
  have ext': "ext w' = e1"
    using record_outcome_effect(2) [of a t cx s ?r out ?w1 fl w'] rec r1 by (simp add: marks_ok [OF j])
  obtain y where y: "rs_step y = s" "rs_status y = outcome_status out"
    "fl = Some (if outcome_status out = StepFailed then Halt y else Proceed y)"
    using record_outcome_status [OF nf rec] by blast
  note eff = execute_row_effect [OF run j r, unfolded step_effect_def]
  have skip: "step_status_of t (cx_domain cx) s (journal w') = Some StepSkipped" if "outcome_status out = StepSkipped"
    using that rec nf status_after_mark(3) [OF marks_ok(1) [OF j] r1, of t "cx_domain cx" s]
    by (auto simp: record_outcome_def outcome_status_def db_call_def on_journal_def
        split: sum.splits step_outcome.splits)
  have "step_status_of t (cx_domain cx) s (journal w') = Some (outcome_status out)"
    using eff y skip
    by (cases "outcome_status out") (auto simp: flow_ok_def reported_def outcome_status_def
        split: sum.splits step_outcome.splits)
  then have "statuses t (cx_domain cx) (journal w') =
      (statuses t (cx_domain cx) (journal w))(s \<mapsto> outcome_status out)"
    using eff statuses_update [of t "cx_domain cx" s "journal w" "journal w'"] by simp
  with ext' y show ?thesis by blast
qed

lemma run_step_spec:
  assumes nf: "\<And>n. \<not> faults a n" and run: "run_step a t cx s w = (fl, w')"
    and j: "journal_ok (journal w)"
  shows "\<exists>y. rs_step y = s \<and> fl \<in> {Some (Proceed y), Some (Halt y)}
    \<and> (\<forall>ss. spec_steps a cx (s # ss) (statuses t (cx_domain cx) (journal w), ext w) =
         (if fl = Some (Halt y)
          then ([(s, rs_status y)], statuses t (cx_domain cx) (journal w'), ext w')
          else case spec_steps a cx ss (statuses t (cx_domain cx) (journal w'), ext w') of
            (rs, me) \<Rightarrow> ((s, rs_status y) # rs, me)))"
proof (cases "executors a s")
  case None
  with run show ?thesis by (auto simp: run_step_def)
next
  case (Some ex)
  let ?e = "findByDomainAndStep t (cx_domain cx) s (journal w)"
  let ?w1 = "w\<lparr>stmt := Suc (stmt w)\<rparr>"
  have read: "db_call a (\<lambda>w. (findByDomainAndStep t (cx_domain cx) s (journal w), w)) w = (Some ?e, ?w1)"
    using nf by (simp add: db_call_def)
  have st: "statuses t (cx_domain cx) (journal w) s = map_option sr_status ?e"
    by (simp add: statuses_def step_status_of_def)
  consider (finished) "map_option sr_status ?e = Some StepDone"
    | (stop) "map_option sr_status ?e \<noteq> Some StepDone" "aborted a (ext w)"
    | (go) "map_option sr_status ?e \<noteq> Some StepDone" "\<not> aborted a (ext w)" by blast
  then show ?thesis
  proof cases
    case finished
    then have "fl = Some (Proceed \<lparr>rs_step = s, rs_status = StepDone,
        rs_message = Some ''already completed''\<rparr>) \<and> w' = ?w1"
      using run unfolding run_step_def Some read option.case prod.case by simp
    with Some finished st show ?thesis by simp
  next
    case stop
    then have "fl = Some (Halt \<lparr>rs_step = s, rs_status = StepSkipped,
        rs_message = Some ''aborted before execution''\<rparr>) \<and> w' = ?w1"
      using run unfolding run_step_def Some read option.case prod.case by (simp only: if_False if_True) simp
    with Some stop st show ?thesis by auto
  next
    case go
    have "\<not> aborted a (ext ?w1)" using go(2) by simp
    then have row: "(case (case ?e of Some r \<Rightarrow> (Some r, ?w1) | None \<Rightarrow> upsert a t cx s ?w1) of
        (None, w2) \<Rightarrow> (None, w2) | (Some row, w2) \<Rightarrow> execute_row a t cx s ex row w2) = (fl, w')"
      using run go(1) unfolding run_step_def Some read option.case prod.case by (simp only: if_False)
    obtain r w2 where w2: "execute_row a t cx s ex r w2 = (fl, w')" "journal_ok (journal w2)"
      "findByDomainAndStep t (cx_domain cx) s (journal w2) = Some r" "ext w2 = ext w"
      "\<And>v. (statuses t (cx_domain cx) (journal w2))(s \<mapsto> v) = (statuses t (cx_domain cx) (journal w))(s \<mapsto> v)"
    proof (cases ?e)
      case (Some r)
      with row have "execute_row a t cx s ex r ?w1 = (fl, w')" by simp
      with that [of r ?w1] Some j show ?thesis by simp
    next
      case None
      let ?ins = "insert_step t (cx_domain cx) s (cx_source cx) (cx_run cx) (journal w)"
      obtain y w2 where up: "upsert a t cx s ?w1 = (y, w2)" by (cases "upsert a t cx s ?w1")
      then have "y = findByDomainAndStep t (cx_domain cx) s ?ins" "journal w2 = ?ins"
        using nf by (auto simp: upsert_def db_call_def on_journal_def)
      then obtain r where r: "y = Some r" using None by (simp add: find_insert_step)
      have j1: "journal_ok (journal ?w1)" using j by simp
      note u = upsert_effect [OF up j1]
      have "(statuses t (cx_domain cx) (journal w2))(s \<mapsto> v) = (statuses t (cx_domain cx) (journal w))(s \<mapsto> v)" for v
        using statuses_update [OF u(4)] by simp
      moreover have "execute_row a t cx s ex r w2 = (fl, w')" using row None up r by simp
      ultimately show ?thesis using that [of r w2] u r by simp
    qed
    obtain out e1 where e: "ex cx (ext w2) = (out, e1)" by (cases "ex cx (ext w2)")
    from execute_row_spec [OF nf w2(1-3) e] obtain y where
      "ext w' = e1" "rs_step y = s" "rs_status y = outcome_status out"
      "statuses t (cx_domain cx) (journal w') =
         (statuses t (cx_domain cx) (journal w))(s \<mapsto> outcome_status out)"
      "fl = Some (if outcome_status out = StepFailed then Halt y else Proceed y)"
      unfolding w2(5) by blast
    with Some go st e w2(4) show ?thesis
      by (intro exI [of _ y]) auto
  qed
qed

lemma run_steps_spec:
  assumes "\<And>n. \<not> faults a n" "run_steps a t cx ss acc w = (res, w')" "journal_ok (journal w)"
  shows "\<exists>rs. res = Some (acc @ rs) \<and> spec_steps a cx ss (statuses t (cx_domain cx) (journal w), ext w) =
    (map (\<lambda>r. (rs_step r, rs_status r)) rs, statuses t (cx_domain cx) (journal w'), ext w')"
  using assms(2,3)
proof (induction ss arbitrary: acc w)
  case Nil
  then show ?case by auto
next
  case (Cons s ss)
  obtain fl w1 where st: "run_step a t cx s w = (fl, w1)" by (cases "run_step a t cx s w")
  have j1: "journal_ok (journal w1)"
    using run_step_effect [OF st Cons.prems(2)] by (simp add: step_effect_def)
  obtain y where y: "rs_step y = s" "fl \<in> {Some (Proceed y), Some (Halt y)}"
    "\<forall>ss. spec_steps a cx (s # ss) (statuses t (cx_domain cx) (journal w), ext w) =
       (if fl = Some (Halt y)
        then ([(s, rs_status y)], statuses t (cx_domain cx) (journal w1), ext w1)
        else case spec_steps a cx ss (statuses t (cx_domain cx) (journal w1), ext w1) of
          (rs, me) \<Rightarrow> ((s, rs_status y) # rs, me))"
    using run_step_spec [OF assms(1) st Cons.prems(2)] by blast
  show ?case
  proof (cases "fl = Some (Halt y)")
    case True
    with Cons.prems(1) st y show ?thesis by auto
  next
    case False
    with y have fl: "fl = Some (Proceed y)" by simp
    with Cons.prems(1) st have "run_steps a t cx ss (acc @ [y]) w1 = (res, w')" by simp
    from Cons.IH [OF this j1] obtain rs where rs: "res = Some ((acc @ [y]) @ rs)"
      "spec_steps a cx ss (statuses t (cx_domain cx) (journal w1), ext w1) =
        (map (\<lambda>r. (rs_step r, rs_status r)) rs, statuses t (cx_domain cx) (journal w'), ext w')" by blast
    show ?thesis
      by (rule exI [of _ "y # rs"]) (use rs y fl in simp)
  qed
qed

lemma enabled_run:
  assumes run: "run_automation a t d src run w = (Some r, w')" and en: "rr_enabled r"
    and j: "journal_ok (journal w)" and nf: "\<And>n. \<not> faults a n"
  shows "spec_steps a \<lparr>cx_domain = d, cx_source = src, cx_run = run, cx_dryRun = rr_dryRun r\<rparr>
      POST_ACQUISITION_STEPS (statuses t d (journal w), ext w) =
    (map (\<lambda>y. (rs_step y, rs_status y)) (rr_steps r), statuses t d (journal w'), ext w')"
proof -
  obtain x w1 where c: "read_tenant a t w = (x, w1)" by (cases "read_tenant a t w")
  note f = read_tenant_frame [OF c]
  obtain ten where x: "x = Some ten" "as_enabled (au_settings a)" "ef_enabled (effective (au_settings a) ten)"
    using run en c by (cases x) (auto simp: run_automation_def Let_def split: if_splits)
  let ?dry = "ef_dryRun (effective (au_settings a) ten)"
  let ?cx = "\<lparr>cx_domain = d, cx_source = src, cx_run = run, cx_dryRun = ?dry\<rparr>"
  let ?w2 = "audit a t d RunStarted src w1"
  obtain res w3 where st: "run_steps a t ?cx POST_ACQUISITION_STEPS [] ?w2 = (res, w3)"
    by (cases "run_steps a t ?cx POST_ACQUISITION_STEPS [] ?w2")
  have "journal_ok (journal ?w2)" using j f by simp
  from run_steps_spec [OF nf st this] obtain rs where rs: "res = Some rs"
    "spec_steps a ?cx POST_ACQUISITION_STEPS (statuses t d (journal w), ext w) =
      (map (\<lambda>y. (rs_step y, rs_status y)) rs, statuses t d (journal w3), ext w3)" using f by auto
  have "r = \<lparr>rr_enabled = True, rr_dryRun = ?dry, rr_steps = rs, rr_refusedBy = None\<rparr>
      \<and> w' = audit a t d RunFinished src w3"
    using run c x st rs by (simp add: run_automation_def Let_def)
  with rs show ?thesis by simp
qed

section \<open>Properties of the automation\<close>


definition example_automation :: "nat logged automation" where
  "example_automation = \<lparr>au_settings = \<lparr>as_enabled = True, as_dryRun = False\<rparr>,
     has_settingsRepo = False,
     executors = (\<lambda>s. map_option (logging s)
       (if s = SiteStep then Some (\<lambda>cx n. (Inr (OutDone None), n + 1))
        else if s = DnsStep then Some (\<lambda>cx n. (Inr (OutFailed ''unconfirmed''), n)) else None)),
     aborted = (\<lambda>_. False), faults = (\<lambda>_. False), db_error = ''disk''\<rparr>"

definition empty_world :: "nat logged automation_world" where
  "empty_world = \<lparr>ext = ([], 0), journal = \<lparr>step_rows = [], next_row = 1\<rparr>,
     tenant_settings = Map.empty, audit_rows = [], stmt = 0\<rparr>"

lemmas automation_eval = example_automation_def empty_world_def run_automation_def read_tenant_def
  effective_def POST_ACQUISITION_STEPS_def run_step_def db_call_def on_journal_def upsert_def
  execute_row_def record_outcome_def step_failed_def audit_def logging_def findByDomainAndStep_def
  step_key_def insert_step_def update_step_def incrementAttempts_def markDone_def markFailed_def
  markSkipped_def

lemma empty_world_ok [simp]: "journal_ok (journal empty_world)"
  by (simp add: empty_world_def journal_ok_def)

lemma example_run:
  "map_option (map rs_status \<circ> rr_steps)
     (fst (run_automation example_automation ''t'' ''a.com'' FromPurchase None empty_world)) =
   Some [StepSkipped, StepDone, StepSkipped, StepFailed]"
  "ext (snd (run_automation example_automation ''t'' ''a.com'' FromPurchase None empty_world)) =
   ([(''a.com'', SiteStep)], 1)"
  by (simp_all add: automation_eval)


text \<open>C15. A run refines its contract: while the database answers, an enabled run reports the steps
and statuses, leaves the statuses of the domain's steps and does to the outside world exactly what
one pass over the map of statuses does, which passes over completed steps, runs the executors of
the others in order and stops after a failure or an abort. Rows, ids, attempts, statements and the
audit trail do not matter.\<close>

theorem run_refines_contract:
  assumes "run_automation a t d src run w = (Some r, w')" "rr_enabled r"
    and "journal_ok (journal w)" "\<And>n. \<not> faults a n"
  shows "spec_steps a \<lparr>cx_domain = d, cx_source = src, cx_run = run, cx_dryRun = rr_dryRun r\<rparr>
      POST_ACQUISITION_STEPS (statuses t d (journal w), ext w) =
    (map (\<lambda>y. (rs_step y, rs_status y)) (rr_steps r), statuses t d (journal w'), ext w')"
  using assms by (rule enabled_run)

theorem run_refines_contract_witness:
  "\<exists>r w'. run_automation example_automation ''t'' ''a.com'' FromPurchase None empty_world = (Some r, w')
     \<and> fst (spec_steps example_automation
         \<lparr>cx_domain = ''a.com'', cx_source = FromPurchase, cx_run = None, cx_dryRun = rr_dryRun r\<rparr>
         POST_ACQUISITION_STEPS (statuses ''t'' ''a.com'' (journal empty_world), ext empty_world)) =
       map (\<lambda>y. (rs_step y, rs_status y)) (rr_steps r)"
proof -
  let ?run = "run_automation example_automation ''t'' ''a.com'' FromPurchase None empty_world"
  have "(case fst ?run of Some r \<Rightarrow> rr_enabled r | None \<Rightarrow> False)"
    by (simp add: automation_eval)
  then obtain r where r: "fst ?run = Some r" "rr_enabled r" by (auto split: option.splits)
  then have run: "?run = (Some r, snd ?run)" by (simp add: prod_eq_iff)
  have nf: "\<not> faults example_automation n" for n by (simp add: example_automation_def)
  have "fst (spec_steps example_automation
         \<lparr>cx_domain = ''a.com'', cx_source = FromPurchase, cx_run = None, cx_dryRun = rr_dryRun r\<rparr>
         POST_ACQUISITION_STEPS (statuses ''t'' ''a.com'' (journal empty_world), ext empty_world)) =
       map (\<lambda>y. (rs_step y, rs_status y)) (rr_steps r)"
    unfolding run_refines_contract [OF run r(2) empty_world_ok nf] by (rule fst_conv)
  with run show ?thesis by blast
qed

text \<open>C14. A completed step waits for a reset: over any sequence of runs, re-runs and resets of the
service, while the database answers, the executor of a step completes for a domain at most once
more often than the step was reset.\<close>

theorem step_done_once_per_reset:
  fixes exs :: "step_name \<Rightarrow> 'e executor option"
  assumes "\<And>n. \<not> faults a n" "executors a = (\<lambda>s. map_option (logging s) (exs s))"
    and "journal_ok (journal w)" "fst (ext w) = []"
  shows "count_list (fst (ext (automation_ops a t ops w))) (d, s)
    \<le> 1 + length (filter (resets d s) ops)"
proof -
  have "within_resets t d s 0 w" using assms(3,4) by (simp add: within_resets_def)
  from automation_ops_within [OF assms(1,2) this, of ops] show ?thesis
    by (auto simp: within_resets_def split: if_splits)
qed

theorem step_done_once_per_reset_witness:
  "count_list (fst (ext (automation_ops example_automation ''t''
     [Run ''a.com'' FromPurchase None, Run ''a.com'' FromManual None] empty_world)))
     (''a.com'', SiteStep) \<le> 1"
  using step_done_once_per_reset [of example_automation
      "\<lambda>s. if s = SiteStep then Some (\<lambda>cx n. (Inr (OutDone None), n + 1))
        else if s = DnsStep then Some (\<lambda>cx n. (Inr (OutFailed ''unconfirmed''), n)) else None"
      empty_world "''t''" "[Run ''a.com'' FromPurchase None, Run ''a.com'' FromManual None]"
      "''a.com''" SiteStep]
  by (simp add: example_automation_def empty_world_def journal_ok_def resets_def)

text \<open>The statement that records a completed step is inside the block whose errors are
recorded as the failure of the step. When it throws, the journal says \<open>failed\<close>, and the next run,
without a reset, does the work a second time.\<close>

theorem journal_error_repeats_step:
  "let a = example_automation\<lparr>faults := (\<lambda>n. n = 5)\<rparr>;
       w = automation_ops a ''t''
             [Run ''a.com'' FromPurchase None, Run ''a.com'' FromPurchase None] empty_world
   in count_list (fst (ext w)) (''a.com'', SiteStep) = 2"
  by code_simp

end
