(* ===== verification/DnsWrite.thy ===== *)
theory DnsWrite
  imports Automation
begin

text \<open>
  The \<open>dns\<close> step of the automation: the fail-closed gate for DNS writes
  (\<open>src/services/dns-write-gate.ts\<close>), its executor
  (\<open>src/services/post-acquisition-dns-executor.ts\<close>) and the other executors of the pipeline.

  The DNS provider and the public resolver are parameters: calls that act on the external
  world \<open>'e\<close> and return a value or throw (\<open>Inl\<close> is the message). The details that an
  executor adds to the journal are left out.
\<close>

section \<open>The write gate\<close>

datatype dns_record_type = RecordA | RecordCname | RecordNs | RecordTxt

record dns_record =
  dn_type :: dns_record_type
  dn_name :: string
  dn_content :: string

record dns_zone_state =
  managed :: bool
  zone_records :: "dns_record list"
  expectedNameServers :: "string list"

record delegation_target =
  tg_type :: dns_record_type
  tg_value :: string
  tg_recordName :: "string option"

record 'e delegation_reader =
  resolveNameservers :: "string \<Rightarrow> ('e, string list option) call"
  resolveAddresses :: "string \<Rightarrow> ('e, string list option) call"
  resolveCanonicalName :: "string \<Rightarrow> ('e, string option) call"

text \<open>\<open>ensureRecords\<close> returns the records that it changed.\<close>

record 'e write_gate =
  isAvailable :: bool
  readZoneState :: "string \<Rightarrow> ('e, dns_zone_state option) call"
  ensureRecords :: "string \<Rightarrow> dns_record list \<Rightarrow> ('e, dns_record list) call"
  reader :: "'e delegation_reader option"
  target :: "delegation_target option"
  gate_sleep :: "nat \<Rightarrow> 'e \<Rightarrow> 'e"

definition CONFIRM_ATTEMPTS :: nat where
  "CONFIRM_ATTEMPTS = 3"

definition CONFIRM_BACKOFF_MS :: nat where
  "CONFIRM_BACKOFF_MS = 2000"

definition sameNameservers :: "string list \<Rightarrow> string list \<Rightarrow> bool" where
  "sameNameservers actual expected =
     (if expected = [] then False else list_all (\<lambda>ns. ns \<in> set actual) expected)"

definition targetRecords :: "'e write_gate \<Rightarrow> dns_record list" where
  "targetRecords g = (case target g of
     None \<Rightarrow> []
   | Some tg \<Rightarrow> [\<lparr>dn_type = tg_type tg,
       dn_name = (case tg_recordName tg of Some n \<Rightarrow> n | None \<Rightarrow> ''@''), dn_content = tg_value tg\<rparr>])"

text \<open>\<open>v.trim().replace(/\.$/, '').toLowerCase()\<close>.\<close>

definition normal_host :: "string \<Rightarrow> string" where
  "normal_host v =
     (let s = trim v
      in to_lower (if s \<noteq> [] \<and> last s = CHR ''.'' then butlast s else s))"

definition targetIsLive :: "'e write_gate \<Rightarrow> string \<Rightarrow> ('e, bool) call" where
  "targetIsLive g d e =
     (case (reader g, target g) of
        (Some rd, Some tg) \<Rightarrow>
          if tg_type tg = RecordCname then
            (case resolveCanonicalName rd d e of
               (Inl err, e1) \<Rightarrow> (Inl err, e1)
             | (Inr None, e1) \<Rightarrow> (Inr False, e1)
             | (Inr (Some c), e1) \<Rightarrow> (Inr (normal_host c = normal_host (tg_value tg)), e1))
          else
            (case resolveAddresses rd d e of
               (Inl err, e1) \<Rightarrow> (Inl err, e1)
             | (Inr None, e1) \<Rightarrow> (Inr False, e1)
             | (Inr (Some addrs), e1) \<Rightarrow>
                 (Inr (list_ex (\<lambda>x. normal_host x = normal_host (tg_value tg)) addrs), e1))
      | _ \<Rightarrow> (Inr False, e))"

datatype gate_verdict = WriteRecords "dns_record list" "string list" | AlreadyDelegated | SkipWrite string

definition evaluate_dns :: "'e write_gate \<Rightarrow> string \<Rightarrow> ('e, gate_verdict) call" where
  "evaluate_dns g d e =
     (if \<not> isAvailable g then (Inr (SkipWrite ''dns_write_provider_unavailable''), e)
      else if (case target g of None \<Rightarrow> True | Some tg \<Rightarrow> tg_value tg = []) then
        (Inr (SkipWrite ''target_not_configured''), e)
      else case reader g of
        None \<Rightarrow> (Inr (SkipWrite ''delegation_unverifiable''), e)
      | Some rd \<Rightarrow>
          (case readZoneState g d e of
             (Inl err, e1) \<Rightarrow> (Inl err, e1)
           | (Inr None, e1) \<Rightarrow> (Inr (SkipWrite ''zone_not_managed''), e1)
           | (Inr (Some st), e1) \<Rightarrow>
               if \<not> managed st then (Inr (SkipWrite ''zone_not_managed''), e1)
               else
                 (case resolveNameservers rd d e1 of
                    (Inl err, e2) \<Rightarrow> (Inl err, e2)
                  | (Inr None, e2) \<Rightarrow> (Inr (SkipWrite ''delegation_unverifiable''), e2)
                  | (Inr (Some publicNs), e2) \<Rightarrow>
                      if publicNs = [] then (Inr (SkipWrite ''delegation_unverifiable''), e2)
                      else if \<not> sameNameservers publicNs (expectedNameServers st) then
                        (Inr (SkipWrite ''delegation_mismatch''), e2)
                      else
                        (case targetIsLive g d e2 of
                           (Inl err, e3) \<Rightarrow> (Inl err, e3)
                         | (Inr True, e3) \<Rightarrow> (Inr AlreadyDelegated, e3)
                         | (Inr False, e3) \<Rightarrow>
                             (Inr (WriteRecords (targetRecords g) (expectedNameServers st)), e3)))))"

definition apply_dns :: "'e write_gate \<Rightarrow> string \<Rightarrow> ('e, dns_record list) call" where
  "apply_dns g d = ensureRecords g d (targetRecords g)"

text \<open>The loop over \<open>attempt\<close>, from the given attempt to the last.\<close>

function confirm_from :: "'e write_gate \<Rightarrow> string \<Rightarrow> nat \<Rightarrow> ('e, bool) call" where
  "confirm_from g d attempt e =
     (if attempt \<le> CONFIRM_ATTEMPTS then
        (case targetIsLive g d e of
           (Inl err, e1) \<Rightarrow> (Inl err, e1)
         | (Inr live, e1) \<Rightarrow>
             if live then (Inr True, e1)
             else confirm_from g d (attempt + 1)
               (if attempt < CONFIRM_ATTEMPTS
                then gate_sleep g (CONFIRM_BACKOFF_MS * attempt) e1 else e1))
      else (Inr False, e))"
  by pat_completeness auto
termination by (relation "measure (\<lambda>(g, d, attempt, e). CONFIRM_ATTEMPTS + 1 - attempt)") auto

declare confirm_from.simps [simp del]

definition confirm_dns :: "'e write_gate \<Rightarrow> string \<Rightarrow> ('e, bool) call" where
  "confirm_dns g d = confirm_from g d 1"

definition WRITE_UNCONFIRMED :: string where
  "WRITE_UNCONFIRMED =
     ''write_unconfirmed: records applied but the domain does not resolve to the target yet''"

definition dns_step :: "'e write_gate \<Rightarrow> 'e executor" where
  "dns_step g cx e =
     (if cx_dryRun cx then (Inr (OutSkipped ''dry_run''), e)
      else case evaluate_dns g (cx_domain cx) e of
        (Inl err, e1) \<Rightarrow> (Inr (OutFailed err), e1)
      | (Inr (SkipWrite reason), e1) \<Rightarrow> (Inr (OutSkipped reason), e1)
      | (Inr AlreadyDelegated, e1) \<Rightarrow>
          (Inr (OutDone (Some ''domain already resolves to the parking target'')), e1)
      | (Inr (WriteRecords _ _), e1) \<Rightarrow>
          (case apply_dns g (cx_domain cx) e1 of
             (Inl err, e2) \<Rightarrow> (Inr (OutFailed err), e2)
           | (Inr changed, e2) \<Rightarrow>
               (case confirm_dns g (cx_domain cx) e2 of
                  (Inl err, e3) \<Rightarrow> (Inl err, e3)
                | (Inr False, e3) \<Rightarrow> (Inr (OutFailed WRITE_UNCONFIRMED), e3)
                | (Inr True, e3) \<Rightarrow>
                    (Inr (OutDone (Some (if changed \<noteq> [] then ''delegated to the parking target''
                       else ''delegation already in place''))), e3))))"

section \<open>The other executors\<close>

text \<open>
  IndexNow. \<open>submit\<close> stands for the POST to the endpoint: the HTTP status or an error. The
  messages are kept without the numbers they print.
\<close>

definition indexing_configured :: "string option \<Rightarrow> bool" where
  "indexing_configured key = (case key of Some k \<Rightarrow> length k \<ge> 8 | None \<Rightarrow> False)"

definition submitUrls ::
    "string option \<Rightarrow> ('e, nat) call \<Rightarrow> 'e \<Rightarrow> (string + nat) \<times> 'e" where
  "submitUrls key submit e =
     (if \<not> indexing_configured key then (Inl ''indexnow_not_configured'', e)
      else case submit e of
        (Inl err, e1) \<Rightarrow> (Inl err, e1)
      | (Inr status, e1) \<Rightarrow>
          ((if status = 200 \<or> status = 202 then Inr status else Inl ''indexnow_http''), e1))"

text \<open>
  \<open>host_of\<close> stands for \<open>new URL(u).host\<close>, which throws on a malformed address (\<open>None\<close>);
  \<open>submit\<close> takes the page and the host.
\<close>

definition forSalePagePath :: "string \<Rightarrow> string" where
  "forSalePagePath d = ''/public/for-sale/'' @ d"

definition without_slash :: "string \<Rightarrow> string" where
  "without_slash u = (if u \<noteq> [] \<and> last u = CHR ''/'' then butlast u else u)"

definition indexing_step ::
    "string option \<Rightarrow> string option \<Rightarrow> (string \<Rightarrow> string option) \<Rightarrow>
     (string \<Rightarrow> string \<Rightarrow> ('e, nat) call) \<Rightarrow> 'e executor" where
  "indexing_step key publicAppUrl host_of submit cx e =
     (if cx_dryRun cx then (Inr (OutSkipped ''dry_run''), e)
      else if \<not> indexing_configured key then (Inr (OutSkipped ''indexnow_not_configured''), e)
      else case publicAppUrl of
        None \<Rightarrow> (Inr (OutSkipped ''public_app_url_not_configured''), e)
      | Some u \<Rightarrow>
          if u = [] then (Inr (OutSkipped ''public_app_url_not_configured''), e)
          else
            (case host_of u of
               None \<Rightarrow> (Inl ''Invalid URL'', e)
             | Some h \<Rightarrow>
                 (case submitUrls key (submit (without_slash u @ forSalePagePath (cx_domain cx)) h) e of
                    (Inl err, e1) \<Rightarrow> (Inr (OutFailed err), e1)
                  | (Inr _, e1) \<Rightarrow> (Inr (OutDone (Some ''submitted to IndexNow'')), e1))))"

text \<open>The automatic listing: listed, already listed, or an error.\<close>

datatype auto_list_outcome = AutoListed | AlreadyListed string | AutoListError string

definition listing_step :: "(string \<Rightarrow> trigger_source \<Rightarrow> ('e, auto_list_outcome) call) \<Rightarrow> 'e executor" where
  "listing_step autoList cx e =
     (if cx_dryRun cx then (Inr (OutSkipped ''dry_run''), e)
      else case autoList (cx_domain cx) (cx_source cx) e of
        (Inl err, e1) \<Rightarrow> (Inl err, e1)
      | (Inr AutoListed, e1) \<Rightarrow> (Inr (OutDone (Some ''listed'')), e1)
      | (Inr (AlreadyListed m), e1) \<Rightarrow> (Inr (OutDone (Some m)), e1)
      | (Inr (AutoListError m), e1) \<Rightarrow> (Inr (OutFailed m), e1))"

text \<open>Revenue ingestion for a domain from the date of its last record.\<close>

definition parking_step ::
    "bool \<Rightarrow> (string \<Rightarrow> ('e, string option) call) \<Rightarrow> (string \<Rightarrow> string \<Rightarrow> ('e, unit) call) \<Rightarrow> 'e executor" where
  "parking_step configured lastRecordDate ingestDomain cx e =
     (if cx_dryRun cx then (Inr (OutSkipped ''dry_run''), e)
      else if \<not> configured then (Inr (OutSkipped ''monetization_provider_unavailable''), e)
      else case lastRecordDate (cx_domain cx) e of
        (Inl err, e1) \<Rightarrow> (Inl err, e1)
      | (Inr since, e1) \<Rightarrow>
          (case ingestDomain (cx_domain cx) (case since of Some x \<Rightarrow> x | None \<Rightarrow> ''0000-01-01'') e1 of
             (Inl err, e2) \<Rightarrow> (Inr (OutFailed err), e2)
           | (Inr _, e2) \<Rightarrow> (Inr (OutDone (Some ''revenue recorded'')), e2)))"

text \<open>The for-sale page; it is published in a dry run too.\<close>

definition site_step :: "bool \<Rightarrow> (string \<Rightarrow> ('e, string) call) \<Rightarrow> 'e executor" where
  "site_step canBuild publish cx e =
     (if \<not> canBuild then (Inr (OutSkipped ''scoring_engine_unavailable''), e)
      else case publish (cx_domain cx) e of
        (Inl err, e1) \<Rightarrow> (Inl err, e1)
      | (Inr url, e1) \<Rightarrow> (Inr (OutDone (Some (''for-sale page published at '' @ url))), e1))"

section \<open>When the step writes, and when it reports success\<close>

lemma other_fields_ensure:
  "targetIsLive (g\<lparr>ensureRecords := f\<rparr>) = targetIsLive g"
  "targetRecords (g\<lparr>ensureRecords := f\<rparr>) = targetRecords g"
  "readZoneState (g\<lparr>ensureRecords := f\<rparr>) = readZoneState g"
  by (intro HOL.ext) (simp_all add: targetIsLive_def targetRecords_def)

lemma evaluate_dns_ensure: "evaluate_dns (g\<lparr>ensureRecords := f\<rparr>) d e = evaluate_dns g d e"
  unfolding evaluate_dns_def other_fields_ensure by simp

lemma sameNameservers_iff:
  "sameNameservers actual expected \<longleftrightarrow> expected \<noteq> [] \<and> set expected \<subseteq> set actual"
  by (auto simp: sameNameservers_def list_all_iff)

definition corroborated :: "'e write_gate \<Rightarrow> string \<Rightarrow> 'e \<Rightarrow> bool" where
  "corroborated g d e = (isAvailable g
     \<and> (\<exists>tg rd st ns e1 e2 e3. target g = Some tg \<and> tg_value tg \<noteq> [] \<and> reader g = Some rd
          \<and> readZoneState g d e = (Inr (Some st), e1) \<and> managed st
          \<and> resolveNameservers rd d e1 = (Inr (Some ns), e2)
          \<and> expectedNameServers st \<noteq> [] \<and> set (expectedNameServers st) \<subseteq> set ns
          \<and> targetIsLive g d e2 = (Inr False, e3)))"

lemma evaluate_write:
  assumes "evaluate_dns g d e = (Inr (WriteRecords rs ens), e')"
  shows "corroborated g d e"
proof -
  obtain tg rd where tr: "isAvailable g" "target g = Some tg" "tg_value tg \<noteq> []" "reader g = Some rd"
    using assms by (auto simp: evaluate_dns_def split: if_splits option.splits)
  obtain z e1 where z: "readZoneState g d e = (z, e1)" by (cases "readZoneState g d e")
  obtain st where st: "z = Inr (Some st)" "managed st"
    using assms tr z by (auto simp: evaluate_dns_def split: if_splits option.splits sum.splits)
  obtain n e2 where n: "resolveNameservers rd d e1 = (n, e2)" by (cases "resolveNameservers rd d e1")
  obtain ns where ns: "n = Inr (Some ns)" "sameNameservers ns (expectedNameServers st)"
    using assms tr z st n by (auto simp: evaluate_dns_def split: if_splits option.splits sum.splits)
  obtain l e3 where l: "targetIsLive g d e2 = (l, e3)" by (cases "targetIsLive g d e2")
  have "ns \<noteq> []" using ns(2) by (auto simp: sameNameservers_iff)
  with assms tr z st n ns l have "l = Inr False"
    by (simp add: evaluate_dns_def split: sum.splits bool.splits)
  with tr z st n ns l show ?thesis unfolding corroborated_def sameNameservers_iff by blast
qed

lemma evaluate_live:
  assumes "evaluate_dns g d e = (Inr AlreadyDelegated, e')"
  shows "\<exists>e1. targetIsLive g d e1 = (Inr True, e')"
  using assms
  by (auto simp: evaluate_dns_def split: if_splits option.splits sum.splits prod.splits bool.splits)

lemma confirm_live:
  "confirm_from g d k e = (Inr True, e') \<Longrightarrow> \<exists>e1. targetIsLive g d e1 = (Inr True, e')"
proof (induction g d k e rule: confirm_from.induct)
  case (1 g d k e)
  obtain l e1 where l: "targetIsLive g d e = (l, e1)" by (cases "targetIsLive g d e")
  from "1.prems" have k: "k \<le> CONFIRM_ATTEMPTS" by (subst (asm) confirm_from.simps) (auto split: if_splits)
  show ?case
  proof (cases l)
    case (Inl err)
    with "1.prems" l k show ?thesis by (subst (asm) confirm_from.simps) simp
  next
    case (Inr live)
    show ?thesis
    proof (cases live)
      case True
      with "1.prems" l k Inr show ?thesis by (subst (asm) confirm_from.simps) auto
    next
      case False
      with "1.prems" l k Inr have "confirm_from g d (k + 1)
          (if k < CONFIRM_ATTEMPTS then gate_sleep g (CONFIRM_BACKOFF_MS * k) e1 else e1) = (Inr True, e')"
        by (subst (asm) confirm_from.simps) simp
      with "1.IH" [OF k l [symmetric] Inr False] show ?thesis by simp
    qed
  qed
qed

lemma dns_step_cases:
  assumes "dns_step g cx e = (out, e')"
  obtains (quiet) "\<And>f. dns_step (g\<lparr>ensureRecords := f\<rparr>) cx e = (out, e')"
      "\<And>m. out = Inr (OutDone m) \<Longrightarrow> \<exists>e1. targetIsLive g (cx_domain cx) e1 = (Inr True, e')"
  | (wrote) "\<not> cx_dryRun cx" "corroborated g (cx_domain cx) e"
      "\<And>m. out = Inr (OutDone m) \<Longrightarrow> \<exists>e1. targetIsLive g (cx_domain cx) e1 = (Inr True, e')"
proof (cases "cx_dryRun cx")
  case True
  with assms show ?thesis by (intro quiet) (auto simp: dns_step_def)
next
  case False
  obtain v e1 where v: "evaluate_dns g (cx_domain cx) e = (v, e1)"
    by (cases "evaluate_dns g (cx_domain cx) e")
  show ?thesis
  proof (cases "\<exists>rs ens. v = Inr (WriteRecords rs ens)")
    case no: False
    show ?thesis
    proof (rule quiet)
      show "dns_step (g\<lparr>ensureRecords := f\<rparr>) cx e = (out, e')" for f
        using assms no v
        by (auto simp: dns_step_def evaluate_dns_ensure split: sum.splits gate_verdict.splits)
      show "\<exists>e1. targetIsLive g (cx_domain cx) e1 = (Inr True, e')" if "out = Inr (OutDone m)" for m
        using assms no v False that evaluate_live [of g "cx_domain cx" e e']
        by (auto simp: dns_step_def split: sum.splits gate_verdict.splits)
    qed
  next
    case True
    then obtain rs ens where w: "v = Inr (WriteRecords rs ens)" by blast
    show ?thesis
    proof (rule wrote)
      show "\<not> cx_dryRun cx" by (rule False)
      show "corroborated g (cx_domain cx) e" by (rule evaluate_write [OF v [unfolded w]])
      fix m assume "out = Inr (OutDone m)"
      then show "\<exists>e1. targetIsLive g (cx_domain cx) e1 = (Inr True, e')"
        using assms v w False confirm_live
        by (auto simp: dns_step_def confirm_dns_def split: sum.splits prod.splits bool.splits)
    qed
  qed
qed

text \<open>C16. The \<open>dns\<close> step fails closed: it behaves as if the provider could not write at all,
unless the run is for real, the provider manages the zone and the name servers it expects are
among those that public DNS reports, and the domain did not resolve to the target yet. It reports
\<open>done\<close> only when its last read of public DNS resolved the domain to the target.\<close>

theorem dns_write_corroborated:
  assumes "dns_step g cx e = (out, e')"
  shows "(dns_step (g\<lparr>ensureRecords := f\<rparr>) cx e = (out, e')
      \<or> (cx_dryRun cx = False \<and> corroborated g (cx_domain cx) e))
    \<and> (\<forall>m. out = Inr (OutDone m) \<longrightarrow> (\<exists>e1. targetIsLive g (cx_domain cx) e1 = (Inr True, e')))"
  by (cases rule: dns_step_cases [OF assms]) auto

text \<open>
  An honest provider, for examples: the external world is the zone, the provider manages it and
  writes what it is told, and public DNS answers from it.
\<close>

definition zone_reader :: "dns_record list delegation_reader" where
  "zone_reader = \<lparr>resolveNameservers = (\<lambda>d z. (Inr (Some [''ns1'', ''ns2'']), z)),
     resolveAddresses = (\<lambda>d z. (Inr (Some (map dn_content (filter (\<lambda>r. dn_name r = ''@'') z))), z)),
     resolveCanonicalName = (\<lambda>d z. (Inr None, z))\<rparr>"

definition zone_gate :: "string \<Rightarrow> string option \<Rightarrow> dns_record list write_gate" where
  "zone_gate v name = \<lparr>isAvailable = True,
     readZoneState = (\<lambda>d z. (Inr (Some \<lparr>managed = True, zone_records = z,
       expectedNameServers = [''ns1'', ''ns2'']\<rparr>), z)),
     ensureRecords = (\<lambda>d rs z. (Inr rs, z @ rs)),
     reader = Some zone_reader,
     target = Some \<lparr>tg_type = RecordA, tg_value = v, tg_recordName = name\<rparr>,
     gate_sleep = (\<lambda>n z. z)\<rparr>"

lemma zone_gate_fields:
  "isAvailable (zone_gate v name)" "reader (zone_gate v name) = Some zone_reader"
  "readZoneState (zone_gate v name) d z = (Inr (Some \<lparr>managed = True, zone_records = z,
       expectedNameServers = [''ns1'', ''ns2'']\<rparr>), z)"
  "target (zone_gate v name) = Some \<lparr>tg_type = RecordA, tg_value = v, tg_recordName = name\<rparr>"
  "resolveNameservers zone_reader d z = (Inr (Some [''ns1'', ''ns2'']), z)"
  by (simp_all add: zone_gate_def zone_reader_def)

lemma zone_live:
  "targetIsLive (zone_gate v name) d z =
     (Inr (\<exists>r \<in> set z. dn_name r = ''@'' \<and> normal_host (dn_content r) = normal_host v), z)"
  by (auto simp: targetIsLive_def zone_gate_def zone_reader_def list_ex_iff)

lemma zone_evaluate:
  assumes "v \<noteq> []" "\<not> (\<exists>r \<in> set z. dn_name r = ''@'' \<and> normal_host (dn_content r) = normal_host v)"
  shows "evaluate_dns (zone_gate v name) d z =
     (Inr (WriteRecords (targetRecords (zone_gate v name)) [''ns1'', ''ns2'']), z)"
proof -
  have "targetIsLive (zone_gate v name) d z = (Inr False, z)"
    using assms(2) unfolding zone_live by blast
  then show ?thesis
    using assms(1)
    by (simp add: evaluate_dns_def sameNameservers_def zone_gate_fields)
qed

lemma zone_confirm:
  "confirm_dns (zone_gate v name) d z =
     (Inr (\<exists>r \<in> set z. dn_name r = ''@'' \<and> normal_host (dn_content r) = normal_host v), z)"
proof -
  let ?live = "\<exists>r \<in> set z. dn_name r = ''@'' \<and> normal_host (dn_content r) = normal_host v"
  have sl: "gate_sleep (zone_gate v name) n z = z" for n by (simp add: zone_gate_def)
  have "confirm_from (zone_gate v name) d k z = (Inr (?live \<and> k \<le> CONFIRM_ATTEMPTS), z)" for k
  proof (induction "CONFIRM_ATTEMPTS + 1 - k" arbitrary: k)
    case 0
    then show ?case by (subst confirm_from.simps) simp
  next
    case (Suc n)
    then have IH: "confirm_from (zone_gate v name) d (k + 1) z = (Inr (?live \<and> k + 1 \<le> CONFIRM_ATTEMPTS), z)"
      by auto
    show ?case
    proof (cases ?live)
      case True
      with Suc.hyps(2) show ?thesis
        by (subst confirm_from.simps) (simp only: zone_live, simp)
    next
      case False
      then have l: "targetIsLive (zone_gate v name) d z = (Inr False, z)"
        unfolding zone_live by blast
      from False have "confirm_from (zone_gate v name) d (k + 1) z = (Inr False, z)"
        unfolding IH by simp
      with l sl Suc.hyps(2) have "confirm_from (zone_gate v name) d k z = (Inr False, z)"
        by (subst confirm_from.simps) auto
      with False show ?thesis by (simp only: simp_thms)
    qed
  qed
  from this [of 1] show ?thesis by (simp add: confirm_dns_def CONFIRM_ATTEMPTS_def)
qed

lemma zone_step:
  assumes "cx_dryRun cx = False" "v \<noteq> []"
    and "\<not> (\<exists>r \<in> set z. dn_name r = ''@'' \<and> normal_host (dn_content r) = normal_host v)"
  shows "dns_step (zone_gate v name) cx z =
    ((if name = None \<or> name = Some ''@'' then Inr (OutDone (Some ''delegated to the parking target''))
      else Inr (OutFailed WRITE_UNCONFIRMED)),
     z @ [\<lparr>dn_type = RecordA, dn_name = (case name of Some n \<Rightarrow> n | None \<Rightarrow> ''@''), dn_content = v\<rparr>])"
proof -
  let ?r = "\<lparr>dn_type = RecordA, dn_name = (case name of Some n \<Rightarrow> n | None \<Rightarrow> ''@''), dn_content = v\<rparr>"
  have recs: "targetRecords (zone_gate v name) = [?r]"
    by (simp add: targetRecords_def zone_gate_def)
  have "apply_dns (zone_gate v name) (cx_domain cx) z = (Inr [?r], z @ [?r])"
    unfolding apply_dns_def recs by (simp add: zone_gate_def)
  moreover have "confirm_dns (zone_gate v name) (cx_domain cx) (z @ [?r]) =
      (Inr (name = None \<or> name = Some ''@''), z @ [?r])"
    unfolding zone_confirm using assms(3) by (cases name) auto
  ultimately show ?thesis
    using assms(1) zone_evaluate [OF assms(2,3), of name "cx_domain cx"]
    by (cases "name = None \<or> name = Some ''@''") (auto simp: dns_step_def)
qed

theorem dns_write_corroborated_witness:
  "let cx = \<lparr>cx_domain = ''a.com'', cx_source = FromManual, cx_run = None, cx_dryRun = False\<rparr>
   in fst (dns_step (zone_gate ''1.2.3.4'' None) cx []) =
        Inr (OutDone (Some ''delegated to the parking target''))
      \<and> (\<exists>z. targetIsLive (zone_gate ''1.2.3.4'' None) ''a.com'' z =
           (Inr True, snd (dns_step (zone_gate ''1.2.3.4'' None) cx [])))"
proof -
  let ?cx = "\<lparr>cx_domain = ''a.com'', cx_source = FromManual, cx_run = None, cx_dryRun = False\<rparr>"
  have out: "fst (dns_step (zone_gate ''1.2.3.4'' None) ?cx []) =
      Inr (OutDone (Some ''delegated to the parking target''))"
    by (simp add: zone_step)
  have run: "dns_step (zone_gate ''1.2.3.4'' None) ?cx [] =
      (Inr (OutDone (Some ''delegated to the parking target'')),
       snd (dns_step (zone_gate ''1.2.3.4'' None) ?cx []))"
    using out by (metis prod.collapse)
  from dns_write_corroborated [OF this]
  have "\<exists>z. targetIsLive (zone_gate ''1.2.3.4'' None) ''a.com'' z =
      (Inr True, snd (dns_step (zone_gate ''1.2.3.4'' None) ?cx []))" by simp
  with out show ?thesis by simp
qed

text \<open>The name of the configured record is written but not read: with an honest provider and
resolver, on a zone whose apex does not point to the target yet, the step writes the record and
succeeds when the record is for the apex, and ends in \<open>write_unconfirmed\<close> for every other name,
although the record is in the zone.\<close>

theorem only_apex_records_confirmed:
  assumes "cx_dryRun cx = False" "v \<noteq> []"
    and "\<not> (\<exists>r \<in> set z. dn_name r = ''@'' \<and> normal_host (dn_content r) = normal_host v)"
  shows "dns_step (zone_gate v name) cx z =
    ((if name = None \<or> name = Some ''@'' then Inr (OutDone (Some ''delegated to the parking target''))
      else Inr (OutFailed WRITE_UNCONFIRMED)),
     z @ [\<lparr>dn_type = RecordA, dn_name = (case name of Some n \<Rightarrow> n | None \<Rightarrow> ''@''), dn_content = v\<rparr>])"
  using assms by (rule zone_step)

theorem only_apex_records_confirmed_witness:
  "fst (dns_step (zone_gate ''1.2.3.4'' (Some ''www''))
     \<lparr>cx_domain = ''a.com'', cx_source = FromManual, cx_run = None, cx_dryRun = False\<rparr> []) =
   Inr (OutFailed WRITE_UNCONFIRMED)"
  using only_apex_records_confirmed [of
      "\<lparr>cx_domain = ''a.com'', cx_source = FromManual, cx_run = None, cx_dryRun = False\<rparr>"
      "''1.2.3.4''" "[]" "Some ''www''"] by simp

text \<open>The comparison of the name servers is a subset test: further public servers do not matter.\<close>

lemma further_nameservers_accepted: "sameNameservers [''ns1'', ''ns2'', ''elsewhere''] [''ns1'', ''ns2'']"
  by (simp add: sameNameservers_def)

end
