(* ===== verification/Acquisition.thy ===== *)
theory Acquisition
  imports Automation Portfolio TrademarkGate Engine Usage
begin

text \<open>
  How domains are bought: the purchase at a registrar (\<open>src/services/purchase-service.ts\<close>), bids
  at auctions (\<open>src/services/acquisition-service.ts\<close>,
  \<open>src/db/repositories/acquisition-repository.ts\<close>) and the entry in the portfolio that both make
  (\<open>PortfolioManager.add\<close>).

  The registrar is a parameter, whose calls act on the external world \<open>'e\<close>. The rows are those
  of one tenant. The follow-up that a purchase triggers is a list of requests: it is started and
  not awaited. \<open>addYears\<close> stands for \<open>setFullYear\<close>, which depends on the time zone.
\<close>

section \<open>Entries in the portfolio\<close>

datatype add_error = NotMetered usage_error | DuplicateDomain

text \<open>\<open>None\<close>: the domain is in the portfolio already (\<open>DuplicateDomainError\<close>).\<close>

definition insertEntry :: "entry \<Rightarrow> book \<Rightarrow> book option" where
  "insertEntry e b =
     (if entryByDomain (domain e) b \<noteq> None then None else Some (b\<lparr>entries := entries b @ [e]\<rparr>))"

text \<open>
  \<open>PortfolioManager.add\<close>: a domain is metered before it is inserted, and the unit is given back
  when the insert throws.
\<close>

definition portfolio_add ::
    "usage_enforcer option \<Rightarrow> string \<Rightarrow> int \<Rightarrow> bool \<Rightarrow> entry \<Rightarrow> usage_db \<times> book \<Rightarrow>
     (add_error + entry) \<times> usage_db \<times> book" where
  "portfolio_add enf tenant period skipUsageMeter e db =
     (let metered = (case enf of Some u \<Rightarrow> enforcing u \<and> \<not> skipUsageMeter | None \<Rightarrow> False);
          (m, u1) = (if metered then checkAndRecordTracked (the enf) tenant 1 period (fst db)
                     else (Inr (), fst db))
      in case m of
        Inl err \<Rightarrow> (Inl (NotMetered err), u1, snd db)
      | Inr _ \<Rightarrow>
          (case insertEntry e (snd db) of
             Some b \<Rightarrow> (Inr e, u1, b)
           | None \<Rightarrow> (Inl DuplicateDomain,
               (if metered then refundTracked (the enf) tenant 1 period u1 else u1), snd db)))"

text \<open>A new entry, and the outcome \<open>purchased\<close> that both services record after it.\<close>

definition new_entry ::
    "string \<Rightarrow> string \<Rightarrow> ms \<Rightarrow> ms \<Rightarrow> real \<Rightarrow> real \<Rightarrow> string \<Rightarrow> entry" where
  "new_entry d the_tld acquired renewal cost renewal_cost reg =
     \<lparr>domain = d, tld = the_tld, registrar = reg, acquiredAt = Some acquired, renewalDate = renewal,
      acquisitionCost = cost, renewalCost = renewal_cost, currentScore = None,
      suggestedListPrice = None, verdict = Keep, verdictReason = None\<rparr>"

definition purchased_outcome :: "string \<Rightarrow> ms \<Rightarrow> outcome" where
  "purchased_outcome d now = \<lparr>oc_id = 0, oc_domain = d, oc_type = OPurchased, occurredAt = now,
     acquisitionCostEur = None, totalRenewalCostEur = None\<rparr>"

section \<open>Purchases\<close>

record price_check =
  pc_available :: bool
  registerPriceEur :: "real option"
  renewalPriceEur :: "real option"

record registrar_purchase =
  pr_success :: bool
  pr_priceEur :: real
  pr_renewalPriceEur :: real
  pr_error :: "string option"

text \<open>\<open>checkPrice\<close> is the first element of the answer for a list of one domain.\<close>

record 'e registrar =
  rg_name :: string
  checkPrice :: "string \<Rightarrow> ('e, price_check option) call"
  rg_purchase :: "string \<Rightarrow> nat \<Rightarrow> real option \<Rightarrow> ('e, registrar_purchase) call"

datatype auto_approval = NeverApprove | ApproveUnderBuyMax | AlwaysApprove

record 'e purchase_service =
  pu_registrar :: "'e registrar"
  pu_engine :: "(environment \<times> engine) option"
  pu_gate :: "(trademark_gate \<times> idna \<times> bool) option"
  pu_psl :: "string \<Rightarrow> psl_result"
  autoApproval :: auto_approval
  pu_cap :: real
  addYears :: "ms \<Rightarrow> nat \<Rightarrow> ms"

record purchase_check =
  ck_available :: bool
  ck_registerPriceEur :: "real option"
  ck_renewalPriceEur :: "real option"
  ck_expectedValue :: "real option"
  ck_confidence :: "real option"
  ck_suggestedBuyMax :: "real option"
  trademarkClear :: bool
  operatorApprovalRequired :: bool

definition scoring_request :: "string \<Rightarrow> parsed_domain \<Rightarrow> scoring_input" where
  "scoring_request d p = \<lparr>in_domain = d, in_tld = Some (p_tld p), in_sld = Some (p_sld p),
     isCloseout = False, domainAge = None, backlinks = None, waybackSnapshots = None,
     registrar = None, renewalCost = None\<rparr>"

text \<open>The score of a domain; a parser or an engine that throws gives none.\<close>

definition preflight_score ::
    "'e purchase_service \<Rightarrow> string \<Rightarrow> score_result option" where
  "preflight_score svc d =
     (case pu_engine svc of
        None \<Rightarrow> None
      | Some (env, eng) \<Rightarrow>
          (case parseDomain (pu_psl svc) d of
             None \<Rightarrow> None
           | Some p \<Rightarrow> score_domain env eng (scoring_request d p)))"

text \<open>Whether the gate says \<open>Clear\<close>; without a gate, or when it throws, it does not.\<close>

definition gate_clear :: "(trademark_gate \<times> idna \<times> bool) option \<Rightarrow> (string \<Rightarrow> psl_result) \<Rightarrow> string \<Rightarrow> bool" where
  "gate_clear gt psl d =
     (case gt of
        None \<Rightarrow> False
      | Some (g, env, ab) \<Rightarrow>
          (case check g env psl ab d of Inl _ \<Rightarrow> False | Inr r \<Rightarrow> g_verdict r = Clear))"

definition approval_required ::
    "auto_approval \<Rightarrow> bool \<Rightarrow> real \<Rightarrow> real \<Rightarrow> bool" where
  "approval_required policy clear cost buyMax =
     (if \<not> clear then True
      else if policy = AlwaysApprove then False
      else if policy = ApproveUnderBuyMax \<and> cost > 0 \<and> cost \<le> buyMax then False
      else True)"

definition preflight :: "'e purchase_service \<Rightarrow> string \<Rightarrow> ('e, purchase_check) call" where
  "preflight svc d e =
     (case checkPrice (pu_registrar svc) d e of
        (Inl err, e1) \<Rightarrow> (Inl err, e1)
      | (Inr None, e1) \<Rightarrow>
          (Inr \<lparr>ck_available = False, ck_registerPriceEur = None, ck_renewalPriceEur = None,
             ck_expectedValue = None, ck_confidence = None, ck_suggestedBuyMax = None,
             trademarkClear = False, operatorApprovalRequired = True\<rparr>, e1)
      | (Inr (Some quoted), e1) \<Rightarrow>
          (let s = preflight_score svc d;
               clear = gate_clear (pu_gate svc) (pu_psl svc) d;
               cost = (case registerPriceEur quoted of Some c \<Rightarrow> c | None \<Rightarrow> 0);
               buyMax = (case s of Some r \<Rightarrow> suggestedBuyMax r | None \<Rightarrow> pu_cap svc)
           in (Inr \<lparr>ck_available = pc_available quoted, ck_registerPriceEur = registerPriceEur quoted,
                 ck_renewalPriceEur = renewalPriceEur quoted,
                 ck_expectedValue = map_option score_result.expectedValue s,
                 ck_confidence = map_option score_result.confidence s,
                 ck_suggestedBuyMax = map_option suggestedBuyMax s,
                 trademarkClear = clear,
                 operatorApprovalRequired = approval_required (autoApproval svc) clear cost buyMax\<rparr>, e1)))"

record 'e purchase_world =
  pw_ext :: 'e
  pw_book :: book
  pw_triggers :: "(string \<times> trigger_source) list"

datatype purchase_error = TrademarkRefusal | NotApproved

datatype purchase_result = Purchased real real | PurchaseFailed string

text \<open>The entry and its outcome; a statement that throws leaves what was written before it.\<close>

datatype book_error = DuplicateEntry | EntryNotFound

definition keep_books :: "entry \<Rightarrow> ms \<Rightarrow> book \<Rightarrow> (book_error + unit) \<times> book" where
  "keep_books e now b =
     (case insertEntry e b of
        None \<Rightarrow> (Inl DuplicateEntry, b)
      | Some b1 \<Rightarrow>
          (case insertOutcome (purchased_outcome (domain e) now) b1 of
             None \<Rightarrow> (Inl EntryNotFound, b1)
           | Some b2 \<Rightarrow> (Inr (), b2)))"

definition book_purchase ::
    "'e purchase_service \<Rightarrow> ms \<Rightarrow> string \<Rightarrow> nat \<Rightarrow> string \<Rightarrow> real \<Rightarrow> real \<Rightarrow> 'e purchase_world \<Rightarrow>
     purchase_result \<times> 'e purchase_world" where
  "book_purchase svc now d years the_tld cost renewal w =
     (case keep_books (new_entry d the_tld now (addYears svc now years) cost renewal
              (rg_name (pu_registrar svc))) now (pw_book w) of
        (Inl err, b) \<Rightarrow>
          (PurchaseFailed (case err of DuplicateEntry \<Rightarrow> ''duplicate domain'' | EntryNotFound \<Rightarrow> ''domain not found''),
           w\<lparr>pw_book := b\<rparr>)
      | (Inr _, b) \<Rightarrow>
          (Purchased cost renewal,
           w\<lparr>pw_book := b, pw_triggers := pw_triggers w @ [(d, FromPurchase)]\<rparr>))"

definition zero_or :: "real option \<Rightarrow> real" where
  "zero_or x = (case x of Some c \<Rightarrow> c | None \<Rightarrow> 0)"

text \<open>\<open>execute\<close>: \<open>Inl\<close> are the two errors that it lets through.\<close>

definition execute_purchase ::
    "'e purchase_service \<Rightarrow> ms \<Rightarrow> string \<Rightarrow> nat \<Rightarrow> bool \<Rightarrow> 'e purchase_world \<Rightarrow>
     (purchase_error + purchase_result) \<times> 'e purchase_world" where
  "execute_purchase svc now d years operatorApproved w =
     (case preflight svc d (pw_ext w) of
        (Inl err, e1) \<Rightarrow> (Inr (PurchaseFailed err), w\<lparr>pw_ext := e1\<rparr>)
      | (Inr ck, e1) \<Rightarrow>
          let w1 = w\<lparr>pw_ext := e1\<rparr> in
          if \<not> trademarkClear ck then (Inl TrademarkRefusal, w1)
          else if rg_name (pu_registrar svc) = ''manual'' then
            (case parseDomain (pu_psl svc) d of
               None \<Rightarrow> (Inr (PurchaseFailed ''psl''), w1)
             | Some p \<Rightarrow>
                 (case book_purchase svc now d years (p_tld p) (zero_or (ck_registerPriceEur ck))
                         (zero_or (ck_renewalPriceEur ck)) w1 of
                    (r, w2) \<Rightarrow> (Inr r, w2)))
          else if \<not> ck_available ck then (Inr (PurchaseFailed ''not available''), w1)
          else if operatorApprovalRequired ck \<and> \<not> operatorApproved then (Inl NotApproved, w1)
          else
            (case parseDomain (pu_psl svc) d of
               None \<Rightarrow> (Inr (PurchaseFailed ''psl''), w1)
             | Some p \<Rightarrow>
                 (case rg_purchase (pu_registrar svc) d years (ck_registerPriceEur ck) e1 of
                    (Inl err, e2) \<Rightarrow> (Inr (PurchaseFailed err), w1\<lparr>pw_ext := e2\<rparr>)
                  | (Inr pr, e2) \<Rightarrow>
                      if \<not> pr_success pr then
                        (Inr (PurchaseFailed (case pr_error pr of Some m \<Rightarrow> m
                           | None \<Rightarrow> ''Purchase failed at registrar'')), w1\<lparr>pw_ext := e2\<rparr>)
                      else
                        (case book_purchase svc now d years (p_tld p) (pr_priceEur pr)
                                (pr_renewalPriceEur pr) (w1\<lparr>pw_ext := e2\<rparr>) of
                           (r, w2) \<Rightarrow> (Inr r, w2)))))"

section \<open>Bids\<close>

datatype bid_status = BidPending | BidWon | BidLost | BidCancelled | BidOutbid

text \<open>The figures that a bid only records with it are left out. Times are in seconds, as
  \<open>CURRENT_TIMESTAMP\<close> writes them.\<close>

record bid =
  bd_id :: nat
  bd_domain :: string
  bd_venue :: string
  bidAmountEur :: real
  bd_status :: bid_status
  wonPriceEur :: "real option"
  bidPlacedAt :: int
  resolvedAt :: "int option"
  bd_notes :: "string option"

record bid_table =
  bid_rows :: "bid list"
  next_bid :: nat

text \<open>
  \<open>scan\<close>: the order in which the database reads the rows, which decides between bids placed in
  the same second. \<open>shared_tx\<close>: whether the repositories write through the connection on
  which the transaction runs, as with SQLite; with PostgreSQL they write through the pool and the
  transaction covers nothing. \<open>commits\<close>: whether \<open>COMMIT\<close> succeeds.
\<close>

record acquisition_service =
  aq_gate :: "(trademark_gate \<times> idna \<times> bool) option"
  aq_psl :: "string \<Rightarrow> psl_result"
  defaultRenewalCostEur :: real
  aq_addYears :: "ms \<Rightarrow> nat \<Rightarrow> ms"
  scan :: "bid list \<Rightarrow> bid list"
  shared_tx :: bool
  commits :: bool

record acquisition_world =
  aw_bids :: bid_table
  aw_book :: book
  aw_triggers :: "(string \<times> trigger_source) list"

datatype bid_error =
  BidNotPositive | PendingBid | BidBlocked | GateFailed | NoBid | AlreadyResolved bid_status
| ResolveFailed | ParserFailed | AlreadyInPortfolio | EntryMissing | CommitFailed

definition findBid :: "acquisition_service \<Rightarrow> string \<Rightarrow> bid_table \<Rightarrow> bid option" where
  "findBid svc d bt =
     (case sort_key (\<lambda>b. - bidPlacedAt b) (filter (\<lambda>b. bd_domain b = d) (scan svc (bid_rows bt))) of
        [] \<Rightarrow> None | b # _ \<Rightarrow> Some b)"

definition findPending :: "acquisition_service \<Rightarrow> bid_table \<Rightarrow> bid list" where
  "findPending svc bt =
     sort_key bidPlacedAt (filter (\<lambda>b. bd_status b = BidPending) (scan svc (bid_rows bt)))"

definition findByStatus :: "acquisition_service \<Rightarrow> bid_status \<Rightarrow> bid_table \<Rightarrow> bid list" where
  "findByStatus svc st bt =
     sort_key (\<lambda>b. - bidPlacedAt b) (filter (\<lambda>b. bd_status b = st) (scan svc (bid_rows bt)))"

definition insertBid :: "ms \<Rightarrow> string \<Rightarrow> string \<Rightarrow> real \<Rightarrow> string option \<Rightarrow> bid_table \<Rightarrow> bid \<times> bid_table" where
  "insertBid now d ven amount memo bt =
     (let b = \<lparr>bd_id = next_bid bt, bd_domain = d, bd_venue = ven, bidAmountEur = amount,
                bd_status = BidPending, wonPriceEur = None, bidPlacedAt = now div 1000,
                resolvedAt = None, bd_notes = memo\<rparr>
      in (b, bt\<lparr>bid_rows := bid_rows bt @ [b], next_bid := Suc (next_bid bt)\<rparr>))"

text \<open>The gate refuses a bid whenever it does not say \<open>Clear\<close>, and when it throws.\<close>

definition bid_gate :: "acquisition_service \<Rightarrow> string \<Rightarrow> bid_error option" where
  "bid_gate svc d =
     (case aq_gate svc of
        None \<Rightarrow> None
      | Some (g, env, ab) \<Rightarrow>
          (case check g env (aq_psl svc) ab d of
             Inl _ \<Rightarrow> Some GateFailed
           | Inr r \<Rightarrow> if g_verdict r \<noteq> Clear then Some BidBlocked else None))"

text \<open>\<open>place\<close>: the score is only logged, so it is left out.\<close>

definition place_bid ::
    "acquisition_service \<Rightarrow> ms \<Rightarrow> string \<Rightarrow> string \<Rightarrow> real \<Rightarrow> string option \<Rightarrow> bid_table \<Rightarrow>
     (bid_error + bid) \<times> bid_table" where
  "place_bid svc now d ven amount memo bt =
     (if amount \<le> 0 then (Inl BidNotPositive, bt)
      else if (case findBid svc d bt of Some b \<Rightarrow> bd_status b = BidPending | None \<Rightarrow> False) then
        (Inl PendingBid, bt)
      else
        (case bid_gate svc d of
           Some err \<Rightarrow> (Inl err, bt)
         | None \<Rightarrow> (case insertBid now d ven amount memo bt of (b, bt1) \<Rightarrow> (Inr b, bt1))))"

text \<open>The repository's \<open>resolve\<close>: \<open>COALESCE\<close> keeps the old price and notes.\<close>

definition resolve_row ::
    "acquisition_service \<Rightarrow> ms \<Rightarrow> string \<Rightarrow> bid_status \<Rightarrow> real option \<Rightarrow> string option \<Rightarrow> bid_table \<Rightarrow>
     bid option \<times> bid_table" where
  "resolve_row svc now d st won memo bt =
     (case findBid svc d bt of
        None \<Rightarrow> (None, bt)
      | Some existing \<Rightarrow>
          let bt1 = bt\<lparr>bid_rows := map (\<lambda>b. if bd_id b = bd_id existing
                then b\<lparr>bd_status := st,
                       wonPriceEur := (case won of Some p \<Rightarrow> Some p | None \<Rightarrow> wonPriceEur b),
                       resolvedAt := Some (now div 1000),
                       bd_notes := (case memo of Some n \<Rightarrow> Some n | None \<Rightarrow> bd_notes b)\<rparr>
                else b) (bid_rows bt)\<rparr>
          in (findBid svc d bt1, bt1))"

text \<open>The body of the transaction.\<close>

definition resolve_body ::
    "acquisition_service \<Rightarrow> ms \<Rightarrow> string \<Rightarrow> bid_status \<Rightarrow> real option \<Rightarrow> nat option \<Rightarrow> string option \<Rightarrow>
     bid \<Rightarrow> acquisition_world \<Rightarrow> (bid_error + bid) \<times> acquisition_world" where
  "resolve_body svc now d st wonPrice years memo existing w =
     (case resolve_row svc now d st wonPrice memo (aw_bids w) of
        (None, bt) \<Rightarrow> (Inl ResolveFailed, w\<lparr>aw_bids := bt\<rparr>)
      | (Some b, bt) \<Rightarrow>
          let w1 = w\<lparr>aw_bids := bt\<rparr> in
          if st \<noteq> BidWon then (Inr b, w1)
          else
            (case parseDomain (aq_psl svc) d of
               None \<Rightarrow> (Inl ParserFailed, w1)
             | Some p \<Rightarrow>
                 (case keep_books
                         (new_entry d (p_tld p) now
                            (aq_addYears svc now (case years of Some y \<Rightarrow> y | None \<Rightarrow> 1))
                            (case wonPrice of Some x \<Rightarrow> x | None \<Rightarrow> bidAmountEur existing)
                            (defaultRenewalCostEur svc) (bd_venue existing)) now (aw_book w1) of
                    (Inl DuplicateEntry, bk) \<Rightarrow> (Inl AlreadyInPortfolio, w1\<lparr>aw_book := bk\<rparr>)
                  | (Inl EntryNotFound, bk) \<Rightarrow> (Inl EntryMissing, w1\<lparr>aw_book := bk\<rparr>)
                  | (Inr _, bk) \<Rightarrow>
                      (Inr b, w1\<lparr>aw_book := bk,
                         aw_triggers := aw_triggers w1 @ [(d, FromAcquisition)]\<rparr>))))"

definition rolled_back ::
    "acquisition_service \<Rightarrow> acquisition_world \<Rightarrow> acquisition_world \<Rightarrow> acquisition_world" where
  "rolled_back svc w w1 =
     (if shared_tx svc then w1\<lparr>aw_bids := aw_bids w, aw_book := aw_book w\<rparr> else w1)"

definition resolve_bid ::
    "acquisition_service \<Rightarrow> ms \<Rightarrow> string \<Rightarrow> bid_status \<Rightarrow> real option \<Rightarrow> nat option \<Rightarrow> string option \<Rightarrow>
     acquisition_world \<Rightarrow> (bid_error + bid) \<times> acquisition_world" where
  "resolve_bid svc now d st wonPrice years memo w =
     (case findBid svc d (aw_bids w) of
        None \<Rightarrow> (Inl NoBid, w)
      | Some existing \<Rightarrow>
          if bd_status existing \<noteq> BidPending then (Inl (AlreadyResolved (bd_status existing)), w)
          else
            (case resolve_body svc now d st wonPrice years memo existing w of
               (Inl err, w1) \<Rightarrow> (Inl err, rolled_back svc w w1)
             | (Inr b, w1) \<Rightarrow>
                 if commits svc then (Inr b, w1) else (Inl CommitFailed, rolled_back svc w w1)))"

section \<open>Purchases are cleared, approved and recorded\<close>

lemma keep_books_cases:
  "keep_books e now b =
     (if entryByDomain (domain e) b \<noteq> None then (Inl DuplicateEntry, b)
      else (Inr (), b\<lparr>entries := entries b @ [e],
              outcomes := outcomes b @ [(purchased_outcome (domain e) now)\<lparr>oc_id := next_outcome b\<rparr>],
              next_outcome := next_outcome b + 1\<rparr>))"
proof (cases "entryByDomain (domain e) b")
  case None
  have "entryByDomain (domain e) (b\<lparr>entries := entries b @ [e]\<rparr>) \<noteq> None"
    by (auto simp: entryByDomain_def find_None_iff)
  with None show ?thesis
    by (auto simp: keep_books_def insertEntry_def insertOutcome_def purchased_outcome_def)
next
  case (Some x)
  then show ?thesis by (simp add: keep_books_def insertEntry_def)
qed

definition buy_limit :: "'e purchase_service \<Rightarrow> purchase_check \<Rightarrow> real" where
  "buy_limit svc ck = (case ck_suggestedBuyMax ck of Some m \<Rightarrow> m | None \<Rightarrow> pu_cap svc)"

lemma preflight_facts:
  assumes "preflight svc d e = (Inr ck, e1)" "trademarkClear ck"
  shows "gate_clear (pu_gate svc) (pu_psl svc) d"
    and "operatorApprovalRequired ck =
      approval_required (autoApproval svc) True (zero_or (ck_registerPriceEur ck)) (buy_limit svc ck)"
  using assms
  by (auto simp: preflight_def Let_def zero_or_def buy_limit_def split: sum.splits option.splits prod.splits)

abbreviation with_purchase ::
    "'e purchase_service \<Rightarrow> (string \<Rightarrow> nat \<Rightarrow> real option \<Rightarrow> ('e, registrar_purchase) call) \<Rightarrow>
     'e purchase_service" where
  "with_purchase svc f \<equiv> svc\<lparr>pu_registrar := (pu_registrar svc)\<lparr>rg_purchase := f\<rparr>\<rparr>"

lemma with_purchase_fields:
  "pu_engine (with_purchase svc f) = pu_engine svc"
  "pu_gate (with_purchase svc f) = pu_gate svc" "pu_psl (with_purchase svc f) = pu_psl svc"
  "autoApproval (with_purchase svc f) = autoApproval svc" "pu_cap (with_purchase svc f) = pu_cap svc"
  "addYears (with_purchase svc f) = addYears svc"
  "rg_name (pu_registrar (with_purchase svc f)) = rg_name (pu_registrar svc)"
  "checkPrice (pu_registrar (with_purchase svc f)) = checkPrice (pu_registrar svc)"
  by simp_all

lemma preflight_purchase: "preflight (with_purchase svc f) d e = preflight svc d e"
  unfolding preflight_def preflight_score_def with_purchase_fields by (rule refl)

lemma book_purchase_registrar:
  "book_purchase (with_purchase svc f) now d k t c r w = book_purchase svc now d k t c r w"
  unfolding book_purchase_def with_purchase_fields by (rule refl)

text \<open>The policy that approves a purchase without the operator.\<close>

definition auto_approved :: "'e purchase_service \<Rightarrow> purchase_check \<Rightarrow> bool" where
  "auto_approved svc ck = (autoApproval svc = AlwaysApprove
     \<or> (autoApproval svc = ApproveUnderBuyMax \<and> 0 < zero_or (ck_registerPriceEur ck)
        \<and> zero_or (ck_registerPriceEur ck) \<le> buy_limit svc ck))"

lemma approval_iff: "\<not> approval_required policy True cost m \<longleftrightarrow>
  policy = AlwaysApprove \<or> (policy = ApproveUnderBuyMax \<and> 0 < cost \<and> cost \<le> m)"
  by (simp add: approval_required_def)

definition authorised :: "'e purchase_service \<Rightarrow> string \<Rightarrow> bool \<Rightarrow> 'e \<Rightarrow> bool" where
  "authorised svc d operatorApproved e =
     (\<exists>ck e1. preflight svc d e = (Inr ck, e1) \<and> ck_available ck
        \<and> gate_clear (pu_gate svc) (pu_psl svc) d
        \<and> rg_name (pu_registrar svc) \<noteq> ''manual''
        \<and> (operatorApproved \<or> auto_approved svc ck))"

lemma execute_not_authorised:
  assumes run: "execute_purchase svc now d years appr w = (r, w')" and no: "\<not> authorised svc d appr (pw_ext w)"
  shows "execute_purchase (with_purchase svc f) now d years appr w = (r, w')"
proof -
  obtain x e1 where p: "preflight svc d (pw_ext w) = (x, e1)" by (cases "preflight svc d (pw_ext w)")
  note simps = execute_purchase_def preflight_purchase book_purchase_registrar
  show ?thesis
  proof (cases x)
    case (Inl err)
    with run p show ?thesis by (simp add: simps)
  next
    case (Inr ck)
    show ?thesis
    proof (cases "trademarkClear ck \<and> rg_name (pu_registrar svc) \<noteq> ''manual'' \<and> ck_available ck
        \<and> (operatorApprovalRequired ck \<longrightarrow> appr)")
      case True
      then have "authorised svc d appr (pw_ext w)"
        using p Inr preflight_facts [of svc d "pw_ext w" ck e1]
        by (auto simp: authorised_def auto_approved_def approval_iff)
      with no show ?thesis by simp
    next
      case False
      with run p Inr show ?thesis
        by (cases "trademarkClear ck"; cases "rg_name (pu_registrar svc) = ''manual''"; cases "ck_available ck")
          (auto simp: simps Let_def split: option.splits prod.splits)
    qed
  qed
qed

lemma execute_book_change:
  assumes "execute_purchase svc now d years appr w = (r, w')" "pw_book w' \<noteq> pw_book w"
  shows "gate_clear (pu_gate svc) (pu_psl svc) d
    \<and> (rg_name (pu_registrar svc) = ''manual'' \<or> authorised svc d appr (pw_ext w))"
proof -
  obtain x e1 where p: "preflight svc d (pw_ext w) = (x, e1)" by (cases "preflight svc d (pw_ext w)")
  obtain ck where x: "x = Inr ck" and tm: "trademarkClear ck"
    using assms p by (cases x) (auto simp: execute_purchase_def Let_def split: if_splits)
  have clear: "gate_clear (pu_gate svc) (pu_psl svc) d" by (rule preflight_facts(1) [OF p [unfolded x] tm])
  show ?thesis
  proof (cases "rg_name (pu_registrar svc) = ''manual''")
    case True
    with clear show ?thesis by simp
  next
    case False
    have "ck_available ck \<and> (operatorApprovalRequired ck \<longrightarrow> appr)"
      using assms p x tm False by (auto simp: execute_purchase_def Let_def split: if_splits)
    then have "authorised svc d appr (pw_ext w)"
      using p x clear False preflight_facts(2) [OF p [unfolded x] tm]
      by (auto simp: authorised_def auto_approved_def approval_iff)
    with clear show ?thesis by simp
  qed
qed


definition example_purchases :: "nat purchase_service" where
  "example_purchases = \<lparr>pu_registrar = \<lparr>rg_name = ''registrar'',
       checkPrice = (\<lambda>d n. (Inr (Some \<lparr>pc_available = True, registerPriceEur = Some 10,
         renewalPriceEur = Some 12\<rparr>), n)),
       rg_purchase = (\<lambda>d k p n. (Inr \<lparr>pr_success = True, pr_priceEur = 10 * real k,
         pr_renewalPriceEur = 12, pr_error = None\<rparr>, n + 1))\<rparr>,
     pu_engine = None, pu_gate = Some (example_gate, example_idna, False), pu_psl = example_psl,
     autoApproval = ApproveUnderBuyMax, pu_cap = 100, addYears = (\<lambda>t k. t + int k * 31536000000)\<rparr>"

definition no_book :: book where
  "no_book = \<lparr>entries = [], outcomes = [], next_outcome = 1\<rparr>"

definition example_purchase_world :: "nat purchase_world" where
  "example_purchase_world = \<lparr>pw_ext = 0, pw_book = no_book, pw_triggers = []\<rparr>"

lemma example_clear: "gate_clear (Some (example_gate, example_idna, False)) example_psl ''nike.co.uk''"
  by code_simp

lemma example_preflight:
  "preflight example_purchases ''nike.co.uk'' n = (Inr \<lparr>ck_available = True,
     ck_registerPriceEur = Some 10, ck_renewalPriceEur = Some 12, ck_expectedValue = None,
     ck_confidence = None, ck_suggestedBuyMax = None, trademarkClear = True,
     operatorApprovalRequired = False\<rparr>, n)"
  using example_clear
  by (simp add: preflight_def preflight_score_def example_purchases_def approval_required_def)

lemma example_parsed: "\<exists>p. parseDomain example_psl ''nike.co.uk'' = Some p"
  using example_parse by blast

lemma execute_success:
  assumes "preflight svc d (pw_ext w) = (Inr ck, e1)" "trademarkClear ck" "ck_available ck"
    and "rg_name (pu_registrar svc) \<noteq> ''manual''" "operatorApprovalRequired ck \<longrightarrow> appr"
    and "parseDomain (pu_psl svc) d = Some p"
    and "rg_purchase (pu_registrar svc) d years (ck_registerPriceEur ck) e1 = (Inr pr, e2)" "pr_success pr"
  shows "execute_purchase svc now d years appr w =
    (if entryByDomain d (pw_book w) = None then
       (Inr (Purchased (pr_priceEur pr) (pr_renewalPriceEur pr)),
        w\<lparr>pw_ext := e2,
          pw_book := (pw_book w)\<lparr>
            entries := entries (pw_book w) @ [new_entry d (p_tld p) now (addYears svc now years)
              (pr_priceEur pr) (pr_renewalPriceEur pr) (rg_name (pu_registrar svc))],
            outcomes := outcomes (pw_book w) @
              [(purchased_outcome d now)\<lparr>oc_id := next_outcome (pw_book w)\<rparr>],
            next_outcome := next_outcome (pw_book w) + 1\<rparr>,
          pw_triggers := pw_triggers w @ [(d, FromPurchase)]\<rparr>)
     else (Inr (PurchaseFailed ''duplicate domain''), w\<lparr>pw_ext := e2\<rparr>))"
proof -
  have dom: "domain (new_entry d t a r c rc g) = d" for t a r c rc g by (simp add: new_entry_def)
  show ?thesis
    using assms by (cases "operatorApprovalRequired ck") (simp_all add: execute_purchase_def book_purchase_def keep_books_cases dom Let_def)
qed

text \<open>C13. The books follow the registrar. When the registrar reports a purchase and the domain is
not in the portfolio, the entry with the charged price and one outcome \<open>purchased\<close> are added, the
follow-up is started and the purchase is reported. When the domain is in the portfolio already,
the money is spent all the same, nothing is recorded or started, and a failure is reported.\<close>

theorem purchase_recorded:
  assumes "preflight svc d (pw_ext w) = (Inr ck, e1)" "trademarkClear ck" "ck_available ck"
    and "rg_name (pu_registrar svc) \<noteq> ''manual''" "operatorApprovalRequired ck \<longrightarrow> appr"
    and "parseDomain (pu_psl svc) d = Some p"
    and "rg_purchase (pu_registrar svc) d years (ck_registerPriceEur ck) e1 = (Inr pr, e2)" "pr_success pr"
  shows "execute_purchase svc now d years appr w =
    (if entryByDomain d (pw_book w) = None then
       (Inr (Purchased (pr_priceEur pr) (pr_renewalPriceEur pr)),
        w\<lparr>pw_ext := e2,
          pw_book := (pw_book w)\<lparr>
            entries := entries (pw_book w) @ [new_entry d (p_tld p) now (addYears svc now years)
              (pr_priceEur pr) (pr_renewalPriceEur pr) (rg_name (pu_registrar svc))],
            outcomes := outcomes (pw_book w) @
              [(purchased_outcome d now)\<lparr>oc_id := next_outcome (pw_book w)\<rparr>],
            next_outcome := next_outcome (pw_book w) + 1\<rparr>,
          pw_triggers := pw_triggers w @ [(d, FromPurchase)]\<rparr>)
     else (Inr (PurchaseFailed ''duplicate domain''), w\<lparr>pw_ext := e2\<rparr>))"
  using assms by (rule execute_success)

theorem purchase_recorded_witness:
  "\<exists>w'. execute_purchase example_purchases 0 ''nike.co.uk'' 1 False example_purchase_world =
     (Inr (Purchased 10 12), w') \<and> pw_ext w' = 1 \<and> length (entries (pw_book w')) = 1"
proof -
  obtain p where p: "parseDomain (pu_psl example_purchases) ''nike.co.uk'' = Some p"
    using example_parsed by (auto simp: example_purchases_def)
  note ex = example_preflight [of "pw_ext example_purchase_world"]
  show ?thesis
    using purchase_recorded [OF ex _ _ _ _ p, of False 1
        "\<lparr>pr_success = True, pr_priceEur = 10, pr_renewalPriceEur = 12, pr_error = None\<rparr>" 1 0]
    by (simp add: example_purchases_def)
      (simp add: example_purchase_world_def no_book_def entryByDomain_def)
qed


text \<open>The approval looks at the price of one year, whatever number of years is bought.\<close>

lemma approval_ignores_years:
  assumes "fst (execute_purchase svc now d 1 False w) \<noteq> Inl NotApproved"
  shows "fst (execute_purchase svc now d years False w) \<noteq> Inl NotApproved"
  using assms
  by (auto simp: execute_purchase_def Let_def split: sum.splits prod.splits if_splits option.splits)

section \<open>A failed insert gives the unit back\<close>

lemma refund_undoes:
  assumes "record_usage m tenant f amount p db = (Inr u, db')"
  shows "usageForPeriod t g q (usage_rows (refund tenant f amount p db')) = usageForPeriod t g q (usage_rows db)"
  using assms
  by (auto simp: record_usage_def refund_def decrementUsage_def usageForPeriod_def Let_def
      incrementUsageIfWithinLimit_def incrementUsage_def split: option.splits if_splits prod.splits)

text \<open>An add that fails costs nothing: when \<open>PortfolioManager.add\<close> throws, over the plan or for
a domain that is in the portfolio already, the portfolio is unchanged and every tenant's usage of
every feature and period is what it was.\<close>

theorem failed_add_costs_nothing:
  assumes "portfolio_add enf tenant period skip e (u, b) = (Inl err, u', b')"
  shows "b' = b \<and> usageForPeriod t g q (usage_rows u') = usageForPeriod t g q (usage_rows u)"
proof (cases "case enf of Some x \<Rightarrow> enforcing x \<and> \<not> skip | None \<Rightarrow> False")
  case False
  with assms show ?thesis by (auto simp: portfolio_add_def Let_def split: option.splits)
next
  case True
  then obtain x where x: "enf = Some x" "enforcing x" "\<not> skip" by (auto split: option.splits)
  show ?thesis
  proof (cases "suspended x tenant")
    case True
    with assms x show ?thesis
      by (auto simp: portfolio_add_def checkAndRecordTracked_def checkAndRecord_def Let_def)
  next
    case act: False
    obtain m u1 where rec: "record_usage (e_meter x) tenant DomainsTracked 1 period u = (m, u1)"
      by (cases "record_usage (e_meter x) tenant DomainsTracked 1 period u")
    show ?thesis
    proof (cases m)
      case (Inl er)
      then have "usage_rows u1 = usage_rows u"
        using rec by (auto simp: record_usage_def Let_def split: option.splits if_splits prod.splits
            dest: increment_refused)
      with assms x act rec Inl show ?thesis
        by (auto simp: portfolio_add_def checkAndRecordTracked_def checkAndRecord_def Let_def)
    next
      case (Inr rep)
      have undone: "usageForPeriod t g q (usage_rows (refund tenant DomainsTracked 1 period u1))
          = usageForPeriod t g q (usage_rows u)"
        using refund_undoes [of "e_meter x" tenant DomainsTracked 1 period u rep u1] rec Inr by simp
      from assms x act rec Inr undone show ?thesis
        by (auto simp: portfolio_add_def checkAndRecordTracked_def checkAndRecord_def refundTracked_def
            Let_def split: option.splits)
    qed
  qed
qed

theorem failed_add_costs_nothing_witness:
  "let e = new_entry ''a.com'' ''.com'' 0 0 1 1 ''manual'';
       enf = \<lparr>e_meter = example_meter, enforcing = True, suspended = (\<lambda>_. False)\<rparr>;
       r = portfolio_add (Some enf) ''t'' 0 False e (example_usage_db, no_book\<lparr>entries := [e]\<rparr>)
   in fst r = Inl DuplicateDomain
      \<and> usageForPeriod ''t'' DomainsTracked 0 (usage_rows (fst (snd r))) =
        usageForPeriod ''t'' DomainsTracked 0 (usage_rows example_usage_db)"
proof -
  let ?e = "new_entry ''a.com'' ''.com'' 0 0 1 1 ''manual''"
  let ?enf = "\<lparr>e_meter = example_meter, enforcing = True, suspended = (\<lambda>_. False)\<rparr>"
  let ?r = "portfolio_add (Some ?enf) ''t'' 0 False ?e (example_usage_db, no_book\<lparr>entries := [?e]\<rparr>)"
  have out: "fst ?r = Inl DuplicateDomain" by code_simp
  then have "?r = (Inl DuplicateDomain, fst (snd ?r), snd (snd ?r))" by (simp add: prod_eq_iff)
  from failed_add_costs_nothing [OF this, of "''t''" DomainsTracked 0] out
  show ?thesis by (simp add: Let_def)
qed

section \<open>Bids are placed and resolved one at a time\<close>

lemma findBid_Some:
  assumes "set (scan svc (bid_rows bt)) = set (bid_rows bt)" "findBid svc d bt = Some b"
  shows "b \<in> set (bid_rows bt) \<and> bd_domain b = d
    \<and> (\<forall>b' \<in> set (bid_rows bt). bd_domain b' = d \<longrightarrow> bidPlacedAt b' \<le> bidPlacedAt b)"
proof -
  let ?l = "sort_key (\<lambda>b. - bidPlacedAt b) (filter (\<lambda>b. bd_domain b = d) (scan svc (bid_rows bt)))"
  obtain rest where l: "?l = b # rest" using assms(2) by (auto simp: findBid_def split: list.splits)
  have mem: "set ?l = {b \<in> set (bid_rows bt). bd_domain b = d}" using assms(1) by auto
  have "sorted (map (\<lambda>b. - bidPlacedAt b) ?l)" by (rule sorted_sort_key)
  then have "\<forall>b' \<in> set ?l. - bidPlacedAt b \<le> - bidPlacedAt b'" unfolding l by auto
  moreover have "b \<in> set ?l" unfolding l by simp
  ultimately show ?thesis unfolding mem by auto
qed

lemma findBid_None:
  assumes "set (scan svc (bid_rows bt)) = set (bid_rows bt)" "findBid svc d bt = None"
  shows "\<forall>b \<in> set (bid_rows bt). bd_domain b \<noteq> d"
proof -
  have "sort_key (\<lambda>b. - bidPlacedAt b) (filter (\<lambda>b. bd_domain b = d) (scan svc (bid_rows bt))) = []"
    using assms(2) by (auto simp: findBid_def split: list.splits)
  from arg_cong [OF this, of set] assms(1) show ?thesis by auto
qed

text \<open>A later bid for a domain is only placed when the earlier ones are resolved.\<close>

definition after_bid :: "bid \<Rightarrow> bid \<Rightarrow> bool" where
  "after_bid b b' = (bidPlacedAt b < bidPlacedAt b'
     \<and> (bd_domain b = bd_domain b' \<longrightarrow> bd_status b \<noteq> BidPending))"

definition bids_ok :: "int \<Rightarrow> bid_table \<Rightarrow> bool" where
  "bids_ok clock bt = (sorted_wrt after_bid (bid_rows bt)
     \<and> (\<forall>b \<in> set (bid_rows bt). bidPlacedAt b \<le> clock))"

lemma place_bid_ok:
  assumes "bids_ok clock bt" "clock < now div 1000" "set (scan svc (bid_rows bt)) = set (bid_rows bt)"
  shows "bids_ok (now div 1000) (snd (place_bid svc now d ven amount memo bt))"
proof -
  have mono: "bids_ok (now div 1000) bt" using assms(1,2) by (force simp: bids_ok_def)
  let ?b = "\<lparr>bd_id = next_bid bt, bd_domain = d, bd_venue = ven, bidAmountEur = amount,
      bd_status = BidPending, wonPriceEur = None, bidPlacedAt = now div 1000,
      resolvedAt = None, bd_notes = memo\<rparr>"
  consider (same) "snd (place_bid svc now d ven amount memo bt) = bt"
    | (new) "snd (place_bid svc now d ven amount memo bt) =
          bt\<lparr>bid_rows := bid_rows bt @ [?b], next_bid := Suc (next_bid bt)\<rparr>"
        "\<not> (case findBid svc d bt of Some b \<Rightarrow> bd_status b = BidPending | None \<Rightarrow> False)"
  proof -
    let ?pend = "case findBid svc d bt of Some b \<Rightarrow> bd_status b = BidPending | None \<Rightarrow> False"
    show ?thesis
    proof (cases "amount \<le> 0 \<or> ?pend \<or> bid_gate svc d \<noteq> None")
      case True
      then have "snd (place_bid svc now d ven amount memo bt) = bt"
        by (cases ?pend) (auto simp: place_bid_def)
      then show ?thesis by (rule same)
    next
      case False
      then have "snd (place_bid svc now d ven amount memo bt) =
          bt\<lparr>bid_rows := bid_rows bt @ [?b], next_bid := Suc (next_bid bt)\<rparr>"
        by (simp add: place_bid_def insertBid_def Let_def)
      then show ?thesis using False by (intro new) blast+
    qed
  qed
  then show ?thesis
  proof cases
    case same
    with mono show ?thesis by simp
  next
    case new
    have free: "bd_status b \<noteq> BidPending" if b: "b \<in> set (bid_rows bt)" "bd_domain b = d" for b
    proof (cases "findBid svc d bt")
      case None
      with findBid_None [OF assms(3)] b show ?thesis by blast
    next
      case (Some c)
      note c = findBid_Some [OF assms(3) Some]
      show ?thesis
      proof (cases "b = c")
        case True
        with new(2) Some show ?thesis by simp
      next
        case False
        obtain i j where ij: "i < length (bid_rows bt)" "j < length (bid_rows bt)"
          "bid_rows bt ! i = b" "bid_rows bt ! j = c" using b(1) c by (auto simp: in_set_conv_nth)
        have sorted: "sorted_wrt after_bid (bid_rows bt)" using assms(1) by (simp add: bids_ok_def)
        have "\<not> j < i"
          using sorted_wrt_nth_less [OF sorted, of j i] ij c b by (auto simp: after_bid_def)
        moreover have "i \<noteq> j" using ij False by auto
        ultimately have "after_bid b c" using sorted_wrt_nth_less [OF sorted, of i j] ij by auto
        with b(2) c show ?thesis by (simp add: after_bid_def)
      qed
    qed
    have "after_bid b ?b" if "b \<in> set (bid_rows bt)" for b
      using that free assms(1,2) by (force simp: after_bid_def bids_ok_def)
    with mono new(1) show ?thesis by (simp add: bids_ok_def sorted_wrt_append)
  qed
qed

lemma resolve_row_ok:
  assumes "bids_ok clock bt" "st \<noteq> BidPending"
  shows "bids_ok clock (snd (resolve_row svc now d st won memo bt))"
proof (cases "findBid svc d bt")
  case None
  with assms show ?thesis by (simp add: resolve_row_def)
next
  case (Some c)
  have "sorted_wrt after_bid (map f (bid_rows bt))"
    if "\<And>b. bidPlacedAt (f b) = bidPlacedAt b \<and> bd_domain (f b) = bd_domain b
        \<and> (bd_status (f b) = bd_status b \<or> bd_status (f b) \<noteq> BidPending)" for f
    unfolding sorted_wrt_map
    by (rule sorted_wrt_mono_rel [of _ after_bid])
      (use assms(1) that in \<open>auto simp: after_bid_def bids_ok_def, metis+\<close>)
  with assms Some show ?thesis by (auto simp: resolve_row_def bids_ok_def Let_def)
qed

lemma resolve_bid_ok:
  assumes "bids_ok clock (aw_bids w)" "st \<noteq> BidPending"
  shows "bids_ok clock (aw_bids (snd (resolve_bid svc now d st won years memo w)))"
proof (cases "findBid svc d (aw_bids w)")
  case None
  with assms show ?thesis by (simp add: resolve_bid_def)
next
  case (Some c)
  obtain x bt where r: "resolve_row svc now d st won memo (aw_bids w) = (x, bt)"
    by (cases "resolve_row svc now d st won memo (aw_bids w)")
  have bt: "bids_ok clock bt" using resolve_row_ok [OF assms, of svc now d won memo] r by simp
  have body: "aw_bids (snd (resolve_body svc now d st won years memo c w)) = bt"
    using r by (auto simp: resolve_body_def Let_def split: option.splits prod.splits sum.splits book_error.splits)
  obtain y w1 where y: "resolve_body svc now d st won years memo c w = (y, w1)"
    by (cases "resolve_body svc now d st won years memo c w")
  show ?thesis
    using Some assms bt body y by (cases y) (auto simp: resolve_bid_def rolled_back_def)
qed

datatype bid_request =
  PlaceBid ms string string real "string option"
| ResolveBid ms string bid_status "real option" "nat option" "string option"

definition bid_op :: "acquisition_service \<Rightarrow> bid_request \<Rightarrow> acquisition_world \<Rightarrow> acquisition_world" where
  "bid_op svc oper w = (case oper of
     PlaceBid now d ven amount memo \<Rightarrow>
       w\<lparr>aw_bids := snd (place_bid svc now d ven amount memo (aw_bids w))\<rparr>
   | ResolveBid now d st won years memo \<Rightarrow> snd (resolve_bid svc now d st won years memo w))"

text \<open>No two bids are placed in the same second, and no request resolves to \<open>pending\<close>.\<close>

fun bid_ops_ok :: "int \<Rightarrow> bid_request list \<Rightarrow> bool" where
  "bid_ops_ok clock [] = True"
| "bid_ops_ok clock (PlaceBid now d ven amount memo # ops) =
     (clock < now div 1000 \<and> bid_ops_ok (now div 1000) ops)"
| "bid_ops_ok clock (ResolveBid now d st won years memo # ops) =
     (st \<noteq> BidPending \<and> bid_ops_ok clock ops)"

lemma bid_ops_invariant:
  assumes "bid_ops_ok clock ops" "bids_ok clock (aw_bids w)" "\<And>xs. set (scan svc xs) = set xs"
  shows "\<exists>c. bids_ok c (aw_bids (fold (bid_op svc) ops w))"
  using assms(1,2)
proof (induction ops arbitrary: clock w)
  case Nil
  then show ?case by auto
next
  case (Cons oper ops)
  show ?case
  proof (cases oper)
    case (PlaceBid now d ven amount memo)
    with Cons.prems have "bids_ok (now div 1000) (aw_bids (bid_op svc oper w))"
      using place_bid_ok [OF Cons.prems(2) _ assms(3), of now] by (simp add: bid_op_def)
    with Cons.IH [OF _ this] Cons.prems PlaceBid show ?thesis by simp
  next
    case (ResolveBid now d st won years memo)
    with Cons.prems have "bids_ok clock (aw_bids (bid_op svc oper w))"
      using resolve_bid_ok [OF Cons.prems(2)] by (simp add: bid_op_def)
    with Cons.IH [OF _ this] Cons.prems ResolveBid show ?thesis by simp
  qed
qed

lemma one_pending:
  assumes "sorted_wrt after_bid bs"
  shows "length (filter (\<lambda>b. bd_status b = BidPending \<and> bd_domain b = d) bs) \<le> 1"
  using assms
proof (induction bs)
  case Nil
  then show ?case by simp
next
  case (Cons b bs)
  show ?case
  proof (cases "bd_status b = BidPending \<and> bd_domain b = d")
    case True
    with Cons.prems have "filter (\<lambda>b. bd_status b = BidPending \<and> bd_domain b = d) bs = []"
      by (auto simp: filter_empty_conv after_bid_def)
    with True show ?thesis by simp
  next
    case False
    with Cons show ?thesis by auto
  qed
qed

text \<open>C17. A domain has at most one pending bid, after any sequence of placed and resolved bids, if
no two bids are placed in the same second: whatever order the database reads equal rows in,
whatever the gate and the registrar say and whether or not the transactions of the resolutions
succeed or cover their statements.\<close>

theorem one_pending_bid:
  assumes "bid_ops_ok clock ops" "aw_bids w = \<lparr>bid_rows = [], next_bid = 1\<rparr>"
    and "\<And>xs. set (scan svc xs) = set xs"
  shows "length (filter (\<lambda>b. bd_status b = BidPending \<and> bd_domain b = d)
    (bid_rows (aw_bids (fold (bid_op svc) ops w)))) \<le> 1"
proof -
  have "bids_ok clock (aw_bids w)" by (simp add: assms(2) bids_ok_def)
  from bid_ops_invariant [OF assms(1) this assms(3)]
  have "sorted_wrt after_bid (bid_rows (aw_bids (fold (bid_op svc) ops w)))"
    by (auto simp: bids_ok_def)
  then show ?thesis by (rule one_pending)
qed

definition example_bids :: "bool \<Rightarrow> acquisition_service" where
  "example_bids tx = \<lparr>aq_gate = None, aq_psl = example_psl, defaultRenewalCostEur = 10,
     aq_addYears = (\<lambda>t k. t + int k * 31536000000), scan = (\<lambda>xs. xs), shared_tx = tx,
     commits = True\<rparr>"

definition no_bids :: acquisition_world where
  "no_bids = \<lparr>aw_bids = \<lparr>bid_rows = [], next_bid = 1\<rparr>, aw_book = no_book, aw_triggers = []\<rparr>"

definition bids_at :: "int list \<Rightarrow> bid_request list" where
  "bids_at ts = concat (map (\<lambda>t. [PlaceBid (1000 * t) ''nike.co.uk'' ''house'' 5 None,
     ResolveBid (1000 * t) ''nike.co.uk'' BidLost None None None]) ts)"

theorem one_pending_bid_witness:
  "length (filter (\<lambda>b. bd_status b = BidPending \<and> bd_domain b = ''nike.co.uk'')
     (bid_rows (aw_bids (fold (bid_op (example_bids True))
        (bids_at [1, 2] @ [PlaceBid 3000 ''nike.co.uk'' ''house'' 5 None]) no_bids)))) \<le> 1"
  using one_pending_bid [of 0 "bids_at [1, 2] @ [PlaceBid 3000 ''nike.co.uk'' ''house'' 5 None]"
      no_bids "example_bids True" "''nike.co.uk''"]
  by (simp add: bids_at_def no_bids_def example_bids_def)

text \<open>The second is decisive. Times are written in whole seconds and the newest bid is the one
that \<open>ORDER BY bid_placed_at DESC\<close> puts first: when a bid is lost and placed again within a
second, a database that reads equal rows in the order of their ids finds the lost one. The new
bid cannot be resolved, and the domain is given two further pending bids.\<close>

theorem same_second_bids_diverge:
  "let ops = bids_at [1] @ [PlaceBid 1000 ''nike.co.uk'' ''house'' 5 None,
               PlaceBid 1500 ''nike.co.uk'' ''house'' 5 None];
       w = fold (bid_op (example_bids True)) ops no_bids
   in length (filter (\<lambda>b. bd_status b = BidPending) (bid_rows (aw_bids w))) = 2
      \<and> fst (resolve_bid (example_bids True) 2000 ''nike.co.uk'' BidLost None None None w)
        = Inl (AlreadyResolved BidLost)"
  by code_simp

lemma resolve_failed:
  assumes "shared_tx svc" "resolve_bid svc now d st won years memo w = (Inl err, w')"
  shows "aw_bids w' = aw_bids w \<and> aw_book w' = aw_book w"
  using assms
  by (auto simp: resolve_bid_def rolled_back_def split: option.splits if_splits prod.splits sum.splits)

text \<open>A resolution is all or nothing when the repositories share the connection of its
transaction: if it throws, for a parser that throws, a domain that is in the portfolio already or a
failing commit, the bids and the portfolio are as before.\<close>

theorem resolve_all_or_nothing:
  assumes "shared_tx svc" "resolve_bid svc now d st won years memo w = (Inl err, w')"
  shows "aw_bids w' = aw_bids w \<and> aw_book w' = aw_book w"
  using assms by (rule resolve_failed)

definition owned_world :: acquisition_world where
  "owned_world = no_bids\<lparr>
     aw_bids := snd (place_bid (example_bids True) 1000 ''nike.co.uk'' ''house'' 5 None (aw_bids no_bids)),
     aw_book := no_book\<lparr>entries := [new_entry ''nike.co.uk'' ''.co.uk'' 0 0 1 1 ''house'']\<rparr>\<rparr>"

theorem resolve_all_or_nothing_witness:
  "let r = resolve_bid (example_bids True) 2000 ''nike.co.uk'' BidWon None None None owned_world
   in fst r = Inl AlreadyInPortfolio \<and> aw_bids (snd r) = aw_bids owned_world"
proof -
  let ?r = "resolve_bid (example_bids True) 2000 ''nike.co.uk'' BidWon None None None owned_world"
  have out: "fst ?r = Inl AlreadyInPortfolio" by code_simp
  then have "?r = (Inl AlreadyInPortfolio, snd ?r)" by (simp add: prod_eq_iff)
  from resolve_all_or_nothing [OF _ this] out show ?thesis
    by (simp add: Let_def example_bids_def)
qed

text \<open>With PostgreSQL the repositories do not write through the connection of the transaction.
Recording a bid as won for a domain that is in the portfolio already fails, as it should, but leaves
the bid won: following the advice of the error, to resolve it as lost, is refused. With SQLite the
bid is pending as before and can be resolved.\<close>

theorem pool_transaction_strands_bid:
  "let attempt = (\<lambda>tx. resolve_bid (example_bids tx) 2000 ''nike.co.uk'' BidWon None None None owned_world);
       again = (\<lambda>tx. fst (resolve_bid (example_bids tx) 3000 ''nike.co.uk'' BidLost None None None
                  (snd (attempt tx))))
   in fst (attempt False) = Inl AlreadyInPortfolio \<and> fst (attempt True) = Inl AlreadyInPortfolio
      \<and> again False = Inl (AlreadyResolved BidWon) \<and> \<not> isl (again True)"
  by code_simp

text \<open>A bid needs the gate: when a gate is wired, a bid is placed only on its clear verdict, for
a positive amount and when the domain's newest bid is resolved; a refused bid leaves the table as
it was.\<close>

theorem bid_needs_clear_gate:
  assumes "place_bid svc now d ven amount memo bt = (r, bt')"
  shows "(\<exists>b. r = Inr b \<and> bid_rows bt' = bid_rows bt @ [b] \<and> bd_status b = BidPending \<and> amount > 0
        \<and> (aq_gate svc = None \<or> gate_clear (aq_gate svc) (aq_psl svc) d)
        \<and> (\<forall>c. findBid svc d bt = Some c \<longrightarrow> bd_status c \<noteq> BidPending))
    \<or> (\<exists>err. r = Inl err \<and> bt' = bt)"
proof (cases "amount \<le> 0 \<or> (\<exists>c. findBid svc d bt = Some c \<and> bd_status c = BidPending)
    \<or> bid_gate svc d \<noteq> None")
  case True
  with assms show ?thesis by (auto simp: place_bid_def split: option.splits if_splits)
next
  case False
  then have "bid_gate svc d = None" by simp
  then have "aq_gate svc = None \<or> gate_clear (aq_gate svc) (aq_psl svc) d"
    by (auto simp: bid_gate_def gate_clear_def split: option.splits sum.splits if_splits)
  with assms False show ?thesis
    by (auto simp: place_bid_def insertBid_def Let_def split: option.splits)
qed

theorem bid_needs_clear_gate_witness:
  "\<exists>b bt'. place_bid ((example_bids True)\<lparr>aq_gate := Some (example_gate, example_idna, False)\<rparr>)
       1000 ''nike.co.uk'' ''house'' 5 None (aw_bids no_bids) = (Inr b, bt') \<and> bd_status b = BidPending"
proof -
  let ?svc = "(example_bids True)\<lparr>aq_gate := Some (example_gate, example_idna, False)\<rparr>"
  let ?r = "place_bid ?svc 1000 ''nike.co.uk'' ''house'' 5 None (aw_bids no_bids)"
  have "\<not> isl (fst ?r)" by code_simp
  then obtain b where "?r = (Inr b, snd ?r)" by (cases "fst ?r") (auto simp: prod_eq_iff)
  with bid_needs_clear_gate [OF this] show ?thesis by auto
qed

end
