(* ===== verification/IpRanges.thy ===== *)
theory IpRanges
  imports Domain "HOL-Library.Word"
begin

text \<open>
  Addresses and ranges: the registry of parking addresses
  (\<open>src/providers/dns/parking-ip-registry.ts\<close>) and the guard of RDAP redirects against private
  addresses (\<open>src/providers/rdap/rdap-url-guard.ts\<close>). IPv4 addresses are words of 32 bits, as the
  bit operations of JavaScript compute them; IPv6 addresses, which the code keeps in a
  \<open>bigint\<close>, are words of 128 bits.

  \<open>isIPv4\<close> and \<open>isIPv6\<close> of Node and the \<open>URL\<close> parser are parameters.
\<close>

unbundle bit_operations_syntax

section \<open>Decimal and hexadecimal numbers\<close>

definition digit_value :: "char \<Rightarrow> nat" where
  "digit_value c = of_char c - 48"

definition dec_value :: "string \<Rightarrow> nat" where
  "dec_value s = fold (\<lambda>c n. 10 * n + digit_value c) s 0"

definition is_hex :: "char \<Rightarrow> bool" where
  "is_hex c = (is_digit c \<or> (97 \<le> (of_char (char_to_lower c) :: nat) \<and> (of_char (char_to_lower c) :: nat) \<le> 102))"

definition hex_digit_value :: "char \<Rightarrow> nat" where
  "hex_digit_value c = (if is_digit c then digit_value c else of_char (char_to_lower c) - 87)"

definition hex_value :: "string \<Rightarrow> nat" where
  "hex_value s = fold (\<lambda>c n. 16 * n + hex_digit_value c) s 0"

section \<open>The registry of parking addresses\<close>

record cidr_v4 =
  v4_name :: string
  v4_base :: "32 word"
  v4_mask :: "32 word"

record cidr_v6 =
  v6_name :: string
  v6_base :: "128 word"
  v6_mask :: "128 word"

text \<open>\<open>(~0 << (32 - prefix)) >>> 0\<close>; a shift of JavaScript takes its distance modulo 32.\<close>

definition cidrToMask :: "nat \<Rightarrow> 32 word" where
  "cidrToMask prefix = (if prefix = 0 then 0 else push_bit ((32 - prefix) mod 32) (NOT 0))"

definition ipToInt :: "string \<Rightarrow> 32 word" where
  "ipToInt ip =
     (let p = map dec_value (split_on (CHR ''.'') ip)
      in push_bit 24 (of_nat (p ! 0)) OR push_bit 16 (of_nat (p ! 1)) OR push_bit 8 (of_nat (p ! 2))
         OR of_nat (p ! 3))"

text \<open>The groups of an address: the part before \<open>%\<close>, with \<open>::\<close> filled up to eight.\<close>

fun split_double :: "string \<Rightarrow> (string \<times> string) option" where
  "split_double [] = None"
| "split_double [c] = None"
| "split_double (c # d # s) =
     (if c = CHR '':'' \<and> d = CHR '':'' then Some ([], s)
      else map_option (\<lambda>(l, r). (c # l, r)) (split_double (d # s)))"

definition colon_parts :: "string \<Rightarrow> string list" where
  "colon_parts s = (if s = [] then [] else split_on (CHR '':'') s)"

definition ipv6_groups :: "string \<Rightarrow> string list" where
  "ipv6_groups ip =
     (let clean = takeWhile (\<lambda>c. c \<noteq> CHR ''%'') ip
      in case split_double clean of
           None \<Rightarrow> split_on (CHR '':'') clean
         | Some (l, r) \<Rightarrow>
             (let left = colon_parts l; right = colon_parts r
              in left @ replicate (8 - length left - length right) ''0'' @ right))"

definition ipv6ToBigint :: "string \<Rightarrow> 128 word" where
  "ipv6ToBigint ip =
     fold (\<lambda>g n. push_bit 16 n OR of_nat (hex_value (takeWhile is_hex g))) (ipv6_groups ip) 0"

definition cidrToMaskV6 :: "nat \<Rightarrow> 128 word" where
  "cidrToMaskV6 prefix =
     (if prefix = 0 then 0
      else if prefix \<ge> 128 then NOT 0
      else NOT 0 XOR (push_bit (128 - prefix) 1 - 1))"

text \<open>
  A range \<open>ip/prefix\<close>. \<open>parseInt\<close> reads the leading digits of the prefix (after white space and a
  sign, which do not occur in a list of ranges), and gives \<open>NaN\<close> without one.
\<close>

definition split_cidr :: "string \<Rightarrow> (string \<times> nat) option" where
  "split_cidr cidr =
     (let ip = takeWhile (\<lambda>c. c \<noteq> CHR ''/'') cidr;
          digits = takeWhile is_digit (drop (length ip + 1) cidr)
      in if length ip = length cidr \<or> digits = [] then None else Some (ip, dec_value digits))"

definition parseCidrV4 :: "(string \<Rightarrow> bool) \<Rightarrow> string \<Rightarrow> (32 word \<times> 32 word) option" where
  "parseCidrV4 isIPv4 cidr =
     (case split_cidr cidr of
        None \<Rightarrow> None
      | Some (ip, prefix) \<Rightarrow>
          if \<not> isIPv4 ip \<or> prefix > 32 then None
          else Some (ipToInt ip AND cidrToMask prefix, cidrToMask prefix))"

definition parseCidrV6 :: "(string \<Rightarrow> bool) \<Rightarrow> string \<Rightarrow> (128 word \<times> 128 word) option" where
  "parseCidrV6 isIPv6 cidr =
     (case split_cidr cidr of
        None \<Rightarrow> None
      | Some (ip, prefix) \<Rightarrow>
          if \<not> isIPv6 ip \<or> prefix > 128 then None
          else Some (ipv6ToBigint ip AND cidrToMaskV6 prefix, cidrToMaskV6 prefix))"

record ip_checks =
  isIPv4 :: "string \<Rightarrow> bool"
  isIPv6 :: "string \<Rightarrow> bool"

type_synonym parking_registry = "cidr_v4 list \<times> cidr_v6 list"

definition add_cidr :: "ip_checks \<Rightarrow> string \<Rightarrow> string \<Rightarrow> parking_registry \<Rightarrow> parking_registry" where
  "add_cidr k name cidr reg =
     (case parseCidrV4 (isIPv4 k) cidr of
        Some (b, m) \<Rightarrow> (fst reg @ [\<lparr>v4_name = name, v4_base = b, v4_mask = m\<rparr>], snd reg)
      | None \<Rightarrow>
          (case parseCidrV6 (isIPv6 k) cidr of
             Some (b, m) \<Rightarrow> (fst reg, snd reg @ [\<lparr>v6_name = name, v6_base = b, v6_mask = m\<rparr>])
           | None \<Rightarrow> reg))"

definition new_registry :: "ip_checks \<Rightarrow> (string \<times> string list) list \<Rightarrow> parking_registry" where
  "new_registry k ranges =
     fold (\<lambda>(name, cidrs) reg. fold (add_cidr k name) cidrs reg) ranges ([], [])"

definition checkIp :: "ip_checks \<Rightarrow> parking_registry \<Rightarrow> string \<Rightarrow> string option" where
  "checkIp k reg ip =
     (if isIPv4 k ip then
        map_option v4_name (find (\<lambda>c. ipToInt ip AND v4_mask c = v4_base c) (fst reg))
      else if isIPv6 k ip then
        map_option v6_name (find (\<lambda>c. ipv6ToBigint ip AND v6_mask c = v6_base c) (snd reg))
      else None)"

fun checkIps :: "ip_checks \<Rightarrow> parking_registry \<Rightarrow> string list \<Rightarrow> string option" where
  "checkIps k reg [] = None"
| "checkIps k reg (ip # ips) =
     (case checkIp k reg ip of Some n \<Rightarrow> Some n | None \<Rightarrow> checkIps k reg ips)"

section \<open>The guard of redirects\<close>

definition octet :: "string \<Rightarrow> bool" where
  "octet p = (1 \<le> length p \<and> length p \<le> 3 \<and> list_all is_digit p)"

definition parseIpv4 :: "string \<Rightarrow> bool" where
  "parseIpv4 ip =
     (let parts = split_on (CHR ''.'') ip
      in length parts = 4 \<and> list_all (\<lambda>p. octet p \<and> dec_value p \<le> 255) parts)"

definition isPrivateIpv4 :: "string \<Rightarrow> bool" where
  "isPrivateIpv4 ip =
     (if \<not> parseIpv4 ip then False
      else
        let parts = map dec_value (split_on (CHR ''.'') ip); a = parts ! 0; b = parts ! 1
        in a = 0 \<or> a = 10 \<or> a = 127 \<or> a \<ge> 224
           \<or> (a = 100 \<and> b \<ge> 64 \<and> b \<le> 127)
           \<or> (a = 169 \<and> b = 254)
           \<or> (a = 172 \<and> b \<ge> 16 \<and> b \<le> 31)
           \<or> (a = 192 \<and> b = 168)
           \<or> (a = 198 \<and> (b = 18 \<or> b = 19)))"

text \<open>\<open>/^\d{1,3}(\.\d{1,3}){3}$/\<close>.\<close>

definition dotted_quad :: "string \<Rightarrow> bool" where
  "dotted_quad s =
     (let parts = split_on (CHR ''.'') s in length parts = 4 \<and> list_all octet parts)"

definition isPrivateIpAddress :: "string \<Rightarrow> bool" where
  "isPrivateIpAddress ip =
     (if starts_with ip ''::ffff:'' \<and> dotted_quad (drop 7 ip) then isPrivateIpv4 (drop 7 ip)
      else if parseIpv4 ip then isPrivateIpv4 ip
      else ip = ''::'' \<or> ip = ''::1''
        \<or> (length ip \<ge> 5 \<and> char_to_lower (ip ! 0) = CHR ''f'' \<and> char_to_lower (ip ! 1) \<in> {CHR ''c'', CHR ''d''}
           \<and> is_hex (ip ! 2) \<and> is_hex (ip ! 3) \<and> ip ! 4 = CHR '':'')
        \<or> (length ip \<ge> 5 \<and> char_to_lower (ip ! 0) = CHR ''f'' \<and> char_to_lower (ip ! 1) = CHR ''e''
           \<and> char_to_lower (ip ! 2) \<in> {CHR ''8'', CHR ''9'', CHR ''a'', CHR ''b''}
           \<and> is_hex (ip ! 3) \<and> ip ! 4 = CHR '':''))"

definition isIpLiteral :: "string \<Rightarrow> bool" where
  "isIpLiteral host = (dotted_quad host \<or> CHR '':'' \<in> set host)"

datatype guard_error = NotAUrl | NotHttps | PrivateAddress | Unresolvable | NoAddresses

text \<open>
  \<open>parse\<close> gives the protocol and the hostname of a URL, \<open>lookup\<close> the addresses of a host or
  \<open>None\<close> when it throws.
\<close>

definition unbracket :: "string \<Rightarrow> string" where
  "unbracket host =
     (if starts_with host ''['' \<and> ends_with host '']'' then butlast (tl host) else host)"

definition assertPublicHttpsUrl ::
    "(string \<Rightarrow> (string \<times> string) option) \<Rightarrow> (string \<Rightarrow> string list option) \<Rightarrow> string \<Rightarrow> guard_error option" where
  "assertPublicHttpsUrl parse lookup url =
     (case parse url of
        None \<Rightarrow> Some NotAUrl
      | Some (protocol, hostname) \<Rightarrow>
          if protocol \<noteq> ''https:'' then Some NotHttps
          else
            let bareHost = unbracket hostname in
            if isIpLiteral bareHost then
              (if isPrivateIpAddress bareHost then Some PrivateAddress else None)
            else
              (case lookup bareHost of
                 None \<Rightarrow> Some Unresolvable
               | Some addresses \<Rightarrow>
                   if addresses = [] then Some NoAddresses
                   else if filter isPrivateIpAddress addresses \<noteq> [] then Some PrivateAddress
                   else None))"

section \<open>Masks select prefixes\<close>

text \<open>The reference: two addresses agree in their first \<open>p\<close> bits.\<close>

definition same_prefix :: "nat \<Rightarrow> 'a::len word \<Rightarrow> 'a word \<Rightarrow> bool" where
  "same_prefix p x y = (drop_bit (LENGTH('a) - p) x = drop_bit (LENGTH('a) - p) y)"

lemma and_top_mask:
  fixes x y m :: "'a::len word"
  assumes "\<And>n. bit m n \<longleftrightarrow> k \<le> n \<and> n < LENGTH('a)"
  shows "x AND m = y AND m \<longleftrightarrow> drop_bit k x = drop_bit k y"
proof
  assume eq: "x AND m = y AND m"
  show "drop_bit k x = drop_bit k y"
  proof (rule bit_word_eqI)
    fix n assume "n < LENGTH('a)"
    from eq have "bit (x AND m) (k + n) = bit (y AND m) (k + n)" by simp
    then show "bit (drop_bit k x) n = bit (drop_bit k y) n"
      using assms [of "k + n"] by (auto simp: bit_simps dest: bit_imp_le_length)
  qed
next
  assume eq: "drop_bit k x = drop_bit k y"
  show "x AND m = y AND m"
  proof (rule bit_word_eqI)
    fix n assume "n < LENGTH('a)"
    have "bit x n = bit y n" if "k \<le> n"
    proof -
      from eq have "bit (drop_bit k x) (n - k) = bit (drop_bit k y) (n - k)" by simp
      with that show ?thesis by (simp add: bit_simps)
    qed
    then show "bit (x AND m) n = bit (y AND m) n" using assms [of n] by (auto simp: bit_simps)
  qed
qed

lemma bit_cidrToMask:
  assumes "p \<le> 32"
  shows "bit (cidrToMask p) n \<longleftrightarrow> 32 - p \<le> n \<and> n < 32"
proof (cases "p = 0")
  case False
  then have "(32 - p) mod 32 = 32 - p" using assms by simp
  with False show ?thesis by (auto simp: cidrToMask_def bit_simps)
qed (simp add: cidrToMask_def)

lemma bit_cidrToMaskV6:
  assumes "p \<le> 128"
  shows "bit (cidrToMaskV6 p) n \<longleftrightarrow> 128 - p \<le> n \<and> n < 128"
proof -
  consider "p = 0" | "p = 128" | "0 < p" "p < 128" using assms by linarith
  then show ?thesis
  proof cases
    case 3
    have "push_bit (128 - p) (1 :: 128 word) - 1 = mask (128 - p)"
      by (simp add: mask_eq_exp_minus_1 push_bit_eq_mult)
    with 3 show ?thesis by (auto simp: cidrToMaskV6_def bit_simps)
  qed (auto simp: cidrToMaskV6_def bit_simps)
qed

lemma masked_v4:
  assumes "p \<le> 32"
  shows "x AND cidrToMask p = y AND cidrToMask p \<longleftrightarrow> same_prefix p x y"
  using and_top_mask [of "cidrToMask p" "32 - p" x y] bit_cidrToMask [OF assms]
  by (simp add: same_prefix_def)

lemma masked_v6:
  assumes "p \<le> 128"
  shows "x AND cidrToMaskV6 p = y AND cidrToMaskV6 p \<longleftrightarrow> same_prefix p x y"
  using and_top_mask [of "cidrToMaskV6 p" "128 - p" x y] bit_cidrToMaskV6 [OF assms]
  by (simp add: same_prefix_def)

text \<open>What the ranges of a file mean, in their order.\<close>

definition flat_ranges :: "(string \<times> string list) list \<Rightarrow> (string \<times> string) list" where
  "flat_ranges ranges = concat (map (\<lambda>(n, cs). map (Pair n) cs) ranges)"

definition covers_v4 :: "ip_checks \<Rightarrow> string \<Rightarrow> string \<Rightarrow> bool" where
  "covers_v4 k ip cidr = (case split_cidr cidr of
     Some (i, p) \<Rightarrow> isIPv4 k i \<and> p \<le> 32 \<and> same_prefix p (ipToInt ip) (ipToInt i)
   | None \<Rightarrow> False)"

definition covers_v6 :: "ip_checks \<Rightarrow> string \<Rightarrow> string \<Rightarrow> bool" where
  "covers_v6 k ip cidr = (case split_cidr cidr of
     Some (i, p) \<Rightarrow> \<not> (isIPv4 k i \<and> p \<le> 32) \<and> isIPv6 k i \<and> p \<le> 128
       \<and> same_prefix p (ipv6ToBigint ip) (ipv6ToBigint i)
   | None \<Rightarrow> False)"

lemma new_registry_flat:
  "new_registry k ranges = fold (\<lambda>(n, c). add_cidr k n c) (flat_ranges ranges) ([], [])"
proof -
  have "fold (\<lambda>(name, cidrs) reg. fold (add_cidr k name) cidrs reg) rs reg =
      fold (\<lambda>(n, c). add_cidr k n c) (flat_ranges rs) reg" for rs reg
  proof (induction rs arbitrary: reg)
    case (Cons r rs)
    obtain n cs where r: "r = (n, cs)" by (cases r)
    have "fold (add_cidr k n) cs reg = fold (\<lambda>(n, c). add_cidr k n c) (map (Pair n) cs) reg" for reg
      by (induction cs arbitrary: reg) auto
    with Cons r show ?case by (simp add: flat_ranges_def)
  qed (simp add: flat_ranges_def)
  then show ?thesis by (simp add: new_registry_def)
qed

lemma find_snoc: "find P (xs @ [x]) = (case find P xs of Some y \<Rightarrow> Some y | None \<Rightarrow> if P x then Some x else None)"
  by (induction xs) auto

lemma find_append_option: "find P (xs @ ys) = (case find P xs of Some y \<Rightarrow> Some y | None \<Rightarrow> find P ys)"
  by (induction xs) auto

lemma add_cidr_v4:
  "map_option v4_name (find (\<lambda>c. ipToInt ip AND v4_mask c = v4_base c) (fst (add_cidr k n c reg))) =
   (case map_option v4_name (find (\<lambda>c. ipToInt ip AND v4_mask c = v4_base c) (fst reg)) of
      Some m \<Rightarrow> Some m | None \<Rightarrow> if covers_v4 k ip c then Some n else None)"
proof (cases "split_cidr c")
  case None
  then show ?thesis
    by (simp add: add_cidr_def parseCidrV4_def parseCidrV6_def covers_v4_def split: option.split)
next
  case (Some x)
  obtain i p where x: "x = (i, p)" by (cases x)
  show ?thesis
    using Some x
    by (cases "isIPv4 k i \<and> p \<le> 32"; cases "isIPv6 k i \<and> p \<le> 128")
      (auto simp: add_cidr_def parseCidrV4_def parseCidrV6_def covers_v4_def find_snoc masked_v4
        split: option.split)
qed

lemma registry_v4:
  "map_option v4_name (find (\<lambda>c. ipToInt ip AND v4_mask c = v4_base c)
     (fst (fold (\<lambda>(n, c). add_cidr k n c) flat reg))) =
   (case map_option v4_name (find (\<lambda>c. ipToInt ip AND v4_mask c = v4_base c) (fst reg)) of
      Some m \<Rightarrow> Some m
    | None \<Rightarrow> map_option fst (find (\<lambda>(n, c). covers_v4 k ip c) flat))"
proof (induction flat arbitrary: reg)
  case Nil
  then show ?case by (simp split: option.split)
next
  case (Cons x flat)
  obtain n c where x: "x = (n, c)" by (cases x)
  show ?case
    by (simp only: x fold.simps comp_def prod.case Cons.IH add_cidr_v4)
      (simp split: option.split)
qed

lemma add_cidr_v6:
  "map_option v6_name (find (\<lambda>c. ipv6ToBigint ip AND v6_mask c = v6_base c) (snd (add_cidr k n c reg))) =
   (case map_option v6_name (find (\<lambda>c. ipv6ToBigint ip AND v6_mask c = v6_base c) (snd reg)) of
      Some m \<Rightarrow> Some m | None \<Rightarrow> if covers_v6 k ip c then Some n else None)"
proof (cases "split_cidr c")
  case None
  then show ?thesis
    by (simp add: add_cidr_def parseCidrV4_def parseCidrV6_def covers_v6_def split: option.split)
next
  case (Some x)
  obtain i p where x: "x = (i, p)" by (cases x)
  show ?thesis
    using Some x
    by (cases "isIPv4 k i \<and> p \<le> 32"; cases "isIPv6 k i \<and> p \<le> 128")
      (auto simp: add_cidr_def parseCidrV4_def parseCidrV6_def covers_v6_def find_snoc masked_v6
        split: option.split)
qed

lemma registry_v6:
  "map_option v6_name (find (\<lambda>c. ipv6ToBigint ip AND v6_mask c = v6_base c)
     (snd (fold (\<lambda>(n, c). add_cidr k n c) flat reg))) =
   (case map_option v6_name (find (\<lambda>c. ipv6ToBigint ip AND v6_mask c = v6_base c) (snd reg)) of
      Some m \<Rightarrow> Some m
    | None \<Rightarrow> map_option fst (find (\<lambda>(n, c). covers_v6 k ip c) flat))"
proof (induction flat arbitrary: reg)
  case Nil
  then show ?case by (simp split: option.split)
next
  case (Cons x flat)
  obtain n c where x: "x = (n, c)" by (cases x)
  show ?case
    by (simp only: x fold.simps comp_def prod.case Cons.IH add_cidr_v6)
      (simp split: option.split)
qed

text \<open>C38. The registry of parking addresses answers by longest-standing range: for an address the
result is the name of the first range of the file, in its order, whose prefix the address shares,
IPv4 with IPv4 ranges and IPv6 with IPv6 ranges; masks and bases of 32 and 128 bits compute
exactly this, for every prefix length from none to all bits.\<close>

theorem parking_check_first_range:
  "checkIp k (new_registry k ranges) ip =
     (if isIPv4 k ip then map_option fst (find (\<lambda>(n, c). covers_v4 k ip c) (flat_ranges ranges))
      else if isIPv6 k ip then map_option fst (find (\<lambda>(n, c). covers_v6 k ip c) (flat_ranges ranges))
      else None)"
  unfolding checkIp_def new_registry_flat
  using registry_v4 [of ip k "flat_ranges ranges" "([], [])"]
    registry_v6 [of ip k "flat_ranges ranges" "([], [])"] by simp

section \<open>Which addresses a redirect can reach\<close>

definition PRIVATE_BLOCKS :: "(32 word \<times> nat) list" where
  "PRIVATE_BLOCKS = [(0x00000000, 8), (0x0A000000, 8), (0x7F000000, 8), (0xE0000000, 3),
     (0x64400000, 10), (0xA9FE0000, 16), (0xAC100000, 12), (0xC0A80000, 16), (0xC6120000, 15)]"

definition in_private_block :: "32 word \<Rightarrow> bool" where
  "in_private_block x = (\<exists>(b, p) \<in> set PRIVATE_BLOCKS. same_prefix p x b)"

lemma push_or_sum:
  fixes h l :: nat
  assumes "l < 2 ^ n"
  shows "push_bit n h OR l = h * 2 ^ n + l"
proof -
  have "push_bit n h AND l = 0"
  proof (rule bit_eqI)
    fix i assume "possible_bit TYPE(nat) i"
    have "l = take_bit n l" using assms by (simp add: take_bit_nat_eq_self)
    then have "bit l i \<Longrightarrow> i < n" by (metis bit_take_bit_iff)
    then show "bit (push_bit n h AND l) i = bit (0 :: nat) i" by (auto simp: bit_simps)
  qed
  then have "push_bit n h OR l = push_bit n h + l" by (simp add: disjunctive_add_eq_or)
  then show ?thesis by (simp add: push_bit_eq_mult)
qed

lemma unat_shifted:
  assumes "a < 256" "n \<le> 24"
  shows "unat (push_bit n (of_nat a) :: 32 word) = push_bit n a"
proof -
  have "push_bit n a = a * 2 ^ n" by (simp add: push_bit_eq_mult)
  also have "\<dots> \<le> 255 * 2 ^ n" using assms by simp
  also have "\<dots> \<le> 255 * 2 ^ 24" using assms(2) by (intro mult_le_mono2 power_increasing) auto
  finally have b: "push_bit n a < 2 ^ 32" by simp
  have "unat (push_bit n (of_nat a) :: 32 word) = unat (of_nat (push_bit n a) :: 32 word)"
    by (simp add: push_bit_eq_mult)
  then show ?thesis using b by (simp add: unsigned_of_nat take_bit_nat_eq_self)
qed

lemma or_is_sum:
  assumes "a < 256" "b < 256" "c < 256" "d < 256"
  shows "unat (push_bit 24 (of_nat a) OR push_bit 16 (of_nat b) OR push_bit 8 (of_nat c) OR of_nat d :: 32 word)
     = a * 2 ^ 24 + (b * 2 ^ 16 + (c * 2 ^ 8 + d))"
proof -
  have "unat (push_bit 24 (of_nat a) OR (push_bit 16 (of_nat b) OR (push_bit 8 (of_nat c) OR of_nat d)) :: 32 word)
     = push_bit 24 a OR (push_bit 16 b OR (push_bit 8 c OR d))"
    using assms unat_shifted [of a 24] unat_shifted [of b 16] unat_shifted [of c 8] unat_shifted [of d 0]
    by (simp add: unsigned_or_eq)
  also have "\<dots> = a * 2 ^ 24 + (b * 2 ^ 16 + (c * 2 ^ 8 + d))"
    using assms by (simp add: push_or_sum)
  finally show ?thesis by (simp add: ac_simps)
qed

lemma same_prefix_nat:
  fixes x y :: "32 word"
  shows "same_prefix p x y \<longleftrightarrow> unat x div 2 ^ (32 - p) = unat y div 2 ^ (32 - p)"
proof -
  have "unat (drop_bit n w) = unat w div 2 ^ n" for n and w :: "32 word"
    by (simp only: unat_drop_bit_eq) (rule drop_bit_eq_div)
  then show ?thesis by (simp only: same_prefix_def word_unat_eq_iff) simp
qed

lemma divmod_unique:
  fixes m :: nat
  assumes "r < m"
  shows "(m * q + r) div m = q" "(m * q + r) mod m = r"
  using assms by simp_all

lemma div_octets:
  fixes a b :: nat
  assumes "b < 256" "k * m = 256" "r < m"
  shows "(a * 256 + b) div k = m * h + r \<longleftrightarrow> a = h \<and> r * k \<le> b \<and> b < r * k + k"
proof -
  have k: "0 < k" and m: "0 < m" using assms(2,3) by (auto intro: Nat.gr0I)
  have "(a * m) * k = a * (k * m)" by (simp only: ac_simps)
  then have "a * 256 + b = b + (a * m) * k" by (simp only: assms(2) add.commute)
  then have "(a * 256 + b) div k = (b + (a * m) * k) div k" by (rule arg_cong)
  then have q: "(a * 256 + b) div k = m * a + b div k" using k by (simp only: div_mult_self1 mult.commute [of a m])
  have "b div k < m" using assms(1,2) by (simp add: less_mult_imp_div_less mult.commute)
  then have "m * a + b div k = m * h + r \<longleftrightarrow> a = h \<and> b div k = r"
    using assms(3) divmod_unique [of "b div k" m a] divmod_unique [of r m h] by metis
  moreover have "b div k = r \<longleftrightarrow> r * k \<le> b \<and> b < r * k + k"
    using k by (metis div_nat_eqI dividend_less_div_times div_times_less_eq_dividend mult.commute mult_Suc add.commute)
  ultimately show ?thesis using q by simp
qed

lemma block_shifts:
  "(32 - 8 :: nat) = 24" "(32 - 3 :: nat) = 29" "(32 - 10 :: nat) = 22" "(32 - 16 :: nat) = 16"
  "(32 - 12 :: nat) = 20" "(32 - 15 :: nat) = 17"
  by simp_all

lemma block_values:
  "unat (0 :: 32 word) div 2 ^ 24 = 0" "unat (0x0A000000 :: 32 word) div 2 ^ 24 = 10"
  "unat (0x7F000000 :: 32 word) div 2 ^ 24 = 127"
  "unat (0xE0000000 :: 32 word) div 2 ^ 29 = 7"
  "unat (0x64400000 :: 32 word) div 2 ^ 22 = 401"
  "unat (0xA9FE0000 :: 32 word) div 2 ^ 16 = 43518"
  "unat (0xAC100000 :: 32 word) div 2 ^ 20 = 2753"
  "unat (0xC0A80000 :: 32 word) div 2 ^ 16 = 49320"
  "unat (0xC6120000 :: 32 word) div 2 ^ 17 = 25353"
  by simp_all

lemma private_octets:
  fixes a b c d :: nat
  assumes "a < 256" "b < 256" "c < 256" "d < 256"
    and "unat x = a * 2 ^ 24 + (b * 2 ^ 16 + (c * 2 ^ 8 + d))"
  shows "in_private_block x \<longleftrightarrow> a = 0 \<or> a = 10 \<or> a = 127 \<or> a \<ge> 224
    \<or> (a = 100 \<and> b \<ge> 64 \<and> b \<le> 127) \<or> (a = 169 \<and> b = 254) \<or> (a = 172 \<and> b \<ge> 16 \<and> b \<le> 31)
    \<or> (a = 192 \<and> b = 168) \<or> (a = 198 \<and> (b = 18 \<or> b = 19))"
proof -
  have d24: "unat x div 2 ^ 24 = a" and d16: "unat x div 2 ^ 16 = a * 256 + b"
    using assms by simp_all
  have d29: "unat x div 2 ^ 29 = a div 32" using d24 div_mult2_eq [of "unat x" "2 ^ 24" 32] by simp
  have d22: "unat x div 2 ^ 22 = (a * 256 + b) div 64" using d16 div_mult2_eq [of "unat x" "2 ^ 16" 64] by simp
  have d20: "unat x div 2 ^ 20 = (a * 256 + b) div 16" using d16 div_mult2_eq [of "unat x" "2 ^ 16" 16] by simp
  have d17: "unat x div 2 ^ 17 = (a * 256 + b) div 2" using d16 div_mult2_eq [of "unat x" "2 ^ 16" 2] by simp
  have "same_prefix 8 x 0 \<longleftrightarrow> a = 0" "same_prefix 8 x 0x0A000000 \<longleftrightarrow> a = 10"
    "same_prefix 8 x 0x7F000000 \<longleftrightarrow> a = 127" "same_prefix 3 x 0xE0000000 \<longleftrightarrow> a div 32 = 7"
    "same_prefix 10 x 0x64400000 \<longleftrightarrow> (a * 256 + b) div 64 = 401"
    "same_prefix 16 x 0xA9FE0000 \<longleftrightarrow> a * 256 + b = 43518"
    "same_prefix 12 x 0xAC100000 \<longleftrightarrow> (a * 256 + b) div 16 = 2753"
    "same_prefix 16 x 0xC0A80000 \<longleftrightarrow> a * 256 + b = 49320"
    "same_prefix 15 x 0xC6120000 \<longleftrightarrow> (a * 256 + b) div 2 = 25353"
    by (simp_all only: same_prefix_nat block_shifts block_values d24 d29 d22 d16 d20 d17)
  then have "in_private_block x \<longleftrightarrow> a = 0 \<or> a = 10 \<or> a = 127 \<or> a div 32 = 7
    \<or> (a * 256 + b) div 64 = 401 \<or> a * 256 + b = 43518 \<or> (a * 256 + b) div 16 = 2753
    \<or> a * 256 + b = 49320 \<or> (a * 256 + b) div 2 = 25353"
    by (simp only: in_private_block_def PRIVATE_BLOCKS_def list.set bex_simps prod.case simp_thms)
  also have "\<dots> \<longleftrightarrow> a = 0 \<or> a = 10 \<or> a = 127 \<or> a \<ge> 224
    \<or> (a = 100 \<and> b \<ge> 64 \<and> b \<le> 127) \<or> (a = 169 \<and> b = 254) \<or> (a = 172 \<and> b \<ge> 16 \<and> b \<le> 31)
    \<or> (a = 192 \<and> b = 168) \<or> (a = 198 \<and> (b = 18 \<or> b = 19))"
  proof -
    have "a div 32 = 7 \<longleftrightarrow> a \<ge> 224" using assms(1) by linarith
    moreover have "(a * 256 + b) div 64 = 401 \<longleftrightarrow> a = 100 \<and> b \<ge> 64 \<and> b \<le> 127"
      using div_octets [OF assms(2), of 64 4 1 a 100] by auto
    moreover have "a * 256 + b = 43518 \<longleftrightarrow> a = 169 \<and> b = 254"
      using div_octets [OF assms(2), of 1 256 254 a 169] by auto
    moreover have "(a * 256 + b) div 16 = 2753 \<longleftrightarrow> a = 172 \<and> b \<ge> 16 \<and> b \<le> 31"
      using div_octets [OF assms(2), of 16 16 1 a 172] by auto
    moreover have "a * 256 + b = 49320 \<longleftrightarrow> a = 192 \<and> b = 168"
      using div_octets [OF assms(2), of 1 256 168 a 192] by auto
    moreover have "(a * 256 + b) div 2 = 25353 \<longleftrightarrow> a = 198 \<and> (b = 18 \<or> b = 19)"
      using div_octets [OF assms(2), of 2 128 9 a 198] by auto
    ultimately show ?thesis by argo
  qed
  finally show ?thesis .
qed

lemma private_v4_iff:
  assumes "parseIpv4 ip"
  shows "isPrivateIpv4 ip \<longleftrightarrow> in_private_block (ipToInt ip)"
proof -
  obtain p q r s where parts: "split_on (CHR ''.'') ip = [p, q, r, s]"
    using assms by (auto simp: parseIpv4_def Let_def length_Suc_conv eval_nat_numeral)
  have le: "dec_value p < 256" "dec_value q < 256" "dec_value r < 256" "dec_value s < 256"
    using assms by (auto simp: parseIpv4_def parts)
  have "unat (ipToInt ip) = dec_value p * 2 ^ 24 + (dec_value q * 2 ^ 16 + (dec_value r * 2 ^ 8 + dec_value s))"
    using or_is_sum [OF le] by (simp add: ipToInt_def parts)
  from private_octets [OF le this] show ?thesis
    using assms by (simp add: isPrivateIpv4_def parts Let_def)
qed

section \<open>Which targets pass\<close>

text \<open>The addresses the specification calls public, by their ranges.\<close>

definition reached :: "(string \<Rightarrow> string list option) \<Rightarrow> string \<Rightarrow> string list" where
  "reached lookup host =
     (if isIpLiteral (unbracket host) then [unbracket host]
      else case lookup (unbracket host) of None \<Rightarrow> [] | Some addresses \<Rightarrow> addresses)"

lemma guard_addresses:
  assumes "assertPublicHttpsUrl parse lookup url = None"
  shows "\<exists>host. parse url = Some (''https:'', host) \<and> reached lookup host \<noteq> []
    \<and> (\<forall>a \<in> set (reached lookup host). \<not> isPrivateIpAddress a)"
  using assms
  by (auto simp: assertPublicHttpsUrl_def reached_def Let_def filter_empty_conv
      split: option.splits prod.splits if_splits)

lemma split_on_digits:
  assumes "split_on d s = p # ps" "p \<noteq> []"
  shows "s \<noteq> [] \<and> hd s = hd p"
  using assms by (cases s) (auto split: if_splits list.splits)

lemma parseIpv4_not_mapped:
  assumes "parseIpv4 ip"
  shows "\<not> starts_with ip ''::ffff:''"
proof -
  obtain p ps where sp: "split_on (CHR ''.'') ip = p # ps"
    using split_on_nonempty by (meson list.exhaust)
  then have "octet p" using assms by (simp add: parseIpv4_def)
  then have "p \<noteq> []" "is_digit (hd p)" by (cases p, auto simp: octet_def list_all_iff)+
  then have "is_digit (hd ip)" "ip \<noteq> []" using split_on_digits [OF sp] by simp_all
  then show ?thesis by (cases ip) (auto simp: starts_with_def is_digit_def)
qed

lemma public_v4:
  assumes "parseIpv4 ip" "\<not> isPrivateIpAddress ip"
  shows "\<not> in_private_block (ipToInt ip)"
  using assms parseIpv4_not_mapped [OF assms(1)] private_v4_iff [OF assms(1)]
  by (simp add: isPrivateIpAddress_def)

lemma private_v6: "isPrivateIpAddress ''::''" "isPrivateIpAddress ''::1''"
  by code_simp+

text \<open>A redirect that the guard lets pass goes by HTTPS to a host with at least one address, and
every IPv4 address it can reach lies outside the nine blocks of private, loopback, link-local,
shared, benchmarking and reserved addresses; an IPv4 address mapped into IPv6 in its dotted form is
held to the same blocks, and no address reached is the unspecified or the loopback address of IPv6.\<close>

theorem redirect_targets_public:
  assumes "assertPublicHttpsUrl parse lookup url = None"
  shows "\<exists>host. parse url = Some (''https:'', host) \<and> reached lookup host \<noteq> []
    \<and> (\<forall>a \<in> set (reached lookup host).
          (parseIpv4 a \<longrightarrow> \<not> in_private_block (ipToInt a))
        \<and> (starts_with a ''::ffff:'' \<and> parseIpv4 (drop 7 a) \<longrightarrow> \<not> in_private_block (ipToInt (drop 7 a)))
        \<and> a \<noteq> ''::'' \<and> a \<noteq> ''::1'')"
proof -
  obtain host where h: "parse url = Some (''https:'', host)" "reached lookup host \<noteq> []"
    "\<forall>a \<in> set (reached lookup host). \<not> isPrivateIpAddress a"
    using guard_addresses [OF assms] by blast
  have quad: "parseIpv4 s \<Longrightarrow> dotted_quad s" for s
    by (simp add: parseIpv4_def dotted_quad_def Let_def list_all_iff)
  have "(parseIpv4 a \<longrightarrow> \<not> in_private_block (ipToInt a))
        \<and> (starts_with a ''::ffff:'' \<and> parseIpv4 (drop 7 a) \<longrightarrow> \<not> in_private_block (ipToInt (drop 7 a)))
        \<and> a \<noteq> ''::'' \<and> a \<noteq> ''::1''"
    if "\<not> isPrivateIpAddress a" for a
  proof (intro conjI impI)
    assume "parseIpv4 a"
    then show "\<not> in_private_block (ipToInt a)" using that by (rule public_v4)
  next
    assume m: "starts_with a ''::ffff:'' \<and> parseIpv4 (drop 7 a)"
    then have "\<not> isPrivateIpv4 (drop 7 a)"
      using that quad [of "drop 7 a"] by (simp add: isPrivateIpAddress_def)
    then show "\<not> in_private_block (ipToInt (drop 7 a))"
      using m private_v4_iff by blast
  next
    show "a \<noteq> ''::''" using that private_v6 by blast
  next
    show "a \<noteq> ''::1''" using that private_v6 by blast
  qed
  with h show ?thesis by blast
qed

theorem redirect_targets_public_witness:
  "\<exists>host. Some (''https:'', ''rdap.example.org'') = Some (''https:'', host)
    \<and> reached (\<lambda>h. Some [''93.184.216.34'']) host \<noteq> []
    \<and> (\<forall>a \<in> set (reached (\<lambda>h. Some [''93.184.216.34'']) host).
          (parseIpv4 a \<longrightarrow> \<not> in_private_block (ipToInt a))
        \<and> (starts_with a ''::ffff:'' \<and> parseIpv4 (drop 7 a) \<longrightarrow> \<not> in_private_block (ipToInt (drop 7 a)))
        \<and> a \<noteq> ''::'' \<and> a \<noteq> ''::1'')"
proof -
  have "assertPublicHttpsUrl (\<lambda>u. Some (''https:'', ''rdap.example.org''))
      (\<lambda>h. Some [''93.184.216.34'']) ''https://rdap.example.org/'' = None"
    by code_simp
  from redirect_targets_public [OF this] show ?thesis .
qed

text \<open>
  The URL parser writes the host of \<open>https://[::ffff:127.0.0.1]/\<close> as \<open>[::ffff:7f00:1]\<close>, which the
  guard takes for a public address.
\<close>

theorem guard_misses_mapped_hex:
  "assertPublicHttpsUrl (\<lambda>u. Some (''https:'', ''[::ffff:7f00:1]'')) lookup url = None
   \<and> drop_bit 32 (ipv6ToBigint ''::ffff:7f00:1'') = (0xFFFF :: 128 word)
   \<and> in_private_block (ucast (ipv6ToBigint ''::ffff:7f00:1''))"
proof (intro conjI)
  have "unbracket ''[::ffff:7f00:1]'' = ''::ffff:7f00:1''" "isIpLiteral ''::ffff:7f00:1''"
    "\<not> isPrivateIpAddress ''::ffff:7f00:1''"
    by code_simp+
  then show "assertPublicHttpsUrl (\<lambda>u. Some (''https:'', ''[::ffff:7f00:1]'')) lookup url = None"
    by (simp add: assertPublicHttpsUrl_def)
next
  have groups: "map (\<lambda>g. hex_value (takeWhile is_hex g)) (ipv6_groups ''::ffff:7f00:1'')
      = [0, 0, 0, 0, 0, 0xFFFF, 0x7F00, 1]"
  proof -
    have "map (takeWhile is_hex) (ipv6_groups ''::ffff:7f00:1'')
        = [''0'', ''0'', ''0'', ''0'', ''0'', ''ffff'', ''7f00'', ''1'']" by code_simp
    then have "map hex_value (map (takeWhile is_hex) (ipv6_groups ''::ffff:7f00:1''))
        = map hex_value [''0'', ''0'', ''0'', ''0'', ''0'', ''ffff'', ''7f00'', ''1'']" by (rule arg_cong)
    moreover have "\<dots> = [0, 0, 0, 0, 0, 0xFFFF, 0x7F00, 1]"
      by (simp add: hex_value_def hex_digit_value_def digit_value_def is_digit_def char_to_lower_def is_upper_def of_char_def)
    ultimately show ?thesis by (simp add: comp_def)
  qed
  have "ipv6ToBigint ip = fold (\<lambda>v n. push_bit 16 n OR of_nat v)
      (map (\<lambda>g. hex_value (takeWhile is_hex g)) (ipv6_groups ip)) 0" for ip
    by (simp add: ipv6ToBigint_def fold_map comp_def)
  then have v: "ipv6ToBigint ''::ffff:7f00:1'' = 0xFFFF7F000001"
    by (simp add: groups push_bit_eq_mult)
  show "drop_bit 32 (ipv6ToBigint ''::ffff:7f00:1'') = (0xFFFF :: 128 word)" by (simp add: v)
  have "ucast (0xFFFF7F000001 :: 128 word) = (0x7F000001 :: 32 word)" by simp
  moreover have "in_private_block 0x7F000001"
    using private_octets [of 127 0 0 1 "0x7F000001"] by simp
  ultimately show "in_private_block (ucast (ipv6ToBigint ''::ffff:7f00:1''))" by (simp only: v)
qed

end
