(* ===== verification/RdapServers.thy ===== *)
theory RdapServers
  imports RdapStage IpRanges CircuitBreaker
begin

text \<open>
  The RDAP servers: one server (\<open>src/providers/rdap/public-rdap-provider.ts\<close>), the registry of
  authoritative servers (\<open>src/providers/rdap/rdap-bootstrap.ts\<close>) and the race between servers
  with one circuit breaker each (\<open>src/providers/rdap/failover-rdap-provider.ts\<close>).

  HTTP, the URL parser, the name resolution, \<open>encodeURIComponent\<close>, \<open>JSON.parse\<close>, the public
  suffix list and the end of a wait before the abort signal are parameters (\<open>server_env\<close>,
  \<open>call_env\<close>). The servers of a race run side by side and share no state but the abort signal;
  a race is modelled by the outcome each of them settles with, an abort included. The breakers
  are the in-memory ones. Telemetry, logging and the status listeners are left out.
\<close>

section \<open>One server\<close>

subsection \<open>Premium names\<close>

datatype rdap_entity = Entity (en_roles: "string list") (en_entities: "rdap_entity list")

record rdap_notice =
  nt_title :: "string option"
  nt_description :: "string list"

text \<open>A missing list is the empty list: the code treats both alike.\<close>

record rdap_data =
  rr_status :: "string list"
  rr_notices :: "rdap_notice list"
  rr_events :: "string option list"
  rr_entities :: "rdap_entity list"

definition word_char :: "char \<Rightarrow> bool" where
  "word_char c = (is_digit c \<or> is_lower c \<or> is_upper c \<or> c = CHR ''_'')"

text \<open>The words of a pattern one after the other with \<open>\s+\<close> between them, and \<open>\b\<close> at the end.\<close>

fun phrase_at :: "string list \<Rightarrow> string \<Rightarrow> bool" where
  "phrase_at [] s = (s = [] \<or> \<not> word_char (hd s))"
| "phrase_at (w # ws) s =
     (starts_with (to_lower s) w \<and>
      (let r = drop (length w) s
       in if ws = [] then phrase_at [] r
          else r \<noteq> [] \<and> is_space (hd r) \<and> phrase_at ws (dropWhile is_space r)))"

fun phrase_from :: "string list \<Rightarrow> bool \<Rightarrow> string \<Rightarrow> bool" where
  "phrase_from ws after_word [] = False"
| "phrase_from ws after_word (c # s) =
     ((\<not> after_word \<and> phrase_at ws (c # s)) \<or> phrase_from ws (word_char c) s)"

definition PREMIUM_PHRASES :: "string list list" where
  "PREMIUM_PHRASES = [[''premium'', ''domain''], [''premium'', ''registration''], [''premium'', ''listing''],
     [''premium'', ''name''], [''premium'', ''price''], [''this'', ''is'', ''a'', ''premium'']]"

definition premium_text :: "string \<Rightarrow> bool" where
  "premium_text s =
     (phrase_at [''premium''] s \<or> list_ex (\<lambda>ws. phrase_from ws False s) PREMIUM_PHRASES)"

fun scanEntities :: "rdap_entity list \<Rightarrow> bool" where
  "scanEntities [] = False"
| "scanEntities (Entity roles sub # es) =
     (list_ex premium_text roles \<or> scanEntities sub \<or> scanEntities es)"

definition detectPremium :: "rdap_data \<Rightarrow> bool" where
  "detectPremium d =
     (list_ex premium_text (rr_status d)
      \<or> list_ex (\<lambda>n. (case nt_title n of Some t \<Rightarrow> premium_text t | None \<Rightarrow> False)
                       \<or> list_ex premium_text (nt_description n)) (rr_notices d)
      \<or> list_ex (\<lambda>e. case e of Some a \<Rightarrow> premium_text a | None \<Rightarrow> False) (rr_events d)
      \<or> scanEntities (rr_entities d))"

subsection \<open>Requests and redirects\<close>

text \<open>The body: without a stream its text, or its chunks and how the reading ends after them.\<close>

datatype read_end = ReadDone | ReadAborted | ReadFails

datatype http_body = NoStream string | Chunks "string list" read_end

record http_response =
  hr_status :: nat
  hr_location :: "string option"
  hr_retryAfter :: "string option"
  hr_contentLength :: "real option"
  hr_body :: http_body

datatype fetch_result = Fetched http_response | FetchFails | FetchAborted

datatype confirm_error = LimiterFailed | RequestFailed | TooManyHops | BadLocation
  | RedirectRefused guard_error | RateLimited int | BodyTooLarge | BadBody | NoTld | ConfirmAborted

text \<open>\<open>fetchWithAgent n\<close> is the answer to the request after \<open>n\<close> redirects.\<close>

record server_env =
  limiterGrants :: bool
  fetchWithAgent :: "nat \<Rightarrow> string \<Rightarrow> fetch_result"
  resolveUrl :: "string \<Rightarrow> string \<Rightarrow> string option"
  parseUrl :: "string \<Rightarrow> (string \<times> string) option"
  lookupHost :: "string \<Rightarrow> string list option"
  waitEnds :: "int \<Rightarrow> bool"
  parseBody :: "string \<Rightarrow> rdap_data option"
  encodeURIComponent :: "string \<Rightarrow> string"
  originOf :: "string \<Rightarrow> string option"
  pslParse :: "string \<Rightarrow> psl_result"

record public_server =
  ps_name :: string
  ps_baseUrl :: string
  ps_tlds :: "string list option"
  ps_maxResponseBytes :: nat

definition with_slash :: "string \<Rightarrow> string" where
  "with_slash url = (if ends_with url ''/'' then url else url @ ''/'')"

definition without_dot :: "string \<Rightarrow> string" where
  "without_dot t = (if starts_with t ''.'' then tl t else t)"

definition new_server :: "string \<Rightarrow> string \<Rightarrow> string list option \<Rightarrow> nat \<Rightarrow> public_server" where
  "new_server url nm tlds bytes =
     \<lparr>ps_name = nm, ps_baseUrl = with_slash url,
      ps_tlds = map_option (map (\<lambda>t. without_dot (to_lower t))) tlds, ps_maxResponseBytes = bytes\<rparr>"

text \<open>\<open>None\<close>: the public suffix list throws.\<close>

definition servesTld :: "(string \<Rightarrow> psl_result) \<Rightarrow> public_server \<Rightarrow> string \<Rightarrow> bool option" where
  "servesTld psl s d =
     (case ps_tlds s of
        None \<Rightarrow> Some True
      | Some ts \<Rightarrow> map_option (\<lambda>t. without_dot t \<in> set ts) (extractTld psl d))"

definition MAX_REDIRECT_HOPS :: nat where "MAX_REDIRECT_HOPS = 2"

text \<open>Whatever the fetch throws becomes the same provider error.\<close>

definition fetchRaw :: "server_env \<Rightarrow> nat \<Rightarrow> string \<Rightarrow> confirm_error + http_response" where
  "fetchRaw env n url =
     (case fetchWithAgent env n url of
        Fetched r \<Rightarrow> Inr r | FetchFails \<Rightarrow> Inl RequestFailed | FetchAborted \<Rightarrow> Inl RequestFailed)"

definition is_redirect :: "http_response \<Rightarrow> bool" where
  "is_redirect r = (hr_status r \<ge> 300 \<and> hr_status r < 400)"

text \<open>Where a redirect leads: \<open>None\<close> without a location.\<close>

definition next_url :: "server_env \<Rightarrow> string \<Rightarrow> http_response \<Rightarrow> confirm_error + string option" where
  "next_url env url r =
     (case hr_location r of
        None \<Rightarrow> Inr None
      | Some l \<Rightarrow>
          (case resolveUrl env l url of
             None \<Rightarrow> Inl BadLocation
           | Some nextUrl \<Rightarrow>
               (case assertPublicHttpsUrl (parseUrl env) (lookupHost env) nextUrl of
                  Some e \<Rightarrow> Inl (RedirectRefused e)
                | None \<Rightarrow> Inr (Some nextUrl))))"

text \<open>The loop, by the redirects that are still allowed.\<close>

fun follow :: "server_env \<Rightarrow> nat \<Rightarrow> string \<Rightarrow> confirm_error + http_response" where
  "follow env 0 url =
     (case fetchRaw env MAX_REDIRECT_HOPS url of
        Inl e \<Rightarrow> Inl e
      | Inr r \<Rightarrow> if is_redirect r then Inl TooManyHops else Inr r)"
| "follow env (Suc left) url =
     (case fetchRaw env (MAX_REDIRECT_HOPS - Suc left) url of
        Inl e \<Rightarrow> Inl e
      | Inr r \<Rightarrow>
          if \<not> is_redirect r then Inr r
          else (case next_url env url r of
                  Inl e \<Rightarrow> Inl e
                | Inr None \<Rightarrow> Inr r
                | Inr (Some nextUrl) \<Rightarrow> follow env left nextUrl))"

text \<open>The addresses the loop sends a request to.\<close>

fun requested :: "server_env \<Rightarrow> nat \<Rightarrow> string \<Rightarrow> string list" where
  "requested env 0 url = [url]"
| "requested env (Suc left) url =
     url # (case fetchRaw env (MAX_REDIRECT_HOPS - Suc left) url of
              Inl e \<Rightarrow> []
            | Inr r \<Rightarrow>
                if \<not> is_redirect r then []
                else (case next_url env url r of
                        Inr (Some nextUrl) \<Rightarrow> requested env left nextUrl
                      | _ \<Rightarrow> []))"

subsection \<open>The answer\<close>

definition parse_int :: "string \<Rightarrow> int option" where
  "parse_int s =
     (let t = dropWhile is_space s;
          sign = (case t of [] \<Rightarrow> 1 | c # _ \<Rightarrow> if c = CHR ''-'' then - 1 else 1);
          u = (case t of [] \<Rightarrow> [] | c # r \<Rightarrow> if c \<in> {CHR ''-'', CHR ''+''} then r else t);
          digits = takeWhile is_digit u
      in if digits = [] then None else Some (sign * int (dec_value digits)))"

definition retry_wait :: "string option \<Rightarrow> int" where
  "retry_wait h =
     min (case Option.bind h parse_int of None \<Rightarrow> 5000 | Some n \<Rightarrow> n * 1000) 30000"

fun read_chunks :: "nat \<Rightarrow> nat \<Rightarrow> string list \<Rightarrow> read_end \<Rightarrow> confirm_error + string" where
  "read_chunks cap received [] fin =
     (case fin of ReadDone \<Rightarrow> Inr [] | ReadAborted \<Rightarrow> Inl ConfirmAborted | ReadFails \<Rightarrow> Inl BadBody)"
| "read_chunks cap received (c # cs) fin =
     (if received + length c > cap then Inl BodyTooLarge
      else case read_chunks cap (received + length c) cs fin of
             Inl e \<Rightarrow> Inl e | Inr s \<Rightarrow> Inr (c @ s))"

definition readBody :: "nat \<Rightarrow> http_response \<Rightarrow> confirm_error + string" where
  "readBody cap r =
     (if (case hr_contentLength r of Some n \<Rightarrow> n > real cap | None \<Rightarrow> False) then Inl BodyTooLarge
      else case hr_body r of
             NoStream s \<Rightarrow> Inr s
           | Chunks cs fin \<Rightarrow> read_chunks cap 0 cs fin)"

definition plain_answer :: "domain_status \<Rightarrow> bool \<Rightarrow> rdap_answer" where
  "plain_answer st premium =
     \<lparr>ra_status = st, ra_premium = premium, ra_registrar = None, ra_expiresAt = None,
      ra_sourceOrigin = None\<rparr>"

definition judge_response ::
    "server_env \<Rightarrow> public_server \<Rightarrow> string \<Rightarrow> http_response \<Rightarrow> confirm_error + rdap_answer" where
  "judge_response env s d r =
     (if hr_status r = 429 then
        (let capped = retry_wait (hr_retryAfter r)
         in if waitEnds env capped then Inl (RateLimited capped) else Inl ConfirmAborted)
      else if hr_status r = 404 then
        (case servesTld (pslParse env) s d of
           None \<Rightarrow> Inl NoTld
         | Some True \<Rightarrow> Inr (plain_answer Available False)
         | Some False \<Rightarrow> Inr (plain_answer Unknown False))
      else if \<not> (hr_status r \<ge> 200 \<and> hr_status r < 300) then Inr (plain_answer Unknown False)
      else (case readBody (ps_maxResponseBytes s) r of
              Inl e \<Rightarrow> Inl e
            | Inr t \<Rightarrow>
                (case parseBody env t of
                   None \<Rightarrow> Inl BadBody
                 | Some data \<Rightarrow> Inr (plain_answer Registered (detectPremium data)))))"

definition initialUrl :: "server_env \<Rightarrow> public_server \<Rightarrow> string \<Rightarrow> string" where
  "initialUrl env s d = ps_baseUrl s @ encodeURIComponent env d"

definition doConfirm :: "server_env \<Rightarrow> public_server \<Rightarrow> string \<Rightarrow> confirm_error + rdap_answer" where
  "doConfirm env s d =
     (case follow env MAX_REDIRECT_HOPS (initialUrl env s d) of
        Inl e \<Rightarrow> Inl e
      | Inr r \<Rightarrow> judge_response env s d r)"

definition confirm_server :: "server_env \<Rightarrow> public_server \<Rightarrow> string \<Rightarrow> confirm_error + rdap_answer" where
  "confirm_server env s d =
     (if \<not> limiterGrants env then Inl LimiterFailed
      else case doConfirm env s d of
             Inl e \<Rightarrow> Inl e
           | Inr a \<Rightarrow>
               (case originOf env (ps_baseUrl s) of
                  Some g \<Rightarrow> if ra_sourceOrigin a = None then Inr (a\<lparr>ra_sourceOrigin := Some g\<rparr>) else Inr a
                | None \<Rightarrow> Inr a))"

section \<open>The registry of authoritative servers\<close>

record bootstrap_server =
  bs_name :: string
  bs_baseUrl :: string
  bs_tlds :: "string list"

definition RDAP_ORG_UNIVERSAL :: bootstrap_server where
  "RDAP_ORG_UNIVERSAL =
     \<lparr>bs_name = ''rdap.org'', bs_baseUrl = ''https://rdap.org/domain/'', bs_tlds = []\<rparr>"

text \<open>\<open>hostname\<close> is the host of a URL, \<open>None\<close> when it does not parse.\<close>

definition toServer :: "(string \<Rightarrow> string option) \<Rightarrow> string \<Rightarrow> string \<Rightarrow> bootstrap_server" where
  "toServer hostname url zone =
     \<lparr>bs_name = (case hostname (with_slash url) of Some h \<Rightarrow> h | None \<Rightarrow> ''iana-rdap''),
      bs_baseUrl = with_slash url, bs_tlds = [zone]\<rparr>"

type_synonym iana_service = "string list \<times> string list"
type_synonym server_map = "string \<Rightarrow> bootstrap_server list option"

definition put_tld ::
    "(string \<Rightarrow> string option) \<Rightarrow> string list \<Rightarrow> string \<Rightarrow> server_map \<Rightarrow> server_map" where
  "put_tld hostname urls rawTld m =
     (let zone = to_lower (without_dot rawTld);
          servers = map (\<lambda>u. toServer hostname u zone) urls
      in m(zone \<mapsto> (case m zone of Some old \<Rightarrow> old | None \<Rightarrow> []) @ servers))"

definition build_cache :: "(string \<Rightarrow> string option) \<Rightarrow> iana_service list \<Rightarrow> server_map" where
  "build_cache hostname services =
     fold (\<lambda>(ldhNames, urls) m. if urls = [] then m else fold (put_tld hostname urls) ldhNames m)
       services Map.empty"

record iana_bootstrap =
  ib_ttlMs :: ms
  ib_retryBaseMs :: ms
  ib_retryMaxMs :: ms
  ib_cache :: server_map
  ib_lastSuccessAt :: ms
  ib_nextRetryAt :: ms
  ib_failures :: nat
  ib_lastError :: "string option"

definition new_bootstrap :: "ms \<Rightarrow> ms \<Rightarrow> ms \<Rightarrow> iana_bootstrap" where
  "new_bootstrap ttl base mx =
     \<lparr>ib_ttlMs = ttl, ib_retryBaseMs = base, ib_retryMaxMs = mx, ib_cache = Map.empty,
      ib_lastSuccessAt = 0, ib_nextRetryAt = 0, ib_failures = 0, ib_lastError = None\<rparr>"

text \<open>What the fetch of the registry brings: the services, or the message of the error.\<close>

record boot_fetch =
  bf_hostname :: "string \<Rightarrow> string option"
  bf_result :: "string + iana_service list"

definition fetch_bootstrap :: "ms \<Rightarrow> boot_fetch \<Rightarrow> iana_bootstrap \<Rightarrow> iana_bootstrap" where
  "fetch_bootstrap now f b =
     (case bf_result f of
        Inr services \<Rightarrow>
          b\<lparr>ib_cache := build_cache (bf_hostname f) services, ib_lastSuccessAt := now,
            ib_failures := 0, ib_nextRetryAt := 0, ib_lastError := None\<rparr>
      | Inl e \<Rightarrow>
          (let n = ib_failures b + 1; delay = min (ib_retryMaxMs b) (ib_retryBaseMs b * 2 ^ (n - 1))
           in b\<lparr>ib_failures := n, ib_nextRetryAt := now + delay, ib_lastError := Some e\<rparr>))"

record bootstrap_status =
  st_ok :: bool
  st_consecutiveFailures :: nat
  st_lastSuccessAt :: "ms option"
  st_nextRetryAt :: "ms option"
  st_lastError :: "string option"

definition boot_getStatus :: "iana_bootstrap \<Rightarrow> bootstrap_status" where
  "boot_getStatus b =
     \<lparr>st_ok = (ib_failures b = 0), st_consecutiveFailures = ib_failures b,
      st_lastSuccessAt = (if ib_lastSuccessAt b > 0 then Some (ib_lastSuccessAt b) else None),
      st_nextRetryAt = (if ib_nextRetryAt b > 0 then Some (ib_nextRetryAt b) else None),
      st_lastError = ib_lastError b\<rparr>"

text \<open>
  The three ways through \<open>#refreshIfStale\<close>; \<open>inFlight\<close> says whether a refresh is running, which
  is then awaited for at most the budget of a second.
\<close>

datatype refresh_choice = KeepServing | AwaitRunning | RefreshNow

definition refreshIfStale :: "ms \<Rightarrow> bool \<Rightarrow> iana_bootstrap \<Rightarrow> refresh_choice" where
  "refreshIfStale now inFlight b =
     (if ib_lastSuccessAt b \<noteq> 0 \<and> now - ib_lastSuccessAt b < ib_ttlMs b then KeepServing
      else if now < ib_nextRetryAt b then KeepServing
      else if inFlight then AwaitRunning
      else RefreshNow)"

definition serve_tld :: "string \<Rightarrow> iana_bootstrap \<Rightarrow> bootstrap_server list" where
  "serve_tld zone b =
     (case ib_cache b (without_dot (to_lower zone)) of
        Some cached \<Rightarrow>
          cached @ (if list_ex (\<lambda>s. bs_baseUrl s = bs_baseUrl RDAP_ORG_UNIVERSAL) cached then []
                    else [RDAP_ORG_UNIVERSAL])
      | None \<Rightarrow> [RDAP_ORG_UNIVERSAL])"

text \<open>
  What goes on around a call: the clock, the outcome of a refresh that is running and ends within
  the budget (\<open>Some\<close>) or does not (\<open>Some None\<close> for running without end), and what a fetch of its
  own would bring.
\<close>

record boot_env =
  be_now :: ms
  be_fetchedAt :: ms
  be_running :: "boot_fetch option option"
  be_own :: boot_fetch

definition getServers ::
    "boot_env \<Rightarrow> string \<Rightarrow> iana_bootstrap \<Rightarrow> bootstrap_server list \<times> iana_bootstrap" where
  "getServers e zone b =
     (let b' = (case refreshIfStale (be_now e) (be_running e \<noteq> None) b of
                  KeepServing \<Rightarrow> b
                | AwaitRunning \<Rightarrow>
                    (case be_running e of
                       Some (Some f) \<Rightarrow> fetch_bootstrap (be_fetchedAt e) f b
                     | _ \<Rightarrow> b)
                | RefreshNow \<Rightarrow> fetch_bootstrap (be_fetchedAt e) (be_own e) b)
      in (serve_tld zone b', b'))"

section \<open>The race\<close>

definition PER_TLD_CAP :: nat where "PER_TLD_CAP = 512"
definition INTRARUN_CAP :: nat where "INTRARUN_CAP = 100000"
definition INTRARUN_TTL_MS :: ms where "INTRARUN_TTL_MS = 60000"

text \<open>A \<open>Map\<close> in insertion order: setting a key it holds keeps its place.\<close>

fun map_put :: "string \<Rightarrow> 'v \<Rightarrow> (string \<times> 'v) list \<Rightarrow> (string \<times> 'v) list" where
  "map_put k v [] = [(k, v)]"
| "map_put k v ((k', v') # m) = (if k' = k then (k, v) # m else (k', v') # map_put k v m)"

definition fifo_put :: "nat \<Rightarrow> string \<Rightarrow> 'v \<Rightarrow> (string \<times> 'v) list \<Rightarrow> (string \<times> 'v) list" where
  "fifo_put cap k v m = map_put k v (if length m \<ge> cap then tl m else m)"

record failover =
  fo_providers :: "public_server list"
  fo_policy :: breaker_policy
  fo_bootstrap :: "iana_bootstrap option"
  fo_maxBytes :: nat
  fo_breakers :: "string \<Rightarrow> breaker option"
  fo_perTld :: "(string \<times> public_server list) list"
  fo_cache :: "(string \<times> rdap_answer \<times> ms) list"

definition new_failover ::
    "public_server list \<Rightarrow> breaker_policy \<Rightarrow> iana_bootstrap option \<Rightarrow> nat \<Rightarrow> failover" where
  "new_failover providers policy boot bytes =
     \<lparr>fo_providers = providers, fo_policy = policy, fo_bootstrap = boot, fo_maxBytes = bytes,
      fo_breakers = (\<lambda>n. if n \<in> ps_name ` set providers then Some new_breaker else None),
      fo_perTld = [], fo_cache = []\<rparr>"

definition withDefaults :: "breaker_policy \<Rightarrow> iana_bootstrap option \<Rightarrow> nat \<Rightarrow> failover" where
  "withDefaults policy boot bytes =
     new_failover [new_server (bs_baseUrl RDAP_ORG_UNIVERSAL) (bs_name RDAP_ORG_UNIVERSAL) None bytes]
       policy boot bytes"

text \<open>\<open>rdap-server-1\<close>, \<open>rdap-server-2\<close>, \<dots>; \<open>show_nat\<close> writes a number.\<close>

definition fromConfig ::
    "(nat \<Rightarrow> string) \<Rightarrow> (string \<times> string list option) list \<Rightarrow> breaker_policy \<Rightarrow> nat \<Rightarrow> failover" where
  "fromConfig show_nat urls policy bytes =
     new_failover
       (map (\<lambda>(i, url, tlds). new_server url (''rdap-server-'' @ show_nat (i + 1)) tlds bytes)
          (enumerate 0 urls))
       policy None bytes"

definition clearCache :: "failover \<Rightarrow> failover" where
  "clearCache st = st\<lparr>fo_cache := []\<rparr>"

fun add_servers ::
    "nat \<Rightarrow> bootstrap_server list \<Rightarrow> string list \<Rightarrow> (string \<Rightarrow> breaker option)
     \<Rightarrow> public_server list \<times> (string \<Rightarrow> breaker option)" where
  "add_servers bytes [] seen B = ([], B)"
| "add_servers bytes (s # ss) seen B =
     (if bs_name s \<in> set seen then add_servers bytes ss seen B
      else
        let B' = (case B (bs_name s) of Some _ \<Rightarrow> B | None \<Rightarrow> B(bs_name s \<mapsto> new_breaker));
            p = new_server (bs_baseUrl s) (bs_name s) (if bs_tlds s \<noteq> [] then Some (bs_tlds s) else None) bytes;
            (ps, B'') = add_servers bytes ss (bs_name s # seen) B'
        in (p # ps, B''))"

record call_env =
  ce_now :: ms
  ce_settled :: ms
  ce_aborted :: bool
  ce_psl :: "string \<Rightarrow> psl_result"
  ce_boot :: boot_env
  ce_server :: "string \<Rightarrow> server_env"
  ce_lost :: "string \<Rightarrow> bool"

text \<open>\<open>None\<close>: the public suffix list throws.\<close>

definition providersFor :: "call_env \<Rightarrow> string \<Rightarrow> failover \<Rightarrow> public_server list option \<times> failover" where
  "providersFor e d st =
     (case fo_bootstrap st of
        None \<Rightarrow> (Some (fo_providers st), st)
      | Some boot \<Rightarrow>
          (case extractTld (ce_psl e) d of
             None \<Rightarrow> (None, st)
           | Some rawTld \<Rightarrow>
               let zone = without_dot rawTld in
               (case map_of (fo_perTld st) zone of
                  Some cached \<Rightarrow> (Some cached, st)
                | None \<Rightarrow>
                    let (servers, boot') = getServers (ce_boot e) zone boot;
                        (extra, B) = add_servers (fo_maxBytes st) servers
                                       (map ps_name (fo_providers st)) (fo_breakers st);
                        providers = fo_providers st @ extra
                    in (Some providers,
                        st\<lparr>fo_bootstrap := Some boot', fo_breakers := B,
                           fo_perTld := fifo_put PER_TLD_CAP zone providers (fo_perTld st)\<rparr>))))"

text \<open>One server of the race: \<open>ce_lost\<close> when the race is decided before its request is sent.\<close>

definition race_outcome :: "call_env \<Rightarrow> string \<Rightarrow> public_server \<Rightarrow> confirm_error + rdap_answer" where
  "race_outcome e d p =
     (if ce_lost e (ps_name p) then Inl ConfirmAborted
      else confirm_server (ce_server e (ps_name p)) p d)"

definition settle_breaker ::
    "breaker_policy \<Rightarrow> ms \<Rightarrow> confirm_error + rdap_answer \<Rightarrow> breaker \<Rightarrow> breaker" where
  "settle_breaker pol now out b =
     (case out of
        Inr _ \<Rightarrow> onSuccess b
      | Inl err \<Rightarrow> if err = ConfirmAborted then b else onFailure pol now b)"

text \<open>Whether a server is asked, and the breakers after it settled.\<close>

definition ask_server ::
    "call_env \<Rightarrow> breaker_policy \<Rightarrow> confirm_error + rdap_answer \<Rightarrow> string \<Rightarrow> (string \<Rightarrow> breaker option)
     \<Rightarrow> bool \<times> (string \<Rightarrow> breaker option)" where
  "ask_server e pol out n B =
     (case B n of
        None \<Rightarrow> (True, B)
      | Some b \<Rightarrow>
          let (ok, b1) = allow pol (ce_now e) b
          in (ok, B(n \<mapsto> (if ok then settle_breaker pol (ce_settled e) out b1 else b1))))"

text \<open>The servers in their order; \<open>None\<close> for one whose circuit is open.\<close>

fun race ::
    "call_env \<Rightarrow> breaker_policy \<Rightarrow> string \<Rightarrow> public_server list \<Rightarrow> (string \<Rightarrow> breaker option)
     \<Rightarrow> (public_server \<times> (confirm_error + rdap_answer) option) list \<times> (string \<Rightarrow> breaker option)" where
  "race e pol d [] B = ([], B)"
| "race e pol d (p # ps) B =
     (let out = race_outcome e d p;
          (asked, B') = ask_server e pol out (ps_name p) B;
          (rest, B'') = race e pol d ps B'
      in ((p, if asked then Some out else None) # rest, B''))"

definition answers_of :: "(public_server \<times> (confirm_error + rdap_answer) option) list \<Rightarrow> rdap_answer list" where
  "answers_of outs = List.map_filter (\<lambda>(p, u). case u of Some (Inr a) \<Rightarrow> Some a | _ \<Rightarrow> None) outs"

text \<open>The first definitive answer, else the first unknown one.\<close>

definition choose_answer :: "rdap_answer list \<Rightarrow> rdap_answer option" where
  "choose_answer as =
     (case find (\<lambda>a. ra_status a \<noteq> Unknown) as of
        Some a \<Rightarrow> Some a
      | None \<Rightarrow> (case as of [] \<Rightarrow> None | a # _ \<Rightarrow> Some a))"

datatype failover_error = CallAborted | TldUnreadable | AllServersFailed

definition confirm_fresh ::
    "call_env \<Rightarrow> string \<Rightarrow> failover \<Rightarrow> (failover_error + rdap_answer) \<times> failover" where
  "confirm_fresh e d st =
     (case providersFor e d st of
        (None, st1) \<Rightarrow> (Inl TldUnreadable, st1)
      | (Some ps, st1) \<Rightarrow>
          let (outs, B) = race e (fo_policy st1) d ps (fo_breakers st1);
              st2 = st1\<lparr>fo_breakers := B\<rparr>
          in (case choose_answer (answers_of outs) of
                Some a \<Rightarrow>
                  (Inr a, st2\<lparr>fo_cache := fifo_put INTRARUN_CAP d (a, ce_now e + INTRARUN_TTL_MS) (fo_cache st2)\<rparr>)
              | None \<Rightarrow> (Inl AllServersFailed, st2)))"

definition confirm_failover ::
    "call_env \<Rightarrow> string \<Rightarrow> failover \<Rightarrow> (failover_error + rdap_answer) \<times> failover" where
  "confirm_failover e d st =
     (if ce_aborted e then (Inl CallAborted, st)
      else case map_of (fo_cache st) d of
        Some (a, expiresAt) \<Rightarrow>
          if expiresAt > ce_now e then (Inr a, st) else confirm_fresh e d st
      | None \<Rightarrow> confirm_fresh e d st)"

section \<open>What one server's answer rests on\<close>

lemma requested_guarded:
  "length (requested env left url) \<le> Suc left \<and> requested env left url \<noteq> []
   \<and> hd (requested env left url) = url
   \<and> (\<forall>u \<in> set (tl (requested env left url)).
        assertPublicHttpsUrl (parseUrl env) (lookupHost env) u = None)"
proof (induction left arbitrary: url)
  case (Suc left)
  show ?case
  proof (cases "\<exists>r next'. fetchRaw env (MAX_REDIRECT_HOPS - Suc left) url = Inr r \<and> is_redirect r
      \<and> next_url env url r = Inr (Some next')")
    case True
    then obtain r u where r: "fetchRaw env (MAX_REDIRECT_HOPS - Suc left) url = Inr r" "is_redirect r"
      "next_url env url r = Inr (Some u)" by blast
    have "assertPublicHttpsUrl (parseUrl env) (lookupHost env) u = None"
      using r(3) by (simp add: next_url_def split: option.splits)
    moreover have "requested env (Suc left) url = url # requested env left u" using r by simp
    ultimately show ?thesis
      using Suc.IH [of u] by (cases "requested env left u") auto
  next
    case False
    then have "requested env (Suc left) url = [url]"
      by (auto split: sum.splits option.splits)
    then show ?thesis by simp
  qed
qed simp

text \<open>What the guard promises about a target it lets pass.\<close>

definition public_target :: "server_env \<Rightarrow> string \<Rightarrow> bool" where
  "public_target env u =
     (case parseUrl env u of
        None \<Rightarrow> False
      | Some (protocol, host) \<Rightarrow>
          protocol = ''https:'' \<and> reached (lookupHost env) host \<noteq> []
          \<and> list_all (\<lambda>a. parseIpv4 a \<longrightarrow> \<not> in_private_block (ipToInt a)) (reached (lookupHost env) host))"

lemma guard_public:
  assumes "assertPublicHttpsUrl (parseUrl env) (lookupHost env) u = None"
  shows "public_target env u"
  using guard_addresses [OF assms] public_v4 by (auto simp: public_target_def list_all_iff)


text \<open>A final response of 404 by a server that serves the top-level domain.\<close>

definition authoritative_404 :: "server_env \<Rightarrow> public_server \<Rightarrow> string \<Rightarrow> bool" where
  "authoritative_404 env s d =
     (case follow env MAX_REDIRECT_HOPS (initialUrl env s d) of
        Inl e \<Rightarrow> False
      | Inr r \<Rightarrow> hr_status r = 404 \<and> servesTld (pslParse env) s d = Some True)"

lemma plain_answer_status [simp]: "ra_status (plain_answer st prem) = st"
  by (simp add: plain_answer_def)

lemma judge_available:
  "judge_response env s d r = Inr a \<Longrightarrow>
   ra_status a = Available \<longleftrightarrow> hr_status r = 404 \<and> servesTld (pslParse env) s d = Some True"
  by (auto simp: judge_response_def Let_def split: if_splits option.splits bool.splits sum.splits)

lemma judge_status:
  "judge_response env s d r = Inr a \<Longrightarrow> ra_status a \<in> {Available, Registered, Unknown}"
  by (auto simp: judge_response_def Let_def split: if_splits option.splits bool.splits sum.splits)

lemma confirm_server_status:
  assumes "confirm_server env s d = Inr a"
  obtains b where "doConfirm env s d = Inr b" "ra_status a = ra_status b"
  using assms by (auto simp: confirm_server_def split: if_splits sum.splits option.splits)

lemma server_available:
  assumes "confirm_server env s d = Inr a"
  shows "ra_status a = Available \<longleftrightarrow> authoritative_404 env s d"
proof -
  obtain b where b: "doConfirm env s d = Inr b" "ra_status a = ra_status b"
    using assms by (rule confirm_server_status)
  then obtain r where "follow env MAX_REDIRECT_HOPS (initialUrl env s d) = Inr r"
    "judge_response env s d r = Inr b"
    by (auto simp: doConfirm_def split: sum.splits)
  then show ?thesis using b(2) judge_available by (simp add: authoritative_404_def)
qed

section \<open>What the race answers\<close>

lemma race_answers:
  "a \<in> set (answers_of (fst (race e pol d ps B))) \<Longrightarrow> \<exists>p \<in> set ps. race_outcome e d p = Inr a"
proof (induction ps arbitrary: B)
  case Nil
  then show ?case by (simp add: answers_of_def List.map_filter_def)
next
  case (Cons p ps)
  obtain u B' rest B'' where r: "race e pol d (p # ps) B = ((p, u) # rest, B'')"
    "u = None \<or> u = Some (race_outcome e d p)" "race e pol d ps B' = (rest, B'')"
  proof -
    obtain asked B' where a: "ask_server e pol (race_outcome e d p) (ps_name p) B = (asked, B')"
      by (rule prod.exhaust)
    obtain rest B'' where b: "race e pol d ps B' = (rest, B'')" by (rule prod.exhaust)
    show thesis
      by (rule that [of "if asked then Some (race_outcome e d p) else None" rest B'' B'])
        (simp_all add: a b)
  qed
  show ?case
  proof (cases "a \<in> set (answers_of rest)")
    case True
    then show ?thesis using Cons.IH [of B'] r(3) by auto
  next
    case False
    then have "u = Some (Inr a)"
      using Cons.prems unfolding r(1)
      by (auto simp: answers_of_def List.map_filter_def split: if_splits option.splits sum.splits)
    then show ?thesis using r(2) by auto
  qed
qed

lemma choose_answer_member: "choose_answer as = Some a \<Longrightarrow> a \<in> set as"
  by (auto simp: choose_answer_def dest: find_SomeD split: option.splits list.splits)

lemma race_available:
  assumes "choose_answer (answers_of (fst (race e pol d ps B))) = Some a" "ra_status a = Available"
  shows "\<exists>p \<in> set ps. authoritative_404 (ce_server e (ps_name p)) p d"
proof -
  obtain p where p: "p \<in> set ps" "race_outcome e d p = Inr a"
    using race_answers choose_answer_member [OF assms(1)] by blast
  then have "confirm_server (ce_server e (ps_name p)) p d = Inr a"
    by (auto simp: race_outcome_def split: if_splits)
  then show ?thesis using server_available assms(2) p(1) by blast
qed

section \<open>Which servers are asked\<close>

text \<open>Every server of the registry has a scope; an answer without one comes from rdap.org alone.\<close>

definition scoped_map :: "server_map \<Rightarrow> bool" where
  "scoped_map m = (\<forall>zone ss. m zone = Some ss \<longrightarrow> (\<forall>s \<in> set ss. bs_tlds s = [zone]))"

abbreviation scoped_cache :: "iana_bootstrap \<Rightarrow> bool" where
  "scoped_cache b \<equiv> scoped_map (ib_cache b)"

lemma put_tld_scoped:
  assumes "scoped_map m"
  shows "scoped_map (put_tld h urls rw m)"
  unfolding scoped_map_def
proof (intro allI impI ballI)
  fix zone ss s
  let ?z = "to_lower (without_dot rw)"
  assume a: "put_tld h urls rw m zone = Some ss" "s \<in> set ss"
  show "bs_tlds s = [zone]"
  proof (cases "zone = ?z")
    case True
    then have "s \<in> set (case m ?z of Some old \<Rightarrow> old | None \<Rightarrow> []) \<or> bs_tlds s = [?z]"
      using a by (auto simp: put_tld_def Let_def toServer_def)
    then show ?thesis using True assms by (cases "m ?z") (auto simp: scoped_map_def)
  next
    case False
    then have "m zone = Some ss" using a(1) by (simp add: put_tld_def Let_def)
    then show ?thesis using assms a(2) by (simp add: scoped_map_def)
  qed
qed

lemma build_cache_scoped: "scoped_map (build_cache h services)"
proof -
  have inner: "scoped_map m \<Longrightarrow> scoped_map (fold (put_tld h urls) names m)" for urls names m
    by (induction names arbitrary: m) (simp_all add: put_tld_scoped)
  have "scoped_map m \<Longrightarrow>
    scoped_map (fold (\<lambda>(names, urls) m. if urls = [] then m else fold (put_tld h urls) names m) services m)"
    for m
    by (induction services arbitrary: m) (simp_all add: inner split: prod.split)
  moreover have "scoped_map Map.empty" by (simp add: scoped_map_def)
  ultimately show ?thesis by (simp add: build_cache_def)
qed

lemma fetch_scoped: "scoped_cache b \<Longrightarrow> scoped_cache (fetch_bootstrap now f b)"
  using build_cache_scoped
  by (cases "bf_result f") (simp_all add: fetch_bootstrap_def Let_def)

lemma getServers_scoped:
  assumes "scoped_cache b"
  shows "scoped_cache (snd (getServers e zone b))"
    "\<forall>s \<in> set (fst (getServers e zone b)). bs_tlds s \<noteq> [] \<or> s = RDAP_ORG_UNIVERSAL"
proof -
  show inv: "scoped_cache (snd (getServers e zone b))"
    using assms fetch_scoped
    by (simp add: getServers_def Let_def split: refresh_choice.split option.split)
  have "fst (getServers e zone b) = serve_tld zone (snd (getServers e zone b))"
    by (simp add: getServers_def Let_def)
  then show "\<forall>s \<in> set (fst (getServers e zone b)). bs_tlds s \<noteq> [] \<or> s = RDAP_ORG_UNIVERSAL"
    using inv by (auto simp: serve_tld_def scoped_map_def split: option.splits if_splits)
qed

text \<open>A candidate is a configured server, has a scope, or is rdap.org.\<close>

definition known_server :: "public_server list \<Rightarrow> public_server \<Rightarrow> bool" where
  "known_server fixed p =
     (p \<in> set fixed \<or> ps_tlds p \<noteq> None \<or> ps_baseUrl p = bs_baseUrl RDAP_ORG_UNIVERSAL)"

lemma add_servers_known:
  assumes "\<forall>s \<in> set ss. bs_tlds s \<noteq> [] \<or> s = RDAP_ORG_UNIVERSAL"
  shows "\<forall>p \<in> set (fst (add_servers bytes ss seen B)). known_server fixed p"
  using assms
proof (induction ss arbitrary: seen B)
  case (Cons s ss)
  have new: "known_server fixed (new_server (bs_baseUrl s) (bs_name s)
      (if bs_tlds s \<noteq> [] then Some (bs_tlds s) else None) bytes)"
    using Cons.prems
    by (auto simp: known_server_def new_server_def RDAP_ORG_UNIVERSAL_def with_slash_def ends_with_def)
  have IH: "\<forall>p \<in> set (fst (add_servers bytes ss seen' B')). known_server fixed p" for seen' B'
    using Cons by simp
  show ?case
  proof (cases "bs_name s \<in> set seen")
    case True
    then show ?thesis using IH by simp
  next
    case False
    let ?B = "case B (bs_name s) of Some _ \<Rightarrow> B | None \<Rightarrow> B(bs_name s \<mapsto> new_breaker)"
    obtain ps B'' where r: "add_servers bytes ss (bs_name s # seen) ?B = (ps, B'')" by (rule prod.exhaust)
    have "\<forall>p \<in> set ps. known_server fixed p" using IH [of "bs_name s # seen" ?B] unfolding r by simp
    moreover have "fst (add_servers bytes (s # ss) seen B) = new_server (bs_baseUrl s) (bs_name s)
        (if bs_tlds s \<noteq> [] then Some (bs_tlds s) else None) bytes # ps"
      unfolding add_servers.simps Let_def r using False by simp
    ultimately show ?thesis using new by simp
  qed
qed simp

definition good_boot :: "failover \<Rightarrow> bool" where
  "good_boot st = (case fo_bootstrap st of None \<Rightarrow> True | Some b \<Rightarrow> scoped_cache b)"

definition good_tlds :: "failover \<Rightarrow> bool" where
  "good_tlds st = (\<forall>(zone, ps) \<in> set (fo_perTld st). \<forall>p \<in> set ps. known_server (fo_providers st) p)"

lemma good_frame [simp]:
  "good_boot (st\<lparr>fo_breakers := B\<rparr>) = good_boot st" "good_boot (st\<lparr>fo_cache := C\<rparr>) = good_boot st"
  "good_tlds (st\<lparr>fo_breakers := B\<rparr>) = good_tlds st" "good_tlds (st\<lparr>fo_cache := C\<rparr>) = good_tlds st"
  by (simp_all add: good_boot_def good_tlds_def)

lemma good_tlds_put:
  assumes "good_tlds st" "\<forall>p \<in> set l. known_server (fo_providers st) p"
    "set (fo_perTld st') \<subseteq> insert (zone, l) (set (fo_perTld st))" "fo_providers st' = fo_providers st"
  shows "good_tlds st'"
  unfolding good_tlds_def
proof clarify
  fix z ps p
  assume "(z, ps) \<in> set (fo_perTld st')" "p \<in> set ps"
  with assms(3) consider "ps = l" | "(z, ps) \<in> set (fo_perTld st)" by blast
  then show "known_server (fo_providers st') p"
    using assms(1,2,4) \<open>p \<in> set ps\<close> by cases (auto simp: good_tlds_def)
qed

lemma map_put_subset: "set (map_put k v m) \<subseteq> insert (k, v) (set m)"
  by (induction k v m rule: map_put.induct) auto

lemma fifo_put_subset: "set (fifo_put cap k v m) \<subseteq> insert (k, v) (set m)"
proof -
  have "set (tl m) \<subseteq> set m" by (cases m) auto
  then show ?thesis
    using map_put_subset [of k v "if length m \<ge> cap then tl m else m"]
    unfolding fifo_put_def by (cases "length m \<ge> cap") auto
qed

lemma providersFor_good:
  assumes "good_boot st" "good_tlds st" "providersFor e d st = (ps, st')"
  shows "good_boot st' \<and> good_tlds st' \<and> fo_providers st' = fo_providers st
    \<and> fo_cache st' = fo_cache st
    \<and> (\<forall>l p. ps = Some l \<and> p \<in> set l \<longrightarrow> known_server (fo_providers st) p)"
proof (cases "fo_bootstrap st")
  case None
  then show ?thesis using assms by (auto simp: providersFor_def known_server_def)
next
  case (Some boot)
  note boot = Some
  show ?thesis
  proof (cases "extractTld (ce_psl e) d")
    case None
    then show ?thesis using assms boot by (auto simp: providersFor_def)
  next
    case (Some rw0)
    note rw = Some
    show ?thesis
    proof (cases "map_of (fo_perTld st) (without_dot rw0)")
      case (Some cached)
      then have "\<forall>p \<in> set cached. known_server (fo_providers st) p"
        using assms(2) map_of_SomeD [OF Some] unfolding good_tlds_def by fastforce
      then show ?thesis using assms boot rw Some by (auto simp: providersFor_def Let_def)
    next
      case None
      obtain servers boot' where g: "getServers (ce_boot e) (without_dot rw0) boot = (servers, boot')"
        by (rule prod.exhaust)
      obtain extra B where x: "add_servers (fo_maxBytes st) servers (map ps_name (fo_providers st))
          (fo_breakers st) = (extra, B)" by (rule prod.exhaust)
      let ?l = "fo_providers st @ extra"
      have st': "ps = Some ?l" "st' = st\<lparr>fo_bootstrap := Some boot', fo_breakers := B,
          fo_perTld := fifo_put PER_TLD_CAP (without_dot rw0) ?l (fo_perTld st)\<rparr>"
        using assms(3) by (simp_all add: providersFor_def boot rw None g x Let_def)
      have sc: "scoped_cache boot" using assms(1) boot by (simp add: good_boot_def)
      have k: "\<forall>p \<in> set ?l. known_server (fo_providers st) p"
        using add_servers_known [OF getServers_scoped(2) [OF sc, of "ce_boot e" "without_dot rw0",
            unfolded g fst_conv], of "fo_maxBytes st" "map ps_name (fo_providers st)" "fo_breakers st"]
        unfolding x by (auto simp: known_server_def)
      have "good_tlds st'"
        using good_tlds_put [OF assms(2) k, of st' "without_dot rw0"]
          fifo_put_subset [of PER_TLD_CAP "without_dot rw0" ?l "fo_perTld st"]
        unfolding st' by simp
      moreover have "good_boot st'"
        using getServers_scoped(1) [OF sc, of "ce_boot e" "without_dot rw0"]
        unfolding st' good_boot_def g by simp
      ultimately show ?thesis using k st' by simp
    qed
  qed
qed

section \<open>Histories\<close>

datatype failover_op = FoConfirm call_env string | FoClear

fun fo_step :: "failover_op \<Rightarrow> failover \<Rightarrow> failover" where
  "fo_step (FoConfirm e d) st = snd (confirm_failover e d st)"
| "fo_step FoClear st = clearCache st"

definition run_failover :: "failover_op list \<Rightarrow> failover \<Rightarrow> failover" where
  "run_failover ops st = fold fo_step ops st"

text \<open>Some known server answered the call that the domain is not registered.\<close>

definition vouched :: "public_server list \<Rightarrow> call_env \<Rightarrow> string \<Rightarrow> bool" where
  "vouched fixed e d =
     (\<exists>p. known_server fixed p \<and> authoritative_404 (ce_server e (ps_name p)) p d)"

definition cache_vouched :: "failover_op list \<Rightarrow> failover \<Rightarrow> bool" where
  "cache_vouched ops st =
     (\<forall>(d, a, x) \<in> set (fo_cache st). ra_status a = Available \<longrightarrow>
        (\<exists>e. FoConfirm e d \<in> set ops \<and> x = ce_now e + INTRARUN_TTL_MS \<and> vouched (fo_providers st) e d))"

definition fo_inv :: "failover_op list \<Rightarrow> failover \<Rightarrow> bool" where
  "fo_inv ops st = (good_boot st \<and> good_tlds st \<and> cache_vouched ops st)"

lemma fresh_vouched:
  assumes "good_boot st" "good_tlds st"
  shows "good_boot (snd (confirm_fresh e d st)) \<and> good_tlds (snd (confirm_fresh e d st))
    \<and> fo_providers (snd (confirm_fresh e d st)) = fo_providers st
    \<and> (\<forall>a. fst (confirm_fresh e d st) = Inr a \<and> ra_status a = Available \<longrightarrow> vouched (fo_providers st) e d)
    \<and> (set (fo_cache (snd (confirm_fresh e d st))) \<subseteq> set (fo_cache st)
       \<or> (\<exists>a. fst (confirm_fresh e d st) = Inr a
            \<and> set (fo_cache (snd (confirm_fresh e d st)))
              \<subseteq> insert (d, a, ce_now e + INTRARUN_TTL_MS) (set (fo_cache st))))"
proof -
  obtain ps st1 where p: "providersFor e d st = (ps, st1)" by (rule prod.exhaust)
  note g = providersFor_good [OF assms p]
  show ?thesis
  proof (cases ps)
    case None
    then show ?thesis using g p by (simp add: confirm_fresh_def)
  next
    case (Some l)
    obtain outs B where r: "race e (fo_policy st1) d l (fo_breakers st1) = (outs, B)"
      by (rule prod.exhaust)
    show ?thesis
    proof (cases "choose_answer (answers_of outs)")
      case None
      then show ?thesis
        using g unfolding confirm_fresh_def p Some
        by (simp add: r)
    next
      case (Some a)
      note a = Some
      have f: "confirm_fresh e d st = (Inr a, st1\<lparr>fo_breakers := B,
          fo_cache := fifo_put INTRARUN_CAP d (a, ce_now e + INTRARUN_TTL_MS) (fo_cache st1)\<rparr>)"
        unfolding confirm_fresh_def p \<open>ps = Some l\<close> by (simp add: r a)
      have "ra_status a = Available \<longrightarrow> vouched (fo_providers st) e d"
      proof
        assume "ra_status a = Available"
        then obtain q where "q \<in> set l" "authoritative_404 (ce_server e (ps_name q)) q d"
          using race_available [of e "fo_policy st1" d l "fo_breakers st1" a] a r by auto
        then show "vouched (fo_providers st) e d"
          using g \<open>ps = Some l\<close> unfolding vouched_def by blast
      qed
      then show ?thesis
        using g fifo_put_subset [of INTRARUN_CAP d "(a, ce_now e + INTRARUN_TTL_MS)" "fo_cache st1"]
        unfolding f by simp
    qed
  qed
qed

lemma confirm_failover_cases:
  obtains (kept) "snd (confirm_failover e d st) = st"
      "\<And>a. fst (confirm_failover e d st) = Inr a \<Longrightarrow>
        \<exists>x. map_of (fo_cache st) d = Some (a, x) \<and> ce_now e < x"
  | (fresh) "confirm_failover e d st = confirm_fresh e d st"
proof (cases "\<not> ce_aborted e \<and> (\<forall>a x. map_of (fo_cache st) d = Some (a, x) \<longrightarrow> x \<le> ce_now e)")
  case True
  then have "confirm_failover e d st = confirm_fresh e d st"
    by (auto simp: confirm_failover_def split: option.split)
  then show ?thesis by (rule fresh)
next
  case False
  then show ?thesis
  proof (cases "ce_aborted e")
    case True
    then show ?thesis using kept by (simp add: confirm_failover_def)
  next
    case live: False
    with False obtain a x where "map_of (fo_cache st) d = Some (a, x)" "ce_now e < x" by force
    then show ?thesis using kept live by (simp add: confirm_failover_def)
  qed
qed

lemma vouched_keep:
  assumes "cache_vouched ops st" "set ops \<subseteq> set ops'" "fo_providers st' = fo_providers st"
    "set (fo_cache st') \<subseteq> set (fo_cache st)"
  shows "cache_vouched ops' st'"
  using assms unfolding cache_vouched_def by fastforce

lemma fo_inv_step:
  assumes "fo_inv ops st"
  shows "fo_inv (ops @ [x]) (fo_step x st) \<and> fo_providers (fo_step x st) = fo_providers st"
proof (cases x)
  case FoClear
  then show ?thesis
    using assms by (simp add: fo_inv_def clearCache_def good_boot_def good_tlds_def cache_vouched_def)
next
  case (FoConfirm e d)
  have inv: "good_boot st" "good_tlds st" "cache_vouched ops st" using assms by (simp_all add: fo_inv_def)
  show ?thesis
  proof (cases rule: confirm_failover_cases [of e d st])
    case kept
    moreover have "cache_vouched (ops @ [x]) st" by (rule vouched_keep [OF inv(3)]) auto
    ultimately show ?thesis using inv FoConfirm by (simp add: fo_inv_def)
  next
    case fresh
    note f = fresh_vouched [OF inv(1,2), of e d]
    let ?st = "snd (confirm_fresh e d st)"
    have "cache_vouched (ops @ [x]) ?st"
    proof (cases "set (fo_cache ?st) \<subseteq> set (fo_cache st)")
      case True
      show ?thesis by (rule vouched_keep [OF inv(3) _ _ True]) (use f in auto)
    next
      case False
      then obtain a where a: "fst (confirm_fresh e d st) = Inr a"
        "set (fo_cache ?st) \<subseteq> insert (d, a, ce_now e + INTRARUN_TTL_MS) (set (fo_cache st))"
        using f by blast
      have here: "ra_status a = Available \<Longrightarrow> FoConfirm e d \<in> set (ops @ [x])
          \<and> vouched (fo_providers ?st) e d"
        using a(1) f FoConfirm by simp
      have before: "(d', a', t) \<in> set (fo_cache st) \<Longrightarrow> ra_status a' = Available \<Longrightarrow>
          \<exists>e'. FoConfirm e' d' \<in> set (ops @ [x]) \<and> t = ce_now e' + INTRARUN_TTL_MS
            \<and> vouched (fo_providers ?st) e' d'" for d' a' t
        using inv(3) f unfolding cache_vouched_def by fastforce
      show ?thesis
        unfolding cache_vouched_def
      proof (clarify)
        fix d' a' t
        assume m: "(d', a', t) \<in> set (fo_cache ?st)" and av: "ra_status a' = Available"
        from m a(2) consider "d' = d" "a' = a" "t = ce_now e + INTRARUN_TTL_MS" | "(d', a', t) \<in> set (fo_cache st)"
          by blast
        then show "\<exists>e'. FoConfirm e' d' \<in> set (ops @ [x]) \<and> t = ce_now e' + INTRARUN_TTL_MS
            \<and> vouched (fo_providers ?st) e' d'"
          using here before av by cases blast+
      qed
    qed
    then show ?thesis using f fresh FoConfirm by (simp add: fo_inv_def)
  qed
qed

lemma fo_inv_run:
  assumes "fo_inv [] st"
  shows "fo_inv ops (run_failover ops st) \<and> fo_providers (run_failover ops st) = fo_providers st"
proof (induction ops rule: rev_induct)
  case Nil
  then show ?case using assms by (simp add: run_failover_def)
next
  case (snoc x ops)
  then show ?case using fo_inv_step [of ops "run_failover ops st" x] by (simp add: run_failover_def)
qed


text \<open>A world in which every server answers the same status.\<close>

definition plain_env :: "nat \<Rightarrow> server_env" where
  "plain_env st =
     \<lparr>limiterGrants = True,
      fetchWithAgent = (\<lambda>n u. Fetched \<lparr>hr_status = st, hr_location = None, hr_retryAfter = None,
        hr_contentLength = None, hr_body = NoStream ''{}''\<rparr>),
      resolveUrl = (\<lambda>l u. Some l), parseUrl = (\<lambda>u. None), lookupHost = (\<lambda>h. None),
      waitEnds = (\<lambda>n. True),
      parseBody = (\<lambda>t. Some \<lparr>rr_status = [], rr_notices = [], rr_events = [], rr_entities = []\<rparr>),
      encodeURIComponent = (\<lambda>s. s), originOf = (\<lambda>u. Some ''https://rdap.org''),
      pslParse = (\<lambda>s. PslParsed (Some ''example'') (Some ''com''))\<rparr>"

definition plain_call :: "ms \<Rightarrow> nat \<Rightarrow> call_env" where
  "plain_call now st =
     (let f = \<lparr>bf_hostname = (\<lambda>u. Some ''rdap.verisign.com''),
               bf_result = Inr [([''COM'', ''NET''], [''https://rdap.verisign.com/com/v1/''])]\<rparr>
      in \<lparr>ce_now = now, ce_settled = now + 1, ce_aborted = False,
          ce_psl = (\<lambda>s. PslParsed (Some ''example'') (Some ''com'')),
          ce_boot = \<lparr>be_now = now, be_fetchedAt = now, be_running = None, be_own = f\<rparr>,
          ce_server = (\<lambda>n. plain_env st), ce_lost = (\<lambda>n. False)\<rparr>)"

definition rdap_org_server :: public_server where
  "rdap_org_server = new_server (bs_baseUrl RDAP_ORG_UNIVERSAL) (bs_name RDAP_ORG_UNIVERSAL) None 1000"


section \<open>The schedule of the registry\<close>

text \<open>The delay after the \<open>n\<close>-th failure in a row.\<close>

definition backoff_delay :: "iana_bootstrap \<Rightarrow> nat \<Rightarrow> ms" where
  "backoff_delay b n = min (ib_retryMaxMs b) (ib_retryBaseMs b * 2 ^ (n - 1))"

lemma failures_back_off:
  assumes "\<forall>f \<in> set fs. \<exists>m. bf_result (snd f) = Inl m" "fs \<noteq> []"
  shows "ib_failures (fold (\<lambda>(t, f). fetch_bootstrap t f) fs b) = ib_failures b + length fs
    \<and> ib_nextRetryAt (fold (\<lambda>(t, f). fetch_bootstrap t f) fs b) =
        fst (last fs) + backoff_delay b (ib_failures b + length fs)
    \<and> ib_cache (fold (\<lambda>(t, f). fetch_bootstrap t f) fs b) = ib_cache b
    \<and> ib_lastSuccessAt (fold (\<lambda>(t, f). fetch_bootstrap t f) fs b) = ib_lastSuccessAt b
    \<and> ib_ttlMs (fold (\<lambda>(t, f). fetch_bootstrap t f) fs b) = ib_ttlMs b"
  using assms
proof (induction fs arbitrary: b)
  case (Cons x fs)
  obtain t f where x: "x = (t, f)" by (rule prod.exhaust)
  then obtain m where m: "bf_result f = Inl m" using Cons.prems by auto
  show ?case
  proof (cases "fs = []")
    case True
    then show ?thesis using m by (simp add: x fetch_bootstrap_def Let_def backoff_delay_def)
  next
    case False
    then show ?thesis
      using Cons.IH [of "fetch_bootstrap t f b"] Cons.prems m
      by (simp add: x fetch_bootstrap_def Let_def backoff_delay_def)
  qed
qed simp

text \<open>The registry backs off and keeps serving: after any number of failed fetches in a row the
next one is due after the base delay doubled for each failure but the first, never later than the
cap; until then calls serve what was loaded before, without a fetch and without changing the state;
the fetch is made by the first call after that time, and one success ends the waiting.\<close>

theorem bootstrap_backs_off:
  assumes "\<forall>f \<in> set fs. \<exists>m. bf_result (snd f) = Inl m" "fs \<noteq> []"
    and "b' = fold (\<lambda>(t, f). fetch_bootstrap t f) fs b"
    and "ib_lastSuccessAt b = 0 \<or> ib_ttlMs b \<le> be_now e - ib_lastSuccessAt b"
    and "be_running e = None"
  shows "(be_now e < fst (last fs) + backoff_delay b (ib_failures b + length fs) \<longrightarrow>
            getServers e zone b' = (serve_tld zone b, b'))
    \<and> (be_now e \<ge> fst (last fs) + backoff_delay b (ib_failures b + length fs) \<longrightarrow>
            snd (getServers e zone b') = fetch_bootstrap (be_fetchedAt e) (be_own e) b')
    \<and> (\<forall>services. bf_result (be_own e) = Inr services \<longrightarrow>
            ib_nextRetryAt (fetch_bootstrap (be_fetchedAt e) (be_own e) b') = 0
            \<and> ib_failures (fetch_bootstrap (be_fetchedAt e) (be_own e) b') = 0)"
proof -
  note f = failures_back_off [OF assms(1,2), of b, folded assms(3)]
  have "be_now e < fst (last fs) + backoff_delay b (ib_failures b + length fs) \<Longrightarrow>
      refreshIfStale (be_now e) False b' = KeepServing"
    using f by (simp add: refreshIfStale_def)
  moreover have "be_now e \<ge> fst (last fs) + backoff_delay b (ib_failures b + length fs) \<Longrightarrow>
      refreshIfStale (be_now e) False b' = RefreshNow"
    using f assms(4) by (auto simp: refreshIfStale_def)
  moreover have "serve_tld zone b' = serve_tld zone b" using f by (simp add: serve_tld_def)
  ultimately show ?thesis
    using assms(5) by (simp add: getServers_def fetch_bootstrap_def Let_def)
qed

theorem bootstrap_backs_off_witness:
  "\<exists>b' f. ib_failures b' = 2 \<and> ib_nextRetryAt b' = 302000 + 600000
    \<and> getServers \<lparr>be_now = 500000, be_fetchedAt = 500000, be_running = None, be_own = f\<rparr> ''com'' b'
        = ([RDAP_ORG_UNIVERSAL], b')"
proof -
  let ?f = "\<lparr>bf_hostname = (\<lambda>u. None), bf_result = Inl ''HTTP 500''\<rparr>"
  let ?fs = "[(1000, ?f), (302000, ?f)]"
  let ?b = "new_bootstrap 86400000 300000 86400000"
  let ?e = "\<lparr>be_now = 500000, be_fetchedAt = 500000, be_running = None, be_own = ?f\<rparr>"
  let ?c = "fold (\<lambda>(t, f). fetch_bootstrap t f) ?fs ?b"
  have "\<forall>f \<in> set ?fs. \<exists>m. bf_result (snd f) = Inl m" "?fs \<noteq> []" by simp_all
  moreover have "ib_lastSuccessAt ?b = 0 \<or> ib_ttlMs ?b \<le> be_now ?e - ib_lastSuccessAt ?b"
    by (simp add: new_bootstrap_def)
  ultimately have "getServers ?e ''com'' ?c = (serve_tld ''com'' ?b, ?c)"
    using bootstrap_backs_off [of ?fs ?c ?b ?e "''com''"] by (simp add: backoff_delay_def new_bootstrap_def)
  moreover have "serve_tld ''com'' ?b = [RDAP_ORG_UNIVERSAL]"
    by (simp add: serve_tld_def new_bootstrap_def)
  moreover have "ib_failures ?c = 2" "ib_nextRetryAt ?c = 302000 + 600000"
    by (simp_all add: fetch_bootstrap_def new_bootstrap_def Let_def)
  ultimately show ?thesis by (intro exI [of _ ?c] exI [of _ ?f]) simp
qed

section \<open>Where code and documentation part\<close>

text \<open>A base URL of the IANA registry is used without the path segment \<open>domain/\<close>.\<close>

theorem bootstrap_url_lacks_domain:
  assumes "encodeURIComponent env ''example.com'' = ''example.com''"
  shows "initialUrl env
     (let s = toServer h ''https://rdap.verisign.com/com/v1/'' ''com''
      in new_server (bs_baseUrl s) (bs_name s) (Some (bs_tlds s)) bytes) ''example.com''
   = ''https://rdap.verisign.com/com/v1/example.com''"
  using assms by (simp add: initialUrl_def toServer_def new_server_def with_slash_def ends_with_def)

text \<open>A 404 of the universal server counts as available, whoever it speaks for.\<close>

theorem universal_404_available:
  assumes "limiterGrants env" "fetchWithAgent env 0 (initialUrl env s d) = Fetched r"
    and "hr_status r = 404" "ps_tlds s = None"
  shows "\<exists>a. confirm_server env s d = Inr a \<and> ra_status a = Available"
  using assms
  by (simp add: confirm_server_def doConfirm_def MAX_REDIRECT_HOPS_def eval_nat_numeral fetchRaw_def
      is_redirect_def judge_response_def servesTld_def plain_answer_def split: option.split)

text \<open>A request that is aborted because another server won counts as a failure of its server.\<close>

theorem race_loser_counted_failed:
  assumes "limiterGrants env" "fetchWithAgent env 0 (initialUrl env s d) = FetchAborted"
  shows "settle_breaker pol now (confirm_server env s d) b = onFailure pol now b"
  using assms
  by (simp add: confirm_server_def doConfirm_def MAX_REDIRECT_HOPS_def eval_nat_numeral fetchRaw_def
      settle_breaker_def)

text \<open>An error of the server closes its circuit.\<close>

theorem server_error_counted_success:
  assumes "limiterGrants env" "fetchWithAgent env 0 (initialUrl env s d) = Fetched r"
    and "hr_status r = 503"
  shows "settle_breaker pol now (confirm_server env s d) b = onSuccess b"
  using assms
  by (simp add: confirm_server_def doConfirm_def MAX_REDIRECT_HOPS_def eval_nat_numeral fetchRaw_def
      is_redirect_def judge_response_def settle_breaker_def split: option.split)

text \<open>The servers of a top-level domain are never asked for again once they were stored.\<close>

theorem stored_servers_stay:
  assumes "fo_bootstrap st = Some boot" "extractTld (ce_psl e) d = Some t"
    and "map_of (fo_perTld st) (without_dot t) = Some ps"
  shows "providersFor e d st = (Some ps, st)"
  using assms by (simp add: providersFor_def)

end
