(* ===== verification/Spec2Isabelle.thy ===== *)
theory Spec2Isabelle
  imports StageLocks DnsBreaker RateLimit ProviderCache Engine TrademarkGate Worker Listings Portfolio PipelineRun
    RunService Team DnsWrite Acquisition RdapServers
begin

text \<open>
  A verification development for DOMINUS, a program that generates candidate domain names,
  checks that they are free, scores them, clears them against trademark registers and manages
  what is bought: listings, a portfolio and its renewals. Paths are those of the repository's
  \<open>src/\<close> directory.

  How the parts interact. A job (\<open>jobs/\<close>, \<open>db/repositories/\<close>) makes the orchestrator
  (\<open>pipeline/orchestrator.ts\<close>) run five stages (\<open>pipeline/stages/\<close>): generation, the DNS
  filter, RDAP confirmation with its consensus, scoring and the trademark gate. The stages call
  providers through circuit breakers, rate limiters, retries and caches (\<open>providers/\<close>,
  \<open>utils/\<close>), the scoring engine (\<open>scoring/\<close>) and the gate (\<open>trademark/\<close>). Listings
  (\<open>listing/\<close>) ask the gate again before anything is published; the portfolio
  (\<open>portfolio/\<close>) decides what to renew or drop.

  Which theory holds what.

  \<^item> \<open>Prelude\<close>: types, collections of lemmas, lemmas on lists, maps and rounding.
  \<^item> \<open>CircuitBreaker\<close>, \<open>Retry\<close>, \<open>DnsBreaker\<close>, \<open>RateLimit\<close>, \<open>ProviderCache\<close>: what stands
    between the program and its providers. Breakers and limiters are step relations over
    records; the lemmas give thresholds, periods, conformance of the token bucket to its rate,
    first-in-first-out order and progress, and what a cache serves and keeps.
  \<^item> \<open>Weights\<close>, \<open>Signals\<close>, \<open>Engine\<close>: scoring. The lemmas bound every number of a result and
    say what happens when data is missing.
  \<^item> \<open>Domain\<close>: parsing and normalisation of names, over an arbitrary Public Suffix List.
  \<^item> \<open>MatchDetector\<close>, \<open>TrademarkGate\<close>: when a mark conflicts, and what a verdict rests on.
  \<^item> \<open>Candidates\<close>, \<open>Generation\<close>, \<open>DnsStage\<close>, \<open>RdapStage\<close>, \<open>FinalStages\<close>: the stages, each
    over arbitrary providers. The lemmas show that a stage accounts for its input and passes
    only what it has checked.
  \<^item> \<open>Checkpoints\<close>, \<open>Orchestrator\<close>, \<open>PipelineRun\<close>: a run. The contract of a stage is the locale
    \<open>pipeline_stage\<close> with the four stages as interpretations; the lemmas carry the contract
    through budgets, grace periods, retries and resumption.
  \<^item> \<open>Locks\<close>, \<open>RedisLock\<close>, \<open>StageLocks\<close>: the distributed locks. The locales \<open>lease_safety\<close>
    and \<open>lease_lock\<close> are the contract of a lock; the Postgres, pooled and in-memory SQLite
    tables satisfy both, the SQLite provider with lock files and Redis only the first. The
    lemmas on their users say when a stage runs alone, when a heartbeat aborts a run, and that
    a cron slot fires once.
  \<^item> \<open>JobQueue\<close>, \<open>Worker\<close>: the queue's table and the worker that polls it.
  \<^item> \<open>Listings\<close>: listings, offers and sales of a tenant; \<open>Portfolio\<close>: valuation, verdicts,
    alerts and the executor of drops.
  \<^item> \<open>Usage\<close>, \<open>RunService\<close>, \<open>Billing\<close>, \<open>Team\<close>: the service layer (\<open>services/\<close>, \<open>app/\<close>) around a run. Plans
    and the metering that admits a run; the rows and the batched writing of its results, whose
    lemmas say when everything is stored and when rows are skipped or doubled; and the
    subscriptions that payment events move; and the seats of a team. The claims of payment events
    satisfy the locale \<open>claim_store\<close>, those of invitations the locale \<open>claim_once\<close> that it extends:
    no event is processed twice. The operations on a team refine the abstract steps \<open>seat_step\<close>,
    which keep the limit of the plan and the last admin.
  \<^item> \<open>Acquisition\<close>, \<open>Automation\<close>, \<open>DnsWrite\<close>: purchases at a registrar and bids at auctions, which
    need the gate and an approval and end in the portfolio; the journaled steps that follow
    (\<open>services/post-acquisition-*.ts\<close>), whose run refines the pass \<open>spec_steps\<close> over the statuses of
    the steps; and the gate before a DNS write.
  \<^item> \<open>IpRanges\<close>, \<open>RdapServers\<close>: addresses as words of 32 and 128 bits, the registry of parking
    ranges, the guard of redirects; one RDAP server with its redirect loop, the IANA bootstrap with
    its backoff, and the race between servers (\<open>providers/rdap/\<close>). The lemmas show which requests
    are sent and what an answer of availability rests on.
  \<^item> This theory: what spans components.

  State and operations are modelled as the code has them: a class is a record, a method a
  function that returns the updated record, a table the list of its rows; an exception is a
  value of a sum or option. Time is an integer of milliseconds that comes in as an argument.
  Providers, the clock, the abort signal at each place where it is read, random numbers and
  library parsers are parameters.

  Bounds and fuel. The attempts of a stage have \<open>STAGE_RETRY_MAX\<close> as fuel, as the code counts
  them; \<open>attempts_not_null\<close> shows that the fuel never runs out. The other loops are
  structural or have a measure; the batching, which does not return on a size of zero, is a
  \<open>partial_function\<close>.

  Not modelled: the rounding of IEEE arithmetic (numbers are reals, rounding functions are
  written out), the interleaving of concurrent calls inside one batch (the calls of a batch are
  independent), texts, logs and metrics, SQL drivers, HTTP, rendering, the Redis variants of
  limiters and breakers, and the components that the manifest lists as not modelled.
\<close>

section \<open>Across components\<close>

lemma score_recommended:
  assumes "score_domain env eng input = Some r" "recommended r"
  shows "snd (computeEffectiveThresholds (result_availability r) (weights eng)) \<le> raw_confidence eng r
    \<and> fst (computeEffectiveThresholds (result_availability r) (weights eng)) \<le> raw_score eng r"
  using score_domain_fields(8) [OF assms(1)] assms(2) by simp

text \<open>The scoring stage calls the engine and the gate stage calls the gate.\<close>

definition wired ::
  "run_world \<Rightarrow> engine \<Rightarrow> trademark_gate \<Rightarrow> idna \<Rightarrow> psl \<Rightarrow> bool" where
  "wired w eng g idn psl =
     ((\<forall>k t. \<exists>env. score_call (scoring_at w k t) = score_domain env eng)
      \<and> (\<forall>k t. \<exists>ab. gate_check (tm_at w k t) = check g idn psl ab))"

text \<open>
  C2. From the run to the sources: with the scoring engine and the trademark gate of this
  development in the stages, every candidate that a finished run recommends, unless it resumed
  behind the generation, carries a score whose raw confidence and value reach the thresholds
  that the engine computed for the data at hand, and no mark that either register returned
  for its label conflicts with it; where the USPTO is mandatory for the TLD, it answered.
\<close>

theorem recommendation_end_to_end:
  assumes "wired w eng g idn psl"
    and "runInternal cfg w input cp = (Finished res, sv)" "resume_of cp \<le> 1" "c \<in> set (r_recommended res)"
  shows "\<exists>r l. scoreResult c = Some r
    \<and> snd (computeEffectiveThresholds (result_availability r) (weights eng)) \<le> raw_confidence eng r
    \<and> fst (computeEffectiveThresholds (result_availability r) (weights eng)) \<le> raw_score eng r
    \<and> search_label idn psl (c_domain c) = Some l
    \<and> (\<forall>m \<in> set (answered (usptoProvider g l)) \<union> set (answered (euipoProvider g l)). \<not> conflicts (matchConfig g) l m)
    \<and> ((\<exists>ms. usptoProvider g l = Inr ms) \<or> isStrictTld psl (c_domain c) = Some False)"
proof -
  obtain gen where "vetted w gen c"
    using finished_run_vetted [OF assms(2-4)] by blast
  then obtain k3 t3 cs3 a2 k4 t4 cs4 where
    3: "scoring_clears (scoring_at w k3 t3) cs3 a2 c" and 4: "tm_clears (tm_at w k4 t4) cs4 c c"
    unfolding vetted_def by blast
  obtain env where env: "score_call (scoring_at w k3 t3) = score_domain env eng"
    using assms(1) unfolding wired_def by blast
  obtain ab where ab: "gate_check (tm_at w k4 t4) = check g idn psl ab"
    using assms(1) unfolding wired_def by blast
  from 3 obtain r where r: "score_domain env eng (input_of (enrich (scoring_at w k3 t3) a2)) = Some r"
    "recommended r" "scoreResult c = Some r"
    unfolding scoring_clears_def env by blast
  from 4 obtain v where v: "check g idn psl ab (c_domain c) = Inr v" "g_verdict v = Clear"
    unfolding tm_clears_def ab by blast
  obtain l where l: "search_label idn psl (c_domain c) = Some l"
    "\<forall>m \<in> set (answered (usptoProvider g l) @ answered (euipoProvider g l)). \<not> conflicts (matchConfig g) l m"
    "(\<exists>ms. usptoProvider g l = Inr ms) \<or> isStrictTld psl (c_domain c) = Some False"
    using check_evidence [OF v(1)] v(2) by (auto simp: Let_def)
  show ?thesis
    using score_recommended [OF r(1,2)] r(3) l by (intro exI [of _ r] exI [of _ l]) simp
qed

definition sure_engine :: engine where
  "sure_engine = \<lparr>weights = \<lparr>w_intrinsic = 0, w_commercial = 0, w_market = 0, w_expiry = 1\<rparr>,
     tldBonuses = Map.empty, buyMaxAbsoluteCap = 100,
     scoringConfig = DEFAULT_SCORING_CONFIG\<lparr>c_constants :=
       DEFAULT_SCORING_CONSTANTS\<lparr>confidenceBase := 1, confidenceCap := 1\<rparr>\<rparr>\<rparr>"

definition aged :: candidate where
  "aged = (new_candidate ''r'' KeywordCombo ''nike.co.uk'' ''.co.uk'')
     \<lparr>closeoutMeta := Some \<lparr>m_domainAge = Some 100, m_backlinks = Some 10000000, m_waybackSnapshots = None\<rparr>\<rparr>"

lemma sure_recommends:
  assumes "in_domain i = ''nike.co.uk''" "domainAge i = Some 100" "backlinks i = Some 10000000"
    "waybackSnapshots i = None"
  shows "\<exists>r. score_domain example_environment sure_engine i = Some r \<and> recommended r"
proof -
  have "score_domain example_environment sure_engine i \<noteq> None"
    using example_parse assms(1)
    by (simp add: score_domain_def Let_def example_environment_def split: option.split prod.split)
  then obtain r where r: "score_domain example_environment sure_engine i = Some r" by blast
  obtain s t wi we wc wm where *:
    "b_expiry r = computeExpiryScore i we (c_expiry (scoringConfig sure_engine))"
    "b_commercial r = computeCommercialScore s (getMetrics example_environment) wc (c_commercial (scoringConfig sure_engine))"
    "b_market r = computeMarketScore (unordered example_environment) (clock_market example_environment) s
       (getSales example_environment) wm (c_market (scoringConfig sure_engine))"
    by (rule score_domain_SomeE [OF r]) (rule that)
  have c: "\<not> dataAvailable (b_commercial r)"
    by (simp add: *(2) computeCommercialScore_def example_environment_def)
  have m: "comparables (b_market r) = 0"
    by (simp add: *(3) computeMarketScore_def example_environment_def)
  have x: "dataAvailable (b_expiry r)" "score (b_expiry r) \<ge> 8 / 10"
    using assms by (auto simp: *(1) computeExpiryScore_def capped_ratio_def Let_def clamp01_def
        sure_engine_def DEFAULT_SCORING_CONFIG_def DEFAULT_EXPIRY_CONFIG_def)
  have a: "result_availability r = \<lparr>a_intrinsic = True, a_commercial = False, a_market = False, a_expiry = True\<rparr>"
    using c m x by (simp add: result_availability_def availability_of_def)
  have w: "result_weights sure_engine r = \<lparr>w_intrinsic = 0, w_commercial = 0, w_market = 0, w_expiry = 1\<rparr>"
    by (simp add: result_weights_def a sure_engine_def density_adjusted_def resolveEffectiveWeights_def
        sumAvailable_def SIGNAL_DATA_THRESHOLD_def zero_unavailable_def Let_def)
  have s: "raw_score sure_engine r = score (b_expiry r)"
    by (simp add: raw_score_def w weighted_score_def)
  have conf: "raw_confidence sure_engine r = 1"
    by (simp add: raw_confidence_def a confidence_of_def Let_def sure_engine_def)
  have "nonneg (weights sure_engine)" by (simp add: sure_engine_def nonneg_def)
  note th = thresholds_bounds [OF this, of "result_availability r"]
  have "recommended r"
    using score_domain_fields(8) [OF r] th s conf x(2) by auto
  with r show ?thesis by blast
qed

definition wired_world :: run_world where
  "wired_world = \<lparr>
     generation = (\<lambda>_. Some \<lparr>passed = [aged], filtered = [],
        stageName = ''CandidateGenerationStage'', degradations = []\<rparr>),
     generation_settles = Some 1, generation_begins = 0,
     dns_at = (\<lambda>_ _. example_dns\<lparr>skipSources := [KeywordCombo]\<rparr>), dns_timing = prompt,
     rdap_at = (\<lambda>_ _. example_rdap\<lparr>rdapProvider := (\<lambda>_. Some free_answer)\<rparr>), rdap_timing = prompt,
     scoring_at = (\<lambda>_ _. \<lparr>score_call = score_domain example_environment sure_engine, sc_concurrency = 1,
        waybackProvider = None, sc_aborted = (\<lambda>_. False)\<rparr>), scoring_timing = prompt,
     tm_at = (\<lambda>_ _. \<lparr>gate_check = check example_gate example_idna example_psl False, tm_concurrency = 1,
        tm_aborted = (\<lambda>_. False)\<rparr>), tm_timing = prompt,
     isAborted = (\<lambda>_. False), lock_available = (\<lambda>_. True)\<rparr>"

lemma wired_world_simps:
  "generation_begins wired_world = 0" "dns_timing wired_world = prompt" "rdap_timing wired_world = prompt"
  "dns_at wired_world k t = example_dns\<lparr>skipSources := [KeywordCombo]\<rparr>"
  "rdap_at wired_world k t = example_rdap\<lparr>rdapProvider := (\<lambda>_. Some free_answer)\<rparr>"
  "scoring_at wired_world k t = \<lparr>score_call = score_domain example_environment sure_engine, sc_concurrency = 1,
     waybackProvider = None, sc_aborted = (\<lambda>_. False)\<rparr>"
  "scoring_timing wired_world = prompt" "tm_timing wired_world = prompt"
  "tm_at wired_world k t = \<lparr>gate_check = check example_gate example_idna example_psl False, tm_concurrency = 1,
     tm_aborted = (\<lambda>_. False)\<rparr>"
  "isAborted wired_world pl = False" "lock_available wired_world l = True"
  by (simp_all add: wired_world_def)

lemma wired_dns:
  "passed (dns_process (example_dns\<lparr>skipSources := [KeywordCombo]\<rparr>) [aged])
     = [aged\<lparr>dnsStatus := Some ''skipped'', c_status := Pending\<rparr>]"
  by (simp add: dns_process_def example_dns_def aged_def new_candidate_def Let_def
      resolveBulkWithFallback_def is_skipped_def available_count_def validated_count_def)

lemma wired_rdap:
  "\<exists>b. passed (fst (rdap_process (example_rdap\<lparr>rdapProvider := (\<lambda>_. Some free_answer)\<rparr>)
       [aged\<lparr>dnsStatus := Some ''skipped'', c_status := Pending\<rparr>])) = [b]
     \<and> c_domain b = ''nike.co.uk'' \<and> closeoutMeta b = closeoutMeta aged \<and> known [b] = [b]"
  by (simp add: rdap_process_def example_rdap_def Let_def first_leg_def known_def aged_def new_candidate_def
      processed_first_def judge_rdap_def check_availability_def rdapProviderFor_def rdapToResult_def
      free_answer_def record_rdap_def)

lemma wired_run:
  "\<exists>res sv. runInternal example_orchestrator wired_world i None = (Finished res, sv)
    \<and> domains_of (r_recommended res) = [''nike.co.uk'']"
proof -
  obtain b where b: "passed (fst (rdap_process (example_rdap\<lparr>rdapProvider := (\<lambda>_. Some free_answer)\<rparr>)
       [aged\<lparr>dnsStatus := Some ''skipped'', c_status := Pending\<rparr>])) = [b]"
    "c_domain b = ''nike.co.uk''" "closeoutMeta b = closeoutMeta aged" "known [b] = [b]"
    using wired_rdap by blast
  have "in_domain (input_of b) = ''nike.co.uk''" "domainAge (input_of b) = Some 100"
    "backlinks (input_of b) = Some 10000000" "waybackSnapshots (input_of b) = None"
    by (simp_all add: input_of_def b aged_def or_keep_def)
  from sure_recommends [OF this] obtain r where
    r: "score_domain example_environment sure_engine (input_of b) = Some r" "recommended r"
    by blast
  have "(case check example_gate example_idna example_psl False ''nike.co.uk'' of
      Inr v \<Rightarrow> g_verdict v = Clear | Inl _ \<Rightarrow> False)"
    by code_simp
  then obtain v where v: "check example_gate example_idna example_psl False ''nike.co.uk'' = Inr v"
    "g_verdict v = Clear"
    by (auto split: sum.splits)
  have w: "withTimeout example_orchestrator 0 (generation_promise wired_world i)
      = Some (Inr \<lparr>passed = [aged], filtered = [], stageName = ''CandidateGenerationStage'', degradations = []\<rparr>)"
    by (simp add: withTimeout_def example_orchestrator_def generation_promise_def wired_world_def Let_def)
  have e: "enrich \<lparr>score_call = score_domain example_environment sure_engine, sc_concurrency = n,
     waybackProvider = None, sc_aborted = (\<lambda>_. False)\<rparr> b = b" for n by (simp add: enrich_def)
  show ?thesis
    by (simp add: runInternal_def w after_generation_def stages_from_dns_def proceed_def dns_outcome_def
      rdap_outcome_def scoring_outcome_def tm_outcome_def prompt_outcome Let_def
      unless_restored_def assemble_def wired_world_simps wired_dns b e r v
      scoring_process_def tm_process_def judge_score_def judge_tm_def with_score_fields)
qed

theorem recommendation_end_to_end_witness:
  "(\<exists>r. 2 / 10 \<le> raw_score sure_engine r)
   \<and> \<not> conflicts DEFAULT_MATCH_DETECTOR_CONFIG ''nike'' apple_mark"
proof -
  obtain res sv where run: "runInternal example_orchestrator wired_world example_request None = (Finished res, sv)"
    "domains_of (r_recommended res) = [''nike.co.uk'']"
    using wired_run [of example_request] by (elim exE conjE)
  then obtain c where c: "c \<in> set (r_recommended res)" "c_domain c = ''nike.co.uk''"
    by (cases "r_recommended res") auto
  have w: "wired wired_world sure_engine example_gate example_idna example_psl"
    by (auto simp: wired_def wired_world_simps)
  have l: "search_label example_idna example_psl ''nike.co.uk'' = Some ''nike''" by code_simp
  have n: "nonneg (weights sure_engine)" by (simp add: sure_engine_def nonneg_def)
  from recommendation_end_to_end [OF w run(1) _ c(1)] obtain r where
    r: "fst (computeEffectiveThresholds (result_availability r) (weights sure_engine)) \<le> raw_score sure_engine r"
      "\<not> conflicts DEFAULT_MATCH_DETECTOR_CONFIG ''nike'' apple_mark"
    by (auto simp: resume_of_def c(2) l example_gate_def new_gate_def answered_def)
  then have "2 / 10 \<le> raw_score sure_engine r"
    using thresholds_bounds(1) [OF n, of "result_availability r"] by simp
  with r(2) show ?thesis by (intro conjI exI [of _ r])
qed


end
